(* ===== verification/Prelude.thy ===== *)
theory Prelude
  imports Main "HOL-Library.Word" "HOL-Library.Monad_Syntax" "HOL-Library.Signed_Division"
begin

text \<open>
  What every component theory shares: the C types of the sources, C's truncating division on
  signed integers, the collections of simplification rules, and generic facts on lists, words
  and the option monad in which a kernel fault (a NULL dereference, an index outside a table)
  is \<open>None\<close>.
\<close>

unbundle bit_operations_syntax

section \<open>Types of the C sources\<close>

type_synonym Byte = "8 word"
type_synonym Word16 = "16 word"
type_synonym DWord = "32 word"
type_synonym QWord = "64 word"

section \<open>Collections\<close>

text \<open>
  \<open>c_defs\<close> unfolds the straight-line definitions of the kernel, \<open>list_laws\<close> the laws of the
  intrusive lists, \<open>frame_laws\<close> which parts of the state an operation leaves alone.
\<close>

named_theorems c_defs
named_theorems list_laws
named_theorems frame_laws

section \<open>Signed C arithmetic\<close>

text \<open>
  A C \<open>int\<close> is modelled by \<^typ>\<open>int\<close>: its overflow is undefined behaviour, so no value is
  claimed for it. Division and remainder truncate towards zero, unlike Isabelle's.
\<close>

definition cdiv :: "int \<Rightarrow> int \<Rightarrow> int" where
  "cdiv a b = a sdiv b"

definition cmod :: "int \<Rightarrow> int \<Rightarrow> int" where
  "cmod a b = a smod b"

lemma cdiv_nonneg: "0 \<le> a \<Longrightarrow> 0 < b \<Longrightarrow> cdiv a b = a div b"
  by (auto simp: cdiv_def signed_divide_int_def sgn_if)

lemma cmod_nonneg: "0 \<le> a \<Longrightarrow> 0 < b \<Longrightarrow> cmod a b = a mod b"
  by (auto simp: cmod_def signed_modulo_int_def signed_divide_int_def sgn_if minus_div_mult_eq_mod)

section \<open>The option monad\<close>

lemma bind_Some_iff: "(Option.bind m f = Some y) = (\<exists>x. m = Some x \<and> f x = Some y)"
  by (cases m) auto

lemma bind_SomeE:
  assumes "Option.bind m f = Some y"
  obtains x where "m = Some x" and "f x = Some y"
  using assms by (cases m) auto

text \<open>
  A C loop \<open>for (i = a; i < b; i++)\<close> whose body may fault is \<open>foldM body [a..<b]\<close>.
\<close>

primrec foldM :: "('a \<Rightarrow> 's \<Rightarrow> 's option) \<Rightarrow> 'a list \<Rightarrow> 's \<Rightarrow> 's option" where
  "foldM f [] s = Some s"
| "foldM f (x # xs) s = do { s' \<leftarrow> f x s; foldM f xs s' }"

lemma foldM_append: "foldM f (xs @ ys) s = Option.bind (foldM f xs s) (foldM f ys)"
  by (induction xs arbitrary: s) (auto simp: Option.bind_assoc)

text \<open>An invariant, indexed by the elements already done, that every step re-establishes.\<close>

lemma foldM_rule:
  assumes "P [] s"
    and "\<And>done x t. P done t \<Longrightarrow> \<exists>rest. xs = done @ x # rest \<Longrightarrow> \<exists>t'. f x t = Some t' \<and> P (done @ [x]) t'"
  shows "\<exists>s'. foldM f xs s = Some s' \<and> P xs s'"
  using assms
proof (induction xs rule: rev_induct)
  case Nil
  then show ?case by simp
next
  case (snoc x xs)
  have "\<exists>t'. f y t = Some t' \<and> P (done @ [y]) t'"
    if "P done t" "\<exists>rest. xs = done @ y # rest" for "done" y t
    using that snoc.prems(2) by force
  with snoc.IH snoc.prems(1) obtain s1 where "foldM f xs s = Some s1" "P xs s1" by blast
  with snoc.prems(2)[of xs s1 x] show ?case by (auto simp: foldM_append)
qed

section \<open>Lists\<close>

lemma remove1_hd: "remove1 x (x # xs) = xs"
  by simp

lemma remove1_middle: "x \<notin> set as \<Longrightarrow> remove1 x (as @ x # bs) = as @ bs"
  by (induction as) auto

lemma fold_fun_upd:
  "fold (\<lambda>i m. m(i := f i)) [a..<b] m = (\<lambda>x. if a \<le> x \<and> x < b then f x else m x)"
proof (induction b)
  case 0
  then show ?case by simp
next
  case (Suc b)
  show ?case
  proof (cases "a \<le> b")
    case True
    then show ?thesis using Suc by (auto simp: fun_eq_iff less_Suc_eq)
  next
    case False
    then show ?thesis by (auto simp: fun_eq_iff)
  qed
qed

section \<open>Bit fields\<close>

text \<open>
  A C bit field of \<open>wid\<close> bits at bit \<open>off\<close> of a word: reading it, and assigning to it (the value
  is truncated to the field, the other bits are kept).
\<close>

definition get_field :: "nat \<Rightarrow> nat \<Rightarrow> 'a::len word \<Rightarrow> 'a word" where
  "get_field off wid e = take_bit wid (drop_bit off e)"

definition put_field :: "nat \<Rightarrow> nat \<Rightarrow> 'a::len word \<Rightarrow> 'a word \<Rightarrow> 'a word" where
  "put_field off wid v e = (e AND NOT (push_bit off (mask wid))) OR push_bit off (take_bit wid v)"

lemma bit_put_field:
  fixes e :: "'a::len word"
  shows "bit (put_field off wid v e) n \<longleftrightarrow>
    n < LENGTH('a) \<and> (if off \<le> n \<and> n < off + wid then bit v (n - off) else bit e n)"
  by (auto simp: put_field_def bit_simps not_le not_less dest: bit_imp_le_length)

lemma bit_get_field:
  "bit (get_field off wid e) n \<longleftrightarrow> n < wid \<and> bit e (off + n)"
  by (auto simp: get_field_def bit_simps)

lemma get_put_field:
  fixes e :: "'a::len word"
  assumes "off + wid \<le> LENGTH('a)"
  shows "get_field off wid (put_field off wid v e) = take_bit wid v"
  using assms by (intro bit_word_eqI) (auto simp: bit_get_field bit_put_field bit_simps)

lemma get_put_field_other:
  fixes e :: "'a::len word"
  assumes "off + wid \<le> off' \<or> off' + wid' \<le> off"
  shows "get_field off wid (put_field off' wid' v e) = get_field off wid e"
  using assms by (intro bit_word_eqI) (auto simp: bit_get_field bit_put_field dest: bit_imp_le_length)

end
