(* ===== verification/Clist.thy ===== *)
theory Clist
  imports Prelude
begin

text \<open>
  The intrusive circular doubly linked lists of \<open>zeos/list.c\<close> and \<open>zeos/include/list.h\<close>, over a
  store that gives each node its \<open>next\<close> and \<open>prev\<close> pointer; \<open>None\<close> is the NULL pointer. A
  function that writes through a NULL pointer is \<open>None\<close> (page 0 is never mapped). \<open>dll\<close> says
  which list a head stands for, \<open>qsys\<close> that a family of heads stands for pairwise disjoint
  lists; the locale \<open>list_system\<close> is the contract that the scheduler and the semaphores rely
  on, interpreted at the end by the pointer implementation.
\<close>

section \<open>The store and the operations\<close>

record 'p list_head =
  nxt :: "'p \<Rightarrow> 'p option"
  prv :: "'p \<Rightarrow> 'p option"

definition INIT_LIST_HEAD :: "'p \<Rightarrow> 'p list_head \<Rightarrow> 'p list_head" where
  "INIT_LIST_HEAD l h =
     (let h1 = h\<lparr>nxt := (nxt h)(l := Some l)\<rparr> in h1\<lparr>prv := (prv h1)(l := Some l)\<rparr>)"

text \<open>\<open>__list_add\<close>: the four assignments in the order of the code.\<close>

definition list_add_between ::
  "'p \<Rightarrow> 'p option \<Rightarrow> 'p option \<Rightarrow> 'p list_head \<Rightarrow> 'p list_head option" where
  "list_add_between new prev next h =
     (case (prev, next) of
        (Some p, Some n) \<Rightarrow>
          (let h1 = h\<lparr>prv := (prv h)(n := Some new)\<rparr>;
               h2 = h1\<lparr>nxt := (nxt h1)(new := Some n)\<rparr>;
               h3 = h2\<lparr>prv := (prv h2)(new := Some p)\<rparr>;
               h4 = h3\<lparr>nxt := (nxt h3)(p := Some new)\<rparr>
           in Some h4)
      | _ \<Rightarrow> None)"

definition list_add :: "'p \<Rightarrow> 'p \<Rightarrow> 'p list_head \<Rightarrow> 'p list_head option" where
  "list_add new head h = list_add_between new (Some head) (nxt h head) h"

definition list_add_tail :: "'p \<Rightarrow> 'p \<Rightarrow> 'p list_head \<Rightarrow> 'p list_head option" where
  "list_add_tail new head h = list_add_between new (prv h head) (Some head) h"

text \<open>\<open>__list_del\<close>.\<close>

definition list_del_between ::
  "'p option \<Rightarrow> 'p option \<Rightarrow> 'p list_head \<Rightarrow> 'p list_head option" where
  "list_del_between prev next h =
     (case (prev, next) of
        (Some p, Some n) \<Rightarrow>
          (let h1 = h\<lparr>prv := (prv h)(n := Some p)\<rparr> in Some (h1\<lparr>nxt := (nxt h1)(p := Some n)\<rparr>))
      | _ \<Rightarrow> None)"

definition list_del :: "'p \<Rightarrow> 'p list_head \<Rightarrow> 'p list_head option" where
  "list_del entry h = do {
     h1 \<leftarrow> list_del_between (prv h entry) (nxt h entry) h;
     let h2 = h1\<lparr>nxt := (nxt h1)(entry := None)\<rparr>;
     Some (h2\<lparr>prv := (prv h2)(entry := None)\<rparr>)
   }"

definition list_is_last :: "'p \<Rightarrow> 'p \<Rightarrow> 'p list_head \<Rightarrow> bool" where
  "list_is_last l head h \<longleftrightarrow> nxt h l = Some head"

definition list_empty :: "'p \<Rightarrow> 'p list_head \<Rightarrow> bool" where
  "list_empty head h \<longleftrightarrow> nxt h head = Some head"

definition list_first :: "'p \<Rightarrow> 'p list_head \<Rightarrow> 'p option" where
  "list_first head h = nxt h head"

text \<open>
  \<open>list_for_each\<close>: the nodes its cursor visits, from a node until the head comes back; the
  fuel bounds the length of the walk, a walk that meets NULL or runs out of it is \<open>None\<close>.
\<close>

fun list_for_each :: "nat \<Rightarrow> 'p option \<Rightarrow> 'p \<Rightarrow> 'p list_head \<Rightarrow> 'p list option" where
  "list_for_each 0 pos head h = None"
| "list_for_each (Suc n) None head h = None"
| "list_for_each (Suc n) (Some p) head h =
     (if p = head then Some []
      else map_option (Cons p) (list_for_each n (nxt h p) head h))"

section \<open>What a list stands for\<close>

fun lseg :: "'p list_head \<Rightarrow> 'p \<Rightarrow> 'p list \<Rightarrow> 'p \<Rightarrow> bool" where
  "lseg h p [] q \<longleftrightarrow> nxt h p = Some q \<and> prv h q = Some p"
| "lseg h p (x # xs) q \<longleftrightarrow> nxt h p = Some x \<and> prv h x = Some p \<and> lseg h x xs q"

definition dll :: "'p list_head \<Rightarrow> 'p \<Rightarrow> 'p list \<Rightarrow> bool" where
  "dll h q xs \<longleftrightarrow> lseg h q xs q \<and> distinct (q # xs)"

lemma lseg_append: "lseg h p (xs @ y # ys) q \<longleftrightarrow> lseg h p xs y \<and> lseg h y ys q"
  by (induction xs arbitrary: p) auto

text \<open>An assignment to a node that a segment does not use leaves the segment alone.\<close>

lemma lseg_nxt_upd: "a \<notin> set (p # xs) \<Longrightarrow> lseg (h\<lparr>nxt := (nxt h)(a := v)\<rparr>) p xs q = lseg h p xs q"
  by (induction xs arbitrary: p) auto

lemma lseg_prv_upd: "a \<notin> set (xs @ [q]) \<Longrightarrow> lseg (h\<lparr>prv := (prv h)(a := v)\<rparr>) p xs q = lseg h p xs q"
  by (induction xs arbitrary: p) auto

lemma lseg_cong:
  "(\<forall>a \<in> set (p # xs). nxt h' a = nxt h a) \<Longrightarrow> (\<forall>a \<in> set (xs @ [q]). prv h' a = prv h a) \<Longrightarrow>
   lseg h' p xs q = lseg h p xs q"
  by (induction xs arbitrary: p) auto

lemma dll_cong:
  "(\<forall>a \<in> set (q # xs). nxt h' a = nxt h a \<and> prv h' a = prv h a) \<Longrightarrow> dll h' q xs = dll h q xs"
  unfolding dll_def by (subst lseg_cong) auto

lemma lseg_first: "lseg h p xs q \<Longrightarrow> nxt h p = Some (case xs of [] \<Rightarrow> q | x # _ \<Rightarrow> x)"
  by (cases xs) auto

lemma lseg_last: "lseg h p xs q \<Longrightarrow> prv h q = Some (if xs = [] then p else last xs)"
  by (induction xs arbitrary: p) auto

lemma dll_empty [list_laws]: "dll h q xs \<Longrightarrow> list_empty q h \<longleftrightarrow> xs = []"
  by (cases xs) (auto simp: dll_def list_empty_def)

lemma dll_first [list_laws]: "dll h q xs \<Longrightarrow> list_first q h = Some (case xs of [] \<Rightarrow> q | x # _ \<Rightarrow> x)"
  by (auto simp: dll_def list_first_def dest: lseg_first)

lemma dll_init: "dll (INIT_LIST_HEAD q h) q []"
  by (simp add: dll_def INIT_LIST_HEAD_def)


section \<open>The operations on one list\<close>

text \<open>Each operation changes the pointers of the list's own nodes and of the moved node only.\<close>

definition same_off :: "'p set \<Rightarrow> 'p list_head \<Rightarrow> 'p list_head \<Rightarrow> bool" where
  "same_off A h h' \<longleftrightarrow> (\<forall>a. a \<notin> A \<longrightarrow> nxt h' a = nxt h a \<and> prv h' a = prv h a)"

lemma same_off_dll: "same_off A h h' \<Longrightarrow> set (q # xs) \<inter> A = {} \<Longrightarrow> dll h' q xs = dll h q xs"
  by (rule dll_cong) (auto simp: same_off_def)

lemma lseg_front:
  assumes "lseg h q xs q" and "distinct (q # xs)" and "new \<notin> set (q # xs)"
  shows "\<exists>h'. list_add new q h = Some h' \<and> lseg h' q (new # xs) q \<and> same_off (set (q # new # xs)) h h'"
proof (cases xs)
  case Nil
  with assms show ?thesis
    by (auto simp: list_add_def list_add_between_def Let_def same_off_def)
next
  case (Cons x ys)
  with assms have "lseg h x ys q" and "nxt h q = Some x" by auto
  then have "lseg h' x ys q" if "\<forall>a. a \<notin> {q, new} \<longrightarrow> nxt h' a = nxt h a"
      "\<forall>a. a \<notin> {x, new} \<longrightarrow> prv h' a = prv h a" for h'
    using that assms Cons by (subst lseg_cong) auto
  with Cons assms \<open>nxt h q = Some x\<close> show ?thesis
    by (auto simp: list_add_def list_add_between_def Let_def same_off_def)
qed

lemma lseg_back:
  assumes "lseg h q xs q" and "distinct (q # xs)" and "new \<notin> set (q # xs)"
  shows "\<exists>h'. list_add_tail new q h = Some h' \<and> lseg h' q (xs @ [new]) q \<and> same_off (set (q # new # xs)) h h'"
proof (cases xs rule: rev_cases)
  case Nil
  with assms show ?thesis
    by (auto simp: list_add_tail_def list_add_between_def Let_def same_off_def)
next
  case (snoc ys l)
  with assms have "lseg h q ys l" and "prv h q = Some l" by (auto simp: lseg_append)
  then have "lseg h' q ys l" if "\<forall>a. a \<notin> {l, new} \<longrightarrow> nxt h' a = nxt h a"
      "\<forall>a. a \<notin> {q, new} \<longrightarrow> prv h' a = prv h a" for h'
    using that assms snoc by (subst lseg_cong) auto
  with snoc assms \<open>prv h q = Some l\<close> show ?thesis
    by (auto simp: list_add_tail_def list_add_between_def Let_def same_off_def lseg_append)
qed

lemma lseg_unlink:
  assumes "lseg h q (as @ x # bs) q" and "distinct (q # as @ x # bs)"
  shows "\<exists>h'. list_del x h = Some h' \<and> lseg h' q (as @ bs) q \<and> nxt h' x = None \<and> prv h' x = None \<and>
           same_off (set (q # as @ x # bs)) h h'"
proof -
  from assms have *: "lseg h q as x" "lseg h x bs q" by (auto simp: lseg_append)
  define p where "p = last (q # as)"
  define n where "n = hd (bs @ [q])"
  define h' where "h' = h\<lparr>nxt := (nxt h)(p := Some n, x := None), prv := (prv h)(n := Some p, x := None)\<rparr>"
  have "prv h x = Some p" using lseg_last[OF *(1)] by (simp add: p_def)
  moreover have "nxt h x = Some n" using lseg_first[OF *(2)] by (auto simp: n_def split: list.splits)
  ultimately have del: "list_del x h = Some h'"
    by (simp add: list_del_def list_del_between_def Let_def h'_def)
  have pn: "p \<in> set (q # as)" "n \<in> set (bs @ [q])" unfolding p_def n_def by (simp, cases bs) auto
  have "lseg h' q (as @ bs) q"
  proof (cases as rule: rev_cases)
    case Nil
    show ?thesis
    proof (cases bs)
      case Nil
      with \<open>as = []\<close> show ?thesis using assms by (auto simp: h'_def p_def n_def)
    next
      case (Cons b cs)
      have "lseg h' b cs q = lseg h b cs q"
        by (rule lseg_cong) (use assms Cons \<open>as = []\<close> in \<open>auto simp: h'_def p_def n_def\<close>)
      with Cons \<open>as = []\<close> * assms show ?thesis by (auto simp: h'_def p_def n_def)
    qed
  next
    case (snoc cs l)
    have front: "lseg h' q cs l = lseg h q cs l"
      by (rule lseg_cong) (use assms snoc pn in \<open>auto simp: h'_def p_def\<close>)
    have "lseg h q cs l" using * snoc by (auto simp: lseg_append)
    show ?thesis
    proof (cases bs)
      case Nil
      with front \<open>lseg h q cs l\<close> snoc assms show ?thesis
        by (auto simp: h'_def p_def n_def lseg_append)
    next
      case (Cons b ds)
      have "lseg h' b ds q = lseg h b ds q"
        by (rule lseg_cong) (use assms Cons snoc in \<open>auto simp: h'_def p_def n_def\<close>)
      with front \<open>lseg h q cs l\<close> Cons snoc * assms show ?thesis
        by (auto simp: h'_def p_def n_def lseg_append)
    qed
  qed
  moreover have "same_off (set (q # as @ x # bs)) h h'"
    using pn by (auto simp: same_off_def h'_def)
  moreover have "nxt h' x = None" "prv h' x = None" by (simp_all add: h'_def)
  ultimately show ?thesis using del by blast
qed


section \<open>Families of lists\<close>

text \<open>
  \<open>qsys H Q h\<close>: every head \<open>q\<close> of \<open>H\<close> stands for the list \<open>Q q\<close>, no node is on two lists
  and no head is an element.
\<close>

definition qsys :: "'p set \<Rightarrow> ('p \<Rightarrow> 'p list) \<Rightarrow> 'p list_head \<Rightarrow> bool" where
  "qsys H Q h \<longleftrightarrow>
     (\<forall>q \<in> H. dll h q (Q q) \<and> set (Q q) \<inter> H = {}) \<and>
     (\<forall>p \<in> H. \<forall>q \<in> H. p \<noteq> q \<longrightarrow> set (Q p) \<inter> set (Q q) = {})"

lemma qsysI:
  assumes "\<And>q. q \<in> H \<Longrightarrow> dll h q (Q q)"
    and "\<And>q x. q \<in> H \<Longrightarrow> x \<in> set (Q q) \<Longrightarrow> x \<notin> H"
    and "\<And>p q x. p \<in> H \<Longrightarrow> q \<in> H \<Longrightarrow> x \<in> set (Q p) \<Longrightarrow> x \<in> set (Q q) \<Longrightarrow> p = q"
  shows "qsys H Q h"
  using assms unfolding qsys_def by blast

lemma qsys_dll: "qsys H Q h \<Longrightarrow> q \<in> H \<Longrightarrow> dll h q (Q q)"
  by (simp add: qsys_def)

lemma qsys_noheads: "qsys H Q h \<Longrightarrow> q \<in> H \<Longrightarrow> x \<in> set (Q q) \<Longrightarrow> x \<notin> H"
  unfolding qsys_def by blast

lemma qsys_disjoint:
  "qsys H Q h \<Longrightarrow> p \<in> H \<Longrightarrow> q \<in> H \<Longrightarrow> x \<in> set (Q p) \<Longrightarrow> x \<in> set (Q q) \<Longrightarrow> p = q"
  unfolding qsys_def by blast

lemma qsys_upd:
  assumes q: "qsys H Q h" "q \<in> H" and h': "dll h' q ys"
    and off: "same_off (set (q # zs)) h h'" and ys: "set ys \<subseteq> set zs"
    and zs: "\<And>x. x \<in> set zs \<Longrightarrow> x \<notin> H" "\<And>p x. p \<in> H \<Longrightarrow> p \<noteq> q \<Longrightarrow> x \<in> set zs \<Longrightarrow> x \<notin> set (Q p)"
  shows "qsys H (Q(q := ys)) h'"
proof (rule qsysI)
  fix p assume p: "p \<in> H"
  show "dll h' p ((Q(q := ys)) p)"
  proof (cases "p = q")
    case False
    have "q \<notin> set (Q p)" using qsys_noheads[OF q(1) p] q(2) by blast
    moreover have "p \<notin> set zs" using zs(1) p by blast
    moreover have "set (Q p) \<inter> set zs = {}" using zs(2) p False by blast
    ultimately have "set (p # Q p) \<inter> set (q # zs) = {}" using False by auto
    with off have "dll h' p (Q p) = dll h p (Q p)" by (rule same_off_dll)
    with False p q(1) show ?thesis by (simp add: qsys_def)
  qed (use h' in simp)
next
  fix p x assume "p \<in> H" "x \<in> set ((Q(q := ys)) p)"
  then show "x \<notin> H" using zs(1) ys qsys_noheads[OF q(1)] by (cases "p = q") auto
next
  fix p p' x assume "p \<in> H" "p' \<in> H" "x \<in> set ((Q(q := ys)) p)" "x \<in> set ((Q(q := ys)) p')"
  then show "p = p'"
    using zs(2)[of p x] zs(2)[of p' x] ys qsys_disjoint[OF q(1), of p p' x]
    by (cases "p = q"; cases "p' = q") auto
qed

locale list_system =
  fixes rep :: "'p set \<Rightarrow> ('p \<Rightarrow> 'p list) \<Rightarrow> 's \<Rightarrow> bool"
    and ini :: "'p \<Rightarrow> 's \<Rightarrow> 's"
    and emp :: "'p \<Rightarrow> 's \<Rightarrow> bool"
    and fst_of :: "'p \<Rightarrow> 's \<Rightarrow> 'p option"
    and push :: "'p \<Rightarrow> 'p \<Rightarrow> 's \<Rightarrow> 's option"
    and enq :: "'p \<Rightarrow> 'p \<Rightarrow> 's \<Rightarrow> 's option"
    and del :: "'p \<Rightarrow> 's \<Rightarrow> 's option"
  assumes rep_emp: "rep H Q s \<Longrightarrow> q \<in> H \<Longrightarrow> emp q s \<longleftrightarrow> Q q = []"
    and rep_fst: "rep H Q s \<Longrightarrow> q \<in> H \<Longrightarrow> fst_of q s = Some (case Q q of [] \<Rightarrow> q | x # _ \<Rightarrow> x)"
    and rep_push: "rep H Q s \<Longrightarrow> q \<in> H \<Longrightarrow> x \<notin> H \<Longrightarrow> \<forall>p \<in> H. x \<notin> set (Q p) \<Longrightarrow>
          \<exists>s'. push x q s = Some s' \<and> rep H (Q(q := x # Q q)) s'"
    and rep_enq: "rep H Q s \<Longrightarrow> q \<in> H \<Longrightarrow> x \<notin> H \<Longrightarrow> \<forall>p \<in> H. x \<notin> set (Q p) \<Longrightarrow>
          \<exists>s'. enq x q s = Some s' \<and> rep H (Q(q := Q q @ [x])) s'"
    and rep_del: "rep H Q s \<Longrightarrow> q \<in> H \<Longrightarrow> x \<in> set (Q q) \<Longrightarrow>
          \<exists>s'. del x s = Some s' \<and> rep H (Q(q := remove1 x (Q q))) s'"
    and rep_ini: "rep H Q s \<Longrightarrow> q \<notin> H \<Longrightarrow> \<forall>p \<in> H. q \<notin> set (Q p) \<Longrightarrow>
          rep (insert q H) (Q(q := [])) (ini q s)"
    and rep_forget: "rep H Q s \<Longrightarrow> H' \<subseteq> H \<Longrightarrow> rep H' Q s"
    and rep_cong: "rep H Q s \<Longrightarrow> \<forall>q \<in> H. Q' q = Q q \<Longrightarrow> rep H Q' s"
    and rep_distinct: "rep H Q s \<Longrightarrow> q \<in> H \<Longrightarrow> distinct (Q q)"
    and rep_disjoint: "rep H Q s \<Longrightarrow> p \<in> H \<Longrightarrow> q \<in> H \<Longrightarrow> x \<in> set (Q p) \<Longrightarrow> x \<in> set (Q q) \<Longrightarrow> p = q"
    and rep_noheads: "rep H Q s \<Longrightarrow> q \<in> H \<Longrightarrow> x \<in> set (Q q) \<Longrightarrow> x \<notin> H"
begin

text \<open>Taking the first element off a list.\<close>

lemma take_first:
  assumes "rep H Q s" and "q \<in> H" and "Q q = x # xs"
  shows "fst_of q s = Some x \<and> (\<exists>s'. del x s = Some s' \<and> rep H (Q(q := xs)) s')"
  using rep_fst[OF assms(1,2)] rep_del[OF assms(1,2), of x] assms(3) by auto

text \<open>Moving the first element of a list to the front or to the back of another.\<close>

lemma removed_fresh:
  assumes "rep H Q s" and "p \<in> H" and "Q p = x # xs" and "r \<in> H"
  shows "x \<notin> set ((Q(p := xs)) r)"
  using rep_distinct[OF assms(1,2)] rep_disjoint[OF assms(1,2,4), of x] assms(3) by auto

lemma move_front:
  assumes "rep H Q s" and "p \<in> H" and "q \<in> H" and "p \<noteq> q" and "Q p = x # xs"
  shows "\<exists>s1 s2. del x s = Some s1 \<and> push x q s1 = Some s2 \<and> rep H (Q(p := xs, q := x # Q q)) s2"
proof -
  obtain s1 where s1: "del x s = Some s1" "rep H (Q(p := xs)) s1"
    using take_first[OF assms(1,2,5)] by blast
  have "x \<notin> H" using rep_noheads[OF assms(1,2)] assms(5) by auto
  with removed_fresh[OF assms(1,2,5)]
  show ?thesis using rep_push[OF s1(2) assms(3)] s1(1) assms(4) by auto
qed

lemma move_back:
  assumes "rep H Q s" and "p \<in> H" and "q \<in> H" and "p \<noteq> q" and "Q p = x # xs"
  shows "\<exists>s1 s2. del x s = Some s1 \<and> enq x q s1 = Some s2 \<and> rep H (Q(p := xs, q := Q q @ [x])) s2"
proof -
  obtain s1 where s1: "del x s = Some s1" "rep H (Q(p := xs)) s1"
    using take_first[OF assms(1,2,5)] by blast
  have "x \<notin> H" using rep_noheads[OF assms(1,2)] assms(5) by auto
  with removed_fresh[OF assms(1,2,5)]
  show ?thesis using rep_enq[OF s1(2) assms(3)] s1(1) assms(4) by auto
qed

end

section \<open>The pointer implementation keeps the contract\<close>

lemma qsys_push:
  assumes "qsys H Q h" and "q \<in> H" and "x \<notin> H" and "\<forall>p \<in> H. x \<notin> set (Q p)"
  shows "\<exists>h'. list_add x q h = Some h' \<and> qsys H (Q(q := x # Q q)) h'"
proof -
  from assms have d: "lseg h q (Q q) q" "distinct (q # Q q)" "x \<notin> set (q # Q q)"
    by (auto simp: qsys_def dll_def)
  from lseg_front[OF this] obtain h' where h': "list_add x q h = Some h'" "lseg h' q (x # Q q) q"
    "same_off (set (q # x # Q q)) h h'" by blast
  have "qsys H (Q(q := x # Q q)) h'"
    by (rule qsys_upd[OF assms(1,2) _ h'(3)])
      (use assms d h' qsys_noheads[OF assms(1,2)] qsys_disjoint[OF assms(1,2)] in \<open>auto simp: dll_def\<close>)
  with h' show ?thesis by blast
qed

lemma qsys_enq:
  assumes "qsys H Q h" and "q \<in> H" and "x \<notin> H" and "\<forall>p \<in> H. x \<notin> set (Q p)"
  shows "\<exists>h'. list_add_tail x q h = Some h' \<and> qsys H (Q(q := Q q @ [x])) h'"
proof -
  from assms have d: "lseg h q (Q q) q" "distinct (q # Q q)" "x \<notin> set (q # Q q)"
    by (auto simp: qsys_def dll_def)
  from lseg_back[OF this] obtain h' where h': "list_add_tail x q h = Some h'" "lseg h' q (Q q @ [x]) q"
    "same_off (set (q # x # Q q)) h h'" by blast
  have "qsys H (Q(q := Q q @ [x])) h'"
    by (rule qsys_upd[OF assms(1,2) _ h'(3)])
      (use assms d h' qsys_noheads[OF assms(1,2)] qsys_disjoint[OF assms(1,2)] in \<open>auto simp: dll_def\<close>)
  with h' show ?thesis by blast
qed

lemma qsys_del:
  assumes "qsys H Q h" and "q \<in> H" and "x \<in> set (Q q)"
  shows "\<exists>h'. list_del x h = Some h' \<and> qsys H (Q(q := remove1 x (Q q))) h'"
proof -
  obtain as bs where Q: "Q q = as @ x # bs" using assms(3) by (auto simp: in_set_conv_decomp)
  then have d: "lseg h q (as @ x # bs) q" "distinct (q # as @ x # bs)"
    using qsys_dll[OF assms(1,2)] by (simp_all add: dll_def)
  from lseg_unlink[OF this] obtain h' where h': "list_del x h = Some h'" "lseg h' q (as @ bs) q"
    "same_off (set (q # as @ x # bs)) h h'" by blast
  have r: "remove1 x (Q q) = as @ bs" using Q d by (simp add: remove1_middle)
  have n: "\<And>y. y \<in> set (as @ x # bs) \<Longrightarrow> y \<notin> H" "\<And>p y. p \<in> H \<Longrightarrow> p \<noteq> q \<Longrightarrow> y \<in> set (as @ x # bs) \<Longrightarrow> y \<notin> set (Q p)"
    using qsys_noheads[OF assms(1,2)] qsys_disjoint[OF assms(1) _ assms(2)] unfolding Q by blast+
  have "dll h' q (as @ bs)" using h'(2) d by (auto simp: dll_def)
  then have "qsys H (Q(q := as @ bs)) h'"
    by (rule qsys_upd[OF assms(1,2) _ h'(3)]) (use n in auto)
  with h' r show ?thesis by metis
qed

lemma qsys_ini:
  assumes "qsys H Q h" and "q \<notin> H" and "\<forall>p \<in> H. q \<notin> set (Q p)"
  shows "qsys (insert q H) (Q(q := [])) (INIT_LIST_HEAD q h)"
proof -
  have "same_off (set [q]) h (INIT_LIST_HEAD q h)" by (simp add: same_off_def INIT_LIST_HEAD_def)
  then have "dll (INIT_LIST_HEAD q h) p (Q p)" if "p \<in> H" for p
    using same_off_dll[of "set [q]" h "INIT_LIST_HEAD q h" p "Q p"] that assms by (auto simp: qsys_def)
  with assms dll_init[of q h] show ?thesis
    by (intro qsysI) (auto split: if_splits dest: qsys_noheads qsys_disjoint)
qed

lemma qsys_cong: "qsys H Q h \<Longrightarrow> \<forall>q \<in> H. Q' q = Q q \<Longrightarrow> qsys H Q' h"
  by (simp add: qsys_def)

interpretation lq: list_system qsys INIT_LIST_HEAD list_empty list_first list_add list_add_tail list_del
proof (unfold_locales, goal_cases)
  case (1 H Q s q) then show ?case using dll_empty[of s q "Q q"] by (simp add: qsys_def)
next
  case (2 H Q s q) then show ?case using dll_first[of s q "Q q"] by (simp add: qsys_def)
next
  case (3 H Q s q x) then show ?case by (rule qsys_push)
next
  case (4 H Q s q x) then show ?case by (rule qsys_enq)
next
  case (5 H Q s q x) then show ?case by (rule qsys_del)
next
  case (6 H Q s q) then show ?case by (rule qsys_ini)
next
  case (7 H Q s H') then show ?case unfolding qsys_def by blast
next
  case (8 H Q s Q') then show ?case by (rule qsys_cong)
next
  case (9 H Q s q) then show ?case by (auto simp: qsys_def dll_def)
next
  case (10 H Q s p q x) then show ?case by (metis qsys_disjoint)
next
  case (11 H Q s q x) then show ?case by (metis qsys_noheads)
qed

lemma list_for_each_walk:
  "lseg h p xs q \<Longrightarrow> q \<notin> set xs \<Longrightarrow> length xs < n \<Longrightarrow> list_for_each n (nxt h p) q h = Some xs"
proof (induction xs arbitrary: p n)
  case Nil
  then show ?case by (cases n) auto
next
  case (Cons x xs)
  then obtain m where n: "n = Suc m" by (cases n) auto
  with Cons.prems have "list_for_each m (nxt h x) q h = Some xs" by (intro Cons.IH) auto
  with Cons.prems n show ?case by auto
qed

text \<open>
  C26. A queue is first in, first out: after \<open>list_add_tail\<close> a walk over the list visits the old nodes in
  their order and then the new one, every other queue is as before, and \<open>list_first\<close> and \<open>list_del\<close> take
  the nodes out from the front.
\<close>

theorem queue_fifo:
  assumes "qsys H Q h" and "q \<in> H" and "x \<notin> H" and "\<forall>p \<in> H. x \<notin> set (Q p)"
  shows "\<exists>h'. list_add_tail x q h = Some h' \<and> qsys H (Q(q := Q q @ [x])) h' \<and>
    list_for_each (length (Q q) + 2) (nxt h' q) q h' = Some (Q q @ [x]) \<and> list_first q h' = Some (hd (Q q @ [x])) \<and>
    (\<exists>h''. list_del (hd (Q q @ [x])) h' = Some h'' \<and> qsys H (Q(q := tl (Q q @ [x]))) h'')"
proof -
  let ?Q = "Q(q := Q q @ [x])"
  from qsys_enq[OF assms] obtain h' where h': "list_add_tail x q h = Some h'" "qsys H ?Q h'" by blast
  have d: "dll h' q (Q q @ [x])" using qsys_dll[OF h'(2) assms(2)] by simp
  obtain y ys where y: "Q q @ [x] = y # ys" by (cases "Q q @ [x]") auto
  have "list_for_each (length (Q q) + 2) (nxt h' q) q h' = Some (Q q @ [x])"
    using d by (intro list_for_each_walk) (auto simp: dll_def)
  moreover have "list_first q h' = Some (hd (Q q @ [x]))" using dll_first[OF d] y by simp
  moreover have "\<exists>h''. list_del y h' = Some h'' \<and> qsys H (Q(q := tl (Q q @ [x]))) h''"
    using qsys_del[OF h'(2) assms(2), of y] y by simp
  ultimately show ?thesis using h' y by auto
qed

text \<open>A queue with head 0 that holds node 1, to which node 2 is added.\<close>

lemma queue_fifo_witness:
  "\<exists>h h' h''. list_add_tail 2 (0 :: nat) h = Some h' \<and> list_for_each 3 (nxt h' 0) 0 h' = Some [1, 2] \<and>
     list_first 0 h' = Some 1 \<and> list_del 1 h' = Some h'' \<and> list_first 0 h'' = Some 2"
proof -
  define h :: "nat list_head" where "h = \<lparr>nxt = (\<lambda>_. None)(0 \<mapsto> 1, 1 \<mapsto> 0), prv = (\<lambda>_. None)(0 \<mapsto> 1, 1 \<mapsto> 0)\<rparr>"
  have q: "qsys {0} (\<lambda>_. [1]) h" by (simp add: qsys_def dll_def h_def)
  from queue_fifo[OF q, of 0 2] obtain h' h'' where h': "list_add_tail 2 0 h = Some h'"
    "list_for_each 3 (nxt h' 0) 0 h' = Some [1, 2]" "list_first 0 h' = Some 1" "list_del 1 h' = Some h''"
    "qsys {0} ((\<lambda>_. [1])(0 := [2])) h''" by (auto simp: eval_nat_numeral)
  have "list_first 0 h'' = Some 2" using dll_first[OF qsys_dll[OF h'(5), of 0]] by simp
  with h' show ?thesis by blast
qed

end
