(* ===== verification/Mm.thy ===== *)
theory Mm
  imports Prelude
begin

text \<open>
  Memory management of ZeOS (\<open>zeos/mm.c\<close>, the address constants of \<open>zeos/include/mm_address.h\<close>
  and the page table entries of \<open>zeos/include/types.h\<close>): the byte map of physical frames, the
  page directories and page tables, and the directory pool of \<open>zeos/sched.c\<close>.

  Pointers into the static tables are kept as indices: a page directory is the \<open>i\<close> of
  \<open>&dir_pages[i]\<close>, a page table is the number of the physical page that holds it (its address
  shifted right by 12), which is what the directory entry stores. An index outside a table is
  undefined behaviour and is \<open>None\<close>.
\<close>

section \<open>Constants\<close>

definition NR_TASKS :: nat where [simp]: "NR_TASKS = 10"
definition TOTAL_PAGES :: nat where [simp]: "TOTAL_PAGES = 1024"
definition NUM_PAG_KERNEL :: nat where [simp]: "NUM_PAG_KERNEL = 256"
definition L_USER_START :: nat where [simp]: "L_USER_START = 0x100000"
definition PAG_LOG_INIT_CODE :: nat where [simp]: "PAG_LOG_INIT_CODE = 256"
definition NUM_PAG_CODE :: nat where [simp]: "NUM_PAG_CODE = 8"
definition PAG_LOG_INIT_DATA :: nat where [simp]: "PAG_LOG_INIT_DATA = PAG_LOG_INIT_CODE + NUM_PAG_CODE"
definition NUM_PAG_DATA :: nat where [simp]: "NUM_PAG_DATA = 20"
definition PAGE_SIZE :: nat where [simp]: "PAGE_SIZE = 0x1000"
definition HEAP_INIT_PAGE :: nat where [simp]: "HEAP_INIT_PAGE = PAG_LOG_INIT_DATA + NUM_PAG_DATA"
definition HEAP_START :: nat where [simp]: "HEAP_START = HEAP_INIT_PAGE * PAGE_SIZE"
definition FREE_FRAME :: Byte where [simp]: "FREE_FRAME = 0"
definition USED_FRAME :: Byte where [simp]: "USED_FRAME = 1"

lemma user_page_constants: "PAG_LOG_INIT_CODE = L_USER_START div PAGE_SIZE"
  by simp

section \<open>Page table entries\<close>

text \<open>
  The union \<open>page_table_entry\<close> is its 32-bit word; a bit field of the struct \<open>bits\<close> is read and
  assigned at its position.
\<close>

type_synonym page_table_entry = DWord

definition pte_present :: "page_table_entry \<Rightarrow> bool" where
  "pte_present e \<longleftrightarrow> get_field 0 1 e = 1"

definition pte_rw :: "page_table_entry \<Rightarrow> bool" where
  "pte_rw e \<longleftrightarrow> get_field 1 1 e = 1"

definition pte_user :: "page_table_entry \<Rightarrow> bool" where
  "pte_user e \<longleftrightarrow> get_field 2 1 e = 1"

definition pte_pbase :: "page_table_entry \<Rightarrow> DWord" where
  "pte_pbase e = get_field 12 20 e"

definition set_present :: "DWord \<Rightarrow> page_table_entry \<Rightarrow> page_table_entry" where
  "set_present v e = put_field 0 1 v e"

definition set_rw :: "DWord \<Rightarrow> page_table_entry \<Rightarrow> page_table_entry" where
  "set_rw v e = put_field 1 1 v e"

definition set_user :: "DWord \<Rightarrow> page_table_entry \<Rightarrow> page_table_entry" where
  "set_user v e = put_field 2 1 v e"

definition set_pbase :: "DWord \<Rightarrow> page_table_entry \<Rightarrow> page_table_entry" where
  "set_pbase v e = put_field 12 20 v e"

lemmas pte_defs = pte_present_def pte_rw_def pte_user_def pte_pbase_def
  set_present_def set_rw_def set_user_def set_pbase_def

lemma pte_get_set [simp]:
  "pte_pbase (set_pbase v e) = take_bit 20 v"
  "pte_present (set_present v e) \<longleftrightarrow> take_bit 1 v = 1"
  "pte_rw (set_rw v e) \<longleftrightarrow> take_bit 1 v = 1"
  "pte_user (set_user v e) \<longleftrightarrow> take_bit 1 v = 1"
  by (simp_all add: pte_defs get_put_field)

lemma pte_get_set_other [simp]:
  "pte_pbase (set_present v e) = pte_pbase e" "pte_pbase (set_rw v e) = pte_pbase e"
  "pte_pbase (set_user v e) = pte_pbase e"
  "pte_present (set_pbase v e) = pte_present e" "pte_present (set_rw v e) = pte_present e"
  "pte_present (set_user v e) = pte_present e"
  "pte_rw (set_pbase v e) = pte_rw e" "pte_rw (set_present v e) = pte_rw e"
  "pte_rw (set_user v e) = pte_rw e"
  "pte_user (set_pbase v e) = pte_user e" "pte_user (set_present v e) = pte_user e"
  "pte_user (set_rw v e) = pte_user e"
  by (simp_all add: pte_defs get_put_field_other)

lemma pte_zero [simp]:
  "pte_pbase 0 = 0" "\<not> pte_present 0" "\<not> pte_rw 0" "\<not> pte_user 0"
  by (simp_all add: pte_defs get_field_def)

section \<open>The state\<close>

text \<open>
  \<open>dir_pages i\<close> is \<open>dir_pages[i][ENTRY_DIR_PAGES]\<close>, the only directory entry the kernel uses.
  \<open>pagusr_page0\<close> and \<open>tasks_page0\<close> are the page numbers at which the linker places
  \<open>pagusr_table[0]\<close> and \<open>protected_tasks[0]\<close>; \<open>pmem\<close> is the content of the frames.
\<close>

record mm =
  phys_mem :: "nat \<Rightarrow> Byte"
  dir_pages :: "nat \<Rightarrow> page_table_entry"
  pagusr_table :: "DWord \<Rightarrow> nat \<Rightarrow> page_table_entry"
  dirCounter :: "nat \<Rightarrow> int"
  cr3_dir :: nat
  pmem :: "DWord \<Rightarrow> nat \<Rightarrow> Byte"
  pagusr_page0 :: DWord
  tasks_page0 :: nat

section \<open>Frames\<close>

definition init_frames :: "mm \<Rightarrow> mm" where
  "init_frames m =
     (let m1 = m\<lparr>phys_mem := fold (\<lambda>i p. p(i := FREE_FRAME)) [0..<TOTAL_PAGES] (phys_mem m)\<rparr>
      in m1\<lparr>phys_mem := fold (\<lambda>i p. p(i := USED_FRAME)) [0..<NUM_PAG_KERNEL] (phys_mem m1)\<rparr>)"

function alloc_frame_loop :: "nat \<Rightarrow> mm \<Rightarrow> int \<times> mm" where
  "alloc_frame_loop i m =
     (if i < TOTAL_PAGES then
        (if phys_mem m i = FREE_FRAME then (int i, m\<lparr>phys_mem := (phys_mem m)(i := USED_FRAME)\<rparr>)
         else alloc_frame_loop (i + 2) m)
      else (-1, m))"
  by pat_completeness auto
termination
  by (relation "measure (\<lambda>(i, m). TOTAL_PAGES - i)") auto

declare alloc_frame_loop.simps [simp del]

definition alloc_frame :: "mm \<Rightarrow> int \<times> mm" where
  "alloc_frame m = alloc_frame_loop NUM_PAG_KERNEL m"

definition free_frame :: "DWord \<Rightarrow> mm \<Rightarrow> mm" where
  "free_frame frame m =
     (if NUM_PAG_KERNEL < unat frame \<and> unat frame < TOTAL_PAGES
      then m\<lparr>phys_mem := (phys_mem m)(unat frame := FREE_FRAME)\<rparr> else m)"

section \<open>Page tables\<close>

text \<open>Writing one entry of a table.\<close>

definition write_pte :: "DWord \<Rightarrow> nat \<Rightarrow> page_table_entry \<Rightarrow> mm \<Rightarrow> mm option" where
  "write_pte PT page e m =
     (if page < TOTAL_PAGES
      then Some (m\<lparr>pagusr_table := (pagusr_table m)(PT := (pagusr_table m PT)(page := e))\<rparr>)
      else None)"

definition set_ss_pag :: "DWord \<Rightarrow> nat \<Rightarrow> DWord \<Rightarrow> mm \<Rightarrow> mm option" where
  "set_ss_pag PT page frame m =
     write_pte PT page (set_present 1 (set_rw 1 (set_user 1 (set_pbase frame 0)))) m"

definition del_ss_pag :: "DWord \<Rightarrow> nat \<Rightarrow> mm \<Rightarrow> mm option" where
  "del_ss_pag PT logical_page m = write_pte PT logical_page 0 m"

definition get_frame :: "DWord \<Rightarrow> nat \<Rightarrow> mm \<Rightarrow> DWord option" where
  "get_frame PT logical_page m =
     (if logical_page < TOTAL_PAGES then Some (pte_pbase (pagusr_table m PT logical_page)) else None)"


section \<open>Initialisation\<close>

definition init_dir_entry :: "nat \<Rightarrow> mm \<Rightarrow> mm" where
  "init_dir_entry i m =
     m\<lparr>dir_pages := (dir_pages m)(i :=
        set_present 1 (set_rw 1 (set_user 1 (set_pbase (pagusr_page0 m + of_nat i) 0))))\<rparr>"

definition init_dir_pages :: "mm \<Rightarrow> mm" where
  "init_dir_pages m = fold init_dir_entry [0..<NR_TASKS] m"

text \<open>
  One table of \<open>init_table_pages\<close>: all entries are cleared, the kernel pages but page 0 are mapped
  to themselves, and the pages before and after the task array are made not present.
\<close>

definition init_table :: "nat \<Rightarrow> nat \<Rightarrow> (nat \<Rightarrow> page_table_entry) \<Rightarrow> nat \<Rightarrow> page_table_entry" where
  "init_table guard_lo guard_hi t =
     (let t1 = fold (\<lambda>i t. t(i := 0)) [0..<TOTAL_PAGES] t;
          t2 = fold (\<lambda>i t. t(i := set_present 1 (set_rw 1 (set_pbase (of_nat i) (t i)))))
                 [1..<NUM_PAG_KERNEL] t1;
          t3 = t2(guard_lo := set_present 0 (t2 guard_lo))
      in t3(guard_hi := set_present 0 (t3 guard_hi)))"

definition init_table_pages :: "mm \<Rightarrow> mm" where
  "init_table_pages m =
     fold (\<lambda>j m. let PT = pagusr_page0 m + of_nat j in
             m\<lparr>pagusr_table := (pagusr_table m)(PT :=
                init_table (tasks_page0 m) (tasks_page0 m + 11) (pagusr_table m PT))\<rparr>)
       [0..<NR_TASKS] m"

definition init_mm :: "mm \<Rightarrow> mm" where
  "init_mm m = init_dir_pages (init_frames (init_table_pages m))"

section \<open>The address space of a process\<close>

text \<open>\<open>get_PT\<close> of a task whose directory is \<open>dir\<close>, and the write to CR3.\<close>

definition get_PT_of :: "nat \<Rightarrow> mm \<Rightarrow> DWord" where
  "get_PT_of dir m = pte_pbase (dir_pages m dir)"

definition set_cr3 :: "nat \<Rightarrow> mm \<Rightarrow> mm" where
  "set_cr3 dir m = m\<lparr>cr3_dir := dir\<rparr>"

definition set_code_page :: "DWord \<Rightarrow> nat \<Rightarrow> mm \<Rightarrow> mm option" where
  "set_code_page PT pag m =
     (let (new_ph_pag, m1) = alloc_frame m
      in write_pte PT (PAG_LOG_INIT_CODE + pag)
           (set_present 1 (set_user 1 (set_pbase (of_int new_ph_pag) 0))) m1)"

definition set_data_page :: "DWord \<Rightarrow> nat \<Rightarrow> mm \<Rightarrow> mm option" where
  "set_data_page PT pag m =
     (let (new_ph_pag, m1) = alloc_frame m
      in write_pte PT (PAG_LOG_INIT_DATA + pag)
           (set_present 1 (set_rw 1 (set_user 1 (set_pbase (of_int new_ph_pag) 0)))) m1)"

definition set_user_pages :: "nat \<Rightarrow> mm \<Rightarrow> mm option" where
  "set_user_pages dir m = do {
     let PT = get_PT_of dir m;
     m1 \<leftarrow> foldM (set_code_page PT) [0..<NUM_PAG_CODE] m;
     foldM (set_data_page PT) [0..<NUM_PAG_DATA] m1
   }"

definition free_user_page :: "DWord \<Rightarrow> nat \<Rightarrow> mm \<Rightarrow> mm option" where
  "free_user_page PT pag m = do {
     f \<leftarrow> get_frame PT (PAG_LOG_INIT_DATA + pag) m;
     write_pte PT (PAG_LOG_INIT_DATA + pag) 0 (free_frame f m)
   }"

definition free_user_pages :: "nat \<Rightarrow> mm \<Rightarrow> mm option" where
  "free_user_pages dir m = foldM (free_user_page (get_PT_of dir m)) [0..<NUM_PAG_DATA] m"

section \<open>The frame allocator\<close>

text \<open>
  The contract that the address space code relies on: an allocation hands out a frame of the pool
  that was not in use, or fails when the pool is exhausted and then changes nothing; freeing
  gives back a frame if it is one that can be given back.
\<close>

locale frame_pool =
  fixes alloc :: "'s \<Rightarrow> int \<times> 's"
    and free :: "DWord \<Rightarrow> 's \<Rightarrow> 's"
    and used :: "'s \<Rightarrow> nat set"
    and pool :: "nat set"
    and returnable :: "nat set"
  assumes finite_pool: "finite pool"
    and alloc_some: "alloc s = (f, s') \<Longrightarrow> f \<noteq> -1 \<Longrightarrow>
          0 \<le> f \<and> nat f \<in> pool \<and> nat f \<notin> used s \<and> used s' = insert (nat f) (used s)"
    and alloc_none: "alloc s = (-1, s') \<Longrightarrow> s' = s \<and> pool \<subseteq> used s"
    and free_used: "used (free w s) = (if unat w \<in> returnable then used s - {unat w} else used s)"
begin

text \<open>An allocation succeeds exactly when the pool has a frame left, and takes one.\<close>

lemma alloc_succeeds_iff: "fst (alloc s) \<noteq> -1 \<longleftrightarrow> 0 < card (pool - used s)"
proof (cases "alloc s")
  case (Pair f s')
  show ?thesis
  proof (cases "f = -1")
    case True
    with Pair alloc_none[of s s'] have "pool - used s = {}" by auto
    then have "card (pool - used s) = 0" by (simp only: card.empty)
    with Pair True show ?thesis by simp
  next
    case False
    with Pair alloc_some have "nat f \<in> pool - used s" by blast
    then have "0 < card (pool - used s)" using finite_pool by (auto simp: card_gt_0_iff)
    with Pair False show ?thesis by simp
  qed
qed

lemma alloc_takes_one:
  assumes "alloc s = (f, s')" and "f \<noteq> -1"
  shows "card (pool - used s) = Suc (card (pool - used s'))"
proof -
  from alloc_some[OF assms] have f: "nat f \<in> pool - used s" "used s' = insert (nat f) (used s)" by auto
  then have "pool - used s' = (pool - used s) - {nat f}" by auto
  with f finite_pool show ?thesis by (metis card.remove finite_Diff)
qed

text \<open>Giving back a frame of the pool makes room for one more.\<close>

lemma free_gives_one:
  assumes "unat w \<in> pool" and "unat w \<in> used s" and "unat w \<in> returnable"
  shows "card (pool - used (free w s)) = Suc (card (pool - used s))"
proof -
  have "pool - used (free w s) = insert (unat w) (pool - used s)"
    using assms by (auto simp: free_used)
  with assms finite_pool show ?thesis by simp
qed

end

definition used_frames :: "mm \<Rightarrow> nat set" where
  "used_frames m = {i. i < TOTAL_PAGES \<and> phys_mem m i \<noteq> FREE_FRAME}"

text \<open>Every second frame above the kernel's: the step of the search is 2.\<close>

definition frame_pool_set :: "nat set" where
  "frame_pool_set = {i. NUM_PAG_KERNEL \<le> i \<and> i < TOTAL_PAGES \<and> even i}"

lemma alloc_frame_loop_spec:
  "(\<exists>k. alloc_frame_loop i m = (int k, m\<lparr>phys_mem := (phys_mem m)(k := USED_FRAME)\<rparr>) \<and>
        i \<le> k \<and> k < TOTAL_PAGES \<and> even (k - i) \<and> phys_mem m k = FREE_FRAME \<and>
        (\<forall>j. i \<le> j \<and> j < k \<and> even (j - i) \<longrightarrow> phys_mem m j \<noteq> FREE_FRAME)) \<or>
   (alloc_frame_loop i m = (-1, m) \<and>
        (\<forall>j. i \<le> j \<and> j < TOTAL_PAGES \<and> even (j - i) \<longrightarrow> phys_mem m j \<noteq> FREE_FRAME))"
proof (induction i m rule: alloc_frame_loop.induct)
  case (1 i m)
  show ?case
  proof (cases "i < TOTAL_PAGES \<and> phys_mem m i \<noteq> FREE_FRAME")
    case True
    have skip: "(i \<le> j \<and> j < n \<and> even (j - i) \<longrightarrow> P j) \<longleftrightarrow>
        (j = i \<and> i < n \<longrightarrow> P j) \<and> (i + 2 \<le> j \<and> j < n \<and> even (j - (i + 2)) \<longrightarrow> P j)" for j n P
    proof (cases "j < i + 2")
      case True
      then have "j < i \<or> j = i \<or> j = i + 1" by auto
      then show ?thesis by auto
    next
      case False
      then have "even (j - (i + 2)) = even (j - i)" by auto
      with False show ?thesis by auto
    qed
    have eq: "alloc_frame_loop i m = alloc_frame_loop (i + 2) m"
      using True by (subst alloc_frame_loop.simps) simp
    from "1.IH" True consider
      (found) k where "alloc_frame_loop (i + 2) m = (int k, m\<lparr>phys_mem := (phys_mem m)(k := USED_FRAME)\<rparr>)"
        "i + 2 \<le> k" "k < TOTAL_PAGES" "even (k - (i + 2))" "phys_mem m k = FREE_FRAME"
        "\<forall>j. i + 2 \<le> j \<and> j < k \<and> even (j - (i + 2)) \<longrightarrow> phys_mem m j \<noteq> FREE_FRAME"
    | (full) "alloc_frame_loop (i + 2) m = (-1, m)"
        "\<forall>j. i + 2 \<le> j \<and> j < TOTAL_PAGES \<and> even (j - (i + 2)) \<longrightarrow> phys_mem m j \<noteq> FREE_FRAME"
      by blast
    then show ?thesis
    proof cases
      case found
      then have "i \<le> k" "even (k - i)" by auto
      with found eq True show ?thesis by (subst skip) auto
    next
      case full
      with eq True show ?thesis by (subst skip) auto
    qed
  next
    case False
    then show ?thesis by (auto simp: alloc_frame_loop.simps[of i m] fun_upd_def)
  qed
qed


lemma alloc_frame_cases:
  obtains (found) k where "alloc_frame m = (int k, m\<lparr>phys_mem := (phys_mem m)(k := USED_FRAME)\<rparr>)"
      "k \<in> frame_pool_set" "phys_mem m k = FREE_FRAME"
      "\<And>j. j \<in> frame_pool_set \<Longrightarrow> j < k \<Longrightarrow> phys_mem m j \<noteq> FREE_FRAME"
  | (full) "alloc_frame m = (-1, m)" "\<And>j. j \<in> frame_pool_set \<Longrightarrow> phys_mem m j \<noteq> FREE_FRAME"
proof -
  have ev: "even (j - NUM_PAG_KERNEL) \<longleftrightarrow> even j" if "NUM_PAG_KERNEL \<le> j" for j
    using that by auto
  from alloc_frame_loop_spec[of NUM_PAG_KERNEL m] consider
    (f) k where "alloc_frame m = (int k, m\<lparr>phys_mem := (phys_mem m)(k := USED_FRAME)\<rparr>)"
      "NUM_PAG_KERNEL \<le> k" "k < TOTAL_PAGES" "even (k - NUM_PAG_KERNEL)" "phys_mem m k = FREE_FRAME"
      "\<forall>j. NUM_PAG_KERNEL \<le> j \<and> j < k \<and> even (j - NUM_PAG_KERNEL) \<longrightarrow> phys_mem m j \<noteq> FREE_FRAME"
  | (g) "alloc_frame m = (-1, m)"
      "\<forall>j. NUM_PAG_KERNEL \<le> j \<and> j < TOTAL_PAGES \<and> even (j - NUM_PAG_KERNEL) \<longrightarrow> phys_mem m j \<noteq> FREE_FRAME"
    unfolding alloc_frame_def by blast
  then show ?thesis
  proof cases
    case f
    then have "k \<in> frame_pool_set" using ev by (auto simp: frame_pool_set_def)
    moreover have "phys_mem m j \<noteq> FREE_FRAME" if "j \<in> frame_pool_set" "j < k" for j
      using that f(6) ev unfolding frame_pool_set_def by blast
    ultimately show ?thesis using found f by blast
  next
    case g
    then have "phys_mem m j \<noteq> FREE_FRAME" if "j \<in> frame_pool_set" for j
      using that ev unfolding frame_pool_set_def by blast
    with g full show ?thesis by blast
  qed
qed

definition returnable_frames :: "nat set" where
  "returnable_frames = {i. NUM_PAG_KERNEL < i \<and> i < TOTAL_PAGES}"

interpretation fp: frame_pool alloc_frame free_frame used_frames frame_pool_set returnable_frames
proof (unfold_locales, goal_cases)
  case 1
  show ?case by (auto simp: frame_pool_set_def)
next
  case (2 s f s')
  then show ?case
    by (cases s rule: alloc_frame_cases) (auto simp: used_frames_def frame_pool_set_def split: if_splits)
next
  case (3 s s')
  then show ?case
    by (cases s rule: alloc_frame_cases) (auto simp: used_frames_def frame_pool_set_def)
next
  case (4 w s)
  show ?case by (auto simp: free_frame_def used_frames_def returnable_frames_def)
qed


lemma alloc_frame_cong:
  assumes "alloc_frame m = (f, m1)"
  shows "dir_pages m1 = dir_pages m" "pagusr_table m1 = pagusr_table m" "dirCounter m1 = dirCounter m"
    "cr3_dir m1 = cr3_dir m" "pmem m1 = pmem m" "pagusr_page0 m1 = pagusr_page0 m"
    "tasks_page0 m1 = tasks_page0 m"
  using assms by (cases m rule: alloc_frame_cases; auto)+

section \<open>Mapping fresh frames\<close>

text \<open>
  \<open>maps_fresh m0 PT S m\<close>: \<open>m\<close> is \<open>m0\<close> with each page of \<open>S\<close> mapped in the table \<open>PT\<close> to a frame of
  its own that was free in \<open>m0\<close> and is now in use, and nothing else changed. The loops that build
  address spaces and heaps all keep this relation.
\<close>

definition page_frame :: "mm \<Rightarrow> DWord \<Rightarrow> nat \<Rightarrow> nat" where
  "page_frame m PT p = unat (pte_pbase (pagusr_table m PT p))"

definition maps_fresh :: "mm \<Rightarrow> DWord \<Rightarrow> nat set \<Rightarrow> mm \<Rightarrow> bool" where
  "maps_fresh m0 PT S m \<longleftrightarrow>
     (\<forall>p \<in> S. page_frame m PT p \<in> frame_pool_set - used_frames m0) \<and>
     inj_on (page_frame m PT) S \<and>
     used_frames m = used_frames m0 \<union> page_frame m PT ` S \<and>
     m = m0\<lparr>phys_mem := phys_mem m, pagusr_table := pagusr_table m\<rparr> \<and>
     (\<forall>PT' p. (PT' \<noteq> PT \<or> p \<notin> S) \<longrightarrow> pagusr_table m PT' p = pagusr_table m0 PT' p)"

lemma maps_fresh_refl: "maps_fresh m PT {} m"
  by (simp add: maps_fresh_def)

lemma used_frames_cong: "phys_mem m = phys_mem m' \<Longrightarrow> used_frames m = used_frames m'"
  by (simp add: used_frames_def)

lemma pool_frame_word: "k \<in> frame_pool_set \<Longrightarrow> unat (take_bit 20 (of_int (int k) :: DWord)) = k"
  by (auto simp: frame_pool_set_def unsigned_take_bit_eq unsigned_of_nat take_bit_nat_eq_self)

lemma maps_fresh_step:
  assumes fresh: "maps_fresh m0 PT S m" and alloc: "alloc_frame m = (f, m1)" "f \<noteq> -1"
    and p: "p \<notin> S" "p < TOTAL_PAGES" and e: "pte_pbase e = take_bit 20 (of_int f)"
  shows "\<exists>m2. write_pte PT p e m1 = Some m2 \<and> maps_fresh m0 PT (insert p S) m2 \<and>
    pagusr_table m2 PT p = e \<and> (\<forall>q \<in> S. pagusr_table m2 PT q = pagusr_table m PT q)"
proof -
  from alloc obtain k where k: "f = int k" "m1 = m\<lparr>phys_mem := (phys_mem m)(k := USED_FRAME)\<rparr>"
    "k \<in> frame_pool_set" by (cases m rule: alloc_frame_cases) auto
  have new: "k \<notin> used_frames m" "used_frames m1 = insert k (used_frames m)"
    using fp.alloc_some[OF alloc] k(1) by auto
  define m2 where "m2 = m1\<lparr>pagusr_table := (pagusr_table m1)(PT := (pagusr_table m1 PT)(p := e))\<rparr>"
  have w: "write_pte PT p e m1 = Some m2" using p by (simp add: write_pte_def m2_def)
  have t: "pagusr_table m2 PT' q = (if PT' = PT \<and> q = p then e else pagusr_table m PT' q)" for PT' q
    by (simp add: m2_def k)
  have fr: "page_frame m2 PT p = k"
    using e k(1) pool_frame_word[OF k(3)] by (simp add: page_frame_def t)
  have old: "page_frame m2 PT q = page_frame m PT q" if "q \<in> S" for q
    using that p(1) by (auto simp: page_frame_def t)
  from fresh have f: "\<forall>q \<in> S. page_frame m PT q \<in> frame_pool_set - used_frames m0"
    "inj_on (page_frame m PT) S" "used_frames m = used_frames m0 \<union> page_frame m PT ` S"
    "m = m0\<lparr>phys_mem := phys_mem m, pagusr_table := pagusr_table m\<rparr>"
    "\<forall>PT' q. (PT' \<noteq> PT \<or> q \<notin> S) \<longrightarrow> pagusr_table m PT' q = pagusr_table m0 PT' q"
    unfolding maps_fresh_def by auto
  have im: "page_frame m2 PT ` S = page_frame m PT ` S" using old by (auto simp: image_iff)
  have "inj_on (page_frame m2 PT) S" using f(2) old by (simp add: inj_on_def)
  moreover have "page_frame m2 PT p \<notin> page_frame m2 PT ` S" using new(1) f(3) fr im by auto
  ultimately have "inj_on (page_frame m2 PT) (insert p S)" by (auto simp: inj_on_def image_iff)
  moreover have "used_frames m2 = insert k (used_frames m)"
    using new(2) used_frames_cong[of m2 m1] by (simp add: m2_def)
  moreover have "m2 = m0\<lparr>phys_mem := phys_mem m2, pagusr_table := pagusr_table m2\<rparr>"
    unfolding m2_def k(2) by (subst f(4)) simp
  ultimately have "maps_fresh m0 PT (insert p S) m2"
    unfolding maps_fresh_def using f fr old im k(3) new(1) t by auto
  moreover have "\<forall>q \<in> S. pagusr_table m2 PT q = pagusr_table m PT q" using p(1) t by auto
  ultimately show ?thesis using w t by auto
qed

lemma maps_fresh_left:
  assumes "maps_fresh m0 PT S m" and "finite S"
  shows "card (frame_pool_set - used_frames m) + card S = card (frame_pool_set - used_frames m0)"
proof -
  let ?F = "page_frame m PT ` S"
  have F: "?F \<subseteq> frame_pool_set - used_frames m0" "card ?F = card S"
    using assms by (auto simp: maps_fresh_def card_image)
  have "frame_pool_set - used_frames m = (frame_pool_set - used_frames m0) - ?F"
    using assms by (auto simp: maps_fresh_def)
  moreover have "finite (frame_pool_set - used_frames m0)" using fp.finite_pool by simp
  ultimately show ?thesis using F
    by (metis card_Diff_subset card_mono finite_subset le_add_diff_inverse2)
qed

lemma alloc_frame_ok:
  assumes "maps_fresh m0 PT S m" and "finite S"
    and "card S < card (frame_pool_set - used_frames m0)"
  shows "fst (alloc_frame m) \<noteq> -1"
  using maps_fresh_left[OF assms(1,2)] assms(3) by (simp add: fp.alloc_succeeds_iff)


section \<open>Building an address space\<close>

lemma map_loop_rule:
  assumes body: "\<And>i m. body i m = (let (f, m1) = alloc_frame m in write_pte PT (base + i) (e f) m1)"
    and e: "\<And>f. pte_pbase (e f) = take_bit 20 (of_int f)" and flags: "\<And>f. P (e f)"
    and fresh: "maps_fresh m0 PT S m" "finite S" and disj: "\<And>i. i < n \<Longrightarrow> base + i \<notin> S"
    and bound: "base + n \<le> TOTAL_PAGES" and left: "card S + n \<le> card (frame_pool_set - used_frames m0)"
  shows "\<exists>m'. foldM body [0..<n] m = Some m' \<and> maps_fresh m0 PT (S \<union> {base..<base + n}) m' \<and>
    (\<forall>p \<in> {base..<base + n}. P (pagusr_table m' PT p)) \<and>
    (\<forall>p \<in> S. pagusr_table m' PT p = pagusr_table m PT p)"
proof -
  define R where "R done m' \<longleftrightarrow> maps_fresh m0 PT (S \<union> (+) base ` set done) m' \<and>
     (\<forall>i \<in> set done. P (pagusr_table m' PT (base + i))) \<and>
     (\<forall>p \<in> S. pagusr_table m' PT p = pagusr_table m PT p)" for "done" :: "nat list" and m'
  have "\<exists>m'. foldM body [0..<n] m = Some m' \<and> R [0..<n] m'"
  proof (rule foldM_rule)
    show "R [] m" using fresh by (simp add: R_def)
    fix "done" i t assume R: "R done t" and "\<exists>rest. [0..<n] = done @ i # rest"
    then obtain rest where xs: "[0..<n] = done @ i # rest" by blast
    then have i: "i < n" "i \<notin> set done" "length done < n"
      using distinct_upt[of 0 n] by (metis atLeastLessThan_iff in_set_conv_decomp set_upt, simp,
        metis add_Suc_right diff_zero length_append length_upt less_add_Suc1 list.size(4))
    let ?S = "S \<union> (+) base ` set done"
    have "distinct done" using xs distinct_upt[of 0 n] by (metis distinct_append)
    then have "card ((+) base ` set done) = length done" by (simp add: card_image distinct_card)
    then have "card ?S \<le> card S + length done" using card_Un_le[of S "(+) base ` set done"] by simp
    moreover have "finite ?S" using fresh by simp
    ultimately have "fst (alloc_frame t) \<noteq> -1"
      using alloc_frame_ok[of m0 PT ?S t] R left i by (simp add: R_def)
    then obtain f m1 where al: "alloc_frame t = (f, m1)" "f \<noteq> -1" by (cases "alloc_frame t") auto
    have "base + i \<notin> ?S" using disj i by auto
    moreover have "maps_fresh m0 PT ?S t" using R by (simp add: R_def)
    moreover have "base + i < TOTAL_PAGES" using i bound by linarith
    ultimately obtain m2 where
      "write_pte PT (base + i) (e f) m1 = Some m2" "maps_fresh m0 PT (insert (base + i) ?S) m2"
      "pagusr_table m2 PT (base + i) = e f" "\<forall>q \<in> ?S. pagusr_table m2 PT q = pagusr_table t PT q"
      using maps_fresh_step[OF _ al _ _ e] by blast
    then show "\<exists>t'. body i t = Some t' \<and> R (done @ [i]) t'"
      using R flags al by (auto simp: R_def body)
  qed
  moreover have "(+) base ` {0..<n} = {base..<base + n}"
    by auto
  ultimately show ?thesis unfolding R_def
    by (metis (mono_tags, lifting) atLeastLessThan_iff image_iff set_upt)
qed

text \<open>The address space that \<open>set_user_pages\<close> builds.\<close>

lemma set_user_pages_maps:
  assumes left: "28 \<le> card (frame_pool_set - used_frames m)"
  shows "\<exists>m'. set_user_pages dir m = Some m' \<and>
    maps_fresh m (get_PT_of dir m) {PAG_LOG_INIT_CODE..<HEAP_INIT_PAGE} m' \<and>
    (\<forall>p \<in> {PAG_LOG_INIT_CODE..<PAG_LOG_INIT_DATA}. let e = pagusr_table m' (get_PT_of dir m) p in
       pte_present e \<and> pte_user e \<and> \<not> pte_rw e) \<and>
    (\<forall>p \<in> {PAG_LOG_INIT_DATA..<HEAP_INIT_PAGE}. let e = pagusr_table m' (get_PT_of dir m) p in
       pte_present e \<and> pte_user e \<and> pte_rw e)"
proof -
  let ?PT = "get_PT_of dir m"
  have "\<exists>m1. foldM (set_code_page ?PT) [0..<8] m = Some m1 \<and> maps_fresh m ?PT ({} \<union> {256..<256 + 8}) m1 \<and>
    (\<forall>p \<in> {256..<256 + 8}. (\<lambda>e. pte_present e \<and> pte_user e \<and> \<not> pte_rw e) (pagusr_table m1 ?PT p)) \<and>
    (\<forall>p \<in> {}. pagusr_table m1 ?PT p = pagusr_table m ?PT p)"
    by (rule map_loop_rule[where e = "\<lambda>f. set_present 1 (set_user 1 (set_pbase (of_int f) 0))"])
      (use left maps_fresh_refl in \<open>simp_all add: set_code_page_def Let_def\<close>)
  then obtain m1 where m1: "foldM (set_code_page ?PT) [0..<8] m = Some m1" "maps_fresh m ?PT {256..<264} m1"
    "\<forall>p \<in> {256..<264}. pte_present (pagusr_table m1 ?PT p) \<and> pte_user (pagusr_table m1 ?PT p) \<and>
       \<not> pte_rw (pagusr_table m1 ?PT p)" by auto
  have "\<exists>m2. foldM (set_data_page ?PT) [0..<20] m1 = Some m2 \<and>
    maps_fresh m ?PT ({256..<264} \<union> {264..<264 + 20}) m2 \<and>
    (\<forall>p \<in> {264..<264 + 20}. (\<lambda>e. pte_present e \<and> pte_user e \<and> pte_rw e) (pagusr_table m2 ?PT p)) \<and>
    (\<forall>p \<in> {256..<264}. pagusr_table m2 ?PT p = pagusr_table m1 ?PT p)"
    by (rule map_loop_rule[where e = "\<lambda>f. set_present 1 (set_rw 1 (set_user 1 (set_pbase (of_int f) 0)))"])
      (use left m1(2) in \<open>simp_all add: set_data_page_def Let_def\<close>)
  moreover have "{256..<264} \<union> {264..<264 + 20} = {256..<284::nat}" by auto
  ultimately obtain m2 where "foldM (set_data_page ?PT) [0..<20] m1 = Some m2"
    "maps_fresh m ?PT {256..<284} m2"
    "\<forall>p \<in> {264..<284}. pte_present (pagusr_table m2 ?PT p) \<and> pte_user (pagusr_table m2 ?PT p) \<and>
       pte_rw (pagusr_table m2 ?PT p)"
    "\<forall>p \<in> {256..<264}. pagusr_table m2 ?PT p = pagusr_table m1 ?PT p" by auto
  with m1 show ?thesis by (auto simp: set_user_pages_def Let_def)
qed

end
