(* ===== verification/Utils.thy ===== *)
theory Utils
  imports Mm
begin

text \<open>
  \<open>zeos/utils.c\<close>: the copy loops, the check of user pointers, and the division that turns the
  time stamp counter into ticks. A copy runs over a memory seen through an address translation
  \<open>loc\<close>; an access to an untranslated address is a page fault, \<open>None\<close>.
\<close>

section \<open>Memory seen through a translation\<close>

definition rd8 :: "(DWord \<Rightarrow> 'l option) \<Rightarrow> DWord \<Rightarrow> ('l \<Rightarrow> Byte) \<Rightarrow> Byte option" where
  "rd8 loc a m = map_option m (loc a)"

definition wr8 :: "(DWord \<Rightarrow> 'l option) \<Rightarrow> DWord \<Rightarrow> Byte \<Rightarrow> ('l \<Rightarrow> Byte) \<Rightarrow> ('l \<Rightarrow> Byte) option" where
  "wr8 loc a b m = map_option (\<lambda>l. m(l := b)) (loc a)"

text \<open>One \<open>*q++ = *p++\<close> on \<open>DWord\<close>s: four bytes are read, then four are written.\<close>

definition copy_dword :: "(DWord \<Rightarrow> 'l option) \<Rightarrow> DWord \<Rightarrow> DWord \<Rightarrow> ('l \<Rightarrow> Byte) \<Rightarrow> ('l \<Rightarrow> Byte) option" where
  "copy_dword loc p q m = do {
     b0 \<leftarrow> rd8 loc p m; b1 \<leftarrow> rd8 loc (p + 1) m; b2 \<leftarrow> rd8 loc (p + 2) m; b3 \<leftarrow> rd8 loc (p + 3) m;
     m1 \<leftarrow> wr8 loc q b0 m; m2 \<leftarrow> wr8 loc (q + 1) b1 m1; m3 \<leftarrow> wr8 loc (q + 2) b2 m2;
     wr8 loc (q + 3) b3 m3
   }"

definition copy_byte :: "(DWord \<Rightarrow> 'l option) \<Rightarrow> DWord \<Rightarrow> DWord \<Rightarrow> ('l \<Rightarrow> Byte) \<Rightarrow> ('l \<Rightarrow> Byte) option" where
  "copy_byte loc p q m = do { b \<leftarrow> rd8 loc p m; wr8 loc q b m }"

text \<open>The two loops: \<open>while (size > 4)\<close> by double words, then \<open>while (size > 0)\<close> by bytes.\<close>

function copy_tail :: "(DWord \<Rightarrow> 'l option) \<Rightarrow> DWord \<Rightarrow> DWord \<Rightarrow> int \<Rightarrow> ('l \<Rightarrow> Byte) \<Rightarrow> ('l \<Rightarrow> Byte) option" where
  "copy_tail loc p q sz m =
     (if sz > 0 then
        (case copy_byte loc p q m of None \<Rightarrow> None | Some m1 \<Rightarrow> copy_tail loc (p + 1) (q + 1) (sz - 1) m1)
      else Some m)"
  by pat_completeness auto
termination
  by (relation "measure (\<lambda>(loc, p, q, sz, m). nat sz)") auto

function copy_loop :: "(DWord \<Rightarrow> 'l option) \<Rightarrow> DWord \<Rightarrow> DWord \<Rightarrow> int \<Rightarrow> ('l \<Rightarrow> Byte) \<Rightarrow> ('l \<Rightarrow> Byte) option" where
  "copy_loop loc p q sz m =
     (if sz > 4 then
        (case copy_dword loc p q m of None \<Rightarrow> None | Some m1 \<Rightarrow> copy_loop loc (p + 4) (q + 4) (sz - 4) m1)
      else copy_tail loc p q sz m)"
  by pat_completeness auto
termination
  by (relation "measure (\<lambda>(loc, p, q, sz, m). nat sz)") auto

declare copy_tail.simps [simp del] copy_loop.simps [simp del]

definition copy_data :: "(DWord \<Rightarrow> 'l option) \<Rightarrow> DWord \<Rightarrow> DWord \<Rightarrow> int \<Rightarrow> ('l \<Rightarrow> Byte) \<Rightarrow> ('l \<Rightarrow> Byte) option" where
  "copy_data loc start dest sz m = copy_loop loc start dest sz m"

text \<open>\<open>copy_from_user\<close> and \<open>copy_to_user\<close> repeat the same loops and return 0.\<close>

definition copy_from_user ::
  "(DWord \<Rightarrow> 'l option) \<Rightarrow> DWord \<Rightarrow> DWord \<Rightarrow> int \<Rightarrow> ('l \<Rightarrow> Byte) \<Rightarrow> (int \<times> ('l \<Rightarrow> Byte)) option" where
  "copy_from_user loc start dest sz m = do { m1 \<leftarrow> copy_loop loc start dest sz m; Some (0, m1) }"

definition copy_to_user ::
  "(DWord \<Rightarrow> 'l option) \<Rightarrow> DWord \<Rightarrow> DWord \<Rightarrow> int \<Rightarrow> ('l \<Rightarrow> Byte) \<Rightarrow> (int \<times> ('l \<Rightarrow> Byte)) option" where
  "copy_to_user loc start dest sz m = do { m1 \<leftarrow> copy_loop loc start dest sz m; Some (0, m1) }"

section \<open>User pointers\<close>

definition VERIFY_READ :: int where [simp]: "VERIFY_READ = 0"
definition VERIFY_WRITE :: int where [simp]: "VERIFY_WRITE = 1"

text \<open>
  The \<open>case VERIFY_WRITE\<close> of the switch has no \<open>break\<close>: when its test fails, control falls
  through to the test of the default case.
\<close>

definition access_ok :: "int \<Rightarrow> DWord \<Rightarrow> DWord \<Rightarrow> bool" where
  "access_ok type addr sz =
     (let addr_ini = drop_bit 12 addr; addr_fin = drop_bit 12 (addr + sz);
          USER_FIRST_PAGE = drop_bit 12 (of_nat L_USER_START :: DWord);
          write_range = (addr_ini \<ge> USER_FIRST_PAGE + of_nat NUM_PAG_CODE \<and>
                         addr_fin \<le> USER_FIRST_PAGE + of_nat NUM_PAG_CODE + of_nat NUM_PAG_DATA);
          default_range = (addr_ini \<ge> USER_FIRST_PAGE \<and>
                           addr_fin \<le> USER_FIRST_PAGE + of_nat NUM_PAG_CODE + of_nat NUM_PAG_DATA)
      in if addr_fin < addr_ini then False
         else if type = VERIFY_WRITE \<and> write_range then True
         else default_range)"

section \<open>Ticks\<close>

definition CYCLESPERTICK :: DWord where [simp]: "CYCLESPERTICK = 109000"

text \<open>
  \<open>do_div\<close> divides a 64-bit value by a 32-bit base with two 32-bit divisions; the result is the
  new value and the remainder. The \<open>divl\<close> traps (\<open>None\<close>) on a quotient of more than 32 bits.
\<close>

definition divl :: "DWord \<Rightarrow> DWord \<Rightarrow> DWord \<Rightarrow> (DWord \<times> DWord) option" where
  "divl hi lo d =
     (let n = uint hi * 2 ^ 32 + uint lo
      in if d = 0 \<or> n div uint d \<ge> 2 ^ 32 then None
         else Some (word_of_int (n div uint d), word_of_int (n mod uint d)))"

definition do_div :: "QWord \<Rightarrow> DWord \<Rightarrow> (QWord \<times> DWord) option" where
  "do_div n base = do {
     let low = (ucast n :: DWord);
     let high = (ucast (drop_bit 32 n) :: DWord);
     let (upper, high1) = (if high \<noteq> 0 then (high mod base, high div base) else (high, high));
     (low1, rm) \<leftarrow> divl upper low base;
     Some (push_bit 32 (ucast high1) OR ucast low1, rm)
   }"

text \<open>\<open>get_ticks\<close> on the two halves that \<open>rdtsc\<close> delivers.\<close>

definition ticks_of_tsc :: "DWord \<Rightarrow> DWord \<Rightarrow> DWord option" where
  "ticks_of_tsc eax edx = do {
     let ticks = push_bit 32 (ucast edx :: QWord) + ucast eax;
     (ticks1, _) \<leftarrow> do_div ticks CYCLESPERTICK;
     Some (ucast ticks1)
   }"


section \<open>What a copy does\<close>

text \<open>
  \<open>regions loc p src n\<close>: the \<open>n\<close> bytes from address \<open>p\<close> translate to the locations \<open>src\<close>.
\<close>

definition regions :: "(DWord \<Rightarrow> 'l option) \<Rightarrow> DWord \<Rightarrow> (nat \<Rightarrow> 'l) \<Rightarrow> nat \<Rightarrow> bool" where
  "regions loc p src n \<longleftrightarrow> (\<forall>i < n. loc (p + of_nat i) = Some (src i))"

definition copied :: "(nat \<Rightarrow> 'l) \<Rightarrow> (nat \<Rightarrow> 'l) \<Rightarrow> nat \<Rightarrow> ('l \<Rightarrow> Byte) \<Rightarrow> ('l \<Rightarrow> Byte) \<Rightarrow> bool" where
  "copied src dst n m m' \<longleftrightarrow>
     (\<forall>i < n. m' (dst i) = m (src i)) \<and> (\<forall>l. l \<notin> dst ` {..<n} \<longrightarrow> m' l = m l)"

definition separate :: "(nat \<Rightarrow> 'l) \<Rightarrow> (nat \<Rightarrow> 'l) \<Rightarrow> nat \<Rightarrow> bool" where
  "separate src dst n \<longleftrightarrow>
     (\<forall>i < n. \<forall>j < n. (dst i = dst j \<longrightarrow> i = j) \<and> src i \<noteq> dst j)"

lemma regions_shift: "regions loc p src n \<Longrightarrow> k \<le> n \<Longrightarrow> regions loc (p + of_nat k) (\<lambda>i. src (i + k)) (n - k)"
  by (auto simp: regions_def add.commute add.left_commute simp flip: of_nat_add)

lemma separate_inj: "separate src dst n \<Longrightarrow> i < n \<Longrightarrow> j < n \<Longrightarrow> dst i = dst j \<longleftrightarrow> i = j"
  unfolding separate_def by blast

lemma separate_src: "separate src dst n \<Longrightarrow> i < n \<Longrightarrow> j < n \<Longrightarrow> src i \<noteq> dst j"
  unfolding separate_def by blast

lemma separate_shift:
  "separate src dst n \<Longrightarrow> k \<le> n \<Longrightarrow> separate (\<lambda>i. src (i + k)) (\<lambda>i. dst (i + k)) (n - k)"
  unfolding separate_def by (simp add: less_diff_conv) (metis add_right_cancel)

lemma copied_compose:
  assumes 1: "copied src dst k m m1" and 2: "copied (\<lambda>i. src (i + k)) (\<lambda>i. dst (i + k)) (n - k) m1 m'"
    and sep: "separate src dst n" and k: "k \<le> n"
  shows "copied src dst n m m'"
  unfolding copied_def
proof (intro conjI allI impI)
  fix i assume i: "i < n"
  show "m' (dst i) = m (src i)"
  proof (cases "i < k")
    case True
    have "dst i \<noteq> dst (j + k)" if "j < n - k" for j
      using separate_inj[OF sep, of i "j + k"] i True that by auto
    then have "dst i \<notin> (\<lambda>i. dst (i + k)) ` {..<n - k}" by auto
    then have "m' (dst i) = m1 (dst i)" using 2 by (simp add: copied_def)
    with 1 True show ?thesis by (simp add: copied_def)
  next
    case False
    then have "m' (dst i) = m1 (src i)" using 2 i unfolding copied_def
      by (metis (no_types, lifting) diff_less_mono le_add_diff_inverse2 not_less)
    moreover have "src i \<noteq> dst j" if "j < k" for j using separate_src[OF sep i, of j] k that by simp
    then have "src i \<notin> dst ` {..<k}" by blast
    ultimately show ?thesis using 1 by (simp add: copied_def)
  qed
next
  fix l assume l: "l \<notin> dst ` {..<n}"
  then have "l \<notin> (\<lambda>i. dst (i + k)) ` {..<n - k}" "l \<notin> dst ` {..<k}" using k by auto
  with 1 2 show "m' l = m l" by (simp add: copied_def)
qed

lemma copy_byte_copied:
  assumes "regions loc p src 1" "regions loc q dst 1"
  shows "\<exists>m1. copy_byte loc p q m = Some m1 \<and> copied src dst 1 m m1"
  using assms by (auto simp: regions_def copy_byte_def rd8_def wr8_def copied_def)

lemma copy_dword_copied:
  assumes "regions loc p src 4" "regions loc q dst 4" "\<And>i j. i < 4 \<Longrightarrow> j < 4 \<Longrightarrow> dst i = dst j \<longleftrightarrow> i = j"
  shows "\<exists>m1. copy_dword loc p q m = Some m1 \<and> copied src dst 4 m m1"
proof -
  have four: "i < 4 \<longleftrightarrow> i = 0 \<or> i = 1 \<or> i = 2 \<or> i = 3" for i :: nat by auto
  have l: "loc p = Some (src 0)" "loc (p + 1) = Some (src 1)" "loc (p + 2) = Some (src 2)"
    "loc (p + 3) = Some (src 3)" "loc q = Some (dst 0)" "loc (q + 1) = Some (dst 1)"
    "loc (q + 2) = Some (dst 2)" "loc (q + 3) = Some (dst 3)"
    using assms(1,2) unfolding regions_def four by force+
  have "dst 0 \<noteq> dst 1" "dst 0 \<noteq> dst 2" "dst 0 \<noteq> dst 3" "dst 1 \<noteq> dst 2" "dst 1 \<noteq> dst 3" "dst 2 \<noteq> dst 3"
    by (simp_all add: assms(3))
  then show ?thesis
    by (auto simp: copy_dword_def rd8_def wr8_def l copied_def four image_iff)
qed

lemma copy_tail_copied:
  assumes "regions loc p src n" "regions loc q dst n" "separate src dst n"
  shows "\<exists>m'. copy_tail loc p q (int n) m = Some m' \<and> copied src dst n m m'"
  using assms
proof (induction n arbitrary: p q src dst m)
  case 0
  then show ?case by (simp add: copy_tail.simps copied_def)
next
  case (Suc n)
  then have r1: "regions loc p src 1" "regions loc q dst 1" by (auto simp: regions_def)
  from copy_byte_copied[OF this] obtain m1 where m1: "copy_byte loc p q m = Some m1" "copied src dst 1 m m1"
    by blast
  from Suc.IH[of "p + 1" "\<lambda>i. src (i + 1)" "q + 1" "\<lambda>i. dst (i + 1)" m1]
    regions_shift[OF Suc.prems(1), of 1] regions_shift[OF Suc.prems(2), of 1]
    separate_shift[OF Suc.prems(3), of 1]
  obtain m' where m': "copy_tail loc (p + 1) (q + 1) (int n) m1 = Some m'"
    "copied (\<lambda>i. src (i + 1)) (\<lambda>i. dst (i + 1)) n m1 m'" by auto
  have "copied src dst (Suc n) m m'"
    by (rule copied_compose[where k = 1]) (use m1 m' Suc.prems in auto)
  with m1 m' show ?case by (subst copy_tail.simps) auto
qed

lemma copy_loop_copied:
  assumes "regions loc p src n" "regions loc q dst n" "separate src dst n"
  shows "\<exists>m'. copy_loop loc p q (int n) m = Some m' \<and> copied src dst n m m'"
  using assms
proof (induction n arbitrary: p q src dst m rule: less_induct)
  case (less n)
  show ?case
  proof (cases "n > 4")
    case False
    with copy_tail_copied[OF less.prems] show ?thesis by (subst copy_loop.simps) auto
  next
    case True
    then have r4: "regions loc p src 4" "regions loc q dst 4"
      "\<And>i j. i < 4 \<Longrightarrow> j < 4 \<Longrightarrow> dst i = dst j \<longleftrightarrow> i = j"
      using less.prems separate_inj[OF less.prems(3)] by (auto simp: regions_def)
    from copy_dword_copied[OF this] obtain m1 where m1: "copy_dword loc p q m = Some m1"
      "copied src dst 4 m m1" by blast
    from True less.IH[of "n - 4" "p + 4" "\<lambda>i. src (i + 4)" "q + 4" "\<lambda>i. dst (i + 4)" m1]
      regions_shift[OF less.prems(1), of 4] regions_shift[OF less.prems(2), of 4]
      separate_shift[OF less.prems(3), of 4]
    obtain m' where m': "copy_loop loc (p + 4) (q + 4) (int (n - 4)) m1 = Some m'"
      "copied (\<lambda>i. src (i + 4)) (\<lambda>i. dst (i + 4)) (n - 4) m1 m'" by auto
    have "copied src dst n m m'"
      by (rule copied_compose[where k = 4]) (use m1 m' less.prems True in auto)
    with m1 m' True show ?thesis by (subst copy_loop.simps) (auto simp: of_nat_diff)
  qed
qed


section \<open>The pointer check\<close>

lemma access_ok_ignores_type: "access_ok type a sz = access_ok type' a sz"
  by (auto simp: access_ok_def Let_def word_le_nat_alt)

lemma drop_bit_12_unat: "unat (drop_bit 12 (a :: DWord)) = unat a div 4096"
  by (simp add: unat_div_distrib drop_bit_eq_div)

text \<open>C34. A buffer that does not wrap around the address space is accepted by \<open>access_ok\<close>, whatever the
  type of access, exactly when it starts in the user pages and ends before the address one page past
  the data: code pages are accepted for writing as well.\<close>

theorem access_ok_iff:
  assumes "unat a + unat sz < 2 ^ 32"
  shows "access_ok type a sz \<longleftrightarrow> 0x100000 \<le> unat a \<and> unat a + unat sz < 0x11D000"
proof -
  define ini where "ini = unat (drop_bit 12 a)"
  define fin where "fin = unat (drop_bit 12 (a + sz))"
  have sum: "unat (a + sz) = unat a + unat sz"
    using assms by (simp add: unat_word_ariths)
  have v: "ini = unat a div 4096" "fin = (unat a + unat sz) div 4096"
    by (simp_all only: ini_def fin_def drop_bit_12_unat sum)
  have "ini \<le> fin" unfolding v by (simp add: div_le_mono)
  then have "access_ok type a sz \<longleftrightarrow> 256 \<le> ini \<and> fin \<le> 284"
    unfolding access_ok_def Let_def word_le_nat_alt word_less_nat_alt ini_def[symmetric] fin_def[symmetric]
    by auto
  also have "\<dots> \<longleftrightarrow> 0x100000 \<le> unat a \<and> unat a + unat sz < 0x11D000"
    unfolding v by linarith
  finally show ?thesis .
qed

section \<open>The 64-bit division\<close>

lemma int_div_less:
  fixes m d k :: int
  assumes "0 < d" and "m < k * d"
  shows "m div d < k"
proof (rule ccontr)
  assume "\<not> m div d < k"
  then have "k * d \<le> m div d * d" using assms(1) by (intro mult_right_mono) auto
  also have "\<dots> \<le> m" using div_mult_mod_eq[of m d] pos_mod_sign[OF assms(1), of m] by linarith
  finally show False using assms(2) by simp
qed

lemma divl_ok:
  assumes "uint hi < uint d"
  shows "(uint hi * 2 ^ 32 + uint lo) div uint d < 2 ^ 32"
    and "divl hi lo d = Some (word_of_int ((uint hi * 2 ^ 32 + uint lo) div uint d),
                              word_of_int ((uint hi * 2 ^ 32 + uint lo) mod uint d))"
proof -
  have "uint hi * 2 ^ 32 + uint lo < (uint hi + 1) * 2 ^ 32"
    using uint_lt2p[of lo] by simp
  also have "\<dots> \<le> uint d * 2 ^ 32" using assms by simp
  finally have "uint hi * 2 ^ 32 + uint lo < 2 ^ 32 * uint d" by (simp add: mult.commute)
  moreover have "0 < uint d" using assms uint_ge_0[of hi] by linarith
  ultimately show b: "(uint hi * 2 ^ 32 + uint lo) div uint d < 2 ^ 32" by (intro int_div_less)
  have "d \<noteq> 0" using assms uint_ge_0[of hi] by auto
  with b show "divl hi lo d = Some (word_of_int ((uint hi * 2 ^ 32 + uint lo) div uint d),
                              word_of_int ((uint hi * 2 ^ 32 + uint lo) mod uint d))"
    by (simp add: divl_def Let_def)
qed

lemma uint_join:
  "uint (push_bit 32 (ucast (x :: DWord) :: QWord) OR ucast (y :: DWord)) = uint x * 2 ^ 32 + uint y"
proof -
  have "push_bit 32 (ucast x :: QWord) OR ucast y = push_bit 32 (ucast x) + ucast y"
    by (rule disjunctive_add[symmetric]) (auto simp: bit_simps dest: bit_imp_le_length)
  moreover have "uint (push_bit 32 (ucast x :: QWord)) = uint x * 2 ^ 32"
    using uint_lt2p[of x]
    by (simp only: unsigned_push_bit_eq unsigned_ucast_eq) (simp add: push_bit_eq_mult take_bit_eq_mod)
  moreover have "uint (ucast y :: QWord) = uint y"
    using uint_lt2p[of y] by (simp add: unsigned_ucast_eq take_bit_int_eq_self)
  ultimately show ?thesis using uint_lt2p[of x] uint_lt2p[of y]
    by (simp add: uint_word_ariths)
qed

lemma do_div_correct:
  assumes "base \<noteq> 0"
  shows "\<exists>q r. do_div n base = Some (q, r) \<and> uint q = uint n div uint base \<and> uint r = uint n mod uint base"
proof -
  define low where "low = (ucast n :: DWord)"
  define high where "high = (ucast (drop_bit 32 n) :: DWord)"
  define up where "up = (if high \<noteq> 0 then high mod base else high)"
  define h1 where "h1 = (if high \<noteq> 0 then high div base else high)"
  let ?h = "uint high" and ?l = "uint low" and ?b = "uint base"
  have b0: "0 < ?b" using assms uint_ge_0[of base] by (metis order_le_less uint_0_iff)
  have n: "uint n = ?h * 2 ^ 32 + ?l"
  proof -
    have "n = push_bit 32 (ucast high) OR ucast low"
      by (rule bit_word_eqI) (auto simp: high_def low_def bit_simps)
    then show ?thesis by (metis uint_join)
  qed
  have up: "uint up = ?h mod ?b" by (simp add: up_def uint_mod_distrib)
  have h1: "uint h1 = ?h div ?b" by (simp add: h1_def uint_div_distrib)
  let ?m = "(?h mod ?b) * 2 ^ 32 + ?l"
  have lt: "uint up < ?b" using up b0 by simp
  note d = divl_ok[OF lt, of low]
  have dd: "do_div n base = Some (push_bit 32 (ucast h1) OR ucast (word_of_int (?m div ?b) :: DWord), word_of_int (?m mod ?b))"
    using d(2) unfolding do_div_def Let_def low_def[symmetric] high_def[symmetric] up
    by (auto simp: up_def h1_def)
  have q: "uint (word_of_int (?m div ?b) :: DWord) = ?m div ?b"
    using d(1) b0 unfolding up by (simp add: uint_word_of_int pos_imp_zdiv_nonneg_iff)
  have r: "uint (word_of_int (?m mod ?b) :: DWord) = ?m mod ?b"
  proof -
    have "0 \<le> ?m mod ?b" "?m mod ?b < 2 ^ 32"
      using b0 uint_lt2p[of base] pos_mod_bound[OF b0, of ?m] pos_mod_sign[OF b0, of ?m] by simp_all
    then show ?thesis by (simp add: uint_word_of_int)
  qed
  have e: "uint n = ?b * ((?h div ?b) * 2 ^ 32) + ?m"
  proof -
    have "h = b * k + r \<Longrightarrow> h * 2 ^ 32 + l = b * (k * 2 ^ 32) + (r * 2 ^ 32 + l)" for h b k r l :: int
      by (simp add: algebra_simps)
    from this[of ?h ?b "?h div ?b" "?h mod ?b" ?l] show ?thesis unfolding n by simp
  qed
  have "uint n div ?b = (?h div ?b) * 2 ^ 32 + ?m div ?b"
    unfolding e using b0 by (subst div_mult_self4) auto
  moreover have "uint n mod ?b = ?m mod ?b" unfolding e by (rule mod_mult_self4)
  ultimately show ?thesis using dd q r h1 uint_join[of h1 "word_of_int (?m div ?b)"] by auto
qed

text \<open>The ticks are the counter divided by the cycles of a tick, modulo 2\<open>^\<close>32.\<close>

lemma ticks_of_tsc_correct:
  "\<exists>t. ticks_of_tsc eax edx = Some t \<and>
    uint t = ((uint edx * 2 ^ 32 + uint eax) div 109000) mod 2 ^ 32"
proof -
  have "uint (push_bit 32 (ucast edx :: QWord) + ucast eax) = uint edx * 2 ^ 32 + uint eax"
    using uint_join[of edx eax]
    by (subst disjunctive_add) (auto simp: bit_simps dest: bit_imp_le_length)
  with do_div_correct[of CYCLESPERTICK "push_bit 32 (ucast edx) + ucast eax"]
  show ?thesis by (auto simp: ticks_of_tsc_def unsigned_ucast_eq take_bit_eq_mod)
qed

lemma access_ok_iff_witness: "access_ok VERIFY_WRITE 0x100000 0x1C000 \<and> \<not> access_ok VERIFY_READ 0x11C000 0x1000"
  using access_ok_iff[of "0x100000" "0x1C000" VERIFY_WRITE] access_ok_iff[of "0x11C000" "0x1000" VERIFY_READ] by simp

text \<open>
  C25. \<open>copy_data\<close> copies exactly \<open>n\<close> bytes, four at a time and the rest one by one, when both regions are
  mapped and the destination overlaps neither itself nor the source; no other byte changes.
\<close>

theorem copy_data_copies:
  assumes "regions loc start src n" "regions loc dest dst n" "separate src dst n"
  shows "\<exists>m'. copy_data loc start dest (int n) m = Some m' \<and>
    (\<forall>i < n. m' (dst i) = m (src i)) \<and> (\<forall>l. l \<notin> dst ` {..<n} \<longrightarrow> m' l = m l)"
  using copy_loop_copied[OF assms, of m] by (simp add: copy_data_def copied_def)

text \<open>Seven bytes from address 100 to address 200.\<close>

lemma copy_data_copies_witness:
  "\<exists>m'. copy_data (\<lambda>a. Some (unat a)) 100 200 7 (\<lambda>l. of_nat l) = Some m' \<and> m' 206 = 106 \<and> m' 207 = 207"
proof -
  have u: "unat (100 + of_nat i :: DWord) = 100 + i" "unat (200 + of_nat i :: DWord) = 200 + i" if "i < 7" for i
    using that by (simp_all add: unat_word_ariths unsigned_of_nat take_bit_nat_eq_self)
  have "regions (\<lambda>a. Some (unat a)) (100 :: DWord) (\<lambda>i. 100 + i) 7" "regions (\<lambda>a. Some (unat a)) (200 :: DWord) (\<lambda>i. 200 + i) 7"
    using u by (simp_all add: regions_def)
  moreover have "separate (\<lambda>i. 100 + i) (\<lambda>i. 200 + i :: nat) 7" by (simp add: separate_def)
  ultimately have "\<exists>m'. copy_data (\<lambda>a. Some (unat a)) 100 200 (int 7) (\<lambda>l. of_nat l) = Some m' \<and>
      (\<forall>i < 7. m' (200 + i) = of_nat (100 + i)) \<and> (\<forall>l. l \<notin> (\<lambda>i. 200 + i) ` {..<7} \<longrightarrow> m' l = of_nat l)"
    by (rule copy_data_copies)
  then obtain m' where m': "copy_data (\<lambda>a. Some (unat a)) 100 200 7 (\<lambda>l. of_nat l) = Some m'"
    "\<forall>i < 7. m' (200 + i) = of_nat (100 + i)" "\<forall>l. l \<notin> (\<lambda>i. 200 + i) ` {..<7} \<longrightarrow> m' l = of_nat l" by auto
  have "(207 :: nat) \<notin> (\<lambda>i. 200 + i) ` {..<7}" by (auto simp: image_iff)
  then have "m' 207 = 207" using m'(3) by (metis of_nat_numeral)
  with m'(1) m'(2)[rule_format, of 6] show ?thesis by auto
qed

end
