(* ===== verification/Io.thy ===== *)
theory Io
  imports Prelude
begin

text \<open>
  The text screen of \<open>zeos/io.c\<close>: the cursor \<open>x\<close>, \<open>y\<close>, the video memory at 0xb8000 and the bytes
  sent to the debug port 0xe9. The second part reads the screen as a ring of 2000 cells and shows
  that \<open>printc\<close> writes the cell at the cursor and moves one cell on.
\<close>

definition NUM_COLUMNS :: nat where [simp]: "NUM_COLUMNS = 80"
definition NUM_ROWS :: nat where [simp]: "NUM_ROWS = 25"

record screen =
  scr_x :: Byte
  scr_y :: Byte
  vmem :: "DWord \<Rightarrow> Word16"
  port_e9 :: "Byte list"

text \<open>\<open>y = (y + 1) % NUM_ROWS\<close>, computed in \<open>int\<close> and stored in a byte.\<close>

definition next_row :: "Byte \<Rightarrow> Byte" where
  "next_row y = of_nat ((unat y + 1) mod NUM_ROWS)"

definition cell_addr :: "Byte \<Rightarrow> Byte \<Rightarrow> DWord" where
  "cell_addr x y = 0xb8000 + of_nat ((unat y * NUM_COLUMNS + unat x) * 2)"

definition printc :: "Byte \<Rightarrow> screen \<Rightarrow> screen" where
  "printc c s0 =
     (let s = s0\<lparr>port_e9 := port_e9 s0 @ [c]\<rparr> in
      if c = 10 then s\<lparr>scr_x := 0, scr_y := next_row (scr_y s)\<rparr>
      else
        (let ch = (ucast c AND 0x00FF) OR 0x0200 :: Word16;
             addr = cell_addr (scr_x s) (scr_y s);
             x1 = scr_x s + 1;
             s1 = (if unat x1 \<ge> NUM_COLUMNS then s\<lparr>scr_x := 0, scr_y := next_row (scr_y s)\<rparr>
                   else s\<lparr>scr_x := x1\<rparr>)
         in s1\<lparr>vmem := (vmem s1)(addr := ch)\<rparr>))"

definition printc_xy :: "Byte \<Rightarrow> Byte \<Rightarrow> Byte \<Rightarrow> screen \<Rightarrow> screen" where
  "printc_xy mx my c s =
     (let cx = scr_x s; cy = scr_y s; s1 = printc c (s\<lparr>scr_x := mx, scr_y := my\<rparr>)
      in s1\<lparr>scr_x := cx, scr_y := cy\<rparr>)"

text \<open>\<open>printk\<close> reads its string up to the NUL; reading past the array is \<open>None\<close>.\<close>

function printk_loop :: "nat \<Rightarrow> Byte list \<Rightarrow> screen \<Rightarrow> screen option" where
  "printk_loop i str s =
     (if i < length str then
        (if str ! i \<noteq> 0 then printk_loop (i + 1) str (printc (str ! i) s) else Some s)
      else None)"
  by pat_completeness auto
termination
  by (relation "measure (\<lambda>(i, str, s). length str - i)") auto

declare printk_loop.simps [simp del]

definition printk :: "Byte list \<Rightarrow> screen \<Rightarrow> screen option" where
  "printk str s = printk_loop 0 str s"

section \<open>The screen as a ring of cells\<close>

definition cursor_ok :: "screen \<Rightarrow> bool" where
  "cursor_ok s \<longleftrightarrow> unat (scr_x s) < NUM_COLUMNS \<and> unat (scr_y s) < NUM_ROWS"

definition cursor_pos :: "screen \<Rightarrow> nat" where
  "cursor_pos s = unat (scr_y s) * NUM_COLUMNS + unat (scr_x s)"

definition ring_addr :: "nat \<Rightarrow> DWord" where
  "ring_addr p = 0xb8000 + of_nat (p * 2)"

definition glyph :: "Byte \<Rightarrow> Word16" where
  "glyph c = ucast c OR 0x0200"

lemma cell_addr_ring: "cell_addr (scr_x s) (scr_y s) = ring_addr (cursor_pos s)"
  by (simp add: cell_addr_def ring_addr_def cursor_pos_def)

lemma unat_next_row: "unat (next_row y) = (unat y + 1) mod 25"
proof -
  have "(unat y + 1) mod 25 < 256" by (rule order_less_trans[of _ 25]) auto
  then show ?thesis by (simp add: next_row_def unsigned_of_nat take_bit_nat_eq_self)
qed

lemma unat_Suc_col: "unat (x :: Byte) < 80 \<Longrightarrow> unat (x + 1) = unat x + 1"
  by (simp add: unat_word_ariths)

lemma glyph_alt: "(ucast c AND 0x00FF) OR 0x0200 = glyph c"
proof -
  have "(ucast c AND 0x00FF :: Word16) = ucast c"
  proof -
    have m: "(0x00FF :: Word16) = mask 8" by (simp add: mask_eq_exp_minus_1)
    show ?thesis unfolding m by (rule bit_word_eqI) (auto simp: bit_simps dest: bit_imp_le_length)
  qed
  then show ?thesis by (simp add: glyph_def)
qed

lemma printc_cursor_ok: "cursor_ok s \<Longrightarrow> cursor_ok (printc c s)"
  by (auto simp: cursor_ok_def printc_def Let_def unat_next_row)

text \<open>A character other than newline fills the cell at the cursor and moves on by one cell.\<close>

lemma printc_char:
  assumes "cursor_ok s" and "c \<noteq> 10"
  shows "vmem (printc c s) = (vmem s)(ring_addr (cursor_pos s) := glyph c)"
    and "cursor_pos (printc c s) = (cursor_pos s + 1) mod 2000"
proof -
  show "vmem (printc c s) = (vmem s)(ring_addr (cursor_pos s) := glyph c)"
    using assms by (simp add: printc_def Let_def cell_addr_ring glyph_alt)
      (simp add: cell_addr_def ring_addr_def cursor_pos_def)
  have x: "unat (scr_x s) < 80" "unat (scr_y s) < 25" using assms by (auto simp: cursor_ok_def)
  show "cursor_pos (printc c s) = (cursor_pos s + 1) mod 2000"
  proof (cases "unat (scr_x s) + 1 \<ge> 80")
    case True
    then have "unat (scr_x s) = 79" using x by simp
    then have "cursor_pos (printc c s) = (unat (scr_y s) + 1) mod 25 * 80"
      using assms x by (simp add: printc_def Let_def unat_Suc_col cursor_pos_def unat_next_row)
    also have "\<dots> = ((unat (scr_y s) + 1) * 80) mod 2000"
      using mod_mult_mult2[of "unat (scr_y s) + 1" 80 25] by simp
    finally show ?thesis using \<open>unat (scr_x s) = 79\<close> by (simp add: cursor_pos_def)
  next
    case False
    then have "cursor_pos (printc c s) = unat (scr_y s) * 80 + unat (scr_x s) + 1"
      using assms x by (simp add: printc_def Let_def unat_Suc_col cursor_pos_def)
    moreover have "unat (scr_y s) * 80 + unat (scr_x s) + 1 < 2000" using x False by linarith
    ultimately show ?thesis by (simp add: cursor_pos_def)
  qed
qed

lemma printc_newline:
  assumes "cursor_ok s"
  shows "vmem (printc 10 s) = vmem s" and "scr_x (printc 10 s) = 0"
    and "unat (scr_y (printc 10 s)) = (unat (scr_y s) + 1) mod 25"
  by (simp_all add: printc_def Let_def unat_next_row)

lemma pos_less: "cursor_ok s \<Longrightarrow> cursor_pos s < 2000"
  by (auto simp: cursor_pos_def cursor_ok_def)

lemma ring_addr_inj: "p < 2000 \<Longrightarrow> q < 2000 \<Longrightarrow> ring_addr p = ring_addr q \<longleftrightarrow> p = q"
proof -
  assume a: "p < 2000" "q < 2000"
  then have u: "unat (ring_addr p) = 0xb8000 + p * 2" "unat (ring_addr q) = 0xb8000 + q * 2"
    by (simp_all add: ring_addr_def unat_word_ariths unsigned_of_nat take_bit_nat_eq_self)
  show ?thesis using u by (metis add_left_cancel mult_cancel2 numeral_neq_zero)
qed

text \<open>Printing a run of characters lays them out in consecutive cells of the ring.\<close>

lemma printc_run:
  assumes "cursor_ok s" and "\<forall>c \<in> set cs. c \<noteq> 10" and "length cs \<le> 2000"
  shows "cursor_ok (fold printc cs s) \<and> cursor_pos (fold printc cs s) = (cursor_pos s + length cs) mod 2000 \<and>
    (\<forall>k < length cs. vmem (fold printc cs s) (ring_addr ((cursor_pos s + k) mod 2000)) = glyph (cs ! k)) \<and>
    (\<forall>a. (\<forall>k < length cs. a \<noteq> ring_addr ((cursor_pos s + k) mod 2000)) \<longrightarrow> vmem (fold printc cs s) a = vmem s a)"
  using assms
proof (induction cs rule: rev_induct)
  case Nil
  then show ?case by (simp add: pos_less)
next
  case (snoc c cs)
  let ?t = "fold printc cs s"
  from snoc have t: "cursor_ok ?t" "cursor_pos ?t = (cursor_pos s + length cs) mod 2000"
    "\<forall>k < length cs. vmem ?t (ring_addr ((cursor_pos s + k) mod 2000)) = glyph (cs ! k)"
    "\<forall>a. (\<forall>k < length cs. a \<noteq> ring_addr ((cursor_pos s + k) mod 2000)) \<longrightarrow> vmem ?t a = vmem s a"
    by auto
  have c: "c \<noteq> 10" "length cs < 2000" using snoc.prems by auto
  note p = printc_char[OF t(1) c(1)]
  have old: "ring_addr ((cursor_pos s + k) mod 2000) \<noteq> ring_addr (cursor_pos ?t)" if "k < length cs" for k
  proof -
    have "(cursor_pos s + k) mod 2000 \<noteq> (cursor_pos s + length cs) mod 2000"
    proof
      assume "(cursor_pos s + k) mod 2000 = (cursor_pos s + length cs) mod 2000"
      then have "2000 dvd (cursor_pos s + length cs) - (cursor_pos s + k)"
        by (metis mod_eq_dvd_iff_nat nat_add_left_cancel_le that less_imp_le)
      then have "2000 dvd length cs - k" by simp
      moreover have "0 < length cs - k" "length cs - k < 2000" using that c by auto
      ultimately show False using nat_dvd_not_less by blast
    qed
    then show ?thesis unfolding t(2) by (simp add: ring_addr_inj)
  qed
  have "cursor_ok (printc c ?t)" using t(1) by (rule printc_cursor_ok)
  moreover have "cursor_pos (printc c ?t) = (cursor_pos s + length (cs @ [c])) mod 2000"
    using p(2) t(2) by (simp add: mod_Suc_eq)
  moreover have "vmem (printc c ?t) (ring_addr ((cursor_pos s + k) mod 2000)) = glyph ((cs @ [c]) ! k)"
    if "k < length (cs @ [c])" for k
    using that p(1) t old[of k] by (cases "k = length cs") (auto simp: nth_append)
  moreover have "vmem (printc c ?t) a = vmem s a"
    if "\<forall>k < length (cs @ [c]). a \<noteq> ring_addr ((cursor_pos s + k) mod 2000)" for a
    using that p(1) t by auto
  ultimately show ?case by simp
qed


text \<open>\<open>printk\<close> prints the characters before the first NUL.\<close>

lemma printk_loop_prints:
  "i + length cs < length str \<Longrightarrow> \<forall>k < length cs. str ! (i + k) = cs ! k \<and> cs ! k \<noteq> 0 \<Longrightarrow>
   str ! (i + length cs) = 0 \<Longrightarrow> printk_loop i str s = Some (fold printc cs s)"
proof (induction cs arbitrary: i s)
  case Nil
  then show ?case by (subst printk_loop.simps) simp
next
  case (Cons c cs)
  have "str ! i = c" "c \<noteq> 0" using Cons.prems(2)[rule_format, of 0] by auto
  moreover have "printk_loop (i + 1) str (printc c s) = Some (fold printc cs (printc c s))"
    using Cons.prems Cons.prems(2)[rule_format, of "Suc _"] by (intro Cons.IH) auto
  ultimately show ?case using Cons.prems(1) by (subst printk_loop.simps) simp
qed

lemma printk_prints:
  assumes "\<forall>c \<in> set cs. c \<noteq> 0"
  shows "printk (cs @ [0]) s = Some (fold printc cs s)"
  unfolding printk_def using assms
  by (intro printk_loop_prints) (auto simp: nth_append)

text \<open>\<open>printc_xy\<close> writes one cell and leaves the cursor where it was.\<close>

lemma printc_xy_cell:
  assumes "cursor_ok s" and "unat mx < NUM_COLUMNS" and "unat my < NUM_ROWS" and "c \<noteq> 10"
  shows "scr_x (printc_xy mx my c s) = scr_x s" and "scr_y (printc_xy mx my c s) = scr_y s"
    and "vmem (printc_xy mx my c s) = (vmem s)(ring_addr (unat my * NUM_COLUMNS + unat mx) := glyph c)"
  using printc_char(1)[of "s\<lparr>scr_x := mx, scr_y := my\<rparr>" c] assms
  by (simp_all add: printc_xy_def Let_def cursor_ok_def cursor_pos_def)

text \<open>
  C27. \<open>printk\<close> of a string of at most a screenful of printable characters puts them into consecutive cells
  of the screen from the cursor on, wrapping from the last cell to the first, moves the cursor behind
  them and changes no other cell.
\<close>

theorem printk_layout:
  assumes "cursor_ok s" and "\<forall>c \<in> set cs. c \<noteq> 0 \<and> c \<noteq> 10" and "length cs \<le> 2000"
  shows "\<exists>s'. printk (cs @ [0]) s = Some s' \<and> cursor_ok s' \<and> cursor_pos s' = (cursor_pos s + length cs) mod 2000 \<and>
    (\<forall>k < length cs. vmem s' (ring_addr ((cursor_pos s + k) mod 2000)) = glyph (cs ! k)) \<and>
    (\<forall>a. (\<forall>k < length cs. a \<noteq> ring_addr ((cursor_pos s + k) mod 2000)) \<longrightarrow> vmem s' a = vmem s a)"
  using printk_prints[of cs s] printc_run[OF assms(1) _ assms(3)] assms(2) by auto

text \<open>Three characters from the last cell but one: the third one is at the top left.\<close>

lemma printk_layout_witness:
  "\<exists>s'. printk [72, 105, 33, 0] \<lparr>scr_x = 78, scr_y = 24, vmem = \<lambda>_. 0, port_e9 = []\<rparr> = Some s' \<and>
     cursor_pos s' = 1 \<and> vmem s' (ring_addr 0) = glyph 33 \<and> vmem s' (ring_addr 1999) = glyph 105"
proof -
  let ?s = "\<lparr>scr_x = 78, scr_y = 24, vmem = \<lambda>_. 0, port_e9 = []\<rparr> :: screen"
  have c: "cursor_ok ?s" "cursor_pos ?s = 1998" by (simp_all add: cursor_ok_def cursor_pos_def)
  from printk_layout[OF c(1), of "[72, 105, 33]"] obtain s' where s': "printk ([72, 105, 33] @ [0]) ?s = Some s'"
    "cursor_pos s' = (1998 + 3) mod 2000"
    "\<forall>k < 3. vmem s' (ring_addr ((1998 + k) mod 2000)) = glyph ([72, 105, 33] ! k)" unfolding c(2) by auto
  from s'(3)[rule_format, of 1] s'(3)[rule_format, of 2] s'(1,2) show ?thesis by auto
qed

end
