(* ===== verification/Kernel.thy ===== *)
theory Kernel
  imports Clist Mm Utils Io
begin

text \<open>
  The state of the ZeOS kernel: the task table, the queues, the semaphores, the memory manager, the
  keyboard buffer and the screen (\<open>zeos/include/sched.h\<close>, \<open>zeos/include/stats.h\<close>, the globals of
  \<open>zeos/system.c\<close>, \<open>zeos/sched.c\<close>, \<open>zeos/devices.c\<close>), the errors of \<open>zeos/include/errno.h\<close> and the
  time accounting of \<open>zeos/stat_funcs.c\<close>.

  A task is its index in \<open>task[]\<close>; a list node is the \<open>list\<close> field of a task or the head of a queue.
  The part of a kernel stack that says where a switched-out process goes on is \<open>kcont\<close>; the
  stack words that the kernel writes by hand (fork, clone, init) are \<open>kstack\<close>. A kernel operation
  is a function of the state into \<open>option\<close>, \<open>None\<close> being a fault.
\<close>

section \<open>Errors\<close>

definition EPERM :: int where [simp]: "EPERM = 1"
definition ESRCH :: int where [simp]: "ESRCH = 3"
definition EBADF :: int where [simp]: "EBADF = 9"
definition EAGAIN :: int where [simp]: "EAGAIN = 11"
definition ENOMEM :: int where [simp]: "ENOMEM = 12"
definition EFAULT :: int where [simp]: "EFAULT = 14"
definition EBUSY :: int where [simp]: "EBUSY = 16"
definition EINVAL :: int where [simp]: "EINVAL = 22"
definition ENOSYS :: int where [simp]: "ENOSYS = 38"

section \<open>Tasks, semaphores, keyboard buffer\<close>

definition KERNEL_STACK_SIZE :: nat where [simp]: "KERNEL_STACK_SIZE = 1024"
definition DEFAULT_QUANTUM :: int where [simp]: "DEFAULT_QUANTUM = 10"
definition NR_SEMS :: nat where [simp]: "NR_SEMS = 20"

datatype laddr = Freequeue | Readyqueue | Blocked | Keyboardqueue | SemQueue nat | TaskList nat

record stats =
  user_ticks :: DWord
  system_ticks :: DWord
  blocked_ticks :: DWord
  ready_ticks :: DWord
  elapsed_total_ticks :: DWord
  total_trans :: DWord
  remaining_ticks :: DWord

datatype state_t = ST_RUN | ST_READY | ST_BLOCKED

text \<open>\<open>dir_pages_baseAddr\<close> is the index of the directory, \<open>kernel_esp\<close> an index of the task's stack.\<close>

record task_struct =
  PID :: int
  dir_pages_baseAddr :: nat
  kernel_esp :: nat
  exec_status :: state_t
  process_stats :: stats
  quantum :: int
  heap :: DWord
  heapSize :: int
  heapPages :: int

record semaphore =
  ownerPID :: int
  counter :: int
  semID :: int

record kbd =
  circBuffer :: "nat \<Rightarrow> Byte"
  nextToWrite :: nat
  lastRead :: nat
  leftToRead :: int
  cb_is_empty :: int

text \<open>
  Where a process that does not run goes on when it is switched to: in user mode, in the idle
  loop, at \<open>ret_from_fork\<close>, after the switch in \<open>sys_sem_wait\<close> (semaphore and its id at the time),
  after a switch in \<open>sys_read_keyboard\<close> (user buffer, count, bytes read so far), or nowhere.
\<close>

datatype kcont = In_user | Idle_start | Ret_from_fork
  | After_sem_wait int int | After_read DWord int "Byte list" | Exited

text \<open>
  What the compiler and the linker settle: the addresses of two functions, and how many bytes of the kernel stack the
  frames of \<open>sys_read\<close> and \<open>sys_write\<close>, of what they call and of an interrupt on top need below the frame pointer,
  the array of variable length apart.
\<close>

record links =
  cpu_idle_addr :: DWord
  ret_from_fork_addr :: DWord
  frame_bytes :: nat

record kstate =
  lists :: "laddr list_head"
  task :: "nat \<Rightarrow> task_struct"
  kstack :: "nat \<Rightarrow> nat \<Rightarrow> DWord"
  kcont :: "nat \<Rightarrow> kcont"
  user_eax :: "nat \<Rightarrow> int"
  cur :: nat
  idle_task :: nat
  global_PID :: int
  global_semID :: int
  semaphores :: "nat \<Rightarrow> semaphore"
  mem :: mm
  tss_esp0 :: nat
  ebp_index :: nat
  zeos_ticks :: int
  tsc :: "nat \<Rightarrow> QWord"
  tsc_reads :: nat
  keyb :: kbd
  scr :: screen
  link :: links

text \<open>
  The kernel stack of a process and its \<open>task_struct\<close> share the 4 KB of a \<open>task_union\<close>, the structure (68 bytes) at the
  bottom: what is left for an array on the stack before it runs into the structure.
\<close>

definition TASK_STRUCT_SIZE :: int where [simp]: "TASK_STRUCT_SIZE = 68"

definition stack_left :: "kstate \<Rightarrow> int" where
  "stack_left s = 4 * int (ebp_index s) - TASK_STRUCT_SIZE - int (frame_bytes (link s))"

section \<open>Accessors of the code\<close>

text \<open>\<open>list_entry\<close>: the task that holds a list node; the head of a queue is in no task.\<close>

definition list_head_to_task_struct :: "laddr \<Rightarrow> nat option" where
  "list_head_to_task_struct l = (case l of TaskList i \<Rightarrow> Some i | _ \<Rightarrow> None)"

definition current :: "kstate \<Rightarrow> nat" where
  "current s = cur s"

definition upd_task :: "nat \<Rightarrow> (task_struct \<Rightarrow> task_struct) \<Rightarrow> kstate \<Rightarrow> kstate" where
  "upd_task t f s = s\<lparr>task := (task s)(t := f (task s t))\<rparr>"

definition upd_stats :: "nat \<Rightarrow> (stats \<Rightarrow> stats) \<Rightarrow> kstate \<Rightarrow> kstate" where
  "upd_stats t f s = upd_task t (\<lambda>p. p\<lparr>process_stats := f (process_stats p)\<rparr>) s"

definition on_lists :: "(laddr list_head \<Rightarrow> laddr list_head option) \<Rightarrow> kstate \<Rightarrow> kstate option" where
  "on_lists f s = map_option (\<lambda>l. s\<lparr>lists := l\<rparr>) (f (lists s))"

definition on_mem :: "(mm \<Rightarrow> mm option) \<Rightarrow> kstate \<Rightarrow> kstate option" where
  "on_mem f s = map_option (\<lambda>m. s\<lparr>mem := m\<rparr>) (f (mem s))"

definition set_status :: "nat \<Rightarrow> state_t \<Rightarrow> kstate \<Rightarrow> kstate" where
  "set_status t st s = upd_task t (\<lambda>p. p\<lparr>exec_status := st\<rparr>) s"

definition set_cont :: "nat \<Rightarrow> kcont \<Rightarrow> kstate \<Rightarrow> kstate" where
  "set_cont t c s = s\<lparr>kcont := (kcont s)(t := c)\<rparr>"

definition get_DIR :: "nat \<Rightarrow> kstate \<Rightarrow> nat" where
  "get_DIR t s = dir_pages_baseAddr (task s t)"

definition get_PT :: "nat \<Rightarrow> kstate \<Rightarrow> DWord" where
  "get_PT t s = get_PT_of (get_DIR t s) (mem s)"

definition get_quantum :: "nat \<Rightarrow> kstate \<Rightarrow> int" where
  "get_quantum t s = quantum (task s t)"

definition set_quantum :: "nat \<Rightarrow> int \<Rightarrow> kstate \<Rightarrow> kstate" where
  "set_quantum t new_quantum s = upd_task t (\<lambda>p. p\<lparr>quantum := new_quantum\<rparr>) s"

section \<open>Time accounting\<close>

text \<open>
  \<open>rdtsc\<close> is the environment's: its successive readings are \<open>tsc s 0\<close>, \<open>tsc s 1\<close>, \<dots>
\<close>

definition get_ticks :: "kstate \<Rightarrow> (DWord \<times> kstate) option" where
  "get_ticks s =
     (let v = tsc s (tsc_reads s); s1 = s\<lparr>tsc_reads := tsc_reads s + 1\<rparr>
      in map_option (\<lambda>t. (t, s1)) (ticks_of_tsc (ucast v) (ucast (drop_bit 32 v))))"

definition init_stats :: "nat \<Rightarrow> kstate \<Rightarrow> kstate option" where
  "init_stats t s = do {
     let s1 = upd_stats t (\<lambda>st. st\<lparr>user_ticks := 0, system_ticks := 0, blocked_ticks := 0, ready_ticks := 0\<rparr>) s;
     (n, s2) \<leftarrow> get_ticks s1;
     Some (upd_stats t (\<lambda>st. st\<lparr>elapsed_total_ticks := n, total_trans := 0,
                                  remaining_ticks := of_int DEFAULT_QUANTUM\<rparr>) s2)
   }"

definition user_to_sys_stats :: "kstate \<Rightarrow> kstate option" where
  "user_to_sys_stats s = do {
     (n, s1) \<leftarrow> get_ticks s;
     let s2 = upd_stats (current s1) (\<lambda>st. st\<lparr>user_ticks := user_ticks st + (n - elapsed_total_ticks st)\<rparr>) s1;
     (n', s3) \<leftarrow> get_ticks s2;
     Some (upd_stats (current s3) (\<lambda>st. st\<lparr>elapsed_total_ticks := n'\<rparr>) s3)
   }"

definition sys_to_user_stats :: "kstate \<Rightarrow> kstate option" where
  "sys_to_user_stats s = do {
     (n, s1) \<leftarrow> get_ticks s;
     let s2 = upd_stats (current s1) (\<lambda>st. st\<lparr>system_ticks := system_ticks st + (n - elapsed_total_ticks st)\<rparr>) s1;
     (n', s3) \<leftarrow> get_ticks s2;
     Some (upd_stats (current s3) (\<lambda>st. st\<lparr>elapsed_total_ticks := n'\<rparr>) s3)
   }"

definition sys_to_ready_stats :: "kstate \<Rightarrow> kstate option" where
  "sys_to_ready_stats s = do {
     (n, s1) \<leftarrow> get_ticks s;
     let s2 = upd_stats (current s1) (\<lambda>st. st\<lparr>system_ticks := system_ticks st + (n - elapsed_total_ticks st)\<rparr>) s1;
     (n', s3) \<leftarrow> get_ticks s2;
     Some (upd_stats (current s3) (\<lambda>st. st\<lparr>elapsed_total_ticks := n'\<rparr>) s3)
   }"

definition ready_to_sys_stats :: "kstate \<Rightarrow> kstate option" where
  "ready_to_sys_stats s = do {
     (n, s1) \<leftarrow> get_ticks s;
     let s2 = upd_stats (current s1) (\<lambda>st. st\<lparr>ready_ticks := ready_ticks st + (n - elapsed_total_ticks st)\<rparr>) s1;
     (n', s3) \<leftarrow> get_ticks s2;
     Some (upd_stats (current s3) (\<lambda>st. st\<lparr>elapsed_total_ticks := n'\<rparr>) s3)
   }"

definition sys_to_process_stats :: "nat \<Rightarrow> kstate \<Rightarrow> kstate option" where
  "sys_to_process_stats t s = do {
     (n, s1) \<leftarrow> get_ticks s;
     let s2 = upd_stats t (\<lambda>st. st\<lparr>ready_ticks := ready_ticks st + (n - elapsed_total_ticks st)\<rparr>) s1;
     (n', s3) \<leftarrow> get_ticks s2;
     Some (upd_stats t (\<lambda>st. st\<lparr>elapsed_total_ticks := n'\<rparr>) s3)
   }"


section \<open>What time accounting changes\<close>

text \<open>Reading the counter never fails, so the accounting functions are total.\<close>

definition ticks_now :: "kstate \<Rightarrow> DWord" where
  "ticks_now s = the (map_option fst (get_ticks s))"

lemma get_ticks_total: "get_ticks s = Some (ticks_now s, s\<lparr>tsc_reads := tsc_reads s + 1\<rparr>)"
proof -
  obtain t where "ticks_of_tsc (ucast (tsc s (tsc_reads s))) (ucast (drop_bit 32 (tsc s (tsc_reads s)))) = Some t"
    using ticks_of_tsc_correct by blast
  then show ?thesis by (simp add: ticks_now_def get_ticks_def Let_def)
qed

text \<open>\<open>stats_only s s'\<close>: nothing but accounting data differs.\<close>

definition stats_only :: "kstate \<Rightarrow> kstate \<Rightarrow> bool" where
  "stats_only s s' \<longleftrightarrow>
     (\<exists>f n. s' = s\<lparr>task := \<lambda>t. (task s t)\<lparr>process_stats := f t\<rparr>, tsc_reads := n\<rparr>)"

lemma stats_onlyE:
  assumes "stats_only s s'"
  obtains f n where "s' = s\<lparr>task := \<lambda>t. (task s t)\<lparr>process_stats := f t\<rparr>, tsc_reads := n\<rparr>"
  using assms unfolding stats_only_def by blast

lemma stats_only_refl: "stats_only s s"
  unfolding stats_only_def
  by (rule exI[of _ "\<lambda>t. process_stats (task s t)"], rule exI[of _ "tsc_reads s"]) simp

lemma stats_only_read: "stats_only s s1 \<Longrightarrow> stats_only s (s1\<lparr>tsc_reads := n\<rparr>)"
  by (elim stats_onlyE) (auto simp: stats_only_def)

lemma stats_only_upd:
  assumes "stats_only s s1"
  shows "stats_only s (upd_stats t g s1)"
proof -
  from assms obtain f n where "s1 = s\<lparr>task := \<lambda>t. (task s t)\<lparr>process_stats := f t\<rparr>, tsc_reads := n\<rparr>"
    by (rule stats_onlyE)
  then have "upd_stats t g s1 =
      s\<lparr>task := \<lambda>u. (task s u)\<lparr>process_stats := (f(t := g (f t))) u\<rparr>, tsc_reads := n\<rparr>"
    by (simp add: upd_stats_def upd_task_def fun_eq_iff)
  then show ?thesis unfolding stats_only_def by blast
qed

lemma stats_only_trans: "stats_only s s1 \<Longrightarrow> stats_only s1 s2 \<Longrightarrow> stats_only s s2"
  by (elim stats_onlyE) (auto simp: stats_only_def)

lemmas stats_only_intros = stats_only_refl stats_only_read stats_only_upd

lemma stats_functions_total:
  "\<exists>s'. user_to_sys_stats s = Some s' \<and> stats_only s s'"
  "\<exists>s'. sys_to_user_stats s = Some s' \<and> stats_only s s'"
  "\<exists>s'. sys_to_ready_stats s = Some s' \<and> stats_only s s'"
  "\<exists>s'. ready_to_sys_stats s = Some s' \<and> stats_only s s'"
  "\<exists>s'. sys_to_process_stats t s = Some s' \<and> stats_only s s'"
  "\<exists>s'. init_stats t s = Some s' \<and> stats_only s s'"
  unfolding user_to_sys_stats_def sys_to_user_stats_def sys_to_ready_stats_def ready_to_sys_stats_def
    sys_to_process_stats_def init_stats_def
  by (simp_all add: get_ticks_total Let_def stats_only_intros)

text \<open>Two readings bracket each accounted interval: what is charged, and the new start.\<close>

lemma sys_to_ready_stats_charges:
  "map_option (\<lambda>s'. process_stats (task s' (cur s))) (sys_to_ready_stats s) =
   (let st = process_stats (task s (cur s)) in
    Some (st\<lparr>system_ticks := system_ticks st + (ticks_now s - elapsed_total_ticks st),
              elapsed_total_ticks := ticks_now (s\<lparr>tsc_reads := tsc_reads s + 1\<rparr>)\<rparr>))"
  by (simp add: sys_to_ready_stats_def get_ticks_total Let_def upd_stats_def upd_task_def current_def)
    (simp add: ticks_now_def get_ticks_def Let_def option.map_comp comp_def)

text \<open>What a change of accounting data leaves alone.\<close>

lemma stats_only_frame [frame_laws]:
  assumes "stats_only s s'"
  shows "lists s' = lists s" "kstack s' = kstack s" "kcont s' = kcont s" "user_eax s' = user_eax s"
    "cur s' = cur s" "idle_task s' = idle_task s" "global_PID s' = global_PID s"
    "global_semID s' = global_semID s" "semaphores s' = semaphores s" "mem s' = mem s"
    "tss_esp0 s' = tss_esp0 s" "ebp_index s' = ebp_index s" "zeos_ticks s' = zeos_ticks s"
    "tsc s' = tsc s" "keyb s' = keyb s" "scr s' = scr s" "link s' = link s"
    "PID (task s' t) = PID (task s t)" "dir_pages_baseAddr (task s' t) = dir_pages_baseAddr (task s t)"
    "kernel_esp (task s' t) = kernel_esp (task s t)" "exec_status (task s' t) = exec_status (task s t)"
    "quantum (task s' t) = quantum (task s t)" "heap (task s' t) = heap (task s t)"
    "heapSize (task s' t) = heapSize (task s t)" "heapPages (task s' t) = heapPages (task s t)"
  using assms by (auto elim: stats_onlyE)

text \<open>
  C28. The ticks of the kernel's clock are the 64-bit time stamp counter divided by the cycles of a tick, as
  a 32-bit value, for every reading: the division in 32-bit steps never faults.
\<close>

theorem get_ticks_quotient:
  "get_ticks s = Some (of_int (uint (tsc s (tsc_reads s)) div 109000), s\<lparr>tsc_reads := tsc_reads s + 1\<rparr>)"
proof -
  let ?v = "tsc s (tsc_reads s)"
  obtain t where t: "ticks_of_tsc (ucast ?v) (ucast (drop_bit 32 ?v)) = Some t"
    "uint t = ((uint (ucast (drop_bit 32 ?v) :: DWord) * 2 ^ 32 + uint (ucast ?v :: DWord)) div 109000) mod 2 ^ 32"
    using ticks_of_tsc_correct by blast
  have "uint (ucast (drop_bit 32 ?v) :: DWord) = uint ?v div 2 ^ 32"
  proof -
    have "uint ?v div 2 ^ 32 < 2 ^ 32" using uint_lt2p[of ?v] by simp
    moreover have "uint (drop_bit 32 ?v) = uint ?v div 2 ^ 32"
      by (simp add: drop_bit_eq_div uint_div)
    ultimately show ?thesis by (simp only: unsigned_ucast_eq) (simp add: take_bit_int_eq_self pos_imp_zdiv_nonneg_iff)
  qed
  moreover have "uint (ucast ?v :: DWord) = uint ?v mod 2 ^ 32" by (simp add: unsigned_ucast_eq take_bit_eq_mod)
  ultimately have "uint t = (uint ?v div 109000) mod 2 ^ 32" using t(2) by simp
  then have "t = of_int (uint ?v div 109000)" by (simp add: word_uint_eq_iff uint_word_of_int_eq take_bit_eq_mod)
  with t(1) show ?thesis by (simp add: get_ticks_def Let_def)
qed

end
