(* ===== verification/Sched.thy ===== *)
theory Sched
  imports Kernel
begin

text \<open>
  The scheduler of \<open>zeos/sched.c\<close>: directories, the initial processes, the round robin policy and
  the context switch of \<open>zeos/task_switch_asm.S\<close>. \<open>kwf s Q\<close> is the invariant of the kernel's
  queues: \<open>Q\<close> gives the content of every queue, the pointer lists stand for it, the status of a
  queued task fits its queue, and the running task is on no queue. Every scheduling operation is
  shown to refine a plain operation on \<open>Q\<close>, without a fault.
\<close>

section \<open>Directories and initial processes\<close>

definition allocate_DIR :: "nat \<Rightarrow> kstate \<Rightarrow> int \<times> kstate" where
  "allocate_DIR t s =
     (case find (\<lambda>i. dirCounter (mem s) i = 0) [0..<NR_TASKS] of
        Some i \<Rightarrow>
          (let s1 = upd_task t (\<lambda>p. p\<lparr>dir_pages_baseAddr := i\<rparr>) s;
               m = mem s1
           in (1, s1\<lparr>mem := m\<lparr>dirCounter := (dirCounter m)(i := dirCounter m i + 1)\<rparr>\<rparr>))
      | None \<Rightarrow> (-ENOMEM, s))"

definition write_kstack :: "nat \<Rightarrow> nat \<Rightarrow> DWord \<Rightarrow> kstate \<Rightarrow> kstate" where
  "write_kstack t i v s = s\<lparr>kstack := (kstack s)(t := (kstack s t)(i := v))\<rparr>"

text \<open>\<open>list_first\<close> followed by \<open>list_del\<close> and \<open>list_head_to_task_struct\<close>.\<close>

definition take_task :: "laddr \<Rightarrow> kstate \<Rightarrow> (nat \<times> kstate) option" where
  "take_task q s = do {
     l \<leftarrow> list_first q (lists s);
     s1 \<leftarrow> on_lists (list_del l) s;
     t \<leftarrow> list_head_to_task_struct l;
     Some (t, s1)
   }"

definition init_idle :: "kstate \<Rightarrow> kstate option" where
  "init_idle s = do {
     (t, s1) \<leftarrow> take_task Freequeue s;
     let s2 = s1\<lparr>idle_task := t\<rparr>;
     let s3 = upd_task t (\<lambda>p. p\<lparr>PID := 0, quantum := DEFAULT_QUANTUM\<rparr>) s2;
     s4 \<leftarrow> init_stats t s3;
     let s5 = snd (allocate_DIR t s4);
     let s6 = write_kstack t (KERNEL_STACK_SIZE - 1) (cpu_idle_addr (link s5)) s5;
     let s7 = write_kstack t (KERNEL_STACK_SIZE - 2) 0 s6;
     Some (set_cont t Idle_start
       (upd_task t (\<lambda>p. p\<lparr>kernel_esp := KERNEL_STACK_SIZE - 2, heapSize := 0\<rparr>) s7))
   }"

definition init_task1 :: "kstate \<Rightarrow> kstate option" where
  "init_task1 s = do {
     (t, s1) \<leftarrow> take_task Freequeue s;
     let s2 = upd_task t (\<lambda>p. p\<lparr>PID := 1, quantum := DEFAULT_QUANTUM\<rparr>) s1;
     s3 \<leftarrow> init_stats t s2;
     let s4 = upd_task t (\<lambda>p. p\<lparr>heapSize := 0\<rparr>) s3;
     let s5 = snd (allocate_DIR t s4);
     s6 \<leftarrow> on_mem (set_user_pages (get_DIR t s5)) s5;
     let s7 = s6\<lparr>tss_esp0 := t\<rparr>;
     on_mem (\<lambda>m. Some (set_cr3 (get_DIR t s7) m)) s7
   }"

definition init_sched :: "kstate \<Rightarrow> kstate option" where
  "init_sched s = do {
     let s1 = s\<lparr>semaphores := fold (\<lambda>i f. f(i := (f i)\<lparr>ownerPID := -1\<rparr>)) [0..<NR_SEMS] (semaphores s)\<rparr>;
     let s2 = s1\<lparr>lists := INIT_LIST_HEAD Keyboardqueue (INIT_LIST_HEAD Blocked
                           (INIT_LIST_HEAD Readyqueue (INIT_LIST_HEAD Freequeue (lists s1))))\<rparr>;
     foldM (\<lambda>i. on_lists (list_add_tail (TaskList i) Freequeue)) [0..<NR_TASKS] s2
   }"

section \<open>The round robin policy\<close>

text \<open>
  The context switch: \<open>inner_task_switch\<close> sets the kernel stack of the TSS and CR3, and
  \<open>stack_swap\<close> saves the frame pointer in the old task and takes over the new task's stack.
\<close>

definition task_switch :: "nat \<Rightarrow> kstate \<Rightarrow> kstate" where
  "task_switch new s =
     (let s1 = s\<lparr>tss_esp0 := new\<rparr>;
          s2 = s1\<lparr>mem := set_cr3 (get_DIR new s1) (mem s1)\<rparr>;
          s3 = upd_task (current s2) (\<lambda>p. p\<lparr>kernel_esp := ebp_index s2\<rparr>) s2
      in s3\<lparr>cur := new, ebp_index := kernel_esp (task s3 new)\<rparr>)"

definition sched_next_rr :: "kstate \<Rightarrow> kstate option" where
  "sched_next_rr s = do {
     (t, s1) \<leftarrow> (if \<not> list_empty Readyqueue (lists s) then take_task Readyqueue s
                 else Some (idle_task s, s));
     let s2 = upd_stats t (\<lambda>st. st\<lparr>remaining_ticks := of_int (get_quantum t s1)\<rparr>) s1;
     s3 \<leftarrow> sys_to_process_stats t s2;
     let s4 = upd_stats t (\<lambda>st. st\<lparr>total_trans := total_trans st + 1\<rparr>) s3;
     Some (task_switch t (set_status t ST_RUN s4))
   }"

definition update_process_state_rr :: "nat \<Rightarrow> laddr option \<Rightarrow> kstate \<Rightarrow> kstate option" where
  "update_process_state_rr t dest s = do {
     s1 \<leftarrow> (if exec_status (task s t) \<noteq> ST_RUN then on_lists (list_del (TaskList t)) s else Some s);
     case dest of None \<Rightarrow> Some s1
     | Some q \<Rightarrow> do {
         s2 \<leftarrow> on_lists (list_add_tail (TaskList t) q) s1;
         s3 \<leftarrow> sys_to_ready_stats s2;
         Some (set_status t (if q \<noteq> Readyqueue then ST_BLOCKED else ST_READY) s3)
       }
   }"

definition needs_sched_rr :: "kstate \<Rightarrow> int \<times> kstate" where
  "needs_sched_rr s =
     (let c = current s; r = remaining_ticks (process_stats (task s c)) in
      if r = 0 \<and> \<not> list_empty Readyqueue (lists s) then (1, s)
      else if r = 0 \<and> list_empty Readyqueue (lists s) then
        (0, upd_stats c (\<lambda>st. st\<lparr>remaining_ticks := of_int (get_quantum c s),
                                  total_trans := total_trans st + 1\<rparr>) s)
      else (0, s))"

definition update_sched_data_rr :: "kstate \<Rightarrow> kstate" where
  "update_sched_data_rr s =
     upd_stats (current s) (\<lambda>st. st\<lparr>remaining_ticks := remaining_ticks st - 1\<rparr>) s"

definition schedule :: "kstate \<Rightarrow> kstate option" where
  "schedule s =
     (let s1 = update_sched_data_rr s; (need, s2) = needs_sched_rr s1 in
      if need \<noteq> 0 then do {
        s3 \<leftarrow> update_process_state_rr (current s2) (Some Readyqueue) s2;
        sched_next_rr (set_cont (current s3) In_user s3)
      } else Some s2)"

definition unblock :: "nat \<Rightarrow> kstate \<Rightarrow> kstate option" where
  "unblock t s = do {
     s1 \<leftarrow> on_lists (list_del (TaskList t)) s;
     s2 \<leftarrow> on_lists (list_add (TaskList t) Readyqueue) s1;
     s3 \<leftarrow> sys_to_ready_stats s2;
     Some (set_status t ST_READY s3)
   }"

definition block :: "nat \<Rightarrow> laddr \<Rightarrow> kstate \<Rightarrow> kstate option" where
  "block t dest s = do {
     s1 \<leftarrow> (if exec_status (task s t) \<noteq> ST_RUN then on_lists (list_del (TaskList t)) s else Some s);
     s2 \<leftarrow> on_lists (list_add_tail (TaskList t) dest) s1;
     s3 \<leftarrow> sys_to_ready_stats s2;
     Some (set_status t ST_BLOCKED s3)
   }"


section \<open>The invariant of the queues\<close>

definition heads :: "kstate \<Rightarrow> laddr set" where
  "heads s = {Freequeue, Readyqueue, Blocked, Keyboardqueue} \<union>
     SemQueue ` {n. n < NR_SEMS \<and> 0 \<le> ownerPID (semaphores s n)}"

definition status :: "kstate \<Rightarrow> nat \<Rightarrow> state_t" where
  "status s t = exec_status (task s t)"

text \<open>The status of a task on a queue; a free task may have any.\<close>

definition queue_status :: "laddr \<Rightarrow> state_t \<Rightarrow> bool" where
  "queue_status q st \<longleftrightarrow>
     (case q of Readyqueue \<Rightarrow> st = ST_READY | Freequeue \<Rightarrow> True | _ \<Rightarrow> st = ST_BLOCKED)"

text \<open>The pointer lists stand for \<open>Q\<close>, and the queues hold tasks.\<close>

definition ks :: "kstate \<Rightarrow> (laddr \<Rightarrow> laddr list) \<Rightarrow> bool" where
  "ks s Q \<longleftrightarrow> qsys (heads s) Q (lists s) \<and> idle_task s < NR_TASKS \<and>
     (\<forall>q \<in> heads s. \<forall>x \<in> set (Q q). \<exists>i < NR_TASKS. x = TaskList i)"

definition status_ok :: "kstate \<Rightarrow> (laddr \<Rightarrow> laddr list) \<Rightarrow> bool" where
  "status_ok s Q \<longleftrightarrow> (\<forall>q \<in> heads s. \<forall>i. TaskList i \<in> set (Q q) \<longrightarrow>
     queue_status q (status s i) \<and> (i = idle_task s \<longrightarrow> q = Readyqueue))"

text \<open>Nobody waits at a semaphore that is open.\<close>

definition sem_ok :: "kstate \<Rightarrow> (laddr \<Rightarrow> laddr list) \<Rightarrow> bool" where
  "sem_ok s Q \<longleftrightarrow> (\<forall>n < NR_SEMS. 0 \<le> ownerPID (semaphores s n) \<longrightarrow> 0 < counter (semaphores s n) \<longrightarrow>
     Q (SemQueue n) = [])"

definition off_queues :: "kstate \<Rightarrow> (laddr \<Rightarrow> laddr list) \<Rightarrow> nat \<Rightarrow> bool" where
  "off_queues s Q t \<longleftrightarrow> (\<forall>q \<in> heads s. TaskList t \<notin> set (Q q))"

definition kqs :: "kstate \<Rightarrow> (laddr \<Rightarrow> laddr list) \<Rightarrow> bool" where
  "kqs s Q \<longleftrightarrow> ks s Q \<and> status_ok s Q \<and> sem_ok s Q"

definition kwf :: "kstate \<Rightarrow> (laddr \<Rightarrow> laddr list) \<Rightarrow> bool" where
  "kwf s Q \<longleftrightarrow> kqs s Q \<and> cur s < NR_TASKS \<and> status s (cur s) = ST_RUN \<and> off_queues s Q (cur s)"

lemma fixed_heads [simp]:
  "Freequeue \<in> heads s" "Readyqueue \<in> heads s" "Blocked \<in> heads s" "Keyboardqueue \<in> heads s"
  "TaskList i \<notin> heads s"
  by (auto simp: heads_def)

lemma sem_head [simp]: "SemQueue n \<in> heads s \<longleftrightarrow> n < NR_SEMS \<and> 0 \<le> ownerPID (semaphores s n)"
  by (auto simp: heads_def)

section \<open>Frames\<close>

text \<open>\<open>sframe s s'\<close>: only the lists, the status and the accounting data of tasks may differ.\<close>

definition sframe :: "kstate \<Rightarrow> kstate \<Rightarrow> bool" where
  "sframe s s' \<longleftrightarrow>
     (\<exists>l f g n. s' = s\<lparr>lists := l, task := \<lambda>u. (task s u)\<lparr>exec_status := g u, process_stats := f u\<rparr>,
                       tsc_reads := n\<rparr>)"

lemma sframeE:
  assumes "sframe s s'"
  obtains l f g n where "s' = s\<lparr>lists := l,
    task := \<lambda>u. (task s u)\<lparr>exec_status := g u, process_stats := f u\<rparr>, tsc_reads := n\<rparr>"
  using assms unfolding sframe_def by blast

lemma sframeI: "s' = s\<lparr>lists := l, task := \<lambda>u. (task s u)\<lparr>exec_status := g u, process_stats := f u\<rparr>,
    tsc_reads := n\<rparr> \<Longrightarrow> sframe s s'"
  unfolding sframe_def by blast

lemma sframe_trans: "sframe s s1 \<Longrightarrow> sframe s1 s2 \<Longrightarrow> sframe s s2"
  by (elim sframeE) (auto simp: sframe_def)

lemma sframe_refl: "sframe s s"
  by (rule sframeI[where l = "lists s" and g = "\<lambda>u. exec_status (task s u)" and
        f = "\<lambda>u. process_stats (task s u)" and n = "tsc_reads s"]) simp

lemma sframe_stats: "stats_only s s' \<Longrightarrow> sframe s s'"
  by (elim stats_onlyE, rule sframeI[where l = "lists s" and g = "\<lambda>u. exec_status (task s u)"]) simp

lemma sframe_lists: "sframe s (s\<lparr>lists := l\<rparr>)"
  by (rule sframeI[where g = "\<lambda>u. exec_status (task s u)" and
        f = "\<lambda>u. process_stats (task s u)" and n = "tsc_reads s"]) simp

lemma sframe_set_status: "sframe s (set_status t st s)"
  by (rule sframeI[where l = "lists s" and g = "(\<lambda>u. exec_status (task s u))(t := st)" and
        f = "\<lambda>u. process_stats (task s u)" and n = "tsc_reads s"])
    (simp add: set_status_def upd_task_def fun_eq_iff)

lemma sframe_frame [frame_laws]:
  assumes "sframe s s'"
  shows "kstack s' = kstack s" "kcont s' = kcont s" "user_eax s' = user_eax s"
    "cur s' = cur s" "idle_task s' = idle_task s" "global_PID s' = global_PID s"
    "global_semID s' = global_semID s" "semaphores s' = semaphores s" "mem s' = mem s"
    "tss_esp0 s' = tss_esp0 s" "ebp_index s' = ebp_index s" "zeos_ticks s' = zeos_ticks s"
    "tsc s' = tsc s" "keyb s' = keyb s" "scr s' = scr s" "link s' = link s"
    "PID (task s' t) = PID (task s t)" "dir_pages_baseAddr (task s' t) = dir_pages_baseAddr (task s t)"
    "kernel_esp (task s' t) = kernel_esp (task s t)"
    "quantum (task s' t) = quantum (task s t)" "heap (task s' t) = heap (task s t)"
    "heapSize (task s' t) = heapSize (task s t)" "heapPages (task s' t) = heapPages (task s t)"
    "heads s' = heads s"
  using assms by (auto elim!: sframeE simp: heads_def)

lemma status_set_status [simp]: "status (set_status t st s) = (status s)(t := st)"
  by (auto simp: status_def set_status_def upd_task_def)

lemma status_stats: "stats_only s s' \<Longrightarrow> status s' = status s"
  by (auto simp: status_def fun_eq_iff frame_laws)

lemma lists_set_status [simp]: "lists (set_status t st s) = lists s"
  by (simp add: set_status_def upd_task_def)

lemma status_lists [simp]: "status (s\<lparr>lists := l\<rparr>) = status s"
  by (simp add: status_def fun_eq_iff)

lemma heads_lists [simp]: "heads (s\<lparr>lists := l\<rparr>) = heads s"
  by (simp add: heads_def)

text \<open>\<open>ks\<close> reads the lists, the heads and the idle task only.\<close>

lemma ks_cong:
  "ks s Q \<Longrightarrow> lists s' = lists s \<Longrightarrow> heads s' = heads s \<Longrightarrow> idle_task s' = idle_task s \<Longrightarrow> ks s' Q"
  by (simp add: ks_def)

lemma ks_stats: "ks s Q \<Longrightarrow> stats_only s s' \<Longrightarrow> ks s' Q"
  by (rule ks_cong) (simp_all add: frame_laws sframe_stats[THEN sframe_frame(24)])

lemma ks_set_status: "ks s Q \<Longrightarrow> ks (set_status t st s) Q"
  by (rule ks_cong) (simp_all add: sframe_frame[OF sframe_set_status])

section \<open>The list operations on the kernel's queues\<close>

lemma ks_upd:
  assumes "ks s Q" and "qsys (heads s) (Q(q := xs)) l" and "\<forall>x \<in> set xs. \<exists>i < NR_TASKS. x = TaskList i"
  shows "ks (s\<lparr>lists := l\<rparr>) (Q(q := xs))"
  using assms by (auto simp: ks_def)

lemma ks_tasks: "ks s Q \<Longrightarrow> q \<in> heads s \<Longrightarrow> x \<in> set (Q q) \<Longrightarrow> \<exists>i < NR_TASKS. x = TaskList i"
  unfolding ks_def by blast

lemma ks_enq:
  assumes "ks s Q" and "q \<in> heads s" and "t < NR_TASKS" and "off_queues s Q t"
  shows "\<exists>l. list_add_tail (TaskList t) q (lists s) = Some l \<and>
    ks (s\<lparr>lists := l\<rparr>) (Q(q := Q q @ [TaskList t]))"
proof -
  have "qsys (heads s) Q (lists s)" using assms by (simp add: ks_def)
  from lq.rep_enq[OF this assms(2), of "TaskList t"] obtain l where
    l: "list_add_tail (TaskList t) q (lists s) = Some l" "qsys (heads s) (Q(q := Q q @ [TaskList t])) l"
    using assms(4) by (auto simp: off_queues_def)
  have "ks (s\<lparr>lists := l\<rparr>) (Q(q := Q q @ [TaskList t]))"
    by (rule ks_upd[OF assms(1) l(2)]) (use assms(3) ks_tasks[OF assms(1,2)] in auto)
  with l show ?thesis by blast
qed

lemma ks_push:
  assumes "ks s Q" and "q \<in> heads s" and "t < NR_TASKS" and "off_queues s Q t"
  shows "\<exists>l. list_add (TaskList t) q (lists s) = Some l \<and>
    ks (s\<lparr>lists := l\<rparr>) (Q(q := TaskList t # Q q))"
proof -
  have "qsys (heads s) Q (lists s)" using assms by (simp add: ks_def)
  from lq.rep_push[OF this assms(2), of "TaskList t"] obtain l where
    l: "list_add (TaskList t) q (lists s) = Some l" "qsys (heads s) (Q(q := TaskList t # Q q)) l"
    using assms(4) by (auto simp: off_queues_def)
  have "ks (s\<lparr>lists := l\<rparr>) (Q(q := TaskList t # Q q))"
    by (rule ks_upd[OF assms(1) l(2)]) (use assms(3) ks_tasks[OF assms(1,2)] in auto)
  with l show ?thesis by blast
qed

lemma ks_empty: "ks s Q \<Longrightarrow> q \<in> heads s \<Longrightarrow> list_empty q (lists s) \<longleftrightarrow> Q q = []"
  using lq.rep_emp[of "heads s" Q "lists s" q] by (simp add: ks_def)

lemma ks_del_first:
  assumes "ks s Q" and "q \<in> heads s" and "Q q = x # xs"
  shows "\<exists>t l. x = TaskList t \<and> t < NR_TASKS \<and> list_first q (lists s) = Some (TaskList t) \<and>
    list_del (TaskList t) (lists s) = Some l \<and> ks (s\<lparr>lists := l\<rparr>) (Q(q := xs)) \<and>
    off_queues (s\<lparr>lists := l\<rparr>) (Q(q := xs)) t"
proof -
  have qs: "qsys (heads s) Q (lists s)" using assms by (simp add: ks_def)
  obtain t where t: "x = TaskList t" "t < NR_TASKS" using assms by (force simp: ks_def)
  from lq.take_first[OF qs assms(2,3)] t obtain l where
    l: "list_first q (lists s) = Some (TaskList t)" "list_del (TaskList t) (lists s) = Some l"
      "qsys (heads s) (Q(q := xs)) l" by blast
  have "ks (s\<lparr>lists := l\<rparr>) (Q(q := xs))"
    by (rule ks_upd[OF assms(1) l(3)]) (use assms(3) ks_tasks[OF assms(1,2)] in auto)
  moreover have "off_queues (s\<lparr>lists := l\<rparr>) (Q(q := xs)) t"
    using lq.removed_fresh[OF qs assms(2,3)] t by (auto simp: off_queues_def)
  ultimately show ?thesis using t l by blast
qed

lemma ks_take_task:
  assumes "ks s Q" and "q \<in> heads s" and "Q q = x # xs"
  shows "\<exists>t l. x = TaskList t \<and> t < NR_TASKS \<and> take_task q s = Some (t, s\<lparr>lists := l\<rparr>) \<and>
    ks (s\<lparr>lists := l\<rparr>) (Q(q := xs)) \<and> off_queues (s\<lparr>lists := l\<rparr>) (Q(q := xs)) t"
  using ks_del_first[OF assms]
  by (auto simp: take_task_def on_lists_def list_head_to_task_struct_def)


section \<open>Scheduling operations on the queues\<close>

text \<open>
  \<open>queue_step s r Q' st'\<close>: what the proofs below establish of the result \<open>r\<close> of an operation: it
  returns, it changed queues, statuses and accounting only, and the lists stand for \<open>Q'\<close>.
\<close>

definition queue_step ::
  "kstate \<Rightarrow> kstate option \<Rightarrow> (laddr \<Rightarrow> laddr list) \<Rightarrow> (nat \<Rightarrow> state_t) \<Rightarrow> bool" where
  "queue_step s r Q' st' \<longleftrightarrow> (\<exists>s'. r = Some s' \<and> sframe s s' \<and> ks s' Q' \<and> status s' = st')"

lemma queue_stepE:
  assumes "queue_step s r Q' st'"
  obtains s' where "r = Some s'" "sframe s s'" "ks s' Q'" "status s' = st'"
  using assms unfolding queue_step_def by blast

lemma enq_with_status:
  assumes "ks s Q" and "q \<in> heads s" and "t < NR_TASKS" and "off_queues s Q t"
  shows "queue_step s (do { s2 \<leftarrow> on_lists (list_add_tail (TaskList t) q) s;
                            s3 \<leftarrow> sys_to_ready_stats s2; Some (set_status t st s3) })
           (Q(q := Q q @ [TaskList t])) ((status s)(t := st))"
proof -
  from ks_enq[OF assms] obtain l where l: "list_add_tail (TaskList t) q (lists s) = Some l"
    "ks (s\<lparr>lists := l\<rparr>) (Q(q := Q q @ [TaskList t]))" by blast
  obtain s3 where s3: "sys_to_ready_stats (s\<lparr>lists := l\<rparr>) = Some s3" "stats_only (s\<lparr>lists := l\<rparr>) s3"
    using stats_functions_total(3) by blast
  have "sframe s (set_status t st s3)"
    by (rule sframe_trans[OF sframe_lists sframe_trans[OF sframe_stats[OF s3(2)] sframe_set_status]])
  moreover have "ks (set_status t st s3) (Q(q := Q q @ [TaskList t]))"
    by (rule ks_set_status[OF ks_stats[OF l(2) s3(2)]])
  moreover have "status (set_status t st s3) = (status s)(t := st)"
    using status_stats[OF s3(2)] by simp
  ultimately show ?thesis using l(1) s3(1) by (auto simp: queue_step_def on_lists_def)
qed

lemma push_with_status:
  assumes "ks s Q" and "q \<in> heads s" and "t < NR_TASKS" and "off_queues s Q t"
  shows "queue_step s (do { s2 \<leftarrow> on_lists (list_add (TaskList t) q) s;
                            s3 \<leftarrow> sys_to_ready_stats s2; Some (set_status t st s3) })
           (Q(q := TaskList t # Q q)) ((status s)(t := st))"
proof -
  from ks_push[OF assms] obtain l where l: "list_add (TaskList t) q (lists s) = Some l"
    "ks (s\<lparr>lists := l\<rparr>) (Q(q := TaskList t # Q q))" by blast
  obtain s3 where s3: "sys_to_ready_stats (s\<lparr>lists := l\<rparr>) = Some s3" "stats_only (s\<lparr>lists := l\<rparr>) s3"
    using stats_functions_total(3) by blast
  have "sframe s (set_status t st s3)"
    by (rule sframe_trans[OF sframe_lists sframe_trans[OF sframe_stats[OF s3(2)] sframe_set_status]])
  moreover have "ks (set_status t st s3) (Q(q := TaskList t # Q q))"
    by (rule ks_set_status[OF ks_stats[OF l(2) s3(2)]])
  moreover have "status (set_status t st s3) = (status s)(t := st)"
    using status_stats[OF s3(2)] by simp
  ultimately show ?thesis using l(1) s3(1) by (auto simp: queue_step_def on_lists_def)
qed

lemma update_process_state_step:
  assumes "ks s Q" and "q \<in> heads s" and "t < NR_TASKS" and "off_queues s Q t" and "status s t = ST_RUN"
  shows "queue_step s (update_process_state_rr t (Some q) s) (Q(q := Q q @ [TaskList t]))
    ((status s)(t := if q \<noteq> Readyqueue then ST_BLOCKED else ST_READY))"
  using enq_with_status[OF assms(1-4)] assms(5) by (simp add: update_process_state_rr_def status_def)

lemma block_step:
  assumes "ks s Q" and "q \<in> heads s" and "t < NR_TASKS" and "off_queues s Q t" and "status s t = ST_RUN"
  shows "queue_step s (block t q s) (Q(q := Q q @ [TaskList t])) ((status s)(t := ST_BLOCKED))"
  using enq_with_status[OF assms(1-4)] assms(5) by (simp add: block_def status_def)

text \<open>Unblocking the first waiter of a queue puts it at the front of the ready queue.\<close>

lemma unblock_first_step:
  assumes "ks s Q" and "q \<in> heads s" and "q \<noteq> Readyqueue" and "Q q = x # xs"
  shows "\<exists>t. x = TaskList t \<and> t < NR_TASKS \<and> list_first q (lists s) = Some (TaskList t) \<and>
    queue_step s (unblock t s) (Q(q := xs, Readyqueue := TaskList t # Q Readyqueue))
      ((status s)(t := ST_READY))"
proof -
  from ks_del_first[OF assms(1,2,4)] obtain t l where t: "x = TaskList t" "t < NR_TASKS"
    "list_first q (lists s) = Some (TaskList t)" "list_del (TaskList t) (lists s) = Some l"
    "ks (s\<lparr>lists := l\<rparr>) (Q(q := xs))" "off_queues (s\<lparr>lists := l\<rparr>) (Q(q := xs)) t" by blast
  have "Readyqueue \<in> heads (s\<lparr>lists := l\<rparr>)" by simp
  from push_with_status[OF t(5) this t(2,6), of ST_READY]
  obtain s' where "(do { s2 \<leftarrow> on_lists (list_add (TaskList t) Readyqueue) (s\<lparr>lists := l\<rparr>);
                         s3 \<leftarrow> sys_to_ready_stats s2; Some (set_status t ST_READY s3) }) = Some s'"
    "sframe (s\<lparr>lists := l\<rparr>) s'" "ks s' (Q(q := xs, Readyqueue := TaskList t # Q Readyqueue))"
    "status s' = (status s)(t := ST_READY)"
    using assms(3) by (elim queue_stepE) auto
  moreover from this have "unblock t s = Some s'" using t(4) by (simp add: unblock_def on_lists_def)
  ultimately have "queue_step s (unblock t s) (Q(q := xs, Readyqueue := TaskList t # Q Readyqueue))
      ((status s)(t := ST_READY))"
    using sframe_trans[OF sframe_lists] by (auto simp: queue_step_def)
  with t show ?thesis by blast
qed


text \<open>
  Choosing the next process. \<open>next_task\<close> and \<open>ready_rest\<close> say it on the contents: the first of the
  ready queue, or the idle task when nobody is ready.
\<close>

definition next_task :: "kstate \<Rightarrow> (laddr \<Rightarrow> laddr list) \<Rightarrow> nat" where
  "next_task s Q = (case Q Readyqueue of TaskList t # _ \<Rightarrow> t | _ \<Rightarrow> idle_task s)"

definition ready_rest :: "(laddr \<Rightarrow> laddr list) \<Rightarrow> laddr \<Rightarrow> laddr list" where
  "ready_rest Q = Q(Readyqueue := tl (Q Readyqueue))"

text \<open>What the switch itself changes besides the queue data.\<close>

definition switched :: "kstate \<Rightarrow> nat \<Rightarrow> kstate \<Rightarrow> bool" where
  "switched s t s' \<longleftrightarrow> (\<exists>s1. sframe s s1 \<and> s' = task_switch t s1)"

lemma switched_frame [frame_laws]:
  assumes "switched s t s'"
  shows "cur s' = t" "kstack s' = kstack s" "kcont s' = kcont s" "user_eax s' = user_eax s"
    "idle_task s' = idle_task s" "global_PID s' = global_PID s" "global_semID s' = global_semID s"
    "semaphores s' = semaphores s" "tss_esp0 s' = t" "zeos_ticks s' = zeos_ticks s" "keyb s' = keyb s"
    "scr s' = scr s" "link s' = link s" "heads s' = heads s" "PID (task s' u) = PID (task s u)"
    "dir_pages_baseAddr (task s' u) = dir_pages_baseAddr (task s u)"
    "mem s' = (mem s)\<lparr>cr3_dir := dir_pages_baseAddr (task s t)\<rparr>"
  using assms
  by (auto simp: switched_def task_switch_def Let_def sframe_frame upd_task_def heads_def set_cr3_def
      get_DIR_def)

lemma task_switch_ks: "ks s Q \<Longrightarrow> ks (task_switch t s) Q"
  by (rule ks_cong) (simp_all add: task_switch_def Let_def upd_task_def heads_def)

lemma task_switch_status: "status (task_switch t s) = status s"
  by (auto simp: task_switch_def Let_def upd_task_def status_def)

lemma sched_next_step:
  assumes "ks s Q"
  shows "\<exists>s'. sched_next_rr s = Some s' \<and> switched s (next_task s Q) s' \<and> ks s' (ready_rest Q) \<and>
    status s' = (status s)(next_task s Q := ST_RUN) \<and> next_task s Q < NR_TASKS \<and>
    (Q Readyqueue \<noteq> [] \<longrightarrow> off_queues s' (ready_rest Q) (next_task s Q))"
proof -
  let ?t = "next_task s Q"
  obtain s1 where s1: "(if \<not> list_empty Readyqueue (lists s) then take_task Readyqueue s
      else Some (idle_task s, s)) = Some (?t, s1)" "sframe s s1" "ks s1 (ready_rest Q)"
      "status s1 = status s" "?t < NR_TASKS" "Q Readyqueue \<noteq> [] \<longrightarrow> off_queues s1 (ready_rest Q) ?t"
  proof (cases "Q Readyqueue")
    case Nil
    with assms have "list_empty Readyqueue (lists s)" by (simp add: ks_empty)
    moreover have "ks s (ready_rest Q)" using assms Nil by (simp add: ready_rest_def fun_upd_idem)
    ultimately show ?thesis using Nil assms that[of s]
      by (simp add: next_task_def sframe_refl ks_def)
  next
    case (Cons x xs)
    with assms have "\<not> list_empty Readyqueue (lists s)" by (simp add: ks_empty)
    with ks_take_task[OF assms fixed_heads(2) Cons] that Cons show ?thesis
      by (auto simp: next_task_def ready_rest_def sframe_lists)
  qed
  define s2 where "s2 = upd_stats ?t (\<lambda>st. st\<lparr>remaining_ticks := of_int (get_quantum ?t s1)\<rparr>) s1"
  obtain s3 where s3: "sys_to_process_stats ?t s2 = Some s3" "stats_only s2 s3"
    using stats_functions_total(5) by blast
  define s4 where "s4 = upd_stats ?t (\<lambda>st. st\<lparr>total_trans := total_trans st + 1\<rparr>) s3"
  have so: "stats_only s1 s4"
    unfolding s4_def
    by (rule stats_only_upd, rule stats_only_trans[OF _ s3(2)]) (simp add: s2_def stats_only_upd stats_only_refl)
  define s5 where "s5 = set_status ?t ST_RUN s4"
  have res: "sched_next_rr s = Some (task_switch ?t s5)"
    using s1(1) s3(1) by (simp add: sched_next_rr_def s2_def[symmetric] s4_def s5_def Let_def)
  have fr: "sframe s s5"
    unfolding s5_def by (rule sframe_trans[OF s1(2) sframe_trans[OF sframe_stats[OF so] sframe_set_status]])
  have k5: "ks s5 (ready_rest Q)" unfolding s5_def by (rule ks_set_status[OF ks_stats[OF s1(3) so]])
  have st5: "status s5 = (status s)(?t := ST_RUN)" unfolding s5_def using status_stats[OF so] s1(4) by simp
  have "heads (task_switch ?t s5) = heads s"
    using switched_frame(14)[of s ?t] fr by (auto simp: switched_def)
  then have "Q Readyqueue \<noteq> [] \<longrightarrow> off_queues (task_switch ?t s5) (ready_rest Q) ?t"
    using s1(6) sframe_frame(24)[OF s1(2)] by (simp add: off_queues_def)
  with res fr k5 st5 s1(5) show ?thesis
    by (auto simp: switched_def task_switch_status intro: task_switch_ks)
qed


lemma sem_ok_cong:
  "sem_ok s Q \<Longrightarrow> semaphores s' = semaphores s \<Longrightarrow> (\<And>n. Q' (SemQueue n) = Q (SemQueue n)) \<Longrightarrow> sem_ok s' Q'"
  by (simp add: sem_ok_def)

lemma status_ok_idle_off:
  "status_ok s Q \<Longrightarrow> Q Readyqueue = [] \<Longrightarrow> off_queues s Q (idle_task s)"
  unfolding status_ok_def off_queues_def by (metis empty_iff list.set(1))

text \<open>From a state whose queues are in order, choosing the next process leads to a proper state.\<close>

lemma sched_next_kwf:
  assumes "kqs s Q"
  shows "\<exists>s'. sched_next_rr s = Some s' \<and> kwf s' (ready_rest Q) \<and> switched s (next_task s Q) s' \<and>
    status s' = (status s)(next_task s Q := ST_RUN)"
proof -
  let ?t = "next_task s Q"
  have k: "ks s Q" "status_ok s Q" "sem_ok s Q" using assms by (auto simp: kqs_def)
  from sched_next_step[OF k(1)] obtain s' where s': "sched_next_rr s = Some s'" "switched s ?t s'"
    "ks s' (ready_rest Q)" "status s' = (status s)(?t := ST_RUN)" "?t < NR_TASKS"
    "Q Readyqueue \<noteq> [] \<longrightarrow> off_queues s' (ready_rest Q) ?t" by blast
  note fr = switched_frame[OF s'(2)]
  have sub: "set (ready_rest Q q) \<subseteq> set (Q q)" for q
    by (cases "Q Readyqueue") (auto simp: ready_rest_def)
  have off: "off_queues s' (ready_rest Q) ?t"
  proof (cases "Q Readyqueue")
    case Nil
    then have "off_queues s Q (idle_task s)" using k(2) by (rule status_ok_idle_off[rotated])
    then have "\<forall>q \<in> heads s. TaskList (idle_task s) \<notin> set (ready_rest Q q)"
      using sub unfolding off_queues_def by blast
    then show ?thesis using Nil fr by (simp add: off_queues_def next_task_def)
  qed (use s' in simp)
  have "status_ok s' (ready_rest Q)"
    unfolding status_ok_def
  proof (intro ballI allI impI)
    fix q i assume q: "q \<in> heads s'" and i: "TaskList i \<in> set (ready_rest Q q)"
    then have "i \<noteq> ?t" using off unfolding off_queues_def by blast
    moreover have "TaskList i \<in> set (Q q)" using sub i by blast
    moreover have "q \<in> heads s" using q by (simp add: fr(14))
    ultimately show "queue_status q (status s' i) \<and> (i = idle_task s' \<longrightarrow> q = Readyqueue)"
      using k(2) s'(4) fr by (simp add: status_ok_def)
  qed
  moreover have "sem_ok s' (ready_rest Q)"
    by (rule sem_ok_cong[OF k(3) fr(8)]) (simp add: ready_rest_def)
  moreover have "status s' (cur s') = ST_RUN" "cur s' = ?t" using s'(4) by (simp_all add: fr(1))
  ultimately have "kwf s' (ready_rest Q)" using s'(3,5) off by (simp add: kwf_def kqs_def)
  with s' show ?thesis by blast
qed

text \<open>The running task leaves for a queue: the state is in order, but for its running task.\<close>

lemma leave_kqs:
  assumes "kwf s Q" and "q \<in> heads s" and "cur s \<noteq> idle_task s \<or> q = Readyqueue"
    and "queue_step s r (Q(q := xs)) ((status s)(cur s := st))" and "queue_status q st"
    and "set xs \<subseteq> insert (TaskList (cur s)) (set (Q q))"
    and "\<And>n. q = SemQueue n \<Longrightarrow> counter (semaphores s n) \<le> 0"
  shows "\<exists>s'. r = Some s' \<and> sframe s s' \<and> kqs s' (Q(q := xs)) \<and> status s' = (status s)(cur s := st)"
proof -
  from assms(4) obtain s' where s': "r = Some s'" "sframe s s'" "ks s' (Q(q := xs))"
    "status s' = (status s)(cur s := st)" by (rule queue_stepE)
  note fr = sframe_frame[OF s'(2)]
  have w: "status_ok s Q" "sem_ok s Q" "off_queues s Q (cur s)" using assms(1) by (auto simp: kwf_def kqs_def)
  have "status_ok s' (Q(q := xs))"
    unfolding status_ok_def
  proof (intro ballI allI impI)
    fix p i assume p: "p \<in> heads s'" and i: "TaskList i \<in> set ((Q(q := xs)) p)"
    show "queue_status p (status s' i) \<and> (i = idle_task s' \<longrightarrow> p = Readyqueue)"
    proof (cases "i = cur s")
      case True
      with i p w(3) fr have "p = q" by (auto simp: off_queues_def split: if_splits)
      with True assms(3,5) s'(4) fr show ?thesis by simp
    next
      case False
      with i assms(6) have "TaskList i \<in> set (Q p)" by (auto split: if_splits)
      with False w(1) p fr s'(4) show ?thesis by (simp add: status_ok_def)
    qed
  qed
  moreover have "sem_ok s' (Q(q := xs))"
    using w(2) assms(7) fr unfolding sem_ok_def by (metis fun_upd_other linorder_not_less)
  ultimately show ?thesis using s' by (auto simp: kqs_def)
qed

section \<open>The clock\<close>

definition ring :: "kstate \<Rightarrow> (laddr \<Rightarrow> laddr list) \<Rightarrow> laddr list" where
  "ring s Q = TaskList (cur s) # Q Readyqueue"

definition ticks_left :: "kstate \<Rightarrow> DWord" where
  "ticks_left s = remaining_ticks (process_stats (task s (cur s)))"

lemma kwf_stats:
  assumes "kwf s Q" and "stats_only s s'"
  shows "kwf s' Q"
proof -
  note fr = sframe_frame[OF sframe_stats[OF assms(2)]] status_stats[OF assms(2)]
  have "status_ok s' Q" "sem_ok s' Q" "off_queues s' Q (cur s')"
    using assms(1) fr by (auto simp: kwf_def kqs_def status_ok_def sem_ok_def off_queues_def)
  with assms fr show ?thesis using ks_stats[OF _ assms(2), of Q] by (auto simp: kwf_def kqs_def)
qed

lemma kwf_cong:
  assumes "kwf s Q" and "lists s' = lists s" "semaphores s' = semaphores s" "idle_task s' = idle_task s"
    "cur s' = cur s" "\<And>u. exec_status (task s' u) = exec_status (task s u)"
  shows "kwf s' Q"
proof -
  have "heads s' = heads s" "status s' = status s" using assms by (auto simp: heads_def status_def)
  with assms show ?thesis by (simp add: kwf_def kqs_def ks_def status_ok_def sem_ok_def off_queues_def)
qed

lemma free_not_idle:
  assumes "kwf s Q" and "Q Freequeue = TaskList c # xs"
  shows "c \<noteq> idle_task s"
proof -
  have "status_ok s Q" using assms(1) by (simp add: kwf_def kqs_def)
  then have "\<forall>i. TaskList i \<in> set (Q Freequeue) \<longrightarrow> i = idle_task s \<longrightarrow> Freequeue = Readyqueue"
    unfolding status_ok_def using fixed_heads(1)[of s] by blast
  with assms(2) show ?thesis by auto
qed

lemma kwf_set_cont: "kwf s Q \<Longrightarrow> kwf (set_cont t c s) Q"
  by (simp add: kwf_def kqs_def ks_def status_ok_def sem_ok_def off_queues_def set_cont_def status_def heads_def)

lemma kqs_set_cont: "kqs s Q \<Longrightarrow> kqs (set_cont t c s) Q"
  by (simp add: kqs_def ks_def status_ok_def sem_ok_def set_cont_def status_def heads_def)

lemma remaining_process_stats:
  "sys_to_process_stats t s = Some s' \<Longrightarrow>
   remaining_ticks (process_stats (task s' u)) = remaining_ticks (process_stats (task s u))"
  by (auto simp: sys_to_process_stats_def get_ticks_total Let_def upd_stats_def upd_task_def)

lemma sched_next_ticks:
  assumes "sched_next_rr s = Some s'" and "ks s Q"
  shows "ticks_left s' = of_int (quantum (task s' (cur s')))" and "quantum (task s' u) = quantum (task s u)"
proof -
  let ?t = "next_task s Q"
  from assms obtain t s1 s3 where t: "(if \<not> list_empty Readyqueue (lists s) then take_task Readyqueue s
      else Some (idle_task s, s)) = Some (t, s1)"
    and s3: "sys_to_process_stats t (upd_stats t (\<lambda>st. st\<lparr>remaining_ticks := of_int (get_quantum t s1)\<rparr>) s1) = Some s3"
    and s': "s' = task_switch t (set_status t ST_RUN (upd_stats t (\<lambda>st. st\<lparr>total_trans := total_trans st + 1\<rparr>) s3))"
    by (auto simp: sched_next_rr_def Let_def elim!: bind_SomeE split: prod.splits)
  have s1: "task s1 = task s"
    using t by (auto simp: take_task_def on_lists_def elim!: bind_SomeE split: if_splits)
  have so: "stats_only (upd_stats t (\<lambda>st. st\<lparr>remaining_ticks := of_int (get_quantum t s1)\<rparr>) s1) s3"
    using s3 stats_functions_total(5) by (metis option.inject)
  have q: "quantum (task s3 u) = quantum (task s u)" for u
    using stats_only_frame(22)[OF so] by (simp add: upd_stats_def upd_task_def s1)
  have r: "remaining_ticks (process_stats (task s3 t)) = of_int (quantum (task s t))"
    using remaining_process_stats[OF s3] by (simp add: upd_stats_def upd_task_def get_quantum_def s1)
  show "quantum (task s' u) = quantum (task s u)" for u
    using q by (simp add: s' task_switch_def Let_def upd_task_def set_status_def upd_stats_def)
  show "ticks_left s' = of_int (quantum (task s' (cur s')))"
    using q r by (simp add: ticks_left_def s' task_switch_def Let_def upd_task_def set_status_def upd_stats_def)
qed


text \<open>What \<open>needs_sched_rr\<close> and \<open>update_sched_data_rr\<close> do is accounting.\<close>

lemma update_sched_data_stats: "stats_only s (update_sched_data_rr s)"
  unfolding update_sched_data_rr_def by (rule stats_only_upd[OF stats_only_refl])

lemma update_sched_data_ticks: "ticks_left (update_sched_data_rr s) = ticks_left s - 1"
  by (simp add: ticks_left_def update_sched_data_rr_def upd_stats_def upd_task_def current_def)

lemma needs_sched_eval:
  "needs_sched_rr s = (if ticks_left s = 0 \<and> \<not> list_empty Readyqueue (lists s) then (1, s)
     else if ticks_left s = 0 then (0, upd_stats (cur s) (\<lambda>st. st\<lparr>remaining_ticks :=
        of_int (quantum (task s (cur s))), total_trans := total_trans st + 1\<rparr>) s)
     else (0, s))"
  by (simp add: needs_sched_rr_def ticks_left_def current_def get_quantum_def Let_def)

text \<open>The preempted process goes to the end of the ready queue and the next one takes over.\<close>

lemma preempt_step:
  assumes "kwf s Q" and "Q Readyqueue \<noteq> []"
  shows "\<exists>s1 s' Q'. update_process_state_rr (cur s) (Some Readyqueue) s = Some s1 \<and> cur s1 = cur s \<and>
    sched_next_rr (set_cont (cur s1) In_user s1) = Some s' \<and> kwf s' Q' \<and>
    ring s' Q' = rotate1 (ring s Q) \<and> (\<forall>q. q \<noteq> Readyqueue \<longrightarrow> Q' q = Q q) \<and>
    ticks_left s' = of_int (quantum (task s' (cur s'))) \<and> (\<forall>u. quantum (task s' u) = quantum (task s u)) \<and>
    kcont s' = (kcont s)(cur s := In_user) \<and> idle_task s' = idle_task s \<and> keyb s' = keyb s \<and>
    semaphores s' = semaphores s \<and> zeos_ticks s' = zeos_ticks s"
proof -
  let ?Q1 = "Q(Readyqueue := Q Readyqueue @ [TaskList (cur s)])"
  have w: "ks s Q" "cur s < NR_TASKS" "off_queues s Q (cur s)" "status s (cur s) = ST_RUN"
    using assms(1) by (simp_all add: kwf_def kqs_def)
  have qs: "queue_step s (update_process_state_rr (cur s) (Some Readyqueue) s) ?Q1
      ((status s)(cur s := ST_READY))"
    using update_process_state_step[OF w(1) fixed_heads(2) w(2-4)] by simp
  from leave_kqs[OF assms(1) fixed_heads(2) _ qs] obtain s1 where s1:
    "update_process_state_rr (cur s) (Some Readyqueue) s = Some s1" "sframe s s1" "kqs s1 ?Q1"
    by (auto simp: queue_status_def)
  let ?s2 = "set_cont (cur s1) In_user s1"
  note f1 = sframe_frame[OF s1(2)]
  have k2: "kqs ?s2 ?Q1" by (rule kqs_set_cont[OF s1(3)])
  from sched_next_kwf[OF k2] obtain s' where s': "sched_next_rr ?s2 = Some s'" "kwf s' (ready_rest ?Q1)"
    "switched ?s2 (next_task ?s2 ?Q1) s'" by blast
  obtain x xs where q: "Q Readyqueue = x # xs" using assms(2) by (cases "Q Readyqueue") auto
  obtain t where t: "x = TaskList t" using ks_tasks[OF w(1) fixed_heads(2), of x] q by auto
  have "ring s' (ready_rest ?Q1) = rotate1 (ring s Q)"
    using switched_frame(1)[OF s'(3)] q t by (simp add: ring_def ready_rest_def next_task_def)
  moreover have "ks ?s2 ?Q1" using k2 by (simp add: kqs_def)
  note sched_next_ticks[OF s'(1) this]
  moreover have "quantum (task ?s2 u) = quantum (task s u)" for u using f1 by (simp add: set_cont_def)
  moreover have "kcont s' = (kcont s)(cur s := In_user)"
    using switched_frame(3)[OF s'(3)] f1(2,4) by (simp add: set_cont_def)
  moreover have "idle_task s' = idle_task s" "keyb s' = keyb s" "semaphores s' = semaphores s" "zeos_ticks s' = zeos_ticks s"
    using switched_frame(5,8,10,11)[OF s'(3)] f1(5,8,12,14) by (simp_all add: set_cont_def)
  ultimately show ?thesis using s1(1) f1(4) s'(1,2) by (intro exI[of _ s1] exI[of _ s'] exI[of _ "ready_rest ?Q1"])
      (simp add: ready_rest_def)
qed

text \<open>
  One clock tick: the quantum of the running process goes down by one; when it is used up the ring
  of runnable processes turns by one and the next process gets its full quantum.
\<close>

definition tick_result :: "kstate \<Rightarrow> (laddr \<Rightarrow> laddr list) \<Rightarrow> kstate \<Rightarrow> (laddr \<Rightarrow> laddr list) \<Rightarrow> bool" where
  "tick_result s Q s' Q' \<longleftrightarrow> kwf s' Q' \<and> idle_task s' = idle_task s \<and> keyb s' = keyb s \<and>
     semaphores s' = semaphores s \<and> zeos_ticks s' = zeos_ticks s \<and>
     (kcont s' = kcont s \<or> kcont s' = (kcont s)(cur s := In_user)) \<and> (\<forall>q. q \<noteq> Readyqueue \<longrightarrow> Q' q = Q q) \<and>
     (\<forall>u. quantum (task s' u) = quantum (task s u)) \<and>
     (if ticks_left s = 1
      then ring s' Q' = rotate1 (ring s Q) \<and> ticks_left s' = of_int (quantum (task s (cur s')))
      else ring s' Q' = ring s Q \<and> ticks_left s' = ticks_left s - 1)"

lemma schedule_step:
  assumes "kwf s Q"
  shows "\<exists>s' Q'. schedule s = Some s' \<and> tick_result s Q s' Q'"
proof -
  let ?s1 = "update_sched_data_rr s"
  have k1: "kwf ?s1 Q" by (rule kwf_stats[OF assms update_sched_data_stats])
  note f1 = stats_only_frame[OF update_sched_data_stats[of s]]
  have e: "list_empty Readyqueue (lists ?s1) \<longleftrightarrow> Q Readyqueue = []"
    using k1 ks_empty[OF _ fixed_heads(2)] by (simp add: kwf_def kqs_def)
  have t1: "ticks_left ?s1 = 0 \<longleftrightarrow> ticks_left s = 1" by (simp add: update_sched_data_ticks)
  consider (run) "ticks_left s \<noteq> 1" | (alone) "ticks_left s = 1" "Q Readyqueue = []"
    | (turn) "ticks_left s = 1" "Q Readyqueue \<noteq> []" by blast
  then show ?thesis
  proof cases
    case run
    then have "schedule s = Some ?s1" using t1 by (simp add: schedule_def needs_sched_eval Let_def)
    then show ?thesis using k1 run f1(3,5,6,9,13,15,22)
      by (intro exI[of _ ?s1] exI[of _ Q]) (simp add: tick_result_def ring_def update_sched_data_ticks)
  next
    case alone
    let ?s2 = "upd_stats (cur ?s1) (\<lambda>st. st\<lparr>remaining_ticks := of_int (quantum (task ?s1 (cur ?s1))),
        total_trans := total_trans st + 1\<rparr>) ?s1"
    have "schedule s = Some ?s2" using alone t1 e by (simp add: schedule_def needs_sched_eval Let_def)
    moreover have so: "stats_only ?s1 ?s2" by (rule stats_only_upd[OF stats_only_refl])
    note f2 = stats_only_frame[OF so]
    have "ticks_left ?s2 = of_int (quantum (task s (cur ?s2)))"
      using f1(22) by (simp add: ticks_left_def upd_stats_def upd_task_def)
    ultimately show ?thesis using kwf_stats[OF k1 so] alone f1(3,5,6,9,13,15,22) f2(3,5,6,9,13,15,22)
      by (intro exI[of _ ?s2] exI[of _ Q]) (simp add: tick_result_def ring_def)
  next
    case turn
    from preempt_step[OF k1 turn(2)] obtain s2 s' Q' where r:
      "update_process_state_rr (cur ?s1) (Some Readyqueue) ?s1 = Some s2" "cur s2 = cur ?s1"
      "sched_next_rr (set_cont (cur s2) In_user s2) = Some s'" "kwf s' Q'"
      "ring s' Q' = rotate1 (ring ?s1 Q)" "\<forall>q. q \<noteq> Readyqueue \<longrightarrow> Q' q = Q q"
      "ticks_left s' = of_int (quantum (task s' (cur s')))" "\<forall>u. quantum (task s' u) = quantum (task ?s1 u)"
      "kcont s' = (kcont ?s1)(cur ?s1 := In_user)" "idle_task s' = idle_task ?s1" "keyb s' = keyb ?s1"
      "semaphores s' = semaphores ?s1" "zeos_ticks s' = zeos_ticks ?s1"
      by blast
    have "schedule s = Some s'"
      using turn t1 e r(1,3) by (simp add: schedule_def needs_sched_eval Let_def current_def)
    moreover have "tick_result s Q s' Q'"
      using r f1(3,5,6,9,13,15,22) turn(1) by (simp add: tick_result_def ring_def)
    ultimately show ?thesis by blast
  qed
qed

section \<open>Round robin\<close>

fun clock_ticks :: "nat \<Rightarrow> kstate \<Rightarrow> kstate option" where
  "clock_ticks 0 s = Some s"
| "clock_ticks (Suc n) s = Option.bind (schedule s) (clock_ticks n)"

lemma clock_ticks_add: "clock_ticks (m + n) s = Option.bind (clock_ticks m s) (clock_ticks n)"
  by (induction m arbitrary: s) (auto split: bind_splits)

text \<open>The last tick of a quantum turns the ring, the others leave it.\<close>

lemma quantum_run:
  assumes "kwf s Q" and "ticks_left s = of_nat (Suc n)" and "Suc n < 2 ^ 32"
  shows "\<exists>s' Q'. clock_ticks (Suc n) s = Some s' \<and> kwf s' Q' \<and> ring s' Q' = rotate1 (ring s Q) \<and>
    ticks_left s' = of_int (quantum (task s (cur s'))) \<and> (\<forall>u. quantum (task s' u) = quantum (task s u))"
  using assms
proof (induction n arbitrary: s Q)
  case 0
  with schedule_step[OF 0(1)] show ?case by (auto simp: tick_result_def)
next
  case (Suc n)
  obtain s1 Q1 where s1: "schedule s = Some s1" "tick_result s Q s1 Q1"
    using schedule_step[OF Suc.prems(1)] by blast
  have "ticks_left s \<noteq> 1"
  proof
    assume "ticks_left s = 1"
    then have "unat (of_nat (Suc (Suc n)) :: DWord) = 1" using Suc.prems(2) by simp
    with Suc.prems(3) show False by (simp only: unat_of_nat) simp
  qed
  with s1(2) Suc.prems(2) have r: "kwf s1 Q1" "ring s1 Q1 = ring s Q" "ticks_left s1 = of_nat (Suc n)"
    "\<forall>u. quantum (task s1 u) = quantum (task s u)" by (auto simp: tick_result_def)
  from Suc.IH[OF r(1,3)] Suc.prems(3) obtain s' Q' where "clock_ticks (Suc n) s1 = Some s'" "kwf s' Q'"
    "ring s' Q' = rotate1 (ring s1 Q1)" "ticks_left s' = of_int (quantum (task s1 (cur s')))"
    "\<forall>u. quantum (task s' u) = quantum (task s1 u)" by auto
  with r s1(1) show ?case by (simp add: clock_ticks.simps(2)[of "Suc n"] del: clock_ticks.simps(2)) auto
qed

lemma round_robin_run:
  assumes "kwf s Q" and "ticks_left s = of_nat n" and "0 < n" and "n < 2 ^ 32"
    and "\<forall>u. TaskList u \<in> set (ring s Q) \<longrightarrow> quantum (task s u) = int n"
  shows "\<exists>s' Q'. clock_ticks (k * n) s = Some s' \<and> kwf s' Q' \<and> ring s' Q' = rotate k (ring s Q) \<and>
    ticks_left s' = of_nat n \<and> (\<forall>u. quantum (task s' u) = quantum (task s u))"
proof (induction k)
  case 0
  with assms show ?case by auto
next
  case (Suc k)
  then obtain s1 Q1 where s1: "clock_ticks (k * n) s = Some s1" "kwf s1 Q1" "ring s1 Q1 = rotate k (ring s Q)"
    "ticks_left s1 = of_nat n" "\<forall>u. quantum (task s1 u) = quantum (task s u)" by blast
  obtain m where m: "n = Suc m" using assms(3) by (cases n) auto
  from quantum_run[OF s1(2), of m] s1(4) assms(4) m obtain s' Q' where s': "clock_ticks n s1 = Some s'"
    "kwf s' Q'" "ring s' Q' = rotate1 (ring s1 Q1)" "ticks_left s' = of_int (quantum (task s1 (cur s')))"
    "\<forall>u. quantum (task s' u) = quantum (task s1 u)" by auto
  have "TaskList (cur s') \<in> set (ring s' Q')" by (simp add: ring_def)
  then have "TaskList (cur s') \<in> set (ring s Q)" using s'(3) s1(3) by simp
  then have "ticks_left s' = of_nat n" using s'(4) s1(5) assms(5) by simp
  moreover have "clock_ticks (k * n + n) s = Some s'" using s1(1) s'(1) by (simp add: clock_ticks_add)
  ultimately show ?case using s' s1(3,5) by (intro exI[of _ s'] exI[of _ Q']) (simp add: add.commute)
qed

section \<open>Giving up the processor\<close>

text \<open>
  What a process that leaves for a queue brings about: the next task runs, the others and the data
  of the kernel are as they were, and the process goes on with \<open>c\<close> when it is switched to again.
\<close>

definition same_kernel :: "kstate \<Rightarrow> kstate \<Rightarrow> bool" where
  "same_kernel s s' \<longleftrightarrow> semaphores s' = semaphores s \<and> global_PID s' = global_PID s \<and>
     global_semID s' = global_semID s \<and> idle_task s' = idle_task s \<and> keyb s' = keyb s \<and> scr s' = scr s \<and>
     zeos_ticks s' = zeos_ticks s \<and> heads s' = heads s \<and> (\<forall>u. PID (task s' u) = PID (task s u)) \<and>
     (\<forall>u. dir_pages_baseAddr (task s' u) = dir_pages_baseAddr (task s u)) \<and>
     (\<exists>d. mem s' = (mem s)\<lparr>cr3_dir := d\<rparr>)"

lemma same_kernel_switch:
  assumes "sframe s s1" and "switched (set_cont t c s1) u s'"
  shows "same_kernel s s'" and "kcont s' = (kcont s)(t := c)" and "cur s' = u"
    and "mem s' = (mem s)\<lparr>cr3_dir := dir_pages_baseAddr (task s u)\<rparr>"
proof -
  note f = sframe_frame[OF assms(1)] and g = switched_frame[OF assms(2)]
  have h: "heads (set_cont t c s1) = heads s1" by (simp add: set_cont_def heads_def)
  show m: "mem s' = (mem s)\<lparr>cr3_dir := dir_pages_baseAddr (task s u)\<rparr>"
    using f(9,18) g(17) by (simp add: set_cont_def)
  show "same_kernel s s'"
    unfolding same_kernel_def using f g h by (simp add: set_cont_def m) metis
  show "kcont s' = (kcont s)(t := c)" using f(2) g(3) by (simp add: set_cont_def)
  show "cur s' = u" by (rule g(1))
qed

lemma leave_switch:
  assumes "kwf s Q" and "q \<in> heads s" and "cur s \<noteq> idle_task s \<or> q = Readyqueue"
    and "queue_step s r (Q(q := xs)) ((status s)(cur s := st))" and "queue_status q st"
    and "set xs \<subseteq> insert (TaskList (cur s)) (set (Q q))"
    and "\<And>n. q = SemQueue n \<Longrightarrow> counter (semaphores s n) \<le> 0"
  shows "\<exists>s1 s'. r = Some s1 \<and> cur s1 = cur s \<and> sched_next_rr (set_cont (cur s) c s1) = Some s' \<and>
    kwf s' (ready_rest (Q(q := xs))) \<and> same_kernel s s' \<and> kcont s' = (kcont s)(cur s := c) \<and>
    cur s' = next_task s (Q(q := xs)) \<and>
    mem s' = (mem s)\<lparr>cr3_dir := dir_pages_baseAddr (task s (next_task s (Q(q := xs))))\<rparr>"
proof -
  from leave_kqs[OF assms] obtain s1 where s1: "r = Some s1" "sframe s s1" "kqs s1 (Q(q := xs))" by blast
  from sched_next_kwf[OF kqs_set_cont[OF s1(3)]] obtain s' where
    s': "sched_next_rr (set_cont (cur s) c s1) = Some s'" "kwf s' (ready_rest (Q(q := xs)))"
      "switched (set_cont (cur s) c s1) (next_task (set_cont (cur s) c s1) (Q(q := xs))) s'" by blast
  have "next_task (set_cont (cur s) c s1) (Q(q := xs)) = next_task s (Q(q := xs))"
  proof -
    have "idle_task (set_cont (cur s) c s1) = idle_task s"
      using sframe_frame(5)[OF s1(2)] by (simp add: set_cont_def)
    then show ?thesis unfolding next_task_def by (simp only:)
  qed
  with s'(3) have sw: "switched (set_cont (cur s) c s1) (next_task s (Q(q := xs))) s'" by simp
  show ?thesis using s1(1) sframe_frame(4)[OF s1(2)] s'(1,2) same_kernel_switch[OF s1(2) sw] by blast
qed

text \<open>The running task blocks on a queue.\<close>

lemma block_switch:
  assumes "kwf s Q" and "q \<in> heads s" and "cur s \<noteq> idle_task s" and "q \<noteq> Readyqueue"
    and "\<And>n. q = SemQueue n \<Longrightarrow> counter (semaphores s n) \<le> 0"
  shows "\<exists>s1 s'. block (cur s) q s = Some s1 \<and> sched_next_rr (set_cont (cur s) c s1) = Some s' \<and>
    kwf s' (ready_rest (Q(q := Q q @ [TaskList (cur s)]))) \<and> same_kernel s s' \<and>
    kcont s' = (kcont s)(cur s := c) \<and> cur s' = next_task s Q"
proof -
  have w: "ks s Q" "cur s < NR_TASKS" "off_queues s Q (cur s)" "status s (cur s) = ST_RUN"
    using assms(1) by (simp_all add: kwf_def kqs_def)
  have b: "queue_step s (block (cur s) q s) (Q(q := Q q @ [TaskList (cur s)])) ((status s)(cur s := ST_BLOCKED))"
    by (rule block_step[OF w(1) assms(2) w(2-4)])
  have st: "queue_status q ST_BLOCKED" using assms(4) by (simp add: queue_status_def split: laddr.splits)
  have n: "next_task s (Q(q := Q q @ [TaskList (cur s)])) = next_task s Q" using assms(4) by (simp add: next_task_def)
  have sub: "set (Q q @ [TaskList (cur s)]) \<subseteq> insert (TaskList (cur s)) (set (Q q))" by simp
  from leave_switch[OF assms(1,2) _ b st sub assms(5), of c] assms(3) show ?thesis
    unfolding n by blast
qed

end
