(* ===== verification/Init.thy ===== *)
theory Init
  imports Sched
begin

text \<open>
  The state that the initialisation of \<open>zeos/system.c\<close> leaves behind: \<open>init_kernel\<close> runs the
  routines of memory and of the scheduler in the order of \<open>main\<close>. Lemmas: directories are taken
  from the unused ones, every initialisation step keeps the queues in order, and the kernel ends up
  in a proper state \<open>kwf\<close> with process 1 running and the idle process aside.
\<close>

section \<open>Directories\<close>

lemma allocate_DIR_cases:
  obtains (none) "\<forall>i < NR_TASKS. dirCounter (mem s) i \<noteq> 0" "allocate_DIR t s = (-ENOMEM, s)"
  | (some) i where "i < NR_TASKS" "dirCounter (mem s) i = 0" "\<forall>j < i. dirCounter (mem s) j \<noteq> 0"
      "allocate_DIR t s = (1, s\<lparr>task := (task s)(t := (task s t)\<lparr>dir_pages_baseAddr := i\<rparr>),
         mem := (mem s)\<lparr>dirCounter := (dirCounter (mem s))(i := 1)\<rparr>\<rparr>)"
proof (cases "find (\<lambda>i. dirCounter (mem s) i = 0) [0..<NR_TASKS]")
  case None
  then have "\<forall>i < NR_TASKS. dirCounter (mem s) i \<noteq> 0" by (simp add: find_None_iff)
  moreover have "allocate_DIR t s = (-ENOMEM, s)" using None by (simp add: allocate_DIR_def)
  ultimately show ?thesis by (rule none)
next
  case (Some i)
  then have "i < NR_TASKS" "dirCounter (mem s) i = 0" "\<forall>j < i. dirCounter (mem s) j \<noteq> 0"
    by (auto simp: find_Some_iff)
  with Some show ?thesis by (intro some[of i]) (simp_all add: allocate_DIR_def Let_def upd_task_def)
qed

section \<open>The first frames and tables\<close>

lemma init_frames_used: "used_frames (init_frames m) = {..<NUM_PAG_KERNEL}"
  using fold_fun_upd[of "\<lambda>_. FREE_FRAME" 0 TOTAL_PAGES "phys_mem m"]
    fold_fun_upd[of "\<lambda>_. USED_FRAME" 0 NUM_PAG_KERNEL]
  by (auto simp: used_frames_def init_frames_def)

lemma init_dir_fold:
  "fold init_dir_entry [0..<n] m = m\<lparr>dir_pages := \<lambda>i. if i < n then
     set_present 1 (set_rw 1 (set_user 1 (set_pbase (pagusr_page0 m + of_nat i) 0))) else dir_pages m i\<rparr>"
  by (induction n) (auto simp: init_dir_entry_def fun_eq_iff less_Suc_eq)

lemma init_dir_pages_fold:
  "init_dir_pages m = m\<lparr>dir_pages := \<lambda>i. if i < NR_TASKS then
     set_present 1 (set_rw 1 (set_user 1 (set_pbase (pagusr_page0 m + of_nat i) 0))) else dir_pages m i\<rparr>"
  unfolding init_dir_pages_def by (rule init_dir_fold)

lemma init_table_entry:
  "p < TOTAL_PAGES \<Longrightarrow> p \<noteq> lo \<Longrightarrow> p \<noteq> hi \<Longrightarrow>
   init_table lo hi t p = (if 1 \<le> p \<and> p < NUM_PAG_KERNEL then set_present 1 (set_rw 1 (set_pbase (of_nat p) 0)) else 0)"
proof -
  assume p: "p < TOTAL_PAGES" "p \<noteq> lo" "p \<noteq> hi"
  have "fold (\<lambda>i t. t(i := set_present 1 (set_rw 1 (set_pbase (of_nat i) (t i))))) [1..<n] f q =
      (if 1 \<le> q \<and> q < n then set_present 1 (set_rw 1 (set_pbase (of_nat q) (f q))) else f q)" for n f q
  proof (induction n)
    case (Suc n)
    then show ?case by (cases "1 \<le> n") auto
  qed simp
  with p fold_fun_upd[of "\<lambda>_. 0" 0 TOTAL_PAGES t] show ?thesis by (simp add: init_table_def Let_def)
qed

lemma init_table_pages_fold:
  "init_table_pages m = m\<lparr>pagusr_table := pagusr_table (init_table_pages m)\<rparr>"
proof -
  have "\<exists>t. init_table_pages m = m\<lparr>pagusr_table := t\<rparr>"
    unfolding init_table_pages_def
    by (rule fold_invariant[where Q = "\<lambda>_. True" and P = "\<lambda>x. \<exists>t. x = m\<lparr>pagusr_table := t\<rparr>"])
      (auto simp: Let_def intro: exI[of _ "pagusr_table m"])
  then show ?thesis by auto
qed

lemma init_mm_facts:
  "used_frames (init_mm m) = {..<NUM_PAG_KERNEL}"
  "dirCounter (init_mm m) = dirCounter m"
  "i < NR_TASKS \<Longrightarrow> get_PT_of i (init_mm m) = take_bit 20 (pagusr_page0 m + of_nat i)"
  "pagusr_table (init_mm m) = pagusr_table (init_table_pages m)"
proof -
  let ?t = "init_table_pages m"
  have t: "pagusr_page0 ?t = pagusr_page0 m" "dirCounter ?t = dirCounter m"
    using init_table_pages_fold[of m] by (metis mm.select_convs(7) mm.simps mm.surjective)+
  show "used_frames (init_mm m) = {..<NUM_PAG_KERNEL}"
    using init_frames_used[of ?t] by (simp add: init_mm_def init_dir_pages_fold used_frames_def)
  show "dirCounter (init_mm m) = dirCounter m"
    using t by (simp add: init_mm_def init_dir_pages_fold init_frames_def Let_def)
  show "pagusr_table (init_mm m) = pagusr_table ?t"
    by (simp add: init_mm_def init_dir_pages_fold init_frames_def Let_def)
  show "i < NR_TASKS \<Longrightarrow> get_PT_of i (init_mm m) = take_bit 20 (pagusr_page0 m + of_nat i)"
    using t by (simp add: init_mm_def init_dir_pages_fold init_frames_def Let_def get_PT_of_def)
qed

lemma init_mm_frames_left: "card (frame_pool_set - used_frames (init_mm m)) = 384"
proof -
  have "frame_pool_set - used_frames (init_mm m) = (\<lambda>k. 256 + 2 * k) ` {..<384}"
  proof -
    have "x \<in> (\<lambda>k. 256 + 2 * k) ` {..<384}" if x: "256 \<le> x" "x < 1024" "even x" for x :: nat
    proof -
      from x obtain k where "x = 2 * k" by (elim evenE)
      with x show ?thesis by (intro image_eqI[of _ _ "k - 128"]) auto
    qed
    then show ?thesis by (auto simp: init_mm_facts(1) frame_pool_set_def)
  qed
  then show ?thesis by (simp add: card_image inj_on_def)
qed

section \<open>The queues after \<open>init_sched\<close>\<close>

definition init_queues :: "laddr \<Rightarrow> laddr list" where
  "init_queues = (\<lambda>_. [])(Freequeue := map TaskList [0..<NR_TASKS])"

lemma fold_owner:
  "fold (\<lambda>i f. f(i := (f i)\<lparr>ownerPID := -1\<rparr>)) [0..<n] f =
   (\<lambda>i. if i < n then (f i)\<lparr>ownerPID := -1\<rparr> else f i)"
  by (induction n) (auto simp: fun_eq_iff less_Suc_eq)

lemma qsys_fresh_head:
  "qsys H (\<lambda>_. []) l \<Longrightarrow> q \<notin> H \<Longrightarrow> qsys (insert q H) (\<lambda>_. []) (INIT_LIST_HEAD q l)"
  by (rule lq.rep_cong[OF lq.rep_ini[where Q = "\<lambda>_. []"]]) auto

lemma init_heads:
  "qsys {Keyboardqueue, Blocked, Readyqueue, Freequeue} (\<lambda>_. [])
     (INIT_LIST_HEAD Keyboardqueue (INIT_LIST_HEAD Blocked (INIT_LIST_HEAD Readyqueue (INIT_LIST_HEAD Freequeue l))))"
  by (rule qsys_fresh_head[OF qsys_fresh_head[OF qsys_fresh_head[OF qsys_fresh_head]]]) (auto simp: qsys_def)

lemma init_sched_ks:
  assumes "idle_task s < NR_TASKS"
  shows "\<exists>l f. init_sched s = Some (s\<lparr>semaphores := f, lists := l\<rparr>) \<and> (\<forall>i < NR_SEMS. ownerPID (f i) = -1) \<and>
    ks (s\<lparr>semaphores := f, lists := l\<rparr>) init_queues"
proof -
  define f where "f = fold (\<lambda>i f. f(i := (f i)\<lparr>ownerPID := -1\<rparr>)) [0..<NR_SEMS] (semaphores s)"
  define s2 where "s2 = s\<lparr>semaphores := f, lists := INIT_LIST_HEAD Keyboardqueue (INIT_LIST_HEAD Blocked
      (INIT_LIST_HEAD Readyqueue (INIT_LIST_HEAD Freequeue (lists s))))\<rparr>"
  have own: "\<forall>i < NR_SEMS. ownerPID (f i) = -1" unfolding f_def fold_owner by simp
  let ?H = "{Keyboardqueue, Blocked, Readyqueue, Freequeue}"
  have h: "heads (s2\<lparr>lists := l\<rparr>) = ?H" for l using own by (auto simp: heads_def s2_def)
  define P where "P done t \<longleftrightarrow> (\<exists>l. t = s2\<lparr>lists := l\<rparr>) \<and> ks t ((\<lambda>_. [])(Freequeue := map TaskList done))"
    for "done" t
  have "\<exists>t. foldM (\<lambda>i. on_lists (list_add_tail (TaskList i) Freequeue)) [0..<NR_TASKS] s2 = Some t \<and>
      P [0..<NR_TASKS] t"
  proof (rule foldM_rule)
    have h2: "heads s2 = ?H" using h[of "lists s2"] by simp
    have "qsys (heads s2) (\<lambda>_. []) (lists s2)" unfolding h2 using init_heads[of "lists s"] by (simp add: s2_def)
    moreover have "idle_task s2 < NR_TASKS" using assms by (simp add: s2_def)
    ultimately have "ks s2 ((\<lambda>_. [])(Freequeue := map TaskList []))"
      by (simp add: ks_def fun_upd_idem)
    then show "P [] s2" unfolding P_def by (auto intro: exI[of _ "lists s2"])
  next
    fix "done" i t assume P: "P done t" and "\<exists>rest. [0..<NR_TASKS] = done @ i # rest"
    then obtain rest where xs: "[0..<NR_TASKS] = done @ i # rest" by blast
    have "i \<in> set [0..<NR_TASKS]" unfolding xs by simp
    then have i1: "i < NR_TASKS" by (simp only: set_upt atLeastLessThan_iff)
    have "distinct (done @ i # rest)" unfolding xs[symmetric] by (rule distinct_upt)
    then have i: "i < NR_TASKS" "i \<notin> set done" using i1 by simp_all
    obtain l where t: "t = s2\<lparr>lists := l\<rparr>" "ks t ((\<lambda>_. [])(Freequeue := map TaskList done))"
      using P unfolding P_def by blast
    have "off_queues t ((\<lambda>_. [])(Freequeue := map TaskList done)) i"
      using i by (auto simp: off_queues_def)
    from ks_enq[OF t(2) fixed_heads(1) i(1) this] obtain l' where
      "list_add_tail (TaskList i) Freequeue (lists t) = Some l'"
      "ks (t\<lparr>lists := l'\<rparr>) ((\<lambda>_. [])(Freequeue := map TaskList (done @ [i])))" by auto
    then show "\<exists>t'. on_lists (list_add_tail (TaskList i) Freequeue) t = Some t' \<and> P (done @ [i]) t'"
      using t(1) unfolding P_def on_lists_def by auto
  qed
  then obtain l where "foldM (\<lambda>i. on_lists (list_add_tail (TaskList i) Freequeue)) [0..<NR_TASKS] s2 =
      Some (s2\<lparr>lists := l\<rparr>)" "ks (s2\<lparr>lists := l\<rparr>) init_queues"
    unfolding P_def init_queues_def by blast
  moreover have "s2\<lparr>lists := l\<rparr> = s\<lparr>semaphores := f, lists := l\<rparr>" by (simp add: s2_def)
  moreover have "init_sched s = foldM (\<lambda>i. on_lists (list_add_tail (TaskList i) Freequeue)) [0..<NR_TASKS] s2"
    unfolding init_sched_def Let_def s2_def f_def by (simp only: kstate.simps kstate.select_convs kstate.update_convs | simp)+
  ultimately show ?thesis using own by auto
qed

section \<open>The two initial processes\<close>

text \<open>What \<open>init_idle\<close> and \<open>init_task1\<close> leave unchanged.\<close>

definition init_frame :: "kstate \<Rightarrow> kstate \<Rightarrow> bool" where
  "init_frame s s' \<longleftrightarrow> heads s' = heads s \<and> status s' = status s \<and> cur s' = cur s \<and>
     global_PID s' = global_PID s \<and> semaphores s' = semaphores s \<and> scr s' = scr s \<and> keyb s' = keyb s \<and>
     dir_pages (mem s') = dir_pages (mem s)"

lemma init_idle_step:
  assumes "ks s Q" and "Q Freequeue = TaskList t # xs" and "dirCounter (mem s) i = 0" "i < NR_TASKS"
    and "\<forall>j < i. dirCounter (mem s) j \<noteq> 0"
  shows "\<exists>s'. init_idle s = Some s' \<and> ks s' (Q(Freequeue := xs)) \<and> idle_task s' = t \<and> init_frame s s' \<and>
    PID (task s' t) = 0 \<and> quantum (task s' t) = DEFAULT_QUANTUM \<and> dir_pages_baseAddr (task s' t) = i \<and>
    mem s' = (mem s)\<lparr>dirCounter := (dirCounter (mem s))(i := 1)\<rparr> \<and> kcont s' = (kcont s)(t := Idle_start)"
proof -
  from ks_take_task[OF assms(1) fixed_heads(1) assms(2)] obtain l where
    l: "take_task Freequeue s = Some (t, s\<lparr>lists := l\<rparr>)" "ks (s\<lparr>lists := l\<rparr>) (Q(Freequeue := xs))" "t < NR_TASKS"
    by auto
  define s3 where "s3 = upd_task t (\<lambda>p. p\<lparr>PID := 0, quantum := DEFAULT_QUANTUM\<rparr>) (s\<lparr>lists := l, idle_task := t\<rparr>)"
  obtain s4 where s4: "init_stats t s3 = Some s4" "stats_only s3 s4" using stats_functions_total(6) by blast
  note f4 = stats_only_frame[OF s4(2)]
  have m4: "mem s4 = mem s" using f4(10) by (simp add: s3_def upd_task_def)
  obtain s5 where s5: "s5 = snd (allocate_DIR t s4)" by blast
  have s5': "s5 = s4\<lparr>task := (task s4)(t := (task s4 t)\<lparr>dir_pages_baseAddr := i\<rparr>),
         mem := (mem s4)\<lparr>dirCounter := (dirCounter (mem s4))(i := 1)\<rparr>\<rparr>"
    unfolding s5 by (rule allocate_DIR_cases[where s = s4 and t = t]) (use assms(3-5) m4 in \<open>auto, metis linorder_neqE_nat\<close>)
  define s' where "s' = set_cont t Idle_start (upd_task t (\<lambda>p. p\<lparr>kernel_esp := KERNEL_STACK_SIZE - 2, heapSize := 0\<rparr>)
     (write_kstack t (KERNEL_STACK_SIZE - 2) 0 (write_kstack t (KERNEL_STACK_SIZE - 1) (cpu_idle_addr (link s5)) s5)))"
  have res: "init_idle s = Some s'"
    using l(1) s4(1) by (simp add: init_idle_def Let_def) (simp add: s3_def s5 s'_def)
  have t3: "task s3 u = (if u = t then (task s t)\<lparr>PID := 0, quantum := DEFAULT_QUANTUM\<rparr> else task s u)" for u
    by (simp add: s3_def upd_task_def)
  have e: "exec_status (task s' u) = exec_status (task s u)" "PID (task s' t) = 0"
    "quantum (task s' t) = DEFAULT_QUANTUM" "dir_pages_baseAddr (task s' t) = i" for u
    using f4(18,21,22) t3 by (simp_all add: s'_def s5' set_cont_def write_kstack_def upd_task_def)
  have g: "lists s' = l" "idle_task s' = t" "cur s' = cur s" "global_PID s' = global_PID s"
    "semaphores s' = semaphores s" "scr s' = scr s" "keyb s' = keyb s"
    "mem s' = (mem s)\<lparr>dirCounter := (dirCounter (mem s))(i := 1)\<rparr>" "kcont s' = (kcont s)(t := Idle_start)"
    using f4(1,3,5-10,15,16) by (simp_all add: s'_def s5' set_cont_def write_kstack_def upd_task_def s3_def)
  have h: "heads s' = heads s" using g(5) by (simp add: heads_def)
  have "ks s' (Q(Freequeue := xs))"
    using l(2,3) h g(1,2) unfolding ks_def by simp
  then show ?thesis using res e g h by (auto simp: init_frame_def status_def)
qed

lemma init_task1_step:
  assumes "ks s Q" and "Q Freequeue = TaskList t # xs" and "dirCounter (mem s) i = 0" "i < NR_TASKS"
    and "\<forall>j < i. dirCounter (mem s) j \<noteq> 0" and "28 \<le> card (frame_pool_set - used_frames (mem s))"
  shows "\<exists>s'. init_task1 s = Some s' \<and> ks s' (Q(Freequeue := xs)) \<and> idle_task s' = idle_task s \<and>
    init_frame s s' \<and> PID (task s' t) = 1 \<and> quantum (task s' t) = DEFAULT_QUANTUM \<and>
    dir_pages_baseAddr (task s' t) = i \<and> tss_esp0 s' = t \<and> cr3_dir (mem s') = i \<and>
    remaining_ticks (process_stats (task s' t)) = of_int DEFAULT_QUANTUM \<and>
    (\<forall>u. u \<noteq> t \<longrightarrow> task s' u = task s u) \<and> kcont s' = kcont s \<and>
    (let m1 = (mem s)\<lparr>dirCounter := (dirCounter (mem s))(i := 1)\<rparr> in
       \<exists>m2. set_user_pages i m1 = Some m2 \<and> mem s' = set_cr3 i m2)"
proof -
  from ks_take_task[OF assms(1) fixed_heads(1) assms(2)] obtain l where
    l: "take_task Freequeue s = Some (t, s\<lparr>lists := l\<rparr>)" "ks (s\<lparr>lists := l\<rparr>) (Q(Freequeue := xs))" "t < NR_TASKS"
    by auto
  define s2 where "s2 = upd_task t (\<lambda>p. p\<lparr>PID := 1, quantum := DEFAULT_QUANTUM\<rparr>) (s\<lparr>lists := l\<rparr>)"
  obtain s3 where s3: "init_stats t s2 = Some s3" "stats_only s2 s3" using stats_functions_total(6) by blast
  note f3 = stats_only_frame[OF s3(2)]
  have rt: "remaining_ticks (process_stats (task s3 t)) = of_int DEFAULT_QUANTUM"
    and oth: "\<And>u. u \<noteq> t \<Longrightarrow> task s3 u = task s2 u"
    using s3(1) by (auto simp: init_stats_def get_ticks_total upd_stats_def upd_task_def Let_def)
  define s4 where "s4 = upd_task t (\<lambda>p. p\<lparr>heapSize := 0\<rparr>) s3"
  have m4: "mem s4 = mem s" using f3(10) by (simp add: s2_def s4_def upd_task_def)
  obtain s5 where s5: "s5 = snd (allocate_DIR t s4)" by blast
  have s5': "s5 = s4\<lparr>task := (task s4)(t := (task s4 t)\<lparr>dir_pages_baseAddr := i\<rparr>),
         mem := (mem s4)\<lparr>dirCounter := (dirCounter (mem s4))(i := 1)\<rparr>\<rparr>"
    unfolding s5 by (rule allocate_DIR_cases[where s = s4 and t = t])
      (use assms(3-5) m4 in \<open>auto, metis linorder_neqE_nat\<close>)
  define m1 where "m1 = (mem s)\<lparr>dirCounter := (dirCounter (mem s))(i := 1)\<rparr>"
  have m1: "mem s5 = m1" "get_DIR t s5 = i" using m4 by (simp_all add: s5' m1_def get_DIR_def)
  have "28 \<le> card (frame_pool_set - used_frames m1)" using assms(6) by (simp add: m1_def used_frames_def)
  from set_user_pages_maps[OF this, of i] obtain m2 where
    m2: "set_user_pages i m1 = Some m2" "maps_fresh m1 (get_PT_of i m1) {PAG_LOG_INIT_CODE..<HEAP_INIT_PAGE} m2"
    by blast
  have d2: "dir_pages m2 = dir_pages m1" using m2(2) unfolding maps_fresh_def by (metis mm.select_convs(2) mm.simps mm.surjective)
  define s' where "s' = s5\<lparr>mem := set_cr3 i m2, tss_esp0 := t\<rparr>"
  have "get_DIR t (s5\<lparr>mem := m2, tss_esp0 := t\<rparr>) = i" using m1(2) by (simp add: get_DIR_def)
  then have res: "init_task1 s = Some s'"
    using l(1) s3(1) m1 m2(1) by (simp add: init_task1_def Let_def on_mem_def)
      (simp add: s2_def s4_def s5 s'_def)
  have t2: "task s2 u = (if u = t then (task s t)\<lparr>PID := 1, quantum := DEFAULT_QUANTUM\<rparr> else task s u)" for u
    by (simp add: s2_def upd_task_def)
  have e: "exec_status (task s' u) = exec_status (task s u)" "PID (task s' t) = 1"
    "quantum (task s' t) = DEFAULT_QUANTUM" "dir_pages_baseAddr (task s' t) = i"
    "remaining_ticks (process_stats (task s' t)) = of_int DEFAULT_QUANTUM"
    "u \<noteq> t \<Longrightarrow> task s' u = task s u" for u
    using f3(18,21,22) t2 rt oth[of u] by (simp_all add: s'_def s5' s4_def upd_task_def)
  have g: "lists s' = l" "idle_task s' = idle_task s" "cur s' = cur s" "global_PID s' = global_PID s"
    "semaphores s' = semaphores s" "scr s' = scr s" "keyb s' = keyb s" "tss_esp0 s' = t"
    "mem s' = set_cr3 i m2" "kcont s' = kcont s"
    using f3(1,3,5-9,15,16) by (simp_all add: s'_def s5' s4_def upd_task_def s2_def)
  have h: "heads s' = heads s" using g(5) by (simp add: heads_def)
  have "ks s' (Q(Freequeue := xs))"
    using l(2) h g(1,2) unfolding ks_def by simp
  then show ?thesis using res e g h m2(1) d2 by (auto simp: init_frame_def status_def m1_def set_cr3_def)
qed

section \<open>The initialised kernel\<close>

definition init_kernel :: "kstate \<Rightarrow> kstate option" where
  "init_kernel s = do {
     s1 \<leftarrow> on_mem (\<lambda>m. Some (init_mm m)) s;
     s2 \<leftarrow> init_sched s1;
     s3 \<leftarrow> init_idle s2;
     init_task1 s3
   }"

text \<open>The return to user mode: from now on the kernel is entered on the stack that the TSS names.\<close>

definition enter_user :: "kstate \<Rightarrow> kstate" where
  "enter_user s = s\<lparr>cur := tss_esp0 s\<rparr>"

text \<open>The image of the kernel before \<open>main\<close>: the task array is zero, no directory is in use.\<close>

definition fresh_image :: "kstate \<Rightarrow> bool" where
  "fresh_image s \<longleftrightarrow> idle_task s = 0 \<and> (\<forall>t. exec_status (task s t) = ST_RUN) \<and> (\<forall>i. dirCounter (mem s) i = 0)"

lemma init_kernel_ok:
  assumes "fresh_image s"
  shows "\<exists>s'. init_kernel s = Some s' \<and> kwf (enter_user s') ((\<lambda>_. [])(Freequeue := map TaskList [2..<NR_TASKS])) \<and>
    tss_esp0 s' = 1 \<and> PID (task s' 1) = 1 \<and> dir_pages_baseAddr (task s' 1) = 1 \<and>
    idle_task s' = 0 \<and> PID (task s' 0) = 0 \<and> dir_pages_baseAddr (task s' 0) = 0 \<and>
    quantum (task s' 0) = DEFAULT_QUANTUM \<and> quantum (task s' 1) = DEFAULT_QUANTUM \<and>
    remaining_ticks (process_stats (task s' 1)) = of_int DEFAULT_QUANTUM \<and>
    cr3_dir (mem s') = 1 \<and> global_PID s' = global_PID s \<and> keyb s' = keyb s \<and>
    kcont s' = (kcont s)(0 := Idle_start) \<and> (\<forall>i < NR_SEMS. ownerPID (semaphores s' i) = -1) \<and>
    (\<exists>m. set_user_pages 1 ((init_mm (mem s))\<lparr>dirCounter := (dirCounter (mem s))(0 := 1, 1 := 1)\<rparr>) = Some m \<and>
         mem s' = set_cr3 1 m)"
proof -
  define s1 where "s1 = s\<lparr>mem := init_mm (mem s)\<rparr>"
  have i1: "idle_task s1 < NR_TASKS" using assms by (simp add: s1_def fresh_image_def)
  from init_sched_ks[OF i1] obtain l f where s2: "init_sched s1 = Some (s1\<lparr>semaphores := f, lists := l\<rparr>)"
    "\<forall>i < NR_SEMS. ownerPID (f i) = -1" "ks (s1\<lparr>semaphores := f, lists := l\<rparr>) init_queues" by blast
  define s2' where "s2' = s1\<lparr>semaphores := f, lists := l\<rparr>"
  have up: "[0..<NR_TASKS] = 0 # 1 # [2..<NR_TASKS]" by (simp add: upt_rec)
  have q: "init_queues Freequeue = TaskList 0 # TaskList 1 # map TaskList [2..<NR_TASKS]"
    unfolding init_queues_def up by simp
  have d: "dirCounter (mem s2') j = 0" for j
    using assms init_mm_facts(2) by (simp add: s2'_def s1_def fresh_image_def)
  have k2: "ks s2' init_queues" using s2(3) by (simp add: s2'_def)
  from init_idle_step[OF k2 q, of 0] d obtain s3 where s3: "init_idle s2' = Some s3"
    "ks s3 (init_queues(Freequeue := TaskList 1 # map TaskList [2..<NR_TASKS]))" "idle_task s3 = 0"
    "init_frame s2' s3" "PID (task s3 0) = 0" "quantum (task s3 0) = DEFAULT_QUANTUM"
    "dir_pages_baseAddr (task s3 0) = 0"
    "mem s3 = (mem s2')\<lparr>dirCounter := (dirCounter (mem s2'))(0 := 1)\<rparr>" "kcont s3 = (kcont s2')(0 := Idle_start)" by auto
  have "used_frames (mem s3) = used_frames (init_mm (mem s))"
    by (simp add: s3(8) used_frames_def s2'_def s1_def)
  then have left: "28 \<le> card (frame_pool_set - used_frames (mem s3))" using init_mm_frames_left by simp
  have "dirCounter (mem s3) 1 = 0" "\<forall>j < 1. dirCounter (mem s3) j \<noteq> 0" using d s3(8) by auto
  from init_task1_step[OF s3(2) _ this(1) _ this(2) left] obtain s' where s': "init_task1 s3 = Some s'"
    "ks s' (init_queues(Freequeue := map TaskList [2..<NR_TASKS]))" "idle_task s' = 0"
    "init_frame s3 s'" "PID (task s' 1) = 1" "quantum (task s' 1) = DEFAULT_QUANTUM"
    "dir_pages_baseAddr (task s' 1) = 1" "tss_esp0 s' = 1" "cr3_dir (mem s') = 1"
    "remaining_ticks (process_stats (task s' 1)) = of_int DEFAULT_QUANTUM"
    "\<forall>u. u \<noteq> 1 \<longrightarrow> task s' u = task s3 u" "kcont s' = kcont s3"
    "\<exists>m2. set_user_pages 1 ((mem s3)\<lparr>dirCounter := (dirCounter (mem s3))(1 := 1)\<rparr>) = Some m2 \<and> mem s' = set_cr3 1 m2"
    using s3(3) by (auto simp: Let_def)
  have res: "init_kernel s = Some s'"
    using s2(1) s3(1) s'(1) by (simp add: init_kernel_def on_mem_def s1_def s2'_def)
  let ?Q = "(\<lambda>_. [])(Freequeue := map TaskList [2..<NR_TASKS])"
  have Q: "init_queues(Freequeue := map TaskList [2..<NR_TASKS]) = ?Q" by (simp add: init_queues_def)
  have fr: "heads s' = heads s2'" "status s' = status s" "semaphores s' = f" "global_PID s' = global_PID s" "keyb s' = keyb s"
    using s3(4) s'(4) by (auto simp: init_frame_def s2'_def s1_def status_def fun_eq_iff)
  have "ks (enter_user s') ?Q" using s'(2) Q by (auto simp: enter_user_def ks_def heads_def)
  moreover have "status_ok (enter_user s') ?Q"
    using s'(3) by (auto simp: status_ok_def enter_user_def queue_status_def split: if_splits)
  moreover have "sem_ok (enter_user s') ?Q" by (simp add: sem_ok_def)
  moreover have "off_queues (enter_user s') ?Q 1" by (auto simp: off_queues_def split: if_splits)
  moreover have "status (enter_user s') 1 = ST_RUN"
    using fr(2) assms by (simp add: fresh_image_def status_def enter_user_def fun_eq_iff)
  ultimately have "kwf (enter_user s') ?Q" using s'(8) by (simp add: kwf_def kqs_def enter_user_def)
  moreover have "\<exists>m. set_user_pages 1 ((init_mm (mem s))\<lparr>dirCounter := (dirCounter (mem s))(0 := 1, 1 := 1)\<rparr>) = Some m \<and>
         mem s' = set_cr3 1 m"
    using s'(13) by (simp add: s3(8) s2'_def s1_def init_mm_facts(2))
  moreover have "kcont s' = (kcont s)(0 := Idle_start)" using s'(12) s3(9) by (simp add: s2'_def s1_def)
  moreover have "\<forall>i < NR_SEMS. ownerPID (semaphores s' i) = -1" using s2(2) fr(3) by simp
  ultimately show ?thesis using res s' s3(3,5-7) fr by auto
qed

text \<open>A kernel image of zeros, and the kernel that the initialisation makes of it.\<close>

definition zero_stats :: stats where
  "zero_stats = \<lparr>user_ticks = 0, system_ticks = 0, blocked_ticks = 0, ready_ticks = 0,
     elapsed_total_ticks = 0, total_trans = 0, remaining_ticks = 0\<rparr>"

definition zero_task :: task_struct where
  "zero_task = \<lparr>PID = 0, dir_pages_baseAddr = 0, kernel_esp = 0, exec_status = ST_RUN,
     process_stats = zero_stats, quantum = 0, heap = 0, heapSize = 0, heapPages = 0\<rparr>"

definition zero_mm :: mm where
  "zero_mm = \<lparr>phys_mem = \<lambda>_. 0, dir_pages = \<lambda>_. 0, pagusr_table = \<lambda>_ _. 0, dirCounter = \<lambda>_. 0, cr3_dir = 0,
     pmem = \<lambda>_ _. 0, pagusr_page0 = 40, tasks_page0 = 20\<rparr>"

definition zero_kernel :: kstate where
  "zero_kernel = \<lparr>lists = \<lparr>nxt = \<lambda>_. None, prv = \<lambda>_. None\<rparr>, task = \<lambda>_. zero_task, kstack = \<lambda>_ _. 0,
     kcont = \<lambda>_. In_user, user_eax = \<lambda>_. 0, cur = 3, idle_task = 0, global_PID = 2, global_semID = -1,
     semaphores = \<lambda>_. \<lparr>ownerPID = 0, counter = 0, semID = 0\<rparr>, mem = zero_mm, tss_esp0 = 1, ebp_index = 0,
     zeos_ticks = 0, tsc = \<lambda>n. of_nat n, tsc_reads = 0,
     keyb = \<lparr>circBuffer = \<lambda>_. 0, nextToWrite = 0, lastRead = 0, leftToRead = 0, cb_is_empty = 1\<rparr>,
     scr = \<lparr>scr_x = 0, scr_y = 19, vmem = \<lambda>_. 0, port_e9 = []\<rparr>,
     link = \<lparr>cpu_idle_addr = 0x11000, ret_from_fork_addr = 0x12000, frame_bytes = 256\<rparr>\<rparr>"

definition booted :: kstate where
  "booted = enter_user (the (init_kernel zero_kernel))"

definition booted_queues :: "laddr \<Rightarrow> laddr list" where
  "booted_queues = (\<lambda>_. [])(Freequeue := map TaskList [2..<NR_TASKS])"

lemma zero_fresh: "fresh_image zero_kernel"
  by (simp add: fresh_image_def zero_kernel_def zero_task_def zero_mm_def)

lemma booted_facts:
  "kwf booted booted_queues" "cur booted = 1" "idle_task booted = 0" "PID (task booted 1) = 1"
  "PID (task booted 0) = 0" "ticks_left booted = 10" "quantum (task booted 1) = 10" "global_PID booted = 2"
  "dir_pages_baseAddr (task booted 1) = 1" "\<forall>i < NR_SEMS. ownerPID (semaphores booted i) = -1" "keyb booted = keyb zero_kernel"
  using init_kernel_ok[OF zero_fresh]
  by (auto simp: booted_def booted_queues_def enter_user_def ticks_left_def zero_kernel_def)

text \<open>Its memory: directories 0 and 1 are taken, process 1 has its 28 pages.\<close>

lemma booted_memory:
  "cr3_dir (mem booted) = 1" "dirCounter (mem booted) = (\<lambda>_. 0)(0 := 1, 1 := 1)"
  "i < NR_TASKS \<Longrightarrow> get_PT_of i (mem booted) = 40 + of_nat i"
  "card (frame_pool_set - used_frames (mem booted)) = 356"
  "p \<in> {PAG_LOG_INIT_DATA..<HEAP_INIT_PAGE} \<Longrightarrow> pte_present (pagusr_table (mem booted) 41 p)"
  "p \<in> {PAG_LOG_INIT_DATA..<HEAP_INIT_PAGE} \<Longrightarrow> page_frame (mem booted) 41 p \<in> used_frames (mem booted)"
proof -
  let ?m0 = "(init_mm zero_mm)\<lparr>dirCounter := (\<lambda>_. 0)(0 := 1, 1 := 1)\<rparr>"
  obtain m where m: "set_user_pages 1 ?m0 = Some m" "mem booted = set_cr3 1 m"
    using init_kernel_ok[OF zero_fresh] by (auto simp: booted_def enter_user_def zero_kernel_def zero_mm_def)
  have pt: "get_PT_of i ?m0 = 40 + of_nat i" if "i < NR_TASKS" for i
  proof -
    have "get_PT_of i ?m0 = take_bit 20 (40 + of_nat i)" using init_mm_facts(3)[OF that, of zero_mm] by (simp add: get_PT_of_def zero_mm_def)
    moreover have "i \<in> {0,1,2,3,4,5,6,7,8,9}" using that by auto
    ultimately show ?thesis by (auto simp: take_bit_eq_mask mask_eq_exp_minus_1)
  qed
  have left: "card (frame_pool_set - used_frames ?m0) = 384" using init_mm_frames_left[of zero_mm] by (simp add: used_frames_def)
  then have "28 \<le> card (frame_pool_set - used_frames ?m0)" by simp
  from set_user_pages_maps[OF this, of 1] m(1) have f: "maps_fresh ?m0 (get_PT_of 1 ?m0) {PAG_LOG_INIT_CODE..<HEAP_INIT_PAGE} m"
    "\<forall>p \<in> {PAG_LOG_INIT_DATA..<HEAP_INIT_PAGE}. pte_present (pagusr_table m (get_PT_of 1 ?m0) p)" by (auto simp: Let_def)
  have r: "m = ?m0\<lparr>phys_mem := phys_mem m, pagusr_table := pagusr_table m\<rparr>" "used_frames m = used_frames ?m0 \<union>
      page_frame m (get_PT_of 1 ?m0) ` {PAG_LOG_INIT_CODE..<HEAP_INIT_PAGE}" using f(1) by (auto simp: maps_fresh_def)
  have pt1: "get_PT_of 1 ?m0 = 41" using pt[of 1] by simp
  show "cr3_dir (mem booted) = 1" by (simp add: m(2) set_cr3_def)
  show "dirCounter (mem booted) = (\<lambda>_. 0)(0 := 1, 1 := 1)" by (subst m(2), subst r(1)) (simp add: set_cr3_def)
  show "get_PT_of i (mem booted) = 40 + of_nat i" if "i < NR_TASKS"
    using pt[OF that] by (subst m(2), subst r(1)) (simp add: set_cr3_def get_PT_of_def)
  have "used_frames (mem booted) = used_frames m" by (simp add: m(2) set_cr3_def used_frames_def)
  with maps_fresh_left[OF f(1)] left show "card (frame_pool_set - used_frames (mem booted)) = 356" by simp
  show "pte_present (pagusr_table (mem booted) 41 p)" if "p \<in> {PAG_LOG_INIT_DATA..<HEAP_INIT_PAGE}"
    using f(2) that pt1 by (simp add: m(2) set_cr3_def)
  show "page_frame (mem booted) 41 p \<in> used_frames (mem booted)" if "p \<in> {PAG_LOG_INIT_DATA..<HEAP_INIT_PAGE}"
    using that r(2) pt1 unfolding \<open>used_frames (mem booted) = used_frames m\<close> by (auto simp: m(2) set_cr3_def page_frame_def)
qed

end
