(* ===== verification/Devices.thy ===== *)
theory Devices
  imports Init
begin

text \<open>
  \<open>zeos/devices.c\<close>: the console and the keyboard, and the access of system calls to the memory of
  the process. A read that cannot be served leaves the process on the keyboard queue, with what is
  left to do as its continuation \<open>After_read buf n bytes\<close>; an operation that may switch to another
  process yields \<open>Switched\<close> instead of a result. C's signed integers wrap (\<open>wrap32\<close>).
\<close>

section \<open>Machine integers and results\<close>

definition wrap32 :: "int \<Rightarrow> int" where
  "wrap32 x = sint (of_int x :: DWord)"

lemma wrap32_id: "- (2 ^ 31) \<le> x \<Longrightarrow> x < 2 ^ 31 \<Longrightarrow> wrap32 x = x"
  by (simp add: wrap32_def signed_of_int signed_take_bit_int_eq_self)

datatype outcome = Returned int | Switched

section \<open>The memory of the running process\<close>

text \<open>
  Translation by the page table of the directory in CR3, as it is now: no TLB. The process has the first 4 MB. Where the
  CPU may still use an older table, after \<open>sys_sbrk\<close> has edited the one in use, \<open>Vm\<close> says.
\<close>

definition vtrans :: "mm \<Rightarrow> DWord \<Rightarrow> (DWord \<times> nat) option" where
  "vtrans m a =
     (let p = unat (drop_bit 12 a); e = pagusr_table m (get_PT_of (cr3_dir m) m) p
      in if p < TOTAL_PAGES \<and> pte_present e then Some (pte_pbase e, unat (take_bit 12 a)) else None)"

definition on_pmem :: "((DWord \<times> nat \<Rightarrow> Byte) \<Rightarrow> (DWord \<times> nat \<Rightarrow> Byte) option) \<Rightarrow> mm \<Rightarrow> mm option" where
  "on_pmem f m = map_option (\<lambda>c. m\<lparr>pmem := curry c\<rparr>) (f (case_prod (pmem m)))"

text \<open>
  \<open>copy_to_user\<close> from and \<open>copy_from_user\<close> into a buffer of the kernel, which is a list of bytes.
\<close>

definition put_user :: "DWord \<Rightarrow> Byte list \<Rightarrow> mm \<Rightarrow> mm option" where
  "put_user dest bs m =
     on_pmem (foldM (\<lambda>i c. wr8 (vtrans m) (dest + of_nat i) (bs ! i) c) [0..<length bs]) m"

fun get_user :: "DWord \<Rightarrow> nat \<Rightarrow> mm \<Rightarrow> Byte list option" where
  "get_user src 0 m = Some []"
| "get_user src (Suc n) m = do {
     b \<leftarrow> rd8 (vtrans m) src (case_prod (pmem m));
     bs \<leftarrow> get_user (src + 1) n m;
     Some (b # bs)
   }"

section \<open>The console\<close>

definition sys_write_console :: "Byte list \<Rightarrow> int \<Rightarrow> screen \<Rightarrow> int \<times> screen" where
  "sys_write_console buffer sz s = (sz, fold (\<lambda>i. printc (buffer ! i)) [0..<nat sz] s)"

section \<open>The circular buffer\<close>

definition N :: nat where [simp]: "N = 10"

definition charsInCirc :: "kbd \<Rightarrow> int" where
  "charsInCirc k =
     (if nextToWrite k \<ge> lastRead k then int (nextToWrite k) - int (lastRead k)
      else int N - (int (lastRead k) - int (nextToWrite k)))"

definition cbfull :: "kbd \<Rightarrow> bool" where
  "cbfull k \<longleftrightarrow> cb_is_empty k = 0"

definition putC :: "Byte \<Rightarrow> kstate \<Rightarrow> (int \<times> kstate) option" where
  "putC C s =
     (let k = keyb s in
      if cbfull k \<and> list_empty Keyboardqueue (lists s) then Some (-ENOMEM, s)
      else do {
        k1 \<leftarrow> (if \<not> cbfull k then
                 (let k1 = (if nextToWrite k = N then k\<lparr>nextToWrite := 0\<rparr> else k) in
                  if N \<le> nextToWrite k1 then None else
                  (let k2 = k1\<lparr>circBuffer := (circBuffer k1)(nextToWrite k1 := C), nextToWrite := nextToWrite k1 + 1\<rparr>
                   in Some (if lastRead k2 = nextToWrite k2 then k2\<lparr>cb_is_empty := 1\<rparr> else k2)))
               else Some k);
        let k3 = (if nextToWrite k1 = N then k1\<lparr>nextToWrite := 0\<rparr> else k1);
        Some (0, s\<lparr>keyb := k3\<rparr>)
      })"

text \<open>
  The inner loop of \<open>sys_read_keyboard\<close>: everything in the circular buffer goes to \<open>buff\<close>, which
  has room for \<open>n\<close> characters. A store past it is a fault.
\<close>

function drain :: "int \<Rightarrow> Byte list \<Rightarrow> kbd \<Rightarrow> (Byte list \<times> kbd) option" where
  "drain n bs k =
     (if lastRead k = nextToWrite k then Some (bs, k)
      else if n \<le> int (length bs) \<or> N \<le> lastRead k then None
      else (let c = circBuffer k (lastRead k);
                k1 = k\<lparr>lastRead := lastRead k + 1, leftToRead := wrap32 (leftToRead k - 1)\<rparr>;
                k2 = (if lastRead k1 = N then k1\<lparr>lastRead := 0\<rparr> else k1);
                k3 = (if lastRead k2 = nextToWrite k2 then k2\<lparr>cb_is_empty := 1\<rparr> else k2)
            in drain n (bs @ [c]) k3))"
  by pat_completeness auto
termination
  by (relation "measure (\<lambda>(n, bs, k). nat (n - int (length bs)))") auto

declare drain.simps [simp del]

section \<open>Reading the keyboard\<close>

text \<open>
  From the outer loop on: \<open>bs\<close> are the characters read so far. When the request is complete the
  characters go to the process (the end of \<open>sys_read\<close>), else the process waits at the front of the
  keyboard queue.
\<close>

definition read_loop :: "DWord \<Rightarrow> int \<Rightarrow> Byte list \<Rightarrow> kstate \<Rightarrow> (outcome \<times> kstate) option" where
  "read_loop buf n bs s = do {
     (bs1, s1) \<leftarrow> (if int (length bs) < n
                    then map_option (\<lambda>(b, k). (b, s\<lparr>keyb := k\<rparr>)) (drain n bs (keyb s))
                    else Some (bs, s));
     if int (length bs1) < n then do {
       let c = current s1;
       s2 \<leftarrow> on_lists (list_add (TaskList c) Keyboardqueue) s1;
       s3 \<leftarrow> sys_to_ready_stats s2;
       let s4 = set_cont c (After_read buf n bs1) (set_status c ST_BLOCKED s3);
       s5 \<leftarrow> sched_next_rr s4;
       Some (Switched, s5)
     } else do {
       s2 \<leftarrow> on_mem (put_user buf bs1) s1;
       Some (Returned (int (length bs1)), s2)
     }
   }"

definition sys_read_keyboard :: "DWord \<Rightarrow> int \<Rightarrow> kstate \<Rightarrow> (outcome \<times> kstate) option" where
  "sys_read_keyboard buf n s =
     (let s1 = s\<lparr>keyb := (keyb s)\<lparr>leftToRead := n\<rparr>\<rparr> in
      if \<not> list_empty Keyboardqueue (lists s1) \<or> cb_is_empty (keyb s1) \<noteq> 0 then do {
        let c = current s1;
        s2 \<leftarrow> block c Keyboardqueue s1;
        s3 \<leftarrow> sched_next_rr (set_cont c (After_read buf n []) s2);
        Some (Switched, s3)
      } else read_loop buf n [] s1)"

section \<open>The circular buffer as a queue\<close>

definition cb_ok :: "kbd \<Rightarrow> bool" where
  "cb_ok k \<longleftrightarrow> nextToWrite k < N \<and> lastRead k < N"

text \<open>The characters waiting, oldest first.\<close>

definition waiting :: "kbd \<Rightarrow> Byte list" where
  "waiting k = map (\<lambda>i. circBuffer k ((lastRead k + i) mod N)) [0..<(nextToWrite k + N - lastRead k) mod N]"

lemma length_waiting: "cb_ok k \<Longrightarrow> int (length (waiting k)) = charsInCirc k"
  by (auto simp: waiting_def charsInCirc_def cb_ok_def mod_if)

lemma map_upt_Cons: "map f [0..<Suc m] = f 0 # map (\<lambda>i. f (Suc i)) [0..<m]"
  by (simp add: upt_conv_Cons map_Suc_upt[symmetric] comp_def del: upt_Suc)

lemma waiting_Cons:
  assumes "cb_ok k" and "lastRead k \<noteq> nextToWrite k"
  shows "waiting k = circBuffer k (lastRead k) # waiting (k\<lparr>lastRead := (lastRead k + 1) mod N\<rparr>)"
proof -
  let ?k = "k\<lparr>lastRead := (lastRead k + 1) mod N\<rparr>"
  let ?m = "(nextToWrite ?k + N - lastRead ?k) mod N"
  have n: "(nextToWrite k + N - lastRead k) mod N = Suc ?m"
    using assms by (auto simp: cb_ok_def mod_if)
  have e: "(lastRead k + Suc i) mod N = ((lastRead k + 1) mod N + i) mod N" for i
    by (simp add: mod_add_left_eq)
  have h: "(lastRead k + 0) mod N = lastRead k" using assms(1) by (simp add: cb_ok_def)
  show ?thesis unfolding waiting_def n map_upt_Cons e h by simp
qed

text \<open>One character leaves the buffer.\<close>

definition taken :: "kbd \<Rightarrow> kbd \<Rightarrow> bool" where
  "taken k k' \<longleftrightarrow> circBuffer k' = circBuffer k \<and> nextToWrite k' = nextToWrite k \<and> cb_ok k'"

lemma drain_step:
  assumes "cb_ok k" and "lastRead k \<noteq> nextToWrite k" and "int (length bs) < n"
  obtains k' where "drain n bs k = drain n (bs @ [circBuffer k (lastRead k)]) k'" "taken k k'"
    "waiting k = circBuffer k (lastRead k) # waiting k'"
    "cb_is_empty k' = (if waiting k' = [] then 1 else cb_is_empty k)"
proof -
  define k1 where "k1 = k\<lparr>lastRead := lastRead k + 1, leftToRead := wrap32 (leftToRead k - 1)\<rparr>"
  define k2 where "k2 = (if lastRead k1 = N then k1\<lparr>lastRead := 0\<rparr> else k1)"
  define k3 where "k3 = (if lastRead k2 = nextToWrite k2 then k2\<lparr>cb_is_empty := 1\<rparr> else k2)"
  have d: "drain n bs k = drain n (bs @ [circBuffer k (lastRead k)]) k3"
    using assms by (subst drain.simps) (simp add: cb_ok_def k1_def k2_def k3_def Let_def)
  have f: "circBuffer k3 = circBuffer k" "nextToWrite k3 = nextToWrite k" "lastRead k3 = (lastRead k + 1) mod N"
    "cb_is_empty k3 = (if lastRead k3 = nextToWrite k3 then 1 else cb_is_empty k)"
    using assms(1) by (auto simp: k1_def k2_def k3_def cb_ok_def)
  have t: "taken k k3" using f assms(1) by (simp add: taken_def cb_ok_def)
  have w: "waiting k3 = waiting (k\<lparr>lastRead := (lastRead k + 1) mod N\<rparr>)" by (simp add: waiting_def f)
  have e: "waiting k3 = [] \<longleftrightarrow> lastRead k3 = nextToWrite k3"
    using t by (auto simp: waiting_def taken_def cb_ok_def mod_if)
  show thesis using that[OF d t] waiting_Cons[OF assms(1,2)] w e f(4) by simp
qed

lemma waiting_empty: "cb_ok k \<Longrightarrow> waiting k = [] \<longleftrightarrow> lastRead k = nextToWrite k"
  by (auto simp: waiting_def cb_ok_def mod_if)

text \<open>Draining takes everything, in order, when there is room, and overruns the buffer otherwise.\<close>

lemma drain_all:
  assumes "cb_ok k" and "int (length bs) + charsInCirc k \<le> n \<or> waiting k = []"
  shows "\<exists>k'. drain n bs k = Some (bs @ waiting k, k') \<and> taken k k' \<and> lastRead k' = nextToWrite k' \<and>
    cb_is_empty k' = (if waiting k = [] then cb_is_empty k else 1)"
  using assms
proof (induction "length (waiting k)" arbitrary: bs k)
  case 0
  then show ?case by (subst drain.simps) (simp add: waiting_empty taken_def)
next
  case (Suc m)
  then have ne: "lastRead k \<noteq> nextToWrite k" by (auto simp: waiting_empty[symmetric])
  have l: "int (length bs) + int (length (waiting k)) \<le> n" using Suc length_waiting[of k] by auto
  from Suc.hyps(2) l have "int (length bs) < n" by linarith
  from drain_step[OF Suc.prems(1) ne this] obtain k' where k': "drain n bs k = drain n (bs @ [circBuffer k (lastRead k)]) k'"
    "taken k k'" "waiting k = circBuffer k (lastRead k) # waiting k'"
    "cb_is_empty k' = (if waiting k' = [] then 1 else cb_is_empty k)" by blast
  have ok: "cb_ok k'" using k'(2) by (simp add: taken_def)
  have "int (length (bs @ [circBuffer k (lastRead k)])) + charsInCirc k' \<le> n"
    using l k'(3) length_waiting[OF ok] by simp
  with Suc.hyps(1)[OF _ ok, of "bs @ [circBuffer k (lastRead k)]"] Suc.hyps(2) k'(3)
  obtain k2 where "drain n (bs @ [circBuffer k (lastRead k)]) k' = Some ((bs @ [circBuffer k (lastRead k)]) @ waiting k', k2)"
    "taken k' k2" "lastRead k2 = nextToWrite k2"
    "cb_is_empty k2 = (if waiting k' = [] then cb_is_empty k' else 1)" by auto
  with k' show ?case by (auto simp: taken_def)
qed

lemma drain_overrun:
  assumes "cb_ok k" and "int (length bs) \<le> n" and "n < int (length bs) + charsInCirc k" and "waiting k \<noteq> []"
  shows "drain n bs k = None"
  using assms
proof (induction "length (waiting k)" arbitrary: bs k)
  case 0
  then show ?case by simp
next
  case (Suc m)
  then have ne: "lastRead k \<noteq> nextToWrite k" by (auto simp: waiting_empty[symmetric])
  show ?case
  proof (cases "n \<le> int (length bs)")
    case True
    with ne show ?thesis by (subst drain.simps) simp
  next
    case False
    then have "int (length bs) < n" by linarith
    from drain_step[OF Suc.prems(1) ne this] obtain k' where k': "drain n bs k = drain n (bs @ [circBuffer k (lastRead k)]) k'"
      "taken k k'" "waiting k = circBuffer k (lastRead k) # waiting k'" by blast
    have ok: "cb_ok k'" using k'(2) by (simp add: taken_def)
    have c: "charsInCirc k = 1 + charsInCirc k'"
      using length_waiting[OF ok] length_waiting[OF Suc.prems(1)] k'(3) by simp
    moreover have "waiting k' \<noteq> []" using False c Suc.prems(3) length_waiting[OF ok] by auto
    ultimately show ?thesis using Suc.hyps(1)[OF _ ok] Suc.hyps(2) Suc.prems(3) False k'(1,3) by simp
  qed
qed

lemma mod_add_less_neq:
  fixes i j n a :: nat
  assumes "i < j" and "j < n"
  shows "(a + i) mod n \<noteq> (a + j) mod n"
proof
  assume "(a + i) mod n = (a + j) mod n"
  then have "n dvd (a + j) - (a + i)" using assms(1) by (metis mod_eq_dvd_iff_nat nat_add_left_cancel_le less_imp_le)
  then have "n dvd j - i" by simp
  moreover have "0 < j - i" "j - i < n" using assms by auto
  ultimately show False using nat_dvd_not_less by blast
qed

lemma gap10: "a < 10 \<Longrightarrow> b < 10 \<Longrightarrow> (b + 10 - a) mod 10 = (if a \<le> b then b - a else b + 10 - a)" for a b :: nat
  by (auto simp: mod_if)

lemma Suc10: "(b + 1) mod 10 < 10" "b < 10 \<Longrightarrow> (b + 1) mod 10 = (if b = 9 then 0 else b + 1)" for b :: nat
  by auto

text \<open>A character that is put into the buffer comes last, unless it fills the buffer: then all are lost.\<close>

lemma putC_waiting:
  assumes "cb_ok (keyb s)" and "\<not> cbfull (keyb s)"
  shows "\<exists>s'. putC c s = Some (0, s') \<and> s' = s\<lparr>keyb := keyb s'\<rparr> \<and> cb_ok (keyb s') \<and> \<not> cbfull (keyb s') \<and>
    leftToRead (keyb s') = leftToRead (keyb s) \<and>
    waiting (keyb s') = (if length (waiting (keyb s)) < 9 then waiting (keyb s) @ [c] else [])"
proof -
  let ?k = "keyb s"
  define k' where "k' = ?k\<lparr>circBuffer := (circBuffer ?k)(nextToWrite ?k := c),
    nextToWrite := (nextToWrite ?k + 1) mod N, cb_is_empty := (if lastRead ?k = nextToWrite ?k + 1 then 1 else cb_is_empty ?k)\<rparr>"
  have p: "putC c s = Some (0, s\<lparr>keyb := k'\<rparr>)"
    using assms by (auto simp: putC_def k'_def cb_ok_def cbfull_def Let_def)
  have ok: "cb_ok k'" "\<not> cbfull k'" "leftToRead k' = leftToRead ?k"
    using assms by (auto simp: k'_def cb_ok_def cbfull_def)
  have "waiting k' = (if length (waiting ?k) < 9 then waiting ?k @ [c] else [])"
  proof (cases "length (waiting ?k) < 9")
    case True
    let ?m = "(nextToWrite ?k + N - lastRead ?k) mod N"
    have m: "?m < 9" using True by (simp add: waiting_def)
    have b: "nextToWrite ?k < 10" "lastRead ?k < 10" using assms(1) by (simp_all add: cb_ok_def)
    have e: "nextToWrite k' = (nextToWrite ?k + 1) mod N" "lastRead k' = lastRead ?k"
      "circBuffer k' = (circBuffer ?k)(nextToWrite ?k := c)" by (simp_all add: k'_def)
    have n: "(nextToWrite k' + N - lastRead k') mod N = Suc ?m"
    proof -
      have "nextToWrite k' = (if nextToWrite ?k = 9 then 0 else nextToWrite ?k + 1)" "nextToWrite k' < 10"
        unfolding e(1) N_def using Suc10 b(1) by simp_all
      then show ?thesis using b m unfolding e(2) N_def by (simp add: gap10 split: if_splits) arith+
    qed
    have "(lastRead ?k + ?m) mod N = nextToWrite ?k"
      using b unfolding N_def gap10[OF b(2) b(1)] by (auto simp: mod_if)
    moreover from this have "(lastRead ?k + i) mod N \<noteq> nextToWrite ?k" if "i < ?m" for i
      using mod_add_less_neq[of i ?m N "lastRead ?k"] that m by simp
    ultimately have "waiting k' = waiting ?k @ [c]"
      unfolding waiting_def n unfolding e(2,3) by (simp del: N_def)
    with True show ?thesis by simp
  next
    case False
    have b: "nextToWrite ?k < 10" "lastRead ?k < 10" "\<not> (nextToWrite ?k + 10 - lastRead ?k) mod 10 < 9"
      using assms(1) False by (simp_all add: cb_ok_def waiting_def)
    have "nextToWrite k' = (nextToWrite ?k + 1) mod 10" "lastRead k' = lastRead ?k" by (simp_all add: k'_def)
    then have "nextToWrite k' = lastRead k'" using b unfolding gap10[OF b(2) b(1)] Suc10(2)[OF b(1)]
      by (auto split: if_splits)
    with ok False show ?thesis by (simp add: waiting_empty)
  qed
  with p ok show ?thesis by auto
qed

end
