(* ===== verification/Sem.thy ===== *)
theory Sem
  imports Devices
begin

text \<open>
  The semaphores of \<open>zeos/sys.c\<close>. A wait on a closed semaphore gives up the processor and yields
  \<open>Switched\<close>; \<open>sem_wait_result\<close> is what the process finds out when it runs again.
\<close>

section \<open>Semaphores\<close>

definition valid_sem :: "int \<Rightarrow> kstate \<Rightarrow> bool" where
  "valid_sem n_sem s \<longleftrightarrow> \<not> (n_sem < 0 \<or> n_sem > 19 \<or> ownerPID (semaphores s (nat n_sem)) < 0)"

definition upd_sem :: "int \<Rightarrow> (semaphore \<Rightarrow> semaphore) \<Rightarrow> kstate \<Rightarrow> kstate" where
  "upd_sem n f s = s\<lparr>semaphores := (semaphores s)(nat n := f (semaphores s (nat n)))\<rparr>"

definition sys_sem_init :: "int \<Rightarrow> DWord \<Rightarrow> kstate \<Rightarrow> int \<times> kstate" where
  "sys_sem_init n_sem v s =
     (if n_sem < 0 \<or> n_sem > 19 then (-EINVAL, s)
      else if ownerPID (semaphores s (nat n_sem)) \<ge> 0 then (-EBUSY, s)
      else
        (let s1 = s\<lparr>global_semID := wrap32 (global_semID s + 1)\<rparr>;
             s2 = upd_sem n_sem (\<lambda>e. e\<lparr>ownerPID := PID (task s1 (current s1)), counter := sint v,
                                        semID := global_semID s1\<rparr>) s1
         in (0, s2\<lparr>lists := INIT_LIST_HEAD (SemQueue (nat n_sem)) (lists s2)\<rparr>)))"

definition sys_sem_wait :: "int \<Rightarrow> kstate \<Rightarrow> (outcome \<times> kstate) option" where
  "sys_sem_wait n_sem s =
     (if \<not> valid_sem n_sem s then Some (Returned (-EINVAL), s)
      else if counter (semaphores s (nat n_sem)) \<le> 0 then do {
        let mySemID = semID (semaphores s (nat n_sem));
        let c = current s;
        s1 \<leftarrow> block c (SemQueue (nat n_sem)) s;
        s2 \<leftarrow> sched_next_rr (set_cont c (After_sem_wait n_sem mySemID) s1);
        Some (Switched, s2)
      } else Some (Returned 0, upd_sem n_sem (\<lambda>e. e\<lparr>counter := counter e - 1\<rparr>) s))"

text \<open>The end of \<open>sys_sem_wait\<close>, when the process runs again.\<close>

definition sem_wait_result :: "int \<Rightarrow> int \<Rightarrow> kstate \<Rightarrow> int" where
  "sem_wait_result n_sem mySemID s =
     (let e = semaphores s (nat n_sem) in if ownerPID e < 0 \<or> mySemID \<noteq> semID e then -1 else 0)"

definition unblock_first :: "laddr \<Rightarrow> kstate \<Rightarrow> kstate option" where
  "unblock_first q s = do {
     first \<leftarrow> list_first q (lists s);
     t \<leftarrow> list_head_to_task_struct first;
     unblock t s
   }"

definition sys_sem_signal :: "int \<Rightarrow> kstate \<Rightarrow> (int \<times> kstate) option" where
  "sys_sem_signal n_sem s =
     (if \<not> valid_sem n_sem s then Some (-EINVAL, s)
      else if list_empty (SemQueue (nat n_sem)) (lists s)
      then Some (0, upd_sem n_sem (\<lambda>e. e\<lparr>counter := wrap32 (counter e + 1)\<rparr>) s)
      else map_option (\<lambda>s'. (0, s')) (unblock_first (SemQueue (nat n_sem)) s))"

text \<open>The loop that releases the waiters.\<close>

partial_function (option) release_all :: "laddr \<Rightarrow> kstate \<Rightarrow> kstate option" where
  "release_all q s =
     (if list_empty q (lists s) then Some s
      else Option.bind (unblock_first q s) (release_all q))"

definition sys_sem_destroy :: "int \<Rightarrow> kstate \<Rightarrow> (int \<times> kstate) option" where
  "sys_sem_destroy n_sem s =
     (if \<not> valid_sem n_sem s then Some (-EINVAL, s)
      else if PID (task s (current s)) = ownerPID (semaphores s (nat n_sem)) then do {
        s1 \<leftarrow> release_all (SemQueue (nat n_sem)) s;
        Some (0, upd_sem n_sem (\<lambda>e. e\<lparr>ownerPID := -1, semID := -1\<rparr>) s1)
      } else Some (-EPERM, s))"

section \<open>Releasing waiters\<close>

text \<open>The first waiter of a queue becomes ready, at the front of the ready queue.\<close>

lemma unblock_first_kwf:
  assumes "kwf s Q" and "q \<in> heads s" and "q \<noteq> Readyqueue" and "q \<noteq> Freequeue" and "Q q = x # xs"
  shows "\<exists>t s'. x = TaskList t \<and> unblock_first q s = Some s' \<and> sframe s s' \<and> status s' = (status s)(t := ST_READY) \<and>
    kwf s' (Q(q := xs, Readyqueue := x # Q Readyqueue))"
proof -
  let ?Q = "Q(q := xs, Readyqueue := x # Q Readyqueue)"
  have w: "ks s Q" "status_ok s Q" "sem_ok s Q" "off_queues s Q (cur s)" "cur s < NR_TASKS" "status s (cur s) = ST_RUN"
    using assms(1) by (simp_all add: kwf_def kqs_def)
  from unblock_first_step[OF w(1) assms(2,3,5)] obtain t where t: "x = TaskList t" "t < NR_TASKS"
    "list_first q (lists s) = Some (TaskList t)"
    "queue_step s (unblock t s) (Q(q := xs, Readyqueue := TaskList t # Q Readyqueue)) ((status s)(t := ST_READY))"
    by blast
  from t(1,4) obtain s' where s': "unblock t s = Some s'" "sframe s s'" "ks s' ?Q" "status s' = (status s)(t := ST_READY)"
    by (auto elim: queue_stepE)
  note fr = sframe_frame[OF s'(2)]
  have xq: "TaskList t \<in> set (Q q)" using assms(5) t(1) by simp
  have ct: "cur s \<noteq> t" using w(4) assms(2) xq by (auto simp: off_queues_def)
  have ti: "t \<noteq> idle_task s" using w(2) assms(2,3) xq by (auto simp: status_ok_def)
  have sub: "TaskList i \<in> set (?Q p) \<Longrightarrow> TaskList i \<in> set (Q p) \<or> (p = Readyqueue \<and> i = t)" for i p
    using assms(3,5) t(1) by (auto split: if_splits)
  have other: "TaskList t \<notin> set (?Q p)" if "p \<noteq> Readyqueue" "p \<in> heads s" for p
  proof -
    have "qsys (heads s) Q (lists s)" using w(1) by (simp add: ks_def)
    from lq.removed_fresh[OF this assms(2) assms(5) that(2)] show ?thesis using t(1) that(1) by simp
  qed
  have "status_ok s' ?Q"
    unfolding status_ok_def
  proof (intro ballI allI impI)
    fix p i assume p: "p \<in> heads s'" and i: "TaskList i \<in> set (?Q p)"
    have p': "p \<in> heads s" using p by (simp only: fr)
    show "queue_status p (status s' i) \<and> (i = idle_task s' \<longrightarrow> p = Readyqueue)"
    proof (cases "i = t")
      case True
      with i other p' have "p = Readyqueue" by blast
      with True s'(4) show ?thesis by (simp add: queue_status_def)
    next
      case False
      with sub[OF i] have "TaskList i \<in> set (Q p)" by blast
      with w(2) p' have "queue_status p (status s i) \<and> (i = idle_task s \<longrightarrow> p = Readyqueue)"
        unfolding status_ok_def by blast
      then show ?thesis using False s'(4) fr(5) by simp
    qed
  qed
  moreover have "sem_ok s' ?Q"
    unfolding sem_ok_def fr(8)
  proof (intro allI impI)
    fix n assume "n < NR_SEMS" "0 \<le> ownerPID (semaphores s n)" "0 < counter (semaphores s n)"
    with w(3) have e: "Q (SemQueue n) = []" unfolding sem_ok_def by blast
    with assms(5) have "q \<noteq> SemQueue n" by auto
    with e show "?Q (SemQueue n) = []" by simp
  qed
  moreover have "off_queues s' ?Q (cur s')"
    using w(4) sub ct fr(4,24) unfolding off_queues_def by metis
  moreover have "unblock_first q s = Some s'"
    using t(3) s'(1) by (simp add: unblock_first_def list_head_to_task_struct_def)
  ultimately show ?thesis using t(1) s' w(5,6) ct fr(4) by (auto simp: kwf_def kqs_def)
qed

text \<open>\<open>release_all\<close> ends, and the last waiter comes first.\<close>

lemma release_all_kwf:
  assumes "kwf s Q" and "q \<in> heads s" and "q \<noteq> Readyqueue" and "q \<noteq> Freequeue"
  shows "\<exists>s'. release_all q s = Some s' \<and> sframe s s' \<and>
    kwf s' (Q(q := [], Readyqueue := rev (Q q) @ Q Readyqueue))"
  using assms
proof (induction "length (Q q)" arbitrary: s Q)
  case 0
  then have "list_empty q (lists s)" using ks_empty[of s Q q] by (simp add: kwf_def kqs_def)
  then have "release_all q s = Some s" by (subst release_all.simps) simp
  moreover have "Q(q := [], Readyqueue := rev (Q q) @ Q Readyqueue) = Q" using 0 by auto
  ultimately have "release_all q s = Some s \<and> sframe s s \<and> kwf s (Q(q := [], Readyqueue := rev (Q q) @ Q Readyqueue))"
    using 0 by (simp only: sframe_refl simp_thms)
  then show ?case by blast
next
  case (Suc n)
  then obtain x xs where q: "Q q = x # xs" by (cases "Q q") auto
  with Suc have "\<not> list_empty q (lists s)" using ks_empty[of s Q q] by (simp add: kwf_def kqs_def)
  then have r: "release_all q s = Option.bind (unblock_first q s) (release_all q)"
    by (subst release_all.simps) simp
  let ?Q1 = "Q(q := xs, Readyqueue := x # Q Readyqueue)"
  from unblock_first_kwf[OF Suc.prems q] obtain s1 where s1: "unblock_first q s = Some s1" "sframe s s1" "kwf s1 ?Q1"
    by blast
  have "n = length (?Q1 q)" using Suc.hyps(2) q Suc.prems(3) by simp
  moreover have "q \<in> heads s1" using Suc.prems(2) by (simp only: sframe_frame(24)[OF s1(2)])
  ultimately obtain s' where s': "release_all q s1 = Some s'" "sframe s1 s'"
    "kwf s' (?Q1(q := [], Readyqueue := rev (?Q1 q) @ ?Q1 Readyqueue))"
    using Suc.hyps(1)[OF _ s1(3)] Suc.prems(3,4) by blast
  moreover have "?Q1(q := [], Readyqueue := rev (?Q1 q) @ ?Q1 Readyqueue) = Q(q := [], Readyqueue := rev (Q q) @ Q Readyqueue)"
    using Suc.prems(3) q by (auto simp: fun_eq_iff)
  ultimately show ?case using r s1(1) sframe_trans[OF s1(2) s'(2)] by simp
qed

section \<open>Opening and closing\<close>

lemma heads_upd_sem:
  "heads (upd_sem (int n) f s) = (if n < NR_SEMS \<and> 0 \<le> ownerPID (f (semaphores s n)) then insert (SemQueue n) (heads s)
     else heads s - {SemQueue n})"
  by (auto simp: heads_def upd_sem_def)

lemma ks_sem_head: "ks s Q \<Longrightarrow> q \<in> heads s \<Longrightarrow> SemQueue n \<notin> set (Q q)"
  using ks_tasks[of s Q q "SemQueue n"] by auto

lemma kwf_counter:
  assumes "kwf s Q" and "n < NR_SEMS" and "Q (SemQueue n) = [] \<or> v \<le> 0"
  shows "kwf (upd_sem (int n) (\<lambda>e. e\<lparr>counter := v\<rparr>) s) Q"
proof -
  let ?s = "upd_sem (int n) (\<lambda>e. e\<lparr>counter := v\<rparr>) s"
  have h: "heads ?s = heads s" by (auto simp: heads_def upd_sem_def)
  have f: "lists ?s = lists s" "task ?s = task s" "cur ?s = cur s" "idle_task ?s = idle_task s"
    by (simp_all add: upd_sem_def)
  have "sem_ok ?s Q" using assms by (auto simp: kwf_def kqs_def sem_ok_def upd_sem_def)
  then show ?thesis using assms(1) h f
    by (simp add: kwf_def kqs_def ks_def status_ok_def off_queues_def status_def)
qed

lemma kwf_close:
  assumes "kwf s Q" and "n < NR_SEMS" and "v < 0"
  shows "kwf (upd_sem (int n) (\<lambda>e. e\<lparr>ownerPID := v, semID := w\<rparr>) s) Q"
proof -
  let ?s = "upd_sem (int n) (\<lambda>e. e\<lparr>ownerPID := v, semID := w\<rparr>) s"
  have h: "heads ?s \<subseteq> heads s" using assms(3) unfolding heads_upd_sem by auto
  have f: "lists ?s = lists s" "task ?s = task s" "cur ?s = cur s" "idle_task ?s = idle_task s"
    by (simp_all add: upd_sem_def)
  have "sem_ok ?s Q" using assms by (auto simp: kwf_def kqs_def sem_ok_def upd_sem_def)
  moreover have "ks ?s Q" using assms(1) h f(1,4) unfolding kwf_def kqs_def ks_def by (metis lq.rep_forget subsetD)
  moreover have "status_ok ?s Q" "off_queues ?s Q (cur ?s)"
    using assms(1) h f unfolding kwf_def kqs_def status_ok_def off_queues_def status_def by (metis subsetD)+
  ultimately show ?thesis using assms(1) f by (simp add: kwf_def kqs_def status_def)
qed

lemma sys_sem_init_kwf:
  assumes "kwf s Q"
  shows "sys_sem_init n v s = (r, s') \<Longrightarrow> kwf s' (if r = 0 then Q(SemQueue (nat n) := []) else Q)"
proof (cases "n < 0 \<or> n > 19 \<or> ownerPID (semaphores s (nat n)) \<ge> 0")
  case True
  assume "sys_sem_init n v s = (r, s')"
  with True assms show ?thesis by (auto simp: sys_sem_init_def split: if_splits)
next
  case False
  let ?q = "SemQueue (nat n)"
  assume "sys_sem_init n v s = (r, s')"
  with False have r: "r = 0" and s': "s' = (upd_sem n (\<lambda>e. e\<lparr>ownerPID := PID (task s (cur s)), counter := sint v,
      semID := wrap32 (global_semID s + 1)\<rparr>) (s\<lparr>global_semID := wrap32 (global_semID s + 1)\<rparr>))\<lparr>lists :=
        INIT_LIST_HEAD ?q (lists s)\<rparr>"
    by (auto simp: sys_sem_init_def Let_def current_def upd_sem_def)
  have nq: "?q \<notin> heads s" using False by simp
  have h: "heads s' \<subseteq> insert ?q (heads s)" by (auto simp: s' heads_def upd_sem_def split: if_splits)
  have f: "task s' = task s" "cur s' = cur s" "idle_task s' = idle_task s" "lists s' = INIT_LIST_HEAD ?q (lists s)"
    by (simp_all add: s' upd_sem_def)
  have w: "ks s Q" "status_ok s Q" "sem_ok s Q" "off_queues s Q (cur s)" using assms by (simp_all add: kwf_def kqs_def)
  have "\<forall>p \<in> heads s. ?q \<notin> set (Q p)" using ks_sem_head[OF w(1)] by blast
  with w(1) nq have "qsys (insert ?q (heads s)) (Q(?q := [])) (lists s')"
    unfolding f(4) ks_def by (intro lq.rep_ini) auto
  from lq.rep_forget[OF this h] have "ks s' (Q(?q := []))"
    using w(1) h f(3) unfolding ks_def by auto
  moreover have "status_ok s' (Q(?q := []))"
    using w(2) h f(1,3) unfolding status_ok_def status_def by auto
  moreover have "sem_ok s' (Q(?q := []))"
    using w(3) by (auto simp: sem_ok_def s' upd_sem_def)
  moreover have "off_queues s' (Q(?q := [])) (cur s')"
    using w(4) h f(2) unfolding off_queues_def by auto
  ultimately show ?thesis using assms r f by (simp add: kwf_def kqs_def status_def)
qed

section \<open>The three operations on an open semaphore\<close>

lemma valid_semD:
  assumes "valid_sem n s"
  shows "0 \<le> n" "nat n < NR_SEMS" "int (nat n) = n" "SemQueue (nat n) \<in> heads s"
  using assms by (auto simp: valid_sem_def)

lemma sys_sem_wait_open:
  assumes "kwf s Q" and "valid_sem n s" and "0 < counter (semaphores s (nat n))"
  shows "sys_sem_wait n s = Some (Returned 0, upd_sem n (\<lambda>e. e\<lparr>counter := counter e - 1\<rparr>) s) \<and>
    kwf (upd_sem n (\<lambda>e. e\<lparr>counter := counter e - 1\<rparr>) s) Q"
proof -
  note v = valid_semD[OF assms(2)]
  have "Q (SemQueue (nat n)) = []"
    using assms(1,3) v(2,4) unfolding kwf_def kqs_def sem_ok_def by simp
  then have "kwf (upd_sem (int (nat n)) (\<lambda>e. e\<lparr>counter := counter (semaphores s (nat n)) - 1\<rparr>) s) Q"
    by (intro kwf_counter[OF assms(1) v(2)]) simp
  moreover have "upd_sem (int (nat n)) (\<lambda>e. e\<lparr>counter := counter (semaphores s (nat n)) - 1\<rparr>) s =
      upd_sem n (\<lambda>e. e\<lparr>counter := counter e - 1\<rparr>) s" unfolding v(3) by (simp add: upd_sem_def)
  ultimately show ?thesis using assms(2,3) by (simp add: sys_sem_wait_def)
qed

lemma sys_sem_wait_closed:
  assumes "kwf s Q" and "valid_sem n s" and "counter (semaphores s (nat n)) \<le> 0" and "cur s \<noteq> idle_task s"
  shows "\<exists>s'. sys_sem_wait n s = Some (Switched, s') \<and>
    kwf s' (ready_rest (Q(SemQueue (nat n) := Q (SemQueue (nat n)) @ [TaskList (cur s)]))) \<and>
    same_kernel s s' \<and> cur s' = next_task s Q \<and>
    kcont s' = (kcont s)(cur s := After_sem_wait n (semID (semaphores s (nat n))))"
proof -
  note v = valid_semD[OF assms(2)]
  have "\<And>k. SemQueue (nat n) = SemQueue k \<Longrightarrow> counter (semaphores s k) \<le> 0" using assms(3) by simp
  from block_switch[OF assms(1) v(4) assms(4) _ this, of "After_sem_wait n (semID (semaphores s (nat n)))"]
  obtain s1 s' where "block (cur s) (SemQueue (nat n)) s = Some s1"
    "sched_next_rr (set_cont (cur s) (After_sem_wait n (semID (semaphores s (nat n)))) s1) = Some s'"
    "kwf s' (ready_rest (Q(SemQueue (nat n) := Q (SemQueue (nat n)) @ [TaskList (cur s)])))" "same_kernel s s'"
    "kcont s' = (kcont s)(cur s := After_sem_wait n (semID (semaphores s (nat n))))" "cur s' = next_task s Q"
    by blast
  then show ?thesis using assms(2,3) by (simp add: sys_sem_wait_def current_def Let_def)
qed

lemma sys_sem_signal_none:
  assumes "kwf s Q" and "valid_sem n s" and "Q (SemQueue (nat n)) = []"
  shows "sys_sem_signal n s = Some (0, upd_sem n (\<lambda>e. e\<lparr>counter := wrap32 (counter e + 1)\<rparr>) s) \<and>
    kwf (upd_sem n (\<lambda>e. e\<lparr>counter := wrap32 (counter e + 1)\<rparr>) s) Q"
proof -
  note v = valid_semD[OF assms(2)]
  have "list_empty (SemQueue (nat n)) (lists s)"
    using ks_empty[OF _ v(4), of Q] assms(1,3) by (simp add: kwf_def kqs_def)
  moreover have "kwf (upd_sem (int (nat n)) (\<lambda>e. e\<lparr>counter := wrap32 (counter (semaphores s (nat n)) + 1)\<rparr>) s) Q"
    by (rule kwf_counter[OF assms(1) v(2)]) (simp add: assms(3))
  moreover have "upd_sem (int (nat n)) (\<lambda>e. e\<lparr>counter := wrap32 (counter (semaphores s (nat n)) + 1)\<rparr>) s =
      upd_sem n (\<lambda>e. e\<lparr>counter := wrap32 (counter e + 1)\<rparr>) s" unfolding v(3) by (simp add: upd_sem_def)
  ultimately show ?thesis using assms(2) by (simp add: sys_sem_signal_def)
qed

lemma sys_sem_signal_waiter:
  assumes "kwf s Q" and "valid_sem n s" and "Q (SemQueue (nat n)) = x # xs"
  shows "\<exists>t s'. x = TaskList t \<and> sys_sem_signal n s = Some (0, s') \<and> sframe s s' \<and>
    status s' = (status s)(t := ST_READY) \<and>
    kwf s' (Q(SemQueue (nat n) := xs, Readyqueue := x # Q Readyqueue))"
proof -
  note v = valid_semD[OF assms(2)]
  have "\<not> list_empty (SemQueue (nat n)) (lists s)"
    using ks_empty[OF _ v(4), of Q] assms(1,3) by (simp add: kwf_def kqs_def)
  with unblock_first_kwf[OF assms(1) v(4) _ _ assms(3)] assms(2) show ?thesis
    by (auto simp: sys_sem_signal_def)
qed

lemma sys_sem_destroy_owner:
  assumes "kwf s Q" and "valid_sem n s" and "ownerPID (semaphores s (nat n)) = PID (task s (cur s))"
  shows "\<exists>s1. sframe s s1 \<and>
    sys_sem_destroy n s = Some (0, upd_sem n (\<lambda>e. e\<lparr>ownerPID := -1, semID := -1\<rparr>) s1) \<and>
    kwf (upd_sem n (\<lambda>e. e\<lparr>ownerPID := -1, semID := -1\<rparr>) s1)
      (Q(SemQueue (nat n) := [], Readyqueue := rev (Q (SemQueue (nat n))) @ Q Readyqueue))"
proof -
  note v = valid_semD[OF assms(2)]
  from release_all_kwf[OF assms(1) v(4)] obtain s1 where s1: "release_all (SemQueue (nat n)) s = Some s1" "sframe s s1"
    "kwf s1 (Q(SemQueue (nat n) := [], Readyqueue := rev (Q (SemQueue (nat n))) @ Q Readyqueue))" by blast
  have "kwf (upd_sem (int (nat n)) (\<lambda>e. e\<lparr>ownerPID := -1, semID := -1\<rparr>) s1)
      (Q(SemQueue (nat n) := [], Readyqueue := rev (Q (SemQueue (nat n))) @ Q Readyqueue))"
    by (rule kwf_close[OF s1(3) v(2)]) simp
  then show ?thesis using s1 assms(2,3) v(3) by (auto simp: sys_sem_destroy_def current_def)
qed

text \<open>Every outcome keeps the queues in order.\<close>

lemma sys_sem_wait_kwf:
  assumes "kwf s Q" and "cur s \<noteq> idle_task s"
  shows "\<exists>r s' Q'. sys_sem_wait n s = Some (r, s') \<and> kwf s' Q' \<and> idle_task s' = idle_task s \<and> keyb s' = keyb s \<and>
    (kcont s' = kcont s \<or> (\<exists>i. kcont s' = (kcont s)(cur s := After_sem_wait n i)))"
proof (cases "valid_sem n s")
  case True
  show ?thesis
  proof (cases "0 < counter (semaphores s (nat n))")
    case pos: True
    with sys_sem_wait_open[OF assms(1) True] show ?thesis by (auto simp: upd_sem_def)
  next
    case False
    then have "counter (semaphores s (nat n)) \<le> 0" by simp
    from sys_sem_wait_closed[OF assms(1) True this assms(2)] show ?thesis unfolding same_kernel_def by blast
  qed
next
  case False
  with assms show ?thesis by (auto simp: sys_sem_wait_def)
qed

lemma sys_sem_signal_kwf:
  assumes "kwf s Q"
  shows "\<exists>r s' Q'. sys_sem_signal n s = Some (r, s') \<and> kwf s' Q' \<and> cur s' = cur s \<and>
    idle_task s' = idle_task s \<and> keyb s' = keyb s \<and> kcont s' = kcont s"
proof (cases "valid_sem n s")
  case True
  show ?thesis
  proof (cases "Q (SemQueue (nat n))")
    case Nil
    from sys_sem_signal_none[OF assms True Nil] show ?thesis by (auto simp: upd_sem_def)
  next
    case (Cons x xs)
    from sys_sem_signal_waiter[OF assms True Cons] show ?thesis using sframe_frame(2,4,5,14) by blast
  qed
next
  case False
  with assms show ?thesis by (auto simp: sys_sem_signal_def)
qed

text \<open>Destroying touches one semaphore and the queues; the owner's semaphore is gone.\<close>

lemma sys_sem_destroy_kwf:
  assumes "kwf s Q"
  shows "\<exists>r s' Q'. sys_sem_destroy n s = Some (r, s') \<and> kwf s' Q' \<and> cur s' = cur s \<and> idle_task s' = idle_task s \<and>
    mem s' = mem s \<and> kcont s' = kcont s \<and> keyb s' = keyb s \<and> Q' Freequeue = Q Freequeue \<and>
    Q' Keyboardqueue = Q Keyboardqueue \<and>
    (\<forall>u. PID (task s' u) = PID (task s u) \<and> dir_pages_baseAddr (task s' u) = dir_pages_baseAddr (task s u)) \<and>
    (\<forall>k. k \<noteq> nat n \<longrightarrow> semaphores s' k = semaphores s k) \<and>
    (valid_sem n s \<and> ownerPID (semaphores s (nat n)) = PID (task s (cur s)) \<longrightarrow> ownerPID (semaphores s' (nat n)) = -1) \<and>
    (\<not> (valid_sem n s \<and> ownerPID (semaphores s (nat n)) = PID (task s (cur s))) \<longrightarrow> s' = s)"
proof (cases "valid_sem n s \<and> ownerPID (semaphores s (nat n)) = PID (task s (cur s))")
  case True
  then have v: "valid_sem n s" "ownerPID (semaphores s (nat n)) = PID (task s (cur s))" by simp_all
  let ?Q = "Q(SemQueue (nat n) := [], Readyqueue := rev (Q (SemQueue (nat n))) @ Q Readyqueue)"
  from sys_sem_destroy_owner[OF assms v] obtain s1 where s1: "sframe s s1"
    "sys_sem_destroy n s = Some (0, upd_sem n (\<lambda>e. e\<lparr>ownerPID := -1, semID := -1\<rparr>) s1)"
    "kwf (upd_sem n (\<lambda>e. e\<lparr>ownerPID := -1, semID := -1\<rparr>) s1) ?Q" by blast
  let ?s = "upd_sem n (\<lambda>e. e\<lparr>ownerPID := -1, semID := -1\<rparr>) s1"
  have "cur ?s = cur s" "idle_task ?s = idle_task s" "mem ?s = mem s" "kcont ?s = kcont s" "keyb ?s = keyb s"
    "\<forall>u. PID (task ?s u) = PID (task s u) \<and> dir_pages_baseAddr (task ?s u) = dir_pages_baseAddr (task s u)"
    "\<forall>k. k \<noteq> nat n \<longrightarrow> semaphores ?s k = semaphores s k" "ownerPID (semaphores ?s (nat n)) = -1"
    using sframe_frame(2,4,5,8,9,14,17,18)[OF s1(1)] by (simp_all add: upd_sem_def)
  moreover have "?Q Freequeue = Q Freequeue" "?Q Keyboardqueue = Q Keyboardqueue" by simp_all
  ultimately show ?thesis using s1(2,3) True by blast
next
  case False
  then have "\<exists>r. sys_sem_destroy n s = Some (r, s)" by (auto simp: sys_sem_destroy_def current_def)
  with False assms show ?thesis by blast
qed

end
