(* ===== verification/Process.thy ===== *)
theory Process
  imports Sem
begin

text \<open>
  Creation and end of processes, \<open>zeos/sys.c\<close>: \<open>sys_exit\<close>, \<open>sys_fork\<close> with the copy of the address
  space, and \<open>sys_clone\<close>. \<open>None\<close> is an access outside an array or to an unmapped page.
\<close>

section \<open>Exit\<close>

definition exit_sem :: "nat \<Rightarrow> kstate \<Rightarrow> kstate option" where
  "exit_sem i s =
     (if ownerPID (semaphores s i) = PID (task s (current s))
      then map_option snd (sys_sem_destroy (int i) s) else Some s)"

definition sys_exit :: "kstate \<Rightarrow> (outcome \<times> kstate) option" where
  "sys_exit s = do {
     s1 \<leftarrow> foldM exit_sem [0..<20] s;
     let c = current s1;
     let s2 = upd_task c (\<lambda>p. p\<lparr>PID := -1\<rparr>) s1;
     let pos = get_DIR c s2;
     let m = mem s2;
     let s3 = s2\<lparr>mem := m\<lparr>dirCounter := (dirCounter m)(pos := dirCounter m pos - 1)\<rparr>\<rparr>;
     s4 \<leftarrow> (if dirCounter (mem s3) pos = 0 then on_mem (free_user_pages (get_DIR c s3)) s3 else Some s3);
     s5 \<leftarrow> update_process_state_rr c (Some Freequeue) s4;
     s6 \<leftarrow> sched_next_rr (set_cont c Exited s5);
     Some (Switched, s6)
   }"

section \<open>Fork and clone\<close>

text \<open>
  \<open>copy_data(current(), uChild, sizeof(union task_union))\<close>: process data, stack and list node of
  the child become copies of the parent's.
\<close>

definition copy_union :: "nat \<Rightarrow> nat \<Rightarrow> kstate \<Rightarrow> kstate" where
  "copy_union p c s =
     (let l = lists s in
      s\<lparr>task := (task s)(c := task s p), kstack := (kstack s)(c := kstack s p),
        kcont := (kcont s)(c := kcont s p),
        lists := l\<lparr>nxt := (nxt l)(TaskList c := nxt l (TaskList p)),
                   prv := (prv l)(TaskList c := prv l (TaskList p))\<rparr>\<rparr>)"

text \<open>Frames for the data and heap pages of the child; when none is left, all are given back.\<close>

definition fork_undo :: "DWord \<Rightarrow> nat \<Rightarrow> mm \<Rightarrow> mm option" where
  "fork_undo PT pg m = do {
     f \<leftarrow> get_frame PT (PAG_LOG_INIT_DATA + pg) m;
     del_ss_pag PT (PAG_LOG_INIT_DATA + pg) (free_frame f m)
   }"

fun fork_alloc :: "DWord \<Rightarrow> nat \<Rightarrow> nat \<Rightarrow> mm \<Rightarrow> (bool \<times> mm) option" where
  "fork_alloc PT pg 0 m = Some (True, m)"
| "fork_alloc PT pg (Suc k) m =
     (let (new_pg, m1) = alloc_frame m in
      if new_pg = -1 then map_option (\<lambda>m2. (False, m2)) (foldM (fork_undo PT) [0..<pg] m1)
      else do { m2 \<leftarrow> set_ss_pag PT (PAG_LOG_INIT_DATA + pg) (of_int new_pg) m1;
                fork_alloc PT (Suc pg) k m2 })"

definition share_page :: "DWord \<Rightarrow> DWord \<Rightarrow> nat \<Rightarrow> mm \<Rightarrow> mm option" where
  "share_page PT_Child PT_Parent pg m = do {
     f \<leftarrow> get_frame PT_Parent pg m;
     set_ss_pag PT_Child pg f m
   }"

definition page_addr :: "nat \<Rightarrow> DWord" where
  "page_addr pg = push_bit 12 (of_nat pg)"

text \<open>A page of the child is mapped behind the parent's pages, filled, and unmapped again.\<close>

definition copy_page :: "DWord \<Rightarrow> DWord \<Rightarrow> nat \<Rightarrow> nat \<Rightarrow> mm \<Rightarrow> mm option" where
  "copy_page PT_Child PT_Parent shift pg m = do {
     f \<leftarrow> get_frame PT_Child pg m;
     m1 \<leftarrow> set_ss_pag PT_Parent (pg + shift) f m;
     m2 \<leftarrow> on_pmem (copy_data (vtrans m1) (page_addr pg) (page_addr (pg + shift)) (int PAGE_SIZE)) m1;
     del_ss_pag PT_Parent (pg + shift) m2
   }"

definition fork_memory :: "DWord \<Rightarrow> DWord \<Rightarrow> nat \<Rightarrow> mm \<Rightarrow> mm option" where
  "fork_memory PT_Child PT_Parent shift m = do {
     m1 \<leftarrow> foldM (share_page PT_Child PT_Parent) [0..<NUM_PAG_KERNEL] m;
     m2 \<leftarrow> foldM (share_page PT_Child PT_Parent) [PAG_LOG_INIT_CODE..<PAG_LOG_INIT_CODE + NUM_PAG_CODE] m1;
     foldM (copy_page PT_Child PT_Parent shift)
       [NUM_PAG_KERNEL + NUM_PAG_CODE..<NUM_PAG_KERNEL + NUM_PAG_CODE + shift] m2
   }"

text \<open>
  The context of the child: \<open>ret_from_fork\<close> above a zero frame pointer, at the frame of \<open>sys_fork\<close>.
\<close>

definition fork_stack :: "nat \<Rightarrow> kstate \<Rightarrow> kstate option" where
  "fork_stack c s =
     (let ebp = ebp_index s in
      if ebp = 0 \<or> KERNEL_STACK_SIZE \<le> ebp then None
      else Some (upd_task c (\<lambda>p. p\<lparr>kernel_esp := ebp - 1\<rparr>)
             (write_kstack c ebp (ret_from_fork_addr (link s)) (write_kstack c (ebp - 1) 0 s))))"

definition sys_fork :: "kstate \<Rightarrow> (int \<times> kstate) option" where
  "sys_fork s =
     (if list_empty Freequeue (lists s) then Some (-EAGAIN, s)
      else do {
        (c, s1) \<leftarrow> take_task Freequeue s;
        let p = current s1;
        let s2 = copy_union p c s1;
        let s3 = snd (allocate_DIR c s2);
        let PT_Child = get_PT c s3;
        let pages = nat (int NUM_PAG_DATA + heapPages (task s3 p));
        (ok, m4) \<leftarrow> fork_alloc PT_Child 0 pages (mem s3);
        let s4 = s3\<lparr>mem := m4\<rparr>;
        if \<not> ok then do {
          s5 \<leftarrow> on_lists (list_add_tail (TaskList c) Freequeue) s4;
          Some (-ENOMEM, s5)
        } else do {
          let PT_Parent = get_PT p s4;
          s5 \<leftarrow> on_mem (fork_memory PT_Child PT_Parent pages) s4;
          s6 \<leftarrow> on_mem (\<lambda>m. Some (set_cr3 (get_DIR p s5) m)) s5;
          let s7 = upd_task c (\<lambda>t. t\<lparr>PID := global_PID s6\<rparr>) (s6\<lparr>global_PID := wrap32 (global_PID s6 + 1)\<rparr>);
          s8 \<leftarrow> fork_stack c s7;
          let s9 = set_quantum c (quantum (task s8 p)) s8;
          s10 \<leftarrow> init_stats c s9;
          let s11 = set_cont c Ret_from_fork (upd_task c (\<lambda>t. t\<lparr>exec_status := ST_READY,
                heapSize := heapSize (task s10 p), heapPages := heapPages (task s10 p)\<rparr>) s10);
          s12 \<leftarrow> on_lists (list_add_tail (TaskList c) Readyqueue) s11;
          Some (PID (task s12 c), s12)
        }
      })"

definition sys_clone :: "DWord \<Rightarrow> DWord \<Rightarrow> kstate \<Rightarrow> (int \<times> kstate) option" where
  "sys_clone func stack s =
     (if \<not> access_ok VERIFY_WRITE stack 4 \<or> \<not> access_ok VERIFY_READ func 4 then Some (-EFAULT, s)
      else if list_empty Freequeue (lists s) then Some (-EAGAIN, s)
      else do {
        (c, s1) \<leftarrow> take_task Freequeue s;
        let p = current s1;
        let s2 = copy_union p c s1;
        let s3 = upd_task c (\<lambda>t. t\<lparr>PID := global_PID s2\<rparr>) (s2\<lparr>global_PID := wrap32 (global_PID s2 + 1)\<rparr>);
        let s4 = set_quantum c (quantum (task s3 p)) s3;
        s5 \<leftarrow> init_stats c s4;
        let s6 = upd_task c (\<lambda>t. t\<lparr>exec_status := ST_READY, heapSize := 0\<rparr>) s5;
        s7 \<leftarrow> on_lists (list_add_tail (TaskList c) Readyqueue) s6;
        let pos = get_DIR p s7;
        let m = mem s7;
        let s8 = s7\<lparr>mem := m\<lparr>dirCounter := (dirCounter m)(pos := dirCounter m pos + 1)\<rparr>\<rparr>;
        let s9 = write_kstack c (KERNEL_STACK_SIZE - 2) stack s8;
        let s10 = write_kstack c (KERNEL_STACK_SIZE - 5) func s9;
        let s11 = write_kstack c (KERNEL_STACK_SIZE - 19) 0 s10;
        let s12 = write_kstack c (KERNEL_STACK_SIZE - 18) (ret_from_fork_addr (link s11)) s11;
        let s13 = set_cont c Ret_from_fork (upd_task c (\<lambda>t. t\<lparr>kernel_esp := KERNEL_STACK_SIZE - 19\<rparr>) s12);
        Some (PID (task s13 c), s13)
      })"

section \<open>The end of a process\<close>

text \<open>Taking out the first \<open>n\<close> data pages of a table, and giving back their frames.\<close>

lemma free_pages_loop:
  assumes "PAG_LOG_INIT_DATA + n \<le> TOTAL_PAGES"
  shows "\<exists>m'. foldM (free_user_page PT) [0..<n] m = Some m' \<and> dir_pages m' = dir_pages m \<and> dirCounter m' = dirCounter m \<and>
    m' = m\<lparr>phys_mem := phys_mem m', pagusr_table := (pagusr_table m)(PT := \<lambda>p.
       if PAG_LOG_INIT_DATA \<le> p \<and> p < PAG_LOG_INIT_DATA + n then 0 else pagusr_table m PT p)\<rparr> \<and>
    used_frames m' = used_frames m - (page_frame m PT ` {PAG_LOG_INIT_DATA..<PAG_LOG_INIT_DATA + n} \<inter> returnable_frames)"
proof -
  define T where "T k = (pagusr_table m)(PT := \<lambda>p. if 264 \<le> p \<and> p < 264 + k then 0 else pagusr_table m PT p)" for k
  define P where "P done m' \<longleftrightarrow> m' = m\<lparr>phys_mem := phys_mem m', pagusr_table := T (length done)\<rparr> \<and>
      used_frames m' = used_frames m - (page_frame m PT ` {264..<264 + length done} \<inter> returnable_frames)"
    for "done" :: "nat list" and m'
  have "\<exists>m'. foldM (free_user_page PT) [0..<n] m = Some m' \<and> P [0..<n] m'"
  proof (rule foldM_rule)
    have "T 0 = pagusr_table m" by (auto simp: T_def fun_eq_iff)
    then show "P [] m" by (simp add: P_def)
    fix "done" i t assume P: "P done t" and "\<exists>rest. [0..<n] = done @ i # rest"
    then obtain rest where xs: "[0..<n] = done @ i # rest" by blast
    have "i = [0..<n] ! length done" "length done < length [0..<n]" unfolding xs by simp_all
    then have i: "i = length done" "i < n" by simp_all
    have t: "t = m\<lparr>phys_mem := phys_mem t, pagusr_table := T i\<rparr>"
      "used_frames t = used_frames m - (page_frame m PT ` {264..<264 + i} \<inter> returnable_frames)"
      using P i(1) by (simp_all add: P_def)
    have tab: "pagusr_table t = T i" by (subst t(1)) simp
    let ?f = "pte_pbase (pagusr_table t PT (264 + i))"
    let ?t = "(free_frame ?f t)\<lparr>pagusr_table := (pagusr_table (free_frame ?f t))(PT :=
        (pagusr_table (free_frame ?f t) PT)(264 + i := 0))\<rparr>"
    have r: "free_user_page PT i t = Some ?t"
      using i(2) assms by (simp add: free_user_page_def get_frame_def write_pte_def)
    have fr: "pagusr_table (free_frame w t) = pagusr_table t" for w by (simp add: free_frame_def)
    have pf: "unat ?f = page_frame m PT (264 + i)" by (simp add: tab T_def page_frame_def)
    have u: "used_frames ?t = used_frames (free_frame ?f t)" by (simp add: used_frames_def)
    have "{264..<264 + Suc i} = insert (264 + i) {264..<264 + i}" by auto
    then have "used_frames ?t = used_frames m - (page_frame m PT ` {264..<264 + Suc i} \<inter> returnable_frames)"
      unfolding u fp.free_used pf t(2) by auto
    moreover have "(pagusr_table (free_frame ?f t))(PT := (pagusr_table (free_frame ?f t) PT)(264 + i := 0)) = T (Suc i)"
      unfolding fr tab by (auto simp: T_def fun_eq_iff less_Suc_eq)
    moreover obtain ph where ph: "free_frame ?f t = t\<lparr>phys_mem := ph\<rparr>"
      by (rule that[of "phys_mem (free_frame ?f t)"]) (simp add: free_frame_def)
    ultimately have ut: "used_frames ?t = used_frames m - (page_frame m PT ` {264..<264 + Suc i} \<inter> returnable_frames)"
      and tt: "?t = t\<lparr>phys_mem := ph, pagusr_table := T (Suc i)\<rparr>" by simp_all
    have "t\<lparr>phys_mem := ph, pagusr_table := T (Suc i)\<rparr> = m\<lparr>phys_mem := ph, pagusr_table := T (Suc i)\<rparr>"
      by (subst t(1)) simp
    with tt have "?t = m\<lparr>phys_mem := phys_mem ?t, pagusr_table := T (Suc i)\<rparr>" by simp
    with ut have "P (done @ [i]) ?t" unfolding P_def using i(1) by simp
    then show "\<exists>t'. free_user_page PT i t = Some t' \<and> P (done @ [i]) t'" using r by blast
  qed
  then obtain m' where m': "foldM (free_user_page PT) [0..<n] m = Some m'" "P [0..<n] m'" by blast
  have e: "m' = m\<lparr>phys_mem := phys_mem m', pagusr_table := T n\<rparr>" using m'(2) by (simp add: P_def)
  have "dir_pages m' = dir_pages m" "dirCounter m' = dirCounter m" by (subst e, simp)+
  moreover have "used_frames m' = used_frames m - (page_frame m PT ` {264..<264 + n} \<inter> returnable_frames)"
    using m'(2) by (simp add: P_def)
  ultimately show ?thesis using m'(1) e T_def[of n] by auto
qed

lemma free_user_pages_total:
  "\<exists>m'. free_user_pages dir m = Some m' \<and> dir_pages m' = dir_pages m \<and> dirCounter m' = dirCounter m \<and>
    (\<forall>p \<in> {PAG_LOG_INIT_DATA..<HEAP_INIT_PAGE}. pagusr_table m' (get_PT_of dir m) p = 0) \<and>
    used_frames m' = used_frames m - (page_frame m (get_PT_of dir m) ` {PAG_LOG_INIT_DATA..<HEAP_INIT_PAGE} \<inter> returnable_frames)"
proof -
  let ?PT = "get_PT_of dir m"
  have "PAG_LOG_INIT_DATA + 20 \<le> TOTAL_PAGES" by simp
  from free_pages_loop[OF this, of ?PT m] obtain m' where m': "foldM (free_user_page ?PT) [0..<20] m = Some m'"
    "dir_pages m' = dir_pages m" "dirCounter m' = dirCounter m"
    "m' = m\<lparr>phys_mem := phys_mem m', pagusr_table := (pagusr_table m)(?PT := \<lambda>p.
       if PAG_LOG_INIT_DATA \<le> p \<and> p < PAG_LOG_INIT_DATA + 20 then 0 else pagusr_table m ?PT p)\<rparr>"
    "used_frames m' = used_frames m - (page_frame m ?PT ` {PAG_LOG_INIT_DATA..<PAG_LOG_INIT_DATA + 20} \<inter> returnable_frames)"
    by blast
  have "pagusr_table m' ?PT p = 0" if "p \<in> {264..<284}" for p by (subst m'(4)) (use that in simp)
  then show ?thesis using m'(1-3,5) by (simp add: free_user_pages_def)
qed

text \<open>The semaphores of the process are destroyed: their waiters go to the front of the ready queue.\<close>

definition owns_sem :: "kstate \<Rightarrow> nat \<Rightarrow> bool" where
  "owns_sem s i \<longleftrightarrow> 0 \<le> PID (task s (cur s)) \<and> ownerPID (semaphores s i) = PID (task s (cur s))"

definition exit_queues :: "kstate \<Rightarrow> nat list \<Rightarrow> (laddr \<Rightarrow> laddr list) \<Rightarrow> (laddr \<Rightarrow> laddr list)" where
  "exit_queues s is Q = fold (\<lambda>i Q. if owns_sem s i
     then Q(SemQueue i := [], Readyqueue := rev (Q (SemQueue i)) @ Q Readyqueue) else Q) is Q"

definition exit_semaphores :: "kstate \<Rightarrow> nat set \<Rightarrow> nat \<Rightarrow> semaphore" where
  "exit_semaphores s A = (\<lambda>i. if i \<in> A \<and> owns_sem s i then (semaphores s i)\<lparr>ownerPID := -1, semID := -1\<rparr> else semaphores s i)"

lemma exit_queues_simps [simp]:
  "exit_queues s [] Q = Q"
  "exit_queues s (is @ [i]) Q = (if owns_sem s i
     then (exit_queues s is Q)(SemQueue i := [], Readyqueue := rev (exit_queues s is Q (SemQueue i)) @ exit_queues s is Q Readyqueue)
     else exit_queues s is Q)"
  by (simp_all add: exit_queues_def)

lemma exit_queues_fixed [simp]:
  "exit_queues s is Q Freequeue = Q Freequeue" "exit_queues s is Q Keyboardqueue = Q Keyboardqueue"
  unfolding exit_queues_def by (induction "is" arbitrary: Q) simp_all

definition exit_frame :: "kstate \<Rightarrow> kstate \<Rightarrow> bool" where
  "exit_frame s s' \<longleftrightarrow> cur s' = cur s \<and> idle_task s' = idle_task s \<and> mem s' = mem s \<and>
     kcont s' = kcont s \<and> keyb s' = keyb s \<and>
     (\<forall>u. PID (task s' u) = PID (task s u) \<and> dir_pages_baseAddr (task s' u) = dir_pages_baseAddr (task s u))"

lemma exit_sem_step:
  assumes kw: "kwf t Q" and fr: "exit_frame s t" and i: "i < 20"
    and own: "ownerPID (semaphores t i) = ownerPID (semaphores s i)"
  shows "\<exists>t'. exit_sem i t = Some t' \<and> exit_frame s t' \<and>
    semaphores t' = (if owns_sem s i then (semaphores t)(i := (semaphores t i)\<lparr>ownerPID := -1, semID := -1\<rparr>) else semaphores t) \<and>
    kwf t' (if owns_sem s i then Q(SemQueue i := [], Readyqueue := rev (Q (SemQueue i)) @ Q Readyqueue) else Q)"
proof -
  have c: "PID (task t (cur t)) = PID (task s (cur s))" using fr by (simp add: exit_frame_def)
  show ?thesis
  proof (cases "owns_sem s i")
    case True
    then have v: "valid_sem (int i) t" and o: "ownerPID (semaphores t (nat (int i))) = PID (task t (cur t))"
      using own c i by (simp_all add: valid_sem_def owns_sem_def)
    from sys_sem_destroy_owner[OF kw v o] obtain s1 where s1: "sframe t s1"
      "sys_sem_destroy (int i) t = Some (0, upd_sem (int i) (\<lambda>e. e\<lparr>ownerPID := -1, semID := -1\<rparr>) s1)"
      "kwf (upd_sem (int i) (\<lambda>e. e\<lparr>ownerPID := -1, semID := -1\<rparr>) s1)
        (Q(SemQueue i := [], Readyqueue := rev (Q (SemQueue i)) @ Q Readyqueue))" by auto
    have "exit_sem i t = Some (upd_sem (int i) (\<lambda>e. e\<lparr>ownerPID := -1, semID := -1\<rparr>) s1)"
      using s1(2) o by (simp add: exit_sem_def current_def)
    then show ?thesis using True s1(3) fr sframe_frame[OF s1(1)]
      by (simp add: exit_frame_def upd_sem_def)
  next
    case False
    have "exit_sem i t = Some t"
      using False own c i by (auto simp: exit_sem_def current_def owns_sem_def sys_sem_destroy_def valid_sem_def)
    then show ?thesis using False kw fr by simp
  qed
qed

lemma exit_sems:
  assumes "kwf s Q"
  shows "\<exists>s'. foldM exit_sem [0..<20] s = Some s' \<and> exit_frame s s' \<and> kwf s' (exit_queues s [0..<20] Q) \<and>
    semaphores s' = exit_semaphores s {0..<20}"
proof -
  define P where "P done t \<longleftrightarrow> exit_frame s t \<and> kwf t (exit_queues s done Q) \<and> semaphores t = exit_semaphores s (set done)"
    for "done" t
  have "\<exists>t. foldM exit_sem [0..<20] s = Some t \<and> P [0..<20] t"
  proof (rule foldM_rule)
    show "P [] s" using assms by (auto simp: P_def exit_frame_def exit_semaphores_def)
    fix "done" i t assume P: "P done t" and "\<exists>rest. [0..<20] = done @ i # rest"
    then obtain rest where xs: "[0..<20] = done @ i # rest" by blast
    have "i \<in> set [0..<20]" unfolding xs by simp
    then have i: "i < 20" by simp
    have "distinct (done @ i # rest)" unfolding xs[symmetric] by simp
    then have nd: "i \<notin> set done" by simp
    have own: "ownerPID (semaphores t i) = ownerPID (semaphores s i)" using P nd by (simp add: P_def exit_semaphores_def)
    have k: "kwf t (exit_queues s done Q)" and fr: "exit_frame s t" using P by (simp_all add: P_def)
    from exit_sem_step[OF k fr i own] nd P show "\<exists>t'. exit_sem i t = Some t' \<and> P (done @ [i]) t'"
      by (auto simp: P_def exit_semaphores_def fun_eq_iff)
  qed
  then show ?thesis by (auto simp: P_def)
qed

lemma sys_exit_kwf:
  assumes "kwf s Q" and "cur s \<noteq> idle_task s"
  shows "\<exists>s' Q'. sys_exit s = Some (Switched, s') \<and> kwf s' Q' \<and> cur s' \<noteq> cur s \<and>
    PID (task s' (cur s)) = -1 \<and> Q' Freequeue = Q Freequeue @ [TaskList (cur s)] \<and>
    Q' = ready_rest ((exit_queues s [0..<20] Q)(Freequeue := Q Freequeue @ [TaskList (cur s)])) \<and>
    cur s' = next_task s (exit_queues s [0..<20] Q) \<and> semaphores s' = exit_semaphores s {0..<20} \<and>
    idle_task s' = idle_task s \<and> (\<forall>u. u \<noteq> cur s \<longrightarrow> PID (task s' u) = PID (task s u)) \<and>
    kcont s' = (kcont s)(cur s := Exited) \<and> keyb s' = keyb s \<and> Q' Keyboardqueue = Q Keyboardqueue \<and>
    dirCounter (mem s') = (dirCounter (mem s))(get_DIR (cur s) s := dirCounter (mem s) (get_DIR (cur s) s) - 1)"
proof -
  let ?Q1 = "exit_queues s [0..<20] Q"
  from exit_sems[OF assms(1)] obtain s1 where s1: "foldM exit_sem [0..<20] s = Some s1" "exit_frame s s1"
    "kwf s1 ?Q1" "semaphores s1 = exit_semaphores s {0..<20}" by blast
  have e: "kwf s1 ?Q1" "cur s1 = cur s" "idle_task s1 = idle_task s" "mem s1 = mem s" "kcont s1 = kcont s"
    "keyb s1 = keyb s" "?Q1 Freequeue = Q Freequeue" "?Q1 Keyboardqueue = Q Keyboardqueue"
    "\<forall>u. PID (task s1 u) = PID (task s u) \<and> dir_pages_baseAddr (task s1 u) = dir_pages_baseAddr (task s u)"
    using s1(2,3) by (simp_all add: exit_frame_def)
  let ?c = "cur s"
  let ?d = "get_DIR ?c s"
  define s2 where "s2 = upd_task ?c (\<lambda>p. p\<lparr>PID := -1\<rparr>) s1"
  define s3 where "s3 = s2\<lparr>mem := (mem s2)\<lparr>dirCounter := (dirCounter (mem s2))(?d := dirCounter (mem s2) ?d - 1)\<rparr>\<rparr>"
  have d: "get_DIR ?c s2 = ?d" "get_DIR ?c s3 = ?d" using e(9) by (simp_all add: get_DIR_def s2_def s3_def upd_task_def)
  obtain m where m: "free_user_pages ?d (mem s3) = Some m" "dirCounter m = dirCounter (mem s3)"
    using free_user_pages_total by blast
  define s4 where "s4 = (if dirCounter (mem s3) ?d = 0 then s3\<lparr>mem := m\<rparr> else s3)"
  have s4: "(if dirCounter (mem s3) ?d = 0 then on_mem (free_user_pages (get_DIR ?c s3)) s3 else Some s3) = Some s4"
    using m(1) d by (simp add: s4_def on_mem_def)
  have f4: "lists s4 = lists s1" "semaphores s4 = semaphores s1" "idle_task s4 = idle_task s1" "cur s4 = cur s1"
    "kcont s4 = kcont s1" "keyb s4 = keyb s1" "PID (task s4 ?c) = -1"
    "dirCounter (mem s4) = (dirCounter (mem s))(?d := dirCounter (mem s) ?d - 1)"
    "\<And>u. u \<noteq> ?c \<Longrightarrow> PID (task s4 u) = PID (task s1 u)"
    "\<And>u. exec_status (task s4 u) = exec_status (task s1 u)"
    using m(2) e(4) by (simp_all add: s4_def s3_def s2_def upd_task_def)
  have k4: "kwf s4 ?Q1" by (rule kwf_cong[OF e(1)]) (use f4 in simp_all)
  have w: "ks s4 ?Q1" "cur s4 < NR_TASKS" "off_queues s4 ?Q1 (cur s4)" "status s4 (cur s4) = ST_RUN"
    using k4 by (simp_all add: kwf_def kqs_def)
  have qs: "queue_step s4 (update_process_state_rr (cur s4) (Some Freequeue) s4)
      (?Q1(Freequeue := ?Q1 Freequeue @ [TaskList (cur s4)])) ((status s4)(cur s4 := ST_BLOCKED))"
    using update_process_state_step[OF w(1) fixed_heads(1) w(2-4)] by simp
  have ni: "cur s4 \<noteq> idle_task s4 \<or> Freequeue = Readyqueue" using assms(2) e(2,3) f4(3,4) by simp
  from leave_switch[OF k4 fixed_heads(1) ni qs, of Exited] obtain s5 s' where s':
    "update_process_state_rr (cur s4) (Some Freequeue) s4 = Some s5"
    "sched_next_rr (set_cont (cur s4) Exited s5) = Some s'"
    "kwf s' (ready_rest (?Q1(Freequeue := ?Q1 Freequeue @ [TaskList (cur s4)])))" "same_kernel s4 s'"
    "kcont s' = (kcont s4)(cur s4 := Exited)"
    "\<exists>x. mem s' = (mem s4)\<lparr>cr3_dir := x\<rparr>"
    "cur s' = next_task s4 (?Q1(Freequeue := ?Q1 Freequeue @ [TaskList (cur s4)]))"
    by (auto simp: queue_status_def)
  have c4: "cur s4 = ?c" using f4(4) e(2) by simp
  have res: "sys_exit s = Some (Switched, s')"
    using s'(1,2) unfolding sys_exit_def Let_def current_def c4
    by (simp only: s1(1) Option.bind.bind_lunit e(2) s2_def[symmetric] d(1) s3_def[symmetric] s4)
  let ?Q' = "ready_rest (?Q1(Freequeue := ?Q1 Freequeue @ [TaskList (cur s4)]))"
  have "TaskList ?c \<in> set (?Q' Freequeue)" using c4 by (simp add: ready_rest_def)
  then have "cur s' \<noteq> ?c" using s'(3) unfolding kwf_def off_queues_def by auto
  moreover have "?Q' Freequeue = Q Freequeue @ [TaskList ?c]" "?Q' Keyboardqueue = Q Keyboardqueue"
    using e(7,8) c4 by (simp_all add: ready_rest_def)
  moreover have nt: "cur s' = next_task s ?Q1" using s'(7) unfolding next_task_def f4(3) e(3) by simp
  moreover have "dirCounter (mem s') = dirCounter (mem s4)" using s'(6) by auto
  ultimately show ?thesis
    using res s'(3-5) f4 c4 s1(4) e(3,5,6,7,9) nt unfolding same_kernel_def
    by (intro exI[of _ s'] exI[of _ ?Q']) simp
qed

section \<open>A task leaves the free queue\<close>

lemma qsys_same_off:
  assumes "qsys H Q h" and "same_off A h h'" and "\<And>q. q \<in> H \<Longrightarrow> q \<notin> A \<and> set (Q q) \<inter> A = {}"
  shows "qsys H Q h'"
proof -
  have "dll h' q (Q q)" if "q \<in> H" for q
  proof -
    have "set (q # Q q) \<inter> A = {}" using assms(3)[OF that] by auto
    from same_off_dll[OF assms(2) this] show ?thesis using qsys_dll[OF assms(1) that] by simp
  qed
  then show ?thesis using assms(1) unfolding qsys_def by blast
qed

text \<open>The first free task, whatever is written to it, can be put on the free or the ready queue.\<close>

lemma free_task_kwf:
  assumes "kwf s Q" and "Q Freequeue = TaskList c # xs" and q: "q = Freequeue \<or> q = Readyqueue"
    and "take_task Freequeue s = Some (c, s1)"
    and "same_off {TaskList c} (lists s1) (lists s2)" and "semaphores s2 = semaphores s"
    and "idle_task s2 = idle_task s" and "cur s2 = cur s"
    and "\<And>u. u \<noteq> c \<Longrightarrow> exec_status (task s2 u) = exec_status (task s u)" and "queue_status q (status s2 c)"
  shows "\<exists>l. list_add_tail (TaskList c) q (lists s2) = Some l \<and>
    kwf (s2\<lparr>lists := l\<rparr>) ((Q(Freequeue := xs))(q := (Q(Freequeue := xs)) q @ [TaskList c]))"
proof -
  let ?Q1 = "Q(Freequeue := xs)"
  let ?Q2 = "?Q1(q := ?Q1 q @ [TaskList c])"
  have w: "ks s Q" "status_ok s Q" "sem_ok s Q" "off_queues s Q (cur s)" "cur s < NR_TASKS" "status s (cur s) = ST_RUN"
    using assms(1) by (simp_all add: kwf_def kqs_def)
  have cq: "TaskList c \<in> set (Q Freequeue)" using assms(2) by simp
  have cc: "cur s \<noteq> c" using w(4) cq unfolding off_queues_def by (metis fixed_heads(1))
  have ci: "c \<noteq> idle_task s" using w(2) cq unfolding status_ok_def by (metis fixed_heads(1) laddr.distinct(1))
  from ks_take_task[OF w(1) fixed_heads(1) assms(2)] assms(4) have t: "c < NR_TASKS" "ks s1 ?Q1"
    "off_queues s1 ?Q1 c" "heads s1 = heads s" by auto
  have h: "heads s2 = heads s" using assms(6) by (simp add: heads_def)
  have off: "off_queues s2 ?Q1 c" using t(3,4) h by (simp add: off_queues_def)
  have "qsys (heads s) ?Q1 (lists s2)"
    by (rule qsys_same_off[OF _ assms(5)]) (use t(2,3,4) in \<open>auto simp: ks_def off_queues_def\<close>)
  then have k2: "ks s2 ?Q1" using t(2,4) h assms(7) w(1) by (auto simp: ks_def)
  have qh: "q \<in> heads s2" using q by auto
  from ks_enq[OF k2 qh t(1) off] obtain l where l: "list_add_tail (TaskList c) q (lists s2) = Some l"
    "ks (s2\<lparr>lists := l\<rparr>) ?Q2" by blast
  have "status_ok (s2\<lparr>lists := l\<rparr>) ?Q2"
    unfolding status_ok_def
  proof (intro ballI allI impI)
    fix p i assume p: "p \<in> heads (s2\<lparr>lists := l\<rparr>)" and i: "TaskList i \<in> set (?Q2 p)"
    have p': "p \<in> heads s" using p h by simp
    show "queue_status p (status (s2\<lparr>lists := l\<rparr>) i) \<and> (i = idle_task (s2\<lparr>lists := l\<rparr>) \<longrightarrow> p = Readyqueue)"
    proof (cases "i = c")
      case True
      have "p = q" using i True off p' h by (auto simp: off_queues_def split: if_splits)
      with True assms(7,10) ci show ?thesis by simp
    next
      case False
      then have "TaskList i \<in> set (Q p)" using i assms(2) by (auto split: if_splits)
      with w(2) p' have "queue_status p (status s i) \<and> (i = idle_task s \<longrightarrow> p = Readyqueue)"
        unfolding status_ok_def by blast
      then show ?thesis using False assms(7,9) by (simp add: status_def)
    qed
  qed
  moreover have "sem_ok (s2\<lparr>lists := l\<rparr>) ?Q2"
    by (rule sem_ok_cong[OF w(3)]) (use assms(6) q in auto)
  moreover have "off_queues (s2\<lparr>lists := l\<rparr>) ?Q2 (cur s)"
  proof -
    have "TaskList (cur s) \<notin> set (Q p)" if "p \<in> heads s" for p using w(4) that unfolding off_queues_def by blast
    moreover from this[OF fixed_heads(1)] have "TaskList (cur s) \<notin> set xs" using assms(2) by simp
    ultimately show ?thesis using h cc q unfolding off_queues_def by auto
  qed
  moreover have "status (s2\<lparr>lists := l\<rparr>) (cur s) = ST_RUN" using w(6) cc assms(9) by (simp add: status_def)
  ultimately show ?thesis using l w(5) assms(8) by (auto simp: kwf_def kqs_def)
qed

lemma copy_union_facts:
  "same_off {TaskList c} (lists s) (lists (copy_union p c s))"
  "semaphores (copy_union p c s) = semaphores s" "idle_task (copy_union p c s) = idle_task s"
  "cur (copy_union p c s) = cur s" "mem (copy_union p c s) = mem s" "global_PID (copy_union p c s) = global_PID s"
  "task (copy_union p c s) = (task s)(c := task s p)" "link (copy_union p c s) = link s"
  "keyb (copy_union p c s) = keyb s" "kcont (copy_union p c s) = (kcont s)(c := kcont s p)"
  "ebp_index (copy_union p c s) = ebp_index s" "kstack (copy_union p c s) = (kstack s)(c := kstack s p)"
  by (simp_all add: copy_union_def Let_def same_off_def)

section \<open>Clone\<close>

lemma sys_clone_none:
  assumes "kwf s Q" and "access_ok VERIFY_WRITE stack 4" and "access_ok VERIFY_READ func 4" and "Q Freequeue = []"
  shows "sys_clone func stack s = Some (-EAGAIN, s)"
proof -
  have "list_empty Freequeue (lists s)"
    using assms(1,4) ks_empty[OF _ fixed_heads(1), of s Q] by (simp add: kwf_def kqs_def)
  with assms(2,3) show ?thesis by (simp add: sys_clone_def)
qed

lemma sys_clone_thread:
  assumes "kwf s Q" and "access_ok VERIFY_WRITE stack 4" and "access_ok VERIFY_READ func 4"
    and "Q Freequeue = TaskList c # xs"
  shows "\<exists>s'. sys_clone func stack s = Some (global_PID s, s') \<and>
    kwf s' (Q(Freequeue := xs, Readyqueue := Q Readyqueue @ [TaskList c])) \<and> cur s' = cur s \<and>
    PID (task s' c) = global_PID s \<and> global_PID s' = wrap32 (global_PID s + 1) \<and>
    get_DIR c s' = get_DIR (cur s) s \<and> quantum (task s' c) = quantum (task s (cur s)) \<and>
    mem s' = (mem s)\<lparr>dirCounter := (dirCounter (mem s))(get_DIR (cur s) s := dirCounter (mem s) (get_DIR (cur s) s) + 1)\<rparr> \<and>
    kernel_esp (task s' c) = KERNEL_STACK_SIZE - 19 \<and> kstack s' c = (kstack s (cur s))(KERNEL_STACK_SIZE - 2 := stack,
      KERNEL_STACK_SIZE - 5 := func, KERNEL_STACK_SIZE - 19 := 0, KERNEL_STACK_SIZE - 18 := ret_from_fork_addr (link s)) \<and>
    kcont s' = (kcont s)(c := Ret_from_fork) \<and> keyb s' = keyb s \<and> idle_task s' = idle_task s \<and> semaphores s' = semaphores s \<and>
    (\<forall>u. u \<noteq> c \<longrightarrow> task s' u = task s u)"
proof -
  let ?p = "cur s"
  have w: "ks s Q" "off_queues s Q ?p" using assms(1) by (simp_all add: kwf_def kqs_def)
  have ne: "\<not> list_empty Freequeue (lists s)" using ks_empty[OF w(1) fixed_heads(1)] assms(4) by simp
  have cc: "?p \<noteq> c" using w(2) assms(4) unfolding off_queues_def by (metis fixed_heads(1) list.set_intros(1))
  from ks_take_task[OF w(1) fixed_heads(1) assms(4)] obtain l where l: "take_task Freequeue s = Some (c, s\<lparr>lists := l\<rparr>)"
    by auto
  define s1 where "s1 = s\<lparr>lists := l\<rparr>"
  define s2 where "s2 = copy_union ?p c s1"
  define s3 where "s3 = upd_task c (\<lambda>t. t\<lparr>PID := global_PID s2\<rparr>) (s2\<lparr>global_PID := wrap32 (global_PID s2 + 1)\<rparr>)"
  define s4 where "s4 = set_quantum c (quantum (task s3 ?p)) s3"
  obtain s5 where s5: "init_stats c s4 = Some s5" "stats_only s4 s5" using stats_functions_total(6) by blast
  have oth: "\<And>u. u \<noteq> c \<Longrightarrow> task s5 u = task s4 u"
    using s5(1) by (auto simp: init_stats_def get_ticks_total upd_stats_def upd_task_def Let_def)
  define s6 where "s6 = upd_task c (\<lambda>t. t\<lparr>exec_status := ST_READY, heapSize := 0\<rparr>) s5"
  note f5 = stats_only_frame[OF s5(2)]
  note cu = copy_union_facts[where c = c and s = s1 and p = ?p]
  have f1: "task s1 = task s" "mem s1 = mem s" "semaphores s1 = semaphores s" "idle_task s1 = idle_task s" "cur s1 = cur s"
    "global_PID s1 = global_PID s" "kcont s1 = kcont s" "keyb s1 = keyb s" "link s1 = link s" "kstack s1 = kstack s"
    by (simp_all add: s1_def)
  have l6: "same_off {TaskList c} (lists s1) (lists s6)" using cu(1) f5(1)
    by (simp add: s6_def s4_def s3_def s2_def set_quantum_def upd_task_def)
  have t6: "u \<noteq> c \<Longrightarrow> task s6 u = task s u" for u
    using oth by (simp add: s6_def s4_def s3_def s2_def set_quantum_def upd_task_def cu f1)
  have g6: "semaphores s6 = semaphores s" "idle_task s6 = idle_task s" "cur s6 = cur s" "mem s6 = mem s"
    "keyb s6 = keyb s" "kcont s6 = (kcont s)(c := kcont s ?p)" "link s6 = link s"
    "global_PID s6 = wrap32 (global_PID s + 1)" "kstack s6 = (kstack s)(c := kstack s ?p)"
    using f5(2,3,5-10,15,17) by (simp_all add: s6_def s4_def s3_def s2_def set_quantum_def upd_task_def cu f1)
  have c6: "PID (task s6 c) = global_PID s" "dir_pages_baseAddr (task s6 c) = dir_pages_baseAddr (task s ?p)"
    "quantum (task s6 c) = quantum (task s ?p)" "exec_status (task s6 c) = ST_READY"
    using f5(18,19,22) cc by (simp_all add: s6_def s4_def s3_def s2_def set_quantum_def upd_task_def cu f1)
  have "take_task Freequeue s = Some (c, s1)" using l by (simp add: s1_def)
  from free_task_kwf[OF assms(1,4) _ this l6 g6(1-3), where q = Readyqueue] t6 c6(4) obtain l7 where
    l7: "list_add_tail (TaskList c) Readyqueue (lists s6) = Some l7"
    "kwf (s6\<lparr>lists := l7\<rparr>) (Q(Freequeue := xs, Readyqueue := Q Readyqueue @ [TaskList c]))"
    by (auto simp: queue_status_def status_def)
  define s7 where "s7 = s6\<lparr>lists := l7\<rparr>"
  define s8 where "s8 = s7\<lparr>mem := (mem s7)\<lparr>dirCounter := (dirCounter (mem s7))(get_DIR ?p s7 := dirCounter (mem s7) (get_DIR ?p s7) + 1)\<rparr>\<rparr>"
  define s9 where "s9 = write_kstack c (KERNEL_STACK_SIZE - 2) stack s8"
  define s10 where "s10 = write_kstack c (KERNEL_STACK_SIZE - 5) func s9"
  define s11 where "s11 = write_kstack c (KERNEL_STACK_SIZE - 19) 0 s10"
  define s12 where "s12 = write_kstack c (KERNEL_STACK_SIZE - 18) (ret_from_fork_addr (link s11)) s11"
  define s13 where "s13 = set_cont c Ret_from_fork (upd_task c (\<lambda>t. t\<lparr>kernel_esp := KERNEL_STACK_SIZE - 19\<rparr>) s12)"
  have fin: "s13 = s7\<lparr>mem := mem s8, kstack := (kstack s)(c := (kstack s ?p)(1022 := stack, 1019 := func, 1005 := 0,
      1006 := ret_from_fork_addr (link s))), task := (task s7)(c := (task s7 c)\<lparr>kernel_esp := 1005\<rparr>),
      kcont := (kcont s)(c := Ret_from_fork)\<rparr>"
    using g6 by (simp add: s13_def s12_def s11_def s10_def s9_def s8_def s7_def write_kstack_def set_cont_def upd_task_def)
  have k13: "kwf s13 (Q(Freequeue := xs, Readyqueue := Q Readyqueue @ [TaskList c]))"
    by (rule kwf_cong[OF l7(2)]) (simp_all add: fin s7_def)
  have d7: "get_DIR ?p s7 = get_DIR ?p s" using t6[OF cc] by (simp add: get_DIR_def s7_def)
  have p13: "PID (task s13 c) = global_PID s" using c6(1) by (simp add: fin s7_def)
  have add: "on_lists (list_add_tail (TaskList c) Readyqueue) s6 = Some s7" using l7(1) by (simp add: on_lists_def s7_def)
  have cur1: "cur s1 = ?p" by (simp add: s1_def)
  have res: "sys_clone func stack s = Some (global_PID s, s13)"
    using assms(2,3) ne l unfolding sys_clone_def Let_def current_def s1_def[symmetric]
    by (simp only: if_False simp_thms Option.bind.bind_lunit prod.case s2_def[symmetric] s3_def[symmetric] s4_def[symmetric]
        s5(1) s6_def[symmetric] add s8_def[symmetric] s9_def[symmetric] s10_def[symmetric] s11_def[symmetric]
        s12_def[symmetric] s13_def[symmetric] p13 cur1)
  have fields: "cur s13 = cur s" "idle_task s13 = idle_task s" "global_PID s13 = wrap32 (global_PID s + 1)" "get_DIR c s13 = get_DIR ?p s"
    "quantum (task s13 c) = quantum (task s ?p)" "kernel_esp (task s13 c) = KERNEL_STACK_SIZE - 19"
    "kcont s13 = (kcont s)(c := Ret_from_fork)" "keyb s13 = keyb s" "semaphores s13 = semaphores s" "\<forall>u. u \<noteq> c \<longrightarrow> task s13 u = task s u"
    "mem s13 = (mem s)\<lparr>dirCounter := (dirCounter (mem s))(get_DIR ?p s := dirCounter (mem s) (get_DIR ?p s) + 1)\<rparr>"
    using g6 c6 t6 d7 by (simp_all add: fin s8_def s7_def get_DIR_def)
  have "kstack s13 c = (kstack s ?p)(KERNEL_STACK_SIZE - 2 := stack,
      KERNEL_STACK_SIZE - 5 := func, KERNEL_STACK_SIZE - 19 := 0, KERNEL_STACK_SIZE - 18 := ret_from_fork_addr (link s))"
    by (simp add: fin)
  with res k13 p13 fields show ?thesis by blast
qed

lemma sys_clone_kwf:
  assumes "sys_clone func stack s = Some (r, s')" and "kwf s Q"
  shows "\<exists>Q'. kwf s' Q' \<and> cur s' = cur s \<and> idle_task s' = idle_task s \<and> keyb s' = keyb s \<and>
    (kcont s' = kcont s \<or> (\<exists>c. c \<noteq> idle_task s \<and> kcont s' = (kcont s)(c := Ret_from_fork)))"
proof (cases "access_ok VERIFY_WRITE stack 4 \<and> access_ok VERIFY_READ func 4")
  case False
  with assms show ?thesis by (auto simp: sys_clone_def)
next
  case True
  show ?thesis
  proof (cases "Q Freequeue")
    case Nil
    with True assms sys_clone_none[OF assms(2)] show ?thesis by auto
  next
    case (Cons x xs)
    have "ks s Q" using assms(2) by (simp add: kwf_def kqs_def)
    from ks_take_task[OF this fixed_heads(1) Cons] obtain c where x: "x = TaskList c" by blast
    have "c \<noteq> idle_task s" using free_not_idle[OF assms(2) Cons[unfolded x]] .
    with sys_clone_thread[OF assms(2) _ _ Cons[unfolded x], of stack func] True assms(1)
    show ?thesis by auto
  qed
qed

end
