(* ===== verification/Fork.thy ===== *)
theory Fork
  imports Process
begin

text \<open>
  What \<open>sys_fork\<close> (definitions in theory \<open>Process\<close>) does to memory and to the queues. The data pages of
  the child get frames of their own with the content of the parent's pages; code and kernel pages
  are shared; a failed reservation is undone. \<open>sys_fork_child\<close> puts the parts together.
\<close>

section \<open>Fork: the memory\<close>

lemma slot_taken:
  assumes "kwf s Q" and "Q Freequeue = TaskList c # xs"
  shows "\<not> list_empty Freequeue (lists s)" "cur s \<noteq> c" "\<exists>l. take_task Freequeue s = Some (c, s\<lparr>lists := l\<rparr>)"
proof -
  have w: "ks s Q" "off_queues s Q (cur s)" using assms(1) by (simp_all add: kwf_def kqs_def)
  show "\<not> list_empty Freequeue (lists s)" using ks_empty[OF w(1) fixed_heads(1)] assms(2) by simp
  show "cur s \<noteq> c" using w(2) assms(2) unfolding off_queues_def by (metis fixed_heads(1) list.set_intros(1))
  show "\<exists>l. take_task Freequeue s = Some (c, s\<lparr>lists := l\<rparr>)"
    using ks_take_task[OF w(1) fixed_heads(1) assms(2)] by auto
qed

lemma page_addr_unat: "pg < 1024 \<Longrightarrow> k < 4096 \<Longrightarrow> unat (page_addr pg + of_nat k) = pg * 4096 + k"
proof -
  assume a: "pg < 1024" "k < 4096"
  have "unat (page_addr pg) = pg * 4096"
    using a by (simp add: page_addr_def push_bit_eq_mult unat_word_ariths unsigned_of_nat take_bit_nat_eq_self)
  moreover have "unat (of_nat k :: DWord) = k" using a by (simp add: unsigned_of_nat take_bit_nat_eq_self)
  ultimately show ?thesis using a by (simp add: unat_word_ariths)
qed

lemma vtrans_page:
  assumes "pg < TOTAL_PAGES" and "k < PAGE_SIZE" and "pte_present (pagusr_table m (get_PT_of (cr3_dir m) m) pg)"
  shows "vtrans m (page_addr pg + of_nat k) = Some (pte_pbase (pagusr_table m (get_PT_of (cr3_dir m) m) pg), k)"
proof -
  have u: "unat (page_addr pg + of_nat k) = pg * 4096 + k" using assms(1,2) by (intro page_addr_unat) simp_all
  have "unat (drop_bit 12 (page_addr pg + of_nat k)) = pg"
    unfolding drop_bit_12_unat u using assms(2) by simp
  moreover have "unat (take_bit 12 (page_addr pg + of_nat k)) = k"
    unfolding unsigned_take_bit_eq u using assms(2) by (simp add: take_bit_eq_mod)
  ultimately show ?thesis using assms(1,3) by (simp add: vtrans_def Let_def)
qed

text \<open>Copying a page of the running process to another of its pages.\<close>

lemma copy_data_page:
  assumes "pg < TOTAL_PAGES" "pg' < TOTAL_PAGES" and "PT = get_PT_of (cr3_dir m) m"
    and "pte_present (pagusr_table m PT pg)" "pte_present (pagusr_table m PT pg')"
    and "f = pte_pbase (pagusr_table m PT pg)" "f' = pte_pbase (pagusr_table m PT pg')" "f \<noteq> f'"
  shows "on_pmem (copy_data (vtrans m) (page_addr pg) (page_addr pg') (int PAGE_SIZE)) m =
    Some (m\<lparr>pmem := (pmem m)(f' := \<lambda>k. if k < PAGE_SIZE then pmem m f k else pmem m f' k)\<rparr>)"
proof -
  let ?s = "\<lambda>k. (f, k)" and ?d = "\<lambda>k. (f', k)" and ?c = "case_prod (pmem m)"
  have "regions (vtrans m) (page_addr pg) ?s PAGE_SIZE" "regions (vtrans m) (page_addr pg') ?d PAGE_SIZE"
    using assms by (auto simp: regions_def vtrans_page)
  moreover have "separate ?s ?d PAGE_SIZE" using assms(8) by (simp add: separate_def)
  ultimately obtain c' where c': "copy_loop (vtrans m) (page_addr pg) (page_addr pg') (int PAGE_SIZE) ?c = Some c'"
    "copied ?s ?d PAGE_SIZE ?c c'" using copy_loop_copied by blast
  have "c' (g, k) = (if g = f' \<and> k < PAGE_SIZE then pmem m f k else pmem m g k)" for g k
    using c'(2) by (auto simp: copied_def image_iff)
  then have "curry c' = (pmem m)(f' := \<lambda>k. if k < PAGE_SIZE then pmem m f k else pmem m f' k)"
    by (auto simp: fun_eq_iff curry_def)
  then show ?thesis using c'(1) by (simp add: on_pmem_def copy_data_def)
qed

text \<open>One round of the copy loop: the child's page takes over the content, the parent's slot is cleared.\<close>

lemma copy_page_step:
  assumes "get_PT_of (cr3_dir m) m = P" and "C \<noteq> P" and "pg < shift + pg" "pg + shift < TOTAL_PAGES"
    and "pte_present (pagusr_table m P pg)"
    and "f = pte_pbase (pagusr_table m P pg)" "f' = pte_pbase (pagusr_table m C pg)" "f \<noteq> f'"
  shows "copy_page C P shift pg m = Some (m\<lparr>
    pagusr_table := (pagusr_table m)(P := (pagusr_table m P)(pg + shift := 0)),
    pmem := (pmem m)(f' := \<lambda>k. if k < PAGE_SIZE then pmem m f k else pmem m f' k)\<rparr>)"
proof -
  let ?e = "set_present 1 (set_rw 1 (set_user 1 (set_pbase f' 0)))"
  let ?m1 = "m\<lparr>pagusr_table := (pagusr_table m)(P := (pagusr_table m P)(pg + shift := ?e))\<rparr>"
  have g: "get_frame C pg m = Some f'" using assms(3,4,7) by (simp add: get_frame_def)
  have s1: "set_ss_pag P (pg + shift) f' m = Some ?m1" using assms(4) by (simp add: set_ss_pag_def write_pte_def)
  have tf: "take_bit 20 f' = f'" by (simp add: assms(7) pte_pbase_def get_field_def)
  have f': "pte_pbase ?e = f'" by (simp add: tf)
  have pt: "get_PT_of (cr3_dir ?m1) ?m1 = P" using assms(1) by (simp add: get_PT_of_def)
  have "on_pmem (copy_data (vtrans ?m1) (page_addr pg) (page_addr (pg + shift)) (int PAGE_SIZE)) ?m1 =
    Some (?m1\<lparr>pmem := (pmem ?m1)(f' := \<lambda>k. if k < PAGE_SIZE then pmem ?m1 f k else pmem ?m1 f' k)\<rparr>)"
    by (rule copy_data_page[where PT = P]) (use assms f' pt in \<open>auto\<close>)
  moreover have pm: "pmem ?m1 = pmem m" by simp
  ultimately show ?thesis using g s1 assms(4) unfolding pm by (simp add: copy_page_def del_ss_pag_def write_pte_def)
qed

definition child_frame :: "mm \<Rightarrow> DWord \<Rightarrow> nat \<Rightarrow> DWord" where
  "child_frame m PT p = pte_pbase (pagusr_table m PT p)"

text \<open>
  \<open>pages_copied C P a n m m'\<close>: the pages \<open>a .. a + n - 1\<close> of the table \<open>C\<close> hold in \<open>m'\<close> what those of
  the table \<open>P\<close> hold; every other frame is as in \<open>m\<close>.
\<close>

definition pages_copied :: "DWord \<Rightarrow> DWord \<Rightarrow> nat list \<Rightarrow> mm \<Rightarrow> mm \<Rightarrow> bool" where
  "pages_copied C P ps m m' \<longleftrightarrow>
     (\<forall>p \<in> set ps. \<forall>k < PAGE_SIZE. pmem m' (child_frame m C p) k = pmem m (child_frame m P p) k) \<and>
     (\<forall>f k. f \<notin> child_frame m C ` set ps \<longrightarrow> pmem m' f k = pmem m f k)"

definition own_frames :: "DWord \<Rightarrow> DWord \<Rightarrow> nat set \<Rightarrow> mm \<Rightarrow> bool" where
  "own_frames C P A m \<longleftrightarrow> inj_on (child_frame m C) A \<and> child_frame m C ` A \<inter> child_frame m P ` A = {}"

text \<open>One more page copied: its frame takes over the content, no earlier copy is touched.\<close>

lemma pages_copied_snoc:
  assumes c: "pages_copied C P ps m t"
    and fresh: "child_frame m P p \<notin> child_frame m C ` set ps" "child_frame m C p \<notin> child_frame m C ` set ps"
    and t': "pmem t' = (pmem t)(child_frame m C p := \<lambda>k. if k < PAGE_SIZE then pmem t (child_frame m P p) k
        else pmem t (child_frame m C p) k)"
  shows "pages_copied C P (ps @ [p]) m t'"
  unfolding pages_copied_def
proof (intro conjI ballI allI impI)
  have c1: "\<forall>q \<in> set ps. \<forall>k < PAGE_SIZE. pmem t (child_frame m C q) k = pmem m (child_frame m P q) k"
    and c2: "\<And>f k. f \<notin> child_frame m C ` set ps \<Longrightarrow> pmem t f k = pmem m f k"
    using c unfolding pages_copied_def by blast+
  show "pmem t' (child_frame m C q) k = pmem m (child_frame m P q) k" if q: "q \<in> set (ps @ [p])" and k: "k < PAGE_SIZE" for q k
  proof (cases "q = p")
    case True
    then show ?thesis using k c2[OF fresh(1), of k] by (simp add: t')
  next
    case False
    then have "q \<in> set ps" using q by simp
    moreover from this have "child_frame m C q \<noteq> child_frame m C p" using fresh(2) by (metis image_eqI)
    ultimately show ?thesis using c1 k by (simp add: t')
  qed
  show "pmem t' f k = pmem m f k" if "f \<notin> child_frame m C ` set (ps @ [p])" for f k
    using that c2[of f k] by (simp add: t')
qed

lemma copy_pages:
  assumes "get_PT_of (cr3_dir m) m = P" and "C \<noteq> P" and "0 < n" "a + 2 * n \<le> TOTAL_PAGES"
    and "\<forall>p \<in> {a..<a + n}. pte_present (pagusr_table m P p)" and "own_frames C P {a..<a + n} m"
  shows "\<exists>m'. foldM (copy_page C P n) [a..<a + n] m = Some m' \<and> pages_copied C P [a..<a + n] m m' \<and>
    m' = m\<lparr>pmem := pmem m', pagusr_table := (pagusr_table m)(P := \<lambda>p. if a + n \<le> p \<and> p < a + 2 * n then 0 else pagusr_table m P p)\<rparr>"
proof -
  define T where "T k = (pagusr_table m)(P := \<lambda>p. if a + n \<le> p \<and> p < a + n + k then 0 else pagusr_table m P p)" for k
  define R where "R done t \<longleftrightarrow> pages_copied C P done m t \<and> t = m\<lparr>pmem := pmem t, pagusr_table := T (length done)\<rparr>"
    for "done" and t
  have "\<exists>t. foldM (copy_page C P n) [a..<a + n] m = Some t \<and> R [a..<a + n] t"
  proof (rule foldM_rule)
    have "T 0 = pagusr_table m" by (auto simp: T_def fun_eq_iff)
    then show "R [] m" by (simp add: R_def pages_copied_def)
  next
    fix "done" p t assume R: "R done t" and "\<exists>rest. [a..<a + n] = done @ p # rest"
    then obtain rest where xs: "[a..<a + n] = done @ p # rest" by blast
    have "p = [a..<a + n] ! length done" "length done < length [a..<a + n]" unfolding xs by simp_all
    then have p: "p = a + length done" "length done < n" by simp_all
    have sd: "set done \<subseteq> {a..<a + n} - {p}"
    proof -
      have "distinct (done @ p # rest)" unfolding xs[symmetric] by simp
      moreover have "set (done @ p # rest) = {a..<a + n}" unfolding xs[symmetric] by simp
      ultimately show ?thesis by auto
    qed
    have t: "t = m\<lparr>pmem := pmem t, pagusr_table := T (length done)\<rparr>" "pages_copied C P done m t"
      using R by (simp_all add: R_def)
    have tab: "pagusr_table t = T (length done)" "cr3_dir t = cr3_dir m" "dir_pages t = dir_pages m"
      by (subst t(1), simp)+
    have tp: "pagusr_table t P q = pagusr_table m P q" if "q < a + n" for q
      using that by (simp add: tab T_def)
    have tc: "pagusr_table t C q = pagusr_table m C q" for q
      using assms(2) by (simp add: tab T_def)
    let ?f = "child_frame m P p" and ?f' = "child_frame m C p"
    have in_range: "p \<in> {a..<a + n}" using p by simp
    have ne: "?f \<noteq> ?f'" using assms(6) in_range unfolding own_frames_def by blast
    have nf: "?f \<notin> child_frame m C ` set done" using assms(6) in_range sd unfolding own_frames_def by blast
    have nf': "?f' \<notin> child_frame m C ` set done"
      using assms(6) in_range sd unfolding own_frames_def inj_on_def by blast
    let ?t = "t\<lparr>pagusr_table := (pagusr_table t)(P := (pagusr_table t P)(p + n := 0)),
        pmem := (pmem t)(?f' := \<lambda>k. if k < PAGE_SIZE then pmem t ?f k else pmem t ?f' k)\<rparr>"
    have step: "copy_page C P n p t = Some ?t"
    proof (rule copy_page_step)
      show "get_PT_of (cr3_dir t) t = P" using assms(1) tab by (simp add: get_PT_of_def)
      show "pte_present (pagusr_table t P p)" using assms(5) in_range tp[of p] by simp
      show "?f = pte_pbase (pagusr_table t P p)" using tp[of p] in_range by (simp add: child_frame_def)
      show "?f' = pte_pbase (pagusr_table t C p)" using tc by (simp add: child_frame_def)
    qed (use assms p ne in auto)
    have "T (length (done @ [p])) = (pagusr_table t)(P := (pagusr_table t P)(p + n := 0))"
      unfolding tab T_def using p by (auto simp: fun_eq_iff)
    then have e: "?t = m\<lparr>pmem := pmem ?t, pagusr_table := T (length (done @ [p]))\<rparr>"
      by (subst (1) t(1)) simp
    have "pages_copied C P (done @ [p]) m ?t"
      by (rule pages_copied_snoc[OF t(2) nf nf']) simp
    then have "R (done @ [p]) ?t" using e unfolding R_def by blast
    then show "\<exists>t'. copy_page C P n p t = Some t' \<and> R (done @ [p]) t'" using step by blast
  qed
  then obtain t where "foldM (copy_page C P n) [a..<a + n] m = Some t" "R [a..<a + n] t" by blast
  moreover have "T (length [a..<a + n]) = (pagusr_table m)(P := \<lambda>p. if a + n \<le> p \<and> p < a + 2 * n then 0 else pagusr_table m P p)"
    by (simp add: T_def mult_2 add.assoc)
  ultimately show ?thesis unfolding R_def by auto
qed

text \<open>Sharing pages: writable by the process, whatever they were for the parent.\<close>

definition shared_entry :: "DWord \<Rightarrow> DWord" where
  "shared_entry e = set_present 1 (set_rw 1 (set_user 1 (set_pbase (pte_pbase e) 0)))"

lemma share_pages:
  assumes "C \<noteq> P" and "b \<le> TOTAL_PAGES"
  shows "foldM (share_page C P) [a..<b] m = Some (m\<lparr>pagusr_table := (pagusr_table m)(C := \<lambda>p.
    if a \<le> p \<and> p < b then shared_entry (pagusr_table m P p) else pagusr_table m C p)\<rparr>)"
  using assms(2)
proof (induction b)
  case 0
  then show ?case by simp
next
  case (Suc b)
  show ?case
  proof (cases "a \<le> b")
    case True
    let ?m = "m\<lparr>pagusr_table := (pagusr_table m)(C := \<lambda>p.
      if a \<le> p \<and> p < b then shared_entry (pagusr_table m P p) else pagusr_table m C p)\<rparr>"
    have "share_page C P b ?m = Some (?m\<lparr>pagusr_table := (pagusr_table ?m)(C := (pagusr_table ?m C)(b := shared_entry (pagusr_table m P b)))\<rparr>)"
      using Suc.prems assms(1) by (simp add: share_page_def get_frame_def set_ss_pag_def write_pte_def shared_entry_def)
    moreover have "(pagusr_table ?m)(C := (pagusr_table ?m C)(b := shared_entry (pagusr_table m P b))) =
      (pagusr_table m)(C := \<lambda>p. if a \<le> p \<and> p < Suc b then shared_entry (pagusr_table m P p) else pagusr_table m C p)"
      using True by (auto simp: fun_eq_iff less_Suc_eq)
    moreover have "?m\<lparr>pagusr_table := x\<rparr> = m\<lparr>pagusr_table := x\<rparr>" for x by simp
    ultimately have "share_page C P b ?m = Some (m\<lparr>pagusr_table := (pagusr_table m)(C := \<lambda>p.
      if a \<le> p \<and> p < Suc b then shared_entry (pagusr_table m P p) else pagusr_table m C p)\<rparr>)" by metis
    moreover have "foldM (share_page C P) [a..<b] m = Some ?m"
      using Suc.IH Suc_leD[OF Suc.prems] by blast
    ultimately show ?thesis using True by (simp only: upt_Suc if_True foldM_append foldM.simps bind.bind_lunit)
  next
    case False
    then have "(\<lambda>p. if a \<le> p \<and> p < Suc b then shared_entry (pagusr_table m P p) else pagusr_table m C p) = pagusr_table m C"
      by (intro ext) (metis le_trans less_Suc_eq_le)
    then show ?thesis using False by simp
  qed
qed

text \<open>Reserving the frames of the child.\<close>

lemma fork_alloc_ok:
  assumes "maps_fresh m0 PT {PAG_LOG_INIT_DATA..<PAG_LOG_INIT_DATA + pg} m"
    and "pg + k \<le> card (frame_pool_set - used_frames m0)" and "PAG_LOG_INIT_DATA + pg + k \<le> TOTAL_PAGES"
  shows "\<exists>m'. fork_alloc PT pg k m = Some (True, m') \<and>
    maps_fresh m0 PT {PAG_LOG_INIT_DATA..<PAG_LOG_INIT_DATA + pg + k} m'"
  using assms
proof (induction k arbitrary: pg m)
  case 0
  then show ?case by simp
next
  case (Suc k)
  let ?S = "{PAG_LOG_INIT_DATA..<PAG_LOG_INIT_DATA + pg}"
  have "fst (alloc_frame m) \<noteq> -1"
    by (rule alloc_frame_ok[OF Suc.prems(1)]) (use Suc.prems(2) in simp_all)
  then obtain f m1 where al: "alloc_frame m = (f, m1)" "f \<noteq> -1" by (cases "alloc_frame m") auto
  let ?e = "set_present 1 (set_rw 1 (set_user 1 (set_pbase (of_int f) 0)))"
  have p: "PAG_LOG_INIT_DATA + pg \<notin> ?S" "PAG_LOG_INIT_DATA + pg < TOTAL_PAGES" using Suc.prems(3) by simp_all
  have e: "pte_pbase ?e = take_bit 20 (of_int f)" by simp
  from maps_fresh_step[OF Suc.prems(1) al p e] obtain m2 where m2: "write_pte PT (PAG_LOG_INIT_DATA + pg) ?e m1 = Some m2"
    "maps_fresh m0 PT (insert (PAG_LOG_INIT_DATA + pg) ?S) m2" by blast
  have "insert (PAG_LOG_INIT_DATA + pg) ?S = {PAG_LOG_INIT_DATA..<PAG_LOG_INIT_DATA + Suc pg}" by auto
  with m2(2) have "maps_fresh m0 PT {PAG_LOG_INIT_DATA..<PAG_LOG_INIT_DATA + Suc pg} m2" by (simp only:)
  from Suc.IH[OF this] Suc.prems(2,3) obtain m' where "fork_alloc PT (Suc pg) k m2 = Some (True, m')"
    "maps_fresh m0 PT {PAG_LOG_INIT_DATA..<PAG_LOG_INIT_DATA + Suc pg + k} m'" by auto
  moreover have "set_ss_pag PT (PAG_LOG_INIT_DATA + pg) (of_int f) m1 = Some m2"
    using m2(1) by (simp add: set_ss_pag_def)
  ultimately show ?case using al by (auto simp: add.assoc)
qed

lemma fork_undo_free: "fork_undo PT = free_user_page PT"
  by (simp add: fork_undo_def free_user_page_def del_ss_pag_def fun_eq_iff)

text \<open>
  When the frames do not suffice all reserved ones are given back, but for the first frame of the
  pool, which \<open>free_frame\<close> does not accept.
\<close>

lemma fork_alloc_fail:
  assumes "maps_fresh m0 PT {PAG_LOG_INIT_DATA..<PAG_LOG_INIT_DATA + pg} m"
    and "card (frame_pool_set - used_frames m0) < pg + k" and "PAG_LOG_INIT_DATA + pg + k \<le> TOTAL_PAGES"
  shows "\<exists>m'. fork_alloc PT pg k m = Some (False, m') \<and> dirCounter m' = dirCounter m0 \<and> dir_pages m' = dir_pages m0 \<and>
    used_frames m' = used_frames m0 \<union> (frame_pool_set - returnable_frames)"
  using assms
proof (induction k arbitrary: pg m)
  case 0
  let ?S = "{PAG_LOG_INIT_DATA..<PAG_LOG_INIT_DATA + pg}"
  have "card ?S \<le> card (frame_pool_set - used_frames m0)"
    using maps_fresh_left[OF 0(1)] by simp
  with 0(2) show ?case by simp
next
  case (Suc k)
  let ?S = "{PAG_LOG_INIT_DATA..<PAG_LOG_INIT_DATA + pg}"
  obtain f m1 where al: "alloc_frame m = (f, m1)" by (cases "alloc_frame m") auto
  show ?case
  proof (cases "f = -1")
    case True
    with fp.alloc_none[of m m1] al have n: "m1 = m" "frame_pool_set \<subseteq> used_frames m" by simp_all
    have "PAG_LOG_INIT_DATA + pg \<le> TOTAL_PAGES" using Suc.prems(3) by simp
    from free_pages_loop[OF this, of PT m] obtain m' where m': "foldM (free_user_page PT) [0..<pg] m = Some m'"
      "dir_pages m' = dir_pages m" "dirCounter m' = dirCounter m"
      "used_frames m' = used_frames m - (page_frame m PT ` ?S \<inter> returnable_frames)" by blast
    have mf: "used_frames m = used_frames m0 \<union> page_frame m PT ` ?S" "\<forall>p \<in> ?S. page_frame m PT p \<in> frame_pool_set - used_frames m0"
      "dir_pages m = dir_pages m0" "dirCounter m = dirCounter m0"
      using Suc.prems(1) unfolding maps_fresh_def by (simp_all, (metis mm.select_convs(2,4) mm.surjective mm.update_convs(1,3))+)
    have "used_frames m' = used_frames m0 \<union> (frame_pool_set - returnable_frames)"
      using n(2) mf(1,2) unfolding m'(4) by auto
    then show ?thesis using al True n(1) m'(1-3) mf(3,4) by (simp add: fork_undo_free)
  next
    case False
    let ?e = "set_present 1 (set_rw 1 (set_user 1 (set_pbase (of_int f) 0)))"
    have p: "PAG_LOG_INIT_DATA + pg \<notin> ?S" "PAG_LOG_INIT_DATA + pg < TOTAL_PAGES" using Suc.prems(3) by simp_all
    have e: "pte_pbase ?e = take_bit 20 (of_int f)" by simp
    from maps_fresh_step[OF Suc.prems(1) al False p e] obtain m2 where m2: "write_pte PT (PAG_LOG_INIT_DATA + pg) ?e m1 = Some m2"
      "maps_fresh m0 PT (insert (PAG_LOG_INIT_DATA + pg) ?S) m2" by blast
    have "insert (PAG_LOG_INIT_DATA + pg) ?S = {PAG_LOG_INIT_DATA..<PAG_LOG_INIT_DATA + Suc pg}" by auto
    with m2(2) have "maps_fresh m0 PT {PAG_LOG_INIT_DATA..<PAG_LOG_INIT_DATA + Suc pg} m2" by (simp only:)
    from Suc.IH[OF this] Suc.prems(2,3) obtain m' where "fork_alloc PT (Suc pg) k m2 = Some (False, m')"
      "dirCounter m' = dirCounter m0" "dir_pages m' = dir_pages m0"
      "used_frames m' = used_frames m0 \<union> (frame_pool_set - returnable_frames)" by auto
    moreover have "set_ss_pag PT (PAG_LOG_INIT_DATA + pg) (of_int f) m1 = Some m2"
      using m2(1) by (simp add: set_ss_pag_def)
    ultimately show ?thesis using al False by simp
  qed
qed

lemma unreturnable: "frame_pool_set - returnable_frames = {NUM_PAG_KERNEL}"
  by (auto simp: frame_pool_set_def returnable_frames_def)

text \<open>The memory part of a fork whose frames are reserved.\<close>

lemma fork_memory_copies:
  assumes fresh: "maps_fresh m0 C {PAG_LOG_INIT_DATA..<PAG_LOG_INIT_DATA + n} m"
    and P: "get_PT_of (cr3_dir m) m = P" "C \<noteq> P" and n: "0 < n" "PAG_LOG_INIT_DATA + 2 * n \<le> TOTAL_PAGES"
    and present: "\<forall>p \<in> {PAG_LOG_INIT_DATA..<PAG_LOG_INIT_DATA + n}.
        pte_present (pagusr_table m P p) \<and> page_frame m P p \<in> used_frames m0"
  shows "\<exists>m'. fork_memory C P n m = Some m' \<and> pages_copied C P [PAG_LOG_INIT_DATA..<PAG_LOG_INIT_DATA + n] m m' \<and>
    m' = m\<lparr>pmem := pmem m', pagusr_table := pagusr_table m'\<rparr> \<and>
    (\<forall>p. pagusr_table m' C p = (if p < PAG_LOG_INIT_DATA then shared_entry (pagusr_table m P p) else pagusr_table m C p)) \<and>
    (\<forall>p. pagusr_table m' P p = (if PAG_LOG_INIT_DATA + n \<le> p \<and> p < PAG_LOG_INIT_DATA + 2 * n then 0 else pagusr_table m P p)) \<and>
    (\<forall>T p. T \<noteq> C \<longrightarrow> T \<noteq> P \<longrightarrow> pagusr_table m' T p = pagusr_table m T p)"
proof -
  let ?D = "{PAG_LOG_INIT_DATA..<PAG_LOG_INIT_DATA + n}"
  define m1 where "m1 = m\<lparr>pagusr_table := (pagusr_table m)(C := \<lambda>p.
    if 0 \<le> p \<and> p < 256 then shared_entry (pagusr_table m P p) else pagusr_table m C p)\<rparr>"
  define m2 where "m2 = m1\<lparr>pagusr_table := (pagusr_table m1)(C := \<lambda>p.
    if 256 \<le> p \<and> p < 264 then shared_entry (pagusr_table m1 P p) else pagusr_table m1 C p)\<rparr>"
  have k: "foldM (share_page C P) [0..<256] m = Some m1"
    unfolding m1_def by (rule share_pages[OF P(2)]) simp
  have c: "foldM (share_page C P) [256..<264] m1 = Some m2"
    unfolding m2_def by (rule share_pages[OF P(2)]) simp
  have tC: "pagusr_table m2 C p = (if p < 264 then shared_entry (pagusr_table m P p) else pagusr_table m C p)" for p
    using P(2) by (simp add: m2_def m1_def)
  have tT: "T \<noteq> C \<Longrightarrow> pagusr_table m2 T = pagusr_table m T" for T by (simp add: m2_def m1_def)
  have r2: "m2 = m\<lparr>pagusr_table := pagusr_table m2\<rparr>" by (simp add: m2_def m1_def)
  have cf: "child_frame m2 C p = child_frame m C p" "child_frame m2 P p = child_frame m P p" if "p \<in> ?D" for p
    using that tC tT[OF P(2)[symmetric]] by (simp_all add: child_frame_def)
  have pf: "page_frame m T p = unat (child_frame m T p)" for T p by (simp add: page_frame_def child_frame_def)
  have f1: "inj_on (page_frame m C) ?D" "\<forall>p \<in> ?D. page_frame m C p \<in> frame_pool_set - used_frames m0"
    using fresh unfolding maps_fresh_def by simp_all
  have "inj_on (child_frame m C) ?D" using f1(1) unfolding inj_on_def pf by simp
  moreover have "child_frame m C ` ?D \<inter> child_frame m P ` ?D = {}"
  proof (rule ccontr)
    assume "child_frame m C ` ?D \<inter> child_frame m P ` ?D \<noteq> {}"
    then obtain p q where pq: "p \<in> ?D" "q \<in> ?D" "child_frame m C p = child_frame m P q" by blast
    then have "page_frame m C p = page_frame m P q" by (simp add: pf)
    with f1(2) present pq(1,2) show False by fastforce
  qed
  ultimately have "own_frames C P ?D m" by (simp add: own_frames_def)
  then have own: "own_frames C P ?D m2"
  proof -
    have "child_frame m2 C ` ?D = child_frame m C ` ?D" "child_frame m2 P ` ?D = child_frame m P ` ?D"
      using cf by (simp_all cong: image_cong_simp)
    moreover have "inj_on (child_frame m2 C) ?D \<longleftrightarrow> inj_on (child_frame m C) ?D"
      by (rule inj_on_cong) (rule cf(1))
    ultimately show ?thesis using \<open>own_frames C P ?D m\<close> unfolding own_frames_def by simp
  qed
  have pt: "get_PT_of (cr3_dir m2) m2 = P" using P(1) by (subst (1 2) r2) (simp add: get_PT_of_def)
  have "\<forall>p \<in> ?D. pte_present (pagusr_table m2 P p)" using present tT[OF P(2)[symmetric]] by simp
  from copy_pages[OF pt P(2) n this own] obtain m' where m': "foldM (copy_page C P n) [PAG_LOG_INIT_DATA..<PAG_LOG_INIT_DATA + n] m2 = Some m'"
    "pages_copied C P [PAG_LOG_INIT_DATA..<PAG_LOG_INIT_DATA + n] m2 m'"
    "m' = m2\<lparr>pmem := pmem m', pagusr_table := (pagusr_table m2)(P := \<lambda>p. if PAG_LOG_INIT_DATA + n \<le> p \<and>
        p < PAG_LOG_INIT_DATA + 2 * n then 0 else pagusr_table m2 P p)\<rparr>" by blast
  have t': "pagusr_table m' = (pagusr_table m2)(P := \<lambda>p. if PAG_LOG_INIT_DATA + n \<le> p \<and>
        p < PAG_LOG_INIT_DATA + 2 * n then 0 else pagusr_table m2 P p)" by (subst m'(3)) simp
  have pm2: "pmem m2 = pmem m" by (subst r2) simp
  have im: "child_frame m2 C ` ?D = child_frame m C ` ?D" using cf(1) by (intro image_cong) simp_all
  have "pages_copied C P [PAG_LOG_INIT_DATA..<PAG_LOG_INIT_DATA + n] m m'"
    using m'(2) cf im unfolding pages_copied_def pm2 by simp
  moreover have "fork_memory C P n m = Some m'"
    using k c m'(1) by (simp add: fork_memory_def del: upt_rec_numeral)
  moreover have "m' = m\<lparr>pmem := pmem m', pagusr_table := pagusr_table m'\<rparr>"
    by (subst m'(3), subst r2) (simp add: t')
  ultimately show ?thesis using t' tC tT[OF P(2)[symmetric]] tT P(2) by simp
qed

section \<open>Fork\<close>

text \<open>What a process and the kernel must have for a fork to succeed.\<close>

definition fork_pages :: "kstate \<Rightarrow> nat" where
  "fork_pages s = nat (int NUM_PAG_DATA + heapPages (task s (cur s)))"

definition parent_mapped :: "kstate \<Rightarrow> bool" where
  "parent_mapped s \<longleftrightarrow>
     cr3_dir (mem s) = get_DIR (cur s) s \<and> 0 \<le> heapPages (task s (cur s)) \<and>
     PAG_LOG_INIT_DATA + 2 * fork_pages s \<le> TOTAL_PAGES \<and>
     (\<forall>p \<in> {PAG_LOG_INIT_DATA..<PAG_LOG_INIT_DATA + fork_pages s}.
        pte_present (pagusr_table (mem s) (get_PT (cur s) s) p) \<and>
        page_frame (mem s) (get_PT (cur s) s) p \<in> used_frames (mem s))"

text \<open>The address space of the child, in terms of the memory before the fork.\<close>

definition child_space :: "kstate \<Rightarrow> nat \<Rightarrow> kstate \<Rightarrow> bool" where
  "child_space s i s' \<longleftrightarrow> (let m = mem s; m' = mem s'; P = get_PT (cur s) s; C = get_PT_of i m;
       D = {PAG_LOG_INIT_DATA..<PAG_LOG_INIT_DATA + fork_pages s} in
     (\<forall>p \<in> D. page_frame m' C p \<in> frame_pool_set - used_frames m) \<and> inj_on (page_frame m' C) D \<and>
     (\<forall>p \<in> D. \<forall>k < PAGE_SIZE. pmem m' (child_frame m' C p) k = pmem m (child_frame m P p) k) \<and>
     (\<forall>f k. f \<notin> child_frame m' C ` D \<longrightarrow> pmem m' f k = pmem m f k) \<and>
     (\<forall>p < PAG_LOG_INIT_DATA. pagusr_table m' C p = shared_entry (pagusr_table m P p)) \<and>
     (\<forall>p < PAG_LOG_INIT_DATA + fork_pages s. pagusr_table m' P p = pagusr_table m P p))"

lemma sys_fork_again:
  assumes "kwf s Q" and "Q Freequeue = []"
  shows "sys_fork s = Some (-EAGAIN, s)"
  using assms ks_empty[OF _ fixed_heads(1), of s Q] by (simp add: sys_fork_def kwf_def kqs_def)

text \<open>The reserved and copied memory: what the steps of the fork on the tables and frames leave behind.\<close>

lemma fork_space:
  assumes par: "parent_mapped s" and tables: "get_PT_of i (mem s) \<noteq> get_PT (cur s) s"
    and frames: "fork_pages s \<le> card (frame_pool_set - used_frames (mem s))"
  shows "\<exists>m4 m5. fork_alloc (get_PT_of i (mem s)) 0 (fork_pages s) ((mem s)\<lparr>dirCounter := d\<rparr>) = Some (True, m4) \<and>
    fork_memory (get_PT_of i (mem s)) (get_PT (cur s) s) (fork_pages s) m4 = Some m5 \<and> dir_pages m4 = dir_pages (mem s) \<and>
    cr3_dir m5 = cr3_dir (mem s) \<and> dirCounter m5 = d \<and> (\<forall>s'. mem s' = m5 \<longrightarrow> child_space s i s')"
proof -
  let ?n = "fork_pages s" and ?P = "get_PT (cur s) s" and ?C = "get_PT_of i (mem s)"
  let ?D = "{PAG_LOG_INIT_DATA..<PAG_LOG_INIT_DATA + fork_pages s}"
  define m3 where "m3 = (mem s)\<lparr>dirCounter := d\<rparr>"
  have used3: "used_frames m3 = used_frames (mem s)" by (simp add: m3_def used_frames_def)
  have pm: "cr3_dir (mem s) = get_DIR (cur s) s" "PAG_LOG_INIT_DATA + 2 * ?n \<le> TOTAL_PAGES" "0 < ?n"
    "\<forall>p \<in> ?D. pte_present (pagusr_table (mem s) ?P p) \<and> page_frame (mem s) ?P p \<in> used_frames (mem s)"
    using par by (auto simp: parent_mapped_def fork_pages_def)
  have "maps_fresh m3 ?C {PAG_LOG_INIT_DATA..<PAG_LOG_INIT_DATA + 0} m3" by (simp add: maps_fresh_refl)
  from fork_alloc_ok[OF this, of ?n] frames pm(2) used3 obtain m4 where m4: "fork_alloc ?C 0 ?n m3 = Some (True, m4)"
    "maps_fresh m3 ?C ?D m4" by auto
  have r4: "m4 = m3\<lparr>phys_mem := phys_mem m4, pagusr_table := pagusr_table m4\<rparr>"
    "\<And>T p. T \<noteq> ?C \<or> p \<notin> ?D \<Longrightarrow> pagusr_table m4 T p = pagusr_table (mem s) T p"
    using m4(2) unfolding maps_fresh_def by (blast, simp add: m3_def)
  have g4: "cr3_dir m4 = cr3_dir (mem s)" "dir_pages m4 = dir_pages (mem s)" "pmem m4 = pmem (mem s)" "dirCounter m4 = d"
    by (subst r4(1), simp add: m3_def)+
  have tP: "pagusr_table m4 ?P p = pagusr_table (mem s) ?P p" for p using r4(2) tables by metis
  have P4: "get_PT_of (cr3_dir m4) m4 = ?P" using pm(1) by (simp add: get_PT_of_def g4 get_PT_def)
  have "\<forall>p \<in> ?D. pte_present (pagusr_table m4 ?P p) \<and> page_frame m4 ?P p \<in> used_frames m3"
    using pm(4) tP used3 by (simp add: page_frame_def)
  from fork_memory_copies[OF m4(2) P4 tables pm(3,2) this] obtain m5 where m5: "fork_memory ?C ?P ?n m4 = Some m5"
    "pages_copied ?C ?P [PAG_LOG_INIT_DATA..<PAG_LOG_INIT_DATA + ?n] m4 m5"
    "m5 = m4\<lparr>pmem := pmem m5, pagusr_table := pagusr_table m5\<rparr>"
    "\<forall>p. pagusr_table m5 ?C p = (if p < PAG_LOG_INIT_DATA then shared_entry (pagusr_table m4 ?P p) else pagusr_table m4 ?C p)"
    "\<forall>p. pagusr_table m5 ?P p = (if PAG_LOG_INIT_DATA + ?n \<le> p \<and> p < PAG_LOG_INIT_DATA + 2 * ?n then 0 else pagusr_table m4 ?P p)"
    by blast
  have g5: "cr3_dir m5 = cr3_dir (mem s)" "dirCounter m5 = d" by (subst m5(3), simp add: g4)+
  have D5: "page_frame m5 ?C p = page_frame m4 ?C p" "child_frame m5 ?C p = child_frame m4 ?C p" if "p \<in> ?D" for p
    using that m5(4) by (simp_all add: page_frame_def child_frame_def)
  have cfP: "child_frame m4 ?P p = child_frame (mem s) ?P p" for p using tP by (simp add: child_frame_def)
  have a: "\<forall>p \<in> ?D. page_frame m4 ?C p \<in> frame_pool_set - used_frames (mem s)" "inj_on (page_frame m4 ?C) ?D"
    using m4(2) used3 unfolding maps_fresh_def by simp_all
  have "inj_on (page_frame m5 ?C) ?D \<longleftrightarrow> inj_on (page_frame m4 ?C) ?D" by (rule inj_on_cong) (rule D5(1))
  moreover have "child_frame m5 ?C ` ?D = child_frame m4 ?C ` ?D" using D5(2) by (rule image_cong[OF refl])
  ultimately have "child_space s i s'" if "mem s' = m5" for s'
    using a m5(2,4,5) tP tables D5 cfP unfolding child_space_def pages_copied_def Let_def that by (simp add: g4(3))
  with m4(1) m5(1) g4(2) g5 show ?thesis unfolding m3_def by blast
qed

text \<open>The opening steps: a free slot taken, the parent copied into it, a directory allocated.\<close>

definition fork_begun :: "kstate \<Rightarrow> nat \<Rightarrow> laddr list_head \<Rightarrow> nat \<Rightarrow> kstate" where
  "fork_begun s c l i = (copy_union (cur s) c (s\<lparr>lists := l\<rparr>))\<lparr>
     task := (task s)(c := (task s (cur s))\<lparr>dir_pages_baseAddr := i\<rparr>),
     mem := (mem s)\<lparr>dirCounter := (dirCounter (mem s))(i := 1)\<rparr>\<rparr>"

lemma fork_begins:
  assumes "i < NR_TASKS" "dirCounter (mem s) i = 0" "\<forall>j < i. dirCounter (mem s) j \<noteq> 0"
  shows "snd (allocate_DIR c (copy_union (cur s) c (s\<lparr>lists := l\<rparr>))) = fork_begun s c l i"
  by (rule allocate_DIR_cases[where s = "copy_union (cur s) c (s\<lparr>lists := l\<rparr>)" and t = c])
    (use assms in \<open>auto simp: fork_begun_def copy_union_facts, metis linorder_neqE_nat\<close>)

lemma fork_begun_facts:
  "task (fork_begun s c l i) = (task s)(c := (task s (cur s))\<lparr>dir_pages_baseAddr := i\<rparr>)"
  "mem (fork_begun s c l i) = (mem s)\<lparr>dirCounter := (dirCounter (mem s))(i := 1)\<rparr>"
  "semaphores (fork_begun s c l i) = semaphores s" "idle_task (fork_begun s c l i) = idle_task s"
  "cur (fork_begun s c l i) = cur s" "keyb (fork_begun s c l i) = keyb s" "link (fork_begun s c l i) = link s"
  "kcont (fork_begun s c l i) = (kcont s)(c := kcont s (cur s))" "global_PID (fork_begun s c l i) = global_PID s"
  "kstack (fork_begun s c l i) = (kstack s)(c := kstack s (cur s))" "ebp_index (fork_begun s c l i) = ebp_index s"
  "same_off {TaskList c} l (lists (fork_begun s c l i))" "get_PT c (fork_begun s c l i) = get_PT_of i (mem s)"
  using copy_union_facts(1)[of c "s\<lparr>lists := l\<rparr>" "cur s"]
  by (simp_all add: fork_begun_def copy_union_facts get_PT_def get_DIR_def get_PT_of_def)

lemma fork_begun_parent:
  assumes "cur s \<noteq> c"
  shows "nat (int NUM_PAG_DATA + heapPages (task (fork_begun s c l i) (cur s))) = fork_pages s"
    "dir_pages m = dir_pages (mem s) \<Longrightarrow> get_PT (cur s) ((fork_begun s c l i)\<lparr>mem := m\<rparr>) = get_PT (cur s) s"
    "get_DIR (cur s) ((fork_begun s c l i)\<lparr>mem := m\<rparr>) = get_DIR (cur s) s"
  using assms by (simp_all add: fork_begun_facts fork_pages_def get_PT_def get_DIR_def get_PT_of_def)

text \<open>The closing steps: the child's stack, quantum, statistics and continuation.\<close>

definition fork_ended :: "nat \<Rightarrow> nat \<Rightarrow> kstate \<Rightarrow> kstate" where
  "fork_ended p c s = set_cont c Ret_from_fork (upd_task c (\<lambda>t. t\<lparr>exec_status := ST_READY,
     heapSize := heapSize (task s p), heapPages := heapPages (task s p)\<rparr>) s)"

lemma fork_child_ready:
  assumes ebp: "0 < ebp_index t" "ebp_index t < KERNEL_STACK_SIZE" and pc: "p \<noteq> c"
  shows "\<exists>t1 t2. fork_stack c t = Some t1 \<and> init_stats c (set_quantum c (quantum (task t1 p)) t1) = Some t2 \<and>
    lists (fork_ended p c t2) = lists t \<and> semaphores (fork_ended p c t2) = semaphores t \<and>
    idle_task (fork_ended p c t2) = idle_task t \<and> cur (fork_ended p c t2) = cur t \<and> mem (fork_ended p c t2) = mem t \<and>
    keyb (fork_ended p c t2) = keyb t \<and> global_PID (fork_ended p c t2) = global_PID t \<and>
    kcont (fork_ended p c t2) = (kcont t)(c := Ret_from_fork) \<and>
    kstack (fork_ended p c t2) c = (kstack t c)(ebp_index t - 1 := 0, ebp_index t := ret_from_fork_addr (link t)) \<and>
    (\<forall>u. u \<noteq> c \<longrightarrow> task (fork_ended p c t2) u = task t u) \<and> PID (task (fork_ended p c t2) c) = PID (task t c) \<and>
    dir_pages_baseAddr (task (fork_ended p c t2) c) = dir_pages_baseAddr (task t c) \<and>
    quantum (task (fork_ended p c t2) c) = quantum (task t p) \<and> exec_status (task (fork_ended p c t2) c) = ST_READY \<and>
    kernel_esp (task (fork_ended p c t2) c) = ebp_index t - 1 \<and>
    heapSize (task (fork_ended p c t2) c) = heapSize (task t p) \<and> heapPages (task (fork_ended p c t2) c) = heapPages (task t p)"
proof -
  define t1 where "t1 = upd_task c (\<lambda>u. u\<lparr>kernel_esp := ebp_index t - 1\<rparr>)
      (write_kstack c (ebp_index t) (ret_from_fork_addr (link t)) (write_kstack c (ebp_index t - 1) 0 t))"
  have fs: "fork_stack c t = Some t1" using ebp unfolding fork_stack_def Let_def t1_def by simp
  define t9 where "t9 = set_quantum c (quantum (task t1 p)) t1"
  obtain t2 where t2: "init_stats c t9 = Some t2" "stats_only t9 t2" using stats_functions_total(6) by blast
  have oth: "\<And>u. u \<noteq> c \<Longrightarrow> task t2 u = task t9 u"
    using t2(1) by (auto simp: init_stats_def get_ticks_total upd_stats_def upd_task_def Let_def)
  note unf = t9_def t1_def set_quantum_def upd_task_def write_kstack_def
  have t9: "\<And>u. u \<noteq> c \<Longrightarrow> task t9 u = task t u" by (simp add: unf)
  note f = stats_only_frame[OF t2(2)]
  show ?thesis
    using fs t2(1) f(1-3,5-10,15,18-20,22) pc oth t9 unfolding t9_def[symmetric]
    by (intro exI[of _ t1] exI[of _ t2]) (simp add: fork_ended_def set_cont_def unf)
qed

lemma sys_fork_child:
  assumes kw: "kwf s Q" and free: "Q Freequeue = TaskList c # xs"
    and dir: "i < NR_TASKS" "dirCounter (mem s) i = 0" "\<forall>j < i. dirCounter (mem s) j \<noteq> 0"
    and tables: "get_PT_of i (mem s) \<noteq> get_PT (cur s) s" and par: "parent_mapped s"
    and frames: "fork_pages s \<le> card (frame_pool_set - used_frames (mem s))"
    and ebp: "0 < ebp_index s" "ebp_index s < KERNEL_STACK_SIZE"
  shows "\<exists>s'. sys_fork s = Some (global_PID s, s') \<and>
    kwf s' (Q(Freequeue := xs, Readyqueue := Q Readyqueue @ [TaskList c])) \<and> cur s' = cur s \<and>
    PID (task s' c) = global_PID s \<and> global_PID s' = wrap32 (global_PID s + 1) \<and>
    dir_pages_baseAddr (task s' c) = i \<and> child_space s i s' \<and>
    dirCounter (mem s') = (dirCounter (mem s))(i := 1) \<and> kcont s' = (kcont s)(c := Ret_from_fork) \<and>
    kernel_esp (task s' c) = ebp_index s - 1 \<and>
    kstack s' c = (kstack s (cur s))(ebp_index s - 1 := 0, ebp_index s := ret_from_fork_addr (link s)) \<and>
    heapSize (task s' c) = heapSize (task s (cur s)) \<and> heapPages (task s' c) = heapPages (task s (cur s)) \<and>
    quantum (task s' c) = quantum (task s (cur s)) \<and> keyb s' = keyb s \<and> semaphores s' = semaphores s \<and> (\<forall>u. u \<noteq> c \<longrightarrow> task s' u = task s u)"
proof -
  let ?p = "cur s" and ?n = "fork_pages s" and ?P = "get_PT (cur s) s" and ?C = "get_PT_of i (mem s)"
  note tk = slot_taken[OF kw free]
  from tk(3) obtain l where l: "take_task Freequeue s = Some (c, s\<lparr>lists := l\<rparr>)" by blast
  have f1: "cur (s\<lparr>lists := l\<rparr>) = cur s" "mem (b\<lparr>mem := m\<rparr>) = m" for b m by simp_all
  define b where "b = fork_begun s c l i"
  note fb = fork_begun_facts[where s = s and c = c and l = l and i = i, folded b_def]
  note bp = fork_begun_parent[OF tk(2), where l = l and i = i, folded b_def]
  from fork_space[OF par tables frames, of "(dirCounter (mem s))(i := 1)"] obtain m4 m5 where
    m4: "fork_alloc ?C 0 ?n (mem b) = Some (True, m4)" "dir_pages m4 = dir_pages (mem s)" and
    m5: "fork_memory ?C ?P ?n m4 = Some m5" "cr3_dir m5 = cr3_dir (mem s)" "dirCounter m5 = (dirCounter (mem s))(i := 1)"
      "\<And>s'. mem s' = m5 \<Longrightarrow> child_space s i s'"
    unfolding fb(2) by blast
  define s5 where "s5 = b\<lparr>mem := m5\<rparr>"
  have "get_DIR ?p s5 = cr3_dir m5" using bp(3) m5(2) par by (simp add: s5_def parent_mapped_def)
  then have s6: "on_mem (\<lambda>m. Some (set_cr3 (get_DIR ?p s5) m)) s5 = Some s5" by (simp add: s5_def on_mem_def set_cr3_def)
  define t where "t = upd_task c (\<lambda>t. t\<lparr>PID := global_PID s5\<rparr>) (s5\<lparr>global_PID := wrap32 (global_PID s5 + 1)\<rparr>)"
  note ft = t_def s5_def upd_task_def
  have te: "ebp_index t = ebp_index s" by (simp add: ft fb)
  from fork_child_ready[OF ebp[folded te] tk(2)] obtain t1 t2 where st: "fork_stack c t = Some t1"
      "init_stats c (set_quantum c (quantum (task t1 ?p)) t1) = Some t2"
    and e: "lists (fork_ended ?p c t2) = lists t" "semaphores (fork_ended ?p c t2) = semaphores t"
      "idle_task (fork_ended ?p c t2) = idle_task t" "cur (fork_ended ?p c t2) = cur t" "mem (fork_ended ?p c t2) = mem t"
      "keyb (fork_ended ?p c t2) = keyb t" "global_PID (fork_ended ?p c t2) = global_PID t"
      "kcont (fork_ended ?p c t2) = (kcont t)(c := Ret_from_fork)"
      "kstack (fork_ended ?p c t2) c = (kstack t c)(ebp_index t - 1 := 0, ebp_index t := ret_from_fork_addr (link t))"
      "\<And>u. u \<noteq> c \<Longrightarrow> task (fork_ended ?p c t2) u = task t u" "PID (task (fork_ended ?p c t2) c) = PID (task t c)"
      "dir_pages_baseAddr (task (fork_ended ?p c t2) c) = dir_pages_baseAddr (task t c)"
      "quantum (task (fork_ended ?p c t2) c) = quantum (task t ?p)" "exec_status (task (fork_ended ?p c t2) c) = ST_READY"
      "kernel_esp (task (fork_ended ?p c t2) c) = ebp_index t - 1"
      "heapSize (task (fork_ended ?p c t2) c) = heapSize (task t ?p)" "heapPages (task (fork_ended ?p c t2) c) = heapPages (task t ?p)"
    by blast
  define r where "r = fork_ended ?p c t2"
  note er = e[folded r_def]
  have l11: "same_off {TaskList c} (lists (s\<lparr>lists := l\<rparr>)) (lists r)" using fb(12) er(1) by (simp add: ft)
  have g: "semaphores r = semaphores s" "idle_task r = idle_task s" "cur r = cur s" using er(2-4) by (simp_all add: ft fb)
  have oth: "task r u = task s u" if "u \<noteq> c" for u using er(10)[OF that] that by (simp add: ft fb)
  from free_task_kwf[OF kw free _ l l11 g, where q = Readyqueue] oth er(14) obtain l12 where
    l12: "list_add_tail (TaskList c) Readyqueue (lists r) = Some l12"
    "kwf (r\<lparr>lists := l12\<rparr>) (Q(Freequeue := xs, Readyqueue := Q Readyqueue @ [TaskList c]))"
    by (auto simp: queue_status_def status_def)
  have add: "on_lists (list_add_tail (TaskList c) Readyqueue) r = Some (r\<lparr>lists := l12\<rparr>)" using l12(1) by (simp add: on_lists_def)
  have s5: "on_mem (fork_memory ?C ?P ?n) (b\<lparr>mem := m4\<rparr>) = Some s5" using m5(1) by (simp add: on_mem_def s5_def)
  have "sys_fork s = Some (PID (task (r\<lparr>lists := l12\<rparr>) c), r\<lparr>lists := l12\<rparr>)"
    using tk(1) unfolding sys_fork_def Let_def current_def
    by (simp only: l if_False simp_thms Option.bind.bind_lunit prod.case fork_begins[OF dir] b_def[symmetric] fb(13) bp(1) m4(1)
        bp(2)[OF m4(2)] s5 s6 t_def[symmetric] st fork_ended_def[symmetric] r_def[symmetric] add f1)
  then show ?thesis
    using l12(2) m5(3,4) oth er tk(2) by (intro exI[of _ "r\<lparr>lists := l12\<rparr>"]) (simp add: ft fb)
qed

text \<open>
  C23. A fork without enough frames returns \<open>-ENOMEM\<close> and the free slot goes to the end of its queue. It
  leaves traces: the directory it took stays counted, the first frame of the pool stays in use, and
  the free slot keeps the PID of the parent.
\<close>

theorem sys_fork_nomem:
  assumes kw: "kwf s Q" and free: "Q Freequeue = TaskList c # xs"
    and dir: "i < NR_TASKS" "dirCounter (mem s) i = 0" "\<forall>j < i. dirCounter (mem s) j \<noteq> 0"
    and frames: "card (frame_pool_set - used_frames (mem s)) < fork_pages s"
      "PAG_LOG_INIT_DATA + fork_pages s \<le> TOTAL_PAGES"
  shows "\<exists>s'. sys_fork s = Some (-ENOMEM, s') \<and> kwf s' (Q(Freequeue := xs @ [TaskList c])) \<and> cur s' = cur s \<and>
    used_frames (mem s') = used_frames (mem s) \<union> {NUM_PAG_KERNEL} \<and>
    dirCounter (mem s') = (dirCounter (mem s))(i := 1) \<and> PID (task s' c) = PID (task s (cur s)) \<and>
    global_PID s' = global_PID s \<and> keyb s' = keyb s \<and> kcont s' = (kcont s)(c := kcont s (cur s)) \<and>
    (\<forall>u. u \<noteq> c \<longrightarrow> task s' u = task s u)"
proof -
  let ?n = "fork_pages s" and ?C = "get_PT_of i (mem s)"
  note tk = slot_taken[OF kw free]
  from tk(3) obtain l where l: "take_task Freequeue s = Some (c, s\<lparr>lists := l\<rparr>)" by blast
  have f1: "cur (s\<lparr>lists := l\<rparr>) = cur s" "mem (b\<lparr>mem := m\<rparr>) = m" for b m by simp_all
  define b where "b = fork_begun s c l i"
  note fb = fork_begun_facts[where s = s and c = c and l = l and i = i, folded b_def]
  note bp = fork_begun_parent[OF tk(2), where l = l and i = i, folded b_def]
  have used: "used_frames (mem b) = used_frames (mem s)" by (simp add: fb used_frames_def)
  have "maps_fresh (mem b) ?C {PAG_LOG_INIT_DATA..<PAG_LOG_INIT_DATA + 0} (mem b)" by (simp add: maps_fresh_refl)
  from fork_alloc_fail[OF this, of ?n] frames used obtain m4 where m4: "fork_alloc ?C 0 ?n (mem b) = Some (False, m4)"
    "dirCounter m4 = dirCounter (mem b)" "used_frames m4 = used_frames (mem b) \<union> (frame_pool_set - returnable_frames)" by auto
  define r where "r = b\<lparr>mem := m4\<rparr>"
  have g: "semaphores r = semaphores s" "idle_task r = idle_task s" "cur r = cur s" "task r u = task s u" if "u \<noteq> c" for u
    using that by (simp_all add: r_def fb)
  have "same_off {TaskList c} (lists (s\<lparr>lists := l\<rparr>)) (lists r)" using fb(12) by (simp add: r_def)
  from free_task_kwf[OF kw free _ l this, where q = Freequeue] obtain l5 where
    l5: "list_add_tail (TaskList c) Freequeue (lists r) = Some l5"
    "kwf (r\<lparr>lists := l5\<rparr>) (Q(Freequeue := xs @ [TaskList c]))"
    by (auto simp: queue_status_def r_def fb)
  have add: "on_lists (list_add_tail (TaskList c) Freequeue) r = Some (r\<lparr>lists := l5\<rparr>)" using l5(1) by (simp add: on_lists_def)
  have "sys_fork s = Some (-ENOMEM, r\<lparr>lists := l5\<rparr>)"
    using tk(1) unfolding sys_fork_def Let_def current_def
    by (simp only: l if_False if_True not_False_eq_True Option.bind.bind_lunit prod.case fork_begins[OF dir] b_def[symmetric]
        fb(13) bp(1) m4(1) r_def[symmetric] add f1)
  then show ?thesis
    using l5(2) m4(2,3) used unreturnable by (intro exI[of _ "r\<lparr>lists := l5\<rparr>"]) (simp add: r_def fb)
qed

text \<open>Process 1 forks when every frame is in use.\<close>

lemma sys_fork_nomem_witness:
  defines "s \<equiv> (upd_task 1 (\<lambda>p. p\<lparr>heapPages := 0\<rparr>) booted)\<lparr>mem := (mem booted)\<lparr>phys_mem := \<lambda>_. USED_FRAME\<rparr>\<rparr>"
  shows "\<exists>s'. sys_fork s = Some (-ENOMEM, s') \<and> PID (task s' 2) = 1 \<and> dirCounter (mem s') 2 = 1"
proof -
  have k: "kwf s booted_queues" by (rule kwf_cong[OF booted_facts(1)]) (simp_all add: s_def upd_task_def)
  have q: "booted_queues Freequeue = TaskList 2 # map TaskList [3..<10]" by (simp add: booted_queues_def upt_rec)
  have d: "dirCounter (mem s) 2 = 0" "\<forall>j < 2. dirCounter (mem s) j \<noteq> 0"
    using booted_memory(2) by (auto simp: s_def less_2_cases_iff)
  have c: "cur s = 1" "PID (task s 1) = 1" using booted_facts(2,4) by (simp_all add: s_def upd_task_def)
  have n: "fork_pages s = 20" using c(1) by (simp add: fork_pages_def) (simp add: s_def upd_task_def)
  have e: "frame_pool_set - used_frames (mem s) = {}" by (auto simp: s_def used_frames_def frame_pool_set_def)
  have "card (frame_pool_set - used_frames (mem s)) < fork_pages s" "PAG_LOG_INIT_DATA + fork_pages s \<le> TOTAL_PAGES"
    unfolding e n by simp_all
  from sys_fork_nomem[OF k q _ d this] c show ?thesis by auto
qed

section \<open>Every outcome of fork\<close>

text \<open>\<open>only_child c s s'\<close>: what the steps of a fork may change besides the child.\<close>

definition only_child :: "nat \<Rightarrow> kstate \<Rightarrow> kstate \<Rightarrow> bool" where
  "only_child c s s' \<longleftrightarrow> semaphores s' = semaphores s \<and> idle_task s' = idle_task s \<and> cur s' = cur s \<and>
     keyb s' = keyb s \<and> (\<forall>u. u \<noteq> c \<longrightarrow> exec_status (task s' u) = exec_status (task s u)) \<and>
     (\<forall>u. u \<noteq> c \<longrightarrow> kcont s' u = kcont s u) \<and> same_off {TaskList c} (lists s) (lists s')"

lemma only_child_trans: "only_child c s s1 \<Longrightarrow> only_child c s1 s2 \<Longrightarrow> only_child c s s2"
  by (simp add: only_child_def same_off_def)

lemma only_child_steps:
  "only_child c s (copy_union p c s)"
  "only_child c s (snd (allocate_DIR c s))"
  "on_mem f s = Some s1 \<Longrightarrow> only_child c s s1"
  "only_child c s (s\<lparr>mem := m\<rparr>)"
  "only_child c s (upd_task c g s)"
  "only_child c s (s\<lparr>global_PID := n\<rparr>)"
  "fork_stack c s = Some s1 \<Longrightarrow> only_child c s s1"
  "stats_only s s1 \<Longrightarrow> only_child c s s1"
  "only_child c s (set_cont c k s)"
  using stats_only_frame[of s s1]
  by (auto simp: only_child_def copy_union_def Let_def same_off_def on_mem_def upd_task_def set_cont_def
      fork_stack_def write_kstack_def split: if_splits intro: allocate_DIR_cases[of s c])

lemma sys_fork_kwf:
  assumes r: "sys_fork s = Some (r, s')" and kw: "kwf s Q"
  shows "\<exists>Q'. kwf s' Q' \<and> cur s' = cur s \<and> idle_task s' = idle_task s \<and> keyb s' = keyb s \<and>
    (\<forall>u. kcont s' u = kcont s u \<or> u \<noteq> idle_task s \<and> kcont s' u \<in> {Ret_from_fork, kcont s (cur s)})"
proof (cases "Q Freequeue")
  case Nil
  with r sys_fork_again[OF kw] kw show ?thesis by auto
next
  case (Cons x xs)
  have w: "ks s Q" using kw by (simp add: kwf_def kqs_def)
  have ne: "\<not> list_empty Freequeue (lists s)" using ks_empty[OF w fixed_heads(1)] Cons by simp
  from ks_take_task[OF w fixed_heads(1) Cons] obtain c l where x: "x = TaskList c"
    and l: "take_task Freequeue s = Some (c, s\<lparr>lists := l\<rparr>)" by auto
  define s1 where "s1 = s\<lparr>lists := l\<rparr>"
  define s2 where "s2 = copy_union (current s1) c s1"
  define s3 where "s3 = snd (allocate_DIR c s2)"
  define n where "n = nat (int NUM_PAG_DATA + heapPages (task s3 (current s1)))"
  have o3: "only_child c s1 s3" unfolding s3_def s2_def
    by (rule only_child_trans[OF only_child_steps(1) only_child_steps(2)])
  have tk: "take_task Freequeue s = Some (c, s1)" using l by (simp add: s1_def)
  define B where "B = (\<lambda>ok m4. if \<not> ok then do {
          s5 \<leftarrow> on_lists (list_add_tail (TaskList c) Freequeue) (s3\<lparr>mem := m4\<rparr>); Some (-ENOMEM, s5) }
        else do {
          s5 \<leftarrow> on_mem (fork_memory (get_PT c s3) (get_PT (current s1) (s3\<lparr>mem := m4\<rparr>)) n) (s3\<lparr>mem := m4\<rparr>);
          s6 \<leftarrow> on_mem (\<lambda>m. Some (set_cr3 (get_DIR (current s1) s5) m)) s5;
          s8 \<leftarrow> fork_stack c (upd_task c (\<lambda>t. t\<lparr>PID := global_PID s6\<rparr>) (s6\<lparr>global_PID := wrap32 (global_PID s6 + 1)\<rparr>));
          s10 \<leftarrow> init_stats c (set_quantum c (quantum (task s8 (current s1))) s8);
          s12 \<leftarrow> on_lists (list_add_tail (TaskList c) Readyqueue) (set_cont c Ret_from_fork (upd_task c (\<lambda>t. t\<lparr>exec_status := ST_READY,
                heapSize := heapSize (task s10 (current s1)), heapPages := heapPages (task s10 (current s1))\<rparr>) s10));
          Some (PID (task s12 c), s12) })"
  have "sys_fork s = Option.bind (fork_alloc (get_PT c s3) 0 n (mem s3)) (\<lambda>(ok, m4). B ok m4)"
    using ne unfolding sys_fork_def Let_def tk B_def
    by (simp only: if_False simp_thms Option.bind.bind_lunit prod.case s2_def[symmetric] s3_def[symmetric] n_def[symmetric])
  with r obtain ok m4 where b: "B ok m4 = Some (r, s')" by (auto elim!: bind_SomeE)
  have ci: "c \<noteq> idle_task s" using free_not_idle[OF kw Cons[unfolded x]] .
  have fin: "\<exists>Q'. kwf s' Q' \<and> cur s' = cur s \<and> idle_task s' = idle_task s \<and> keyb s' = keyb s \<and>
    (\<forall>u. kcont s' u = kcont s u \<or> u \<noteq> idle_task s \<and> kcont s' u \<in> {Ret_from_fork, kcont s (cur s)})"
    if oc: "only_child c s1 t" and q: "q = Freequeue \<or> q = Readyqueue" and st: "queue_status q (status t c)"
      and add: "on_lists (list_add_tail (TaskList c) q) t = Some s'" and kc: "kcont t c \<in> {Ret_from_fork, kcont s (cur s)}"
    for t q
  proof -
    have f: "same_off {TaskList c} (lists s1) (lists t)" "semaphores t = semaphores s" "idle_task t = idle_task s"
      "cur t = cur s" "\<And>u. u \<noteq> c \<Longrightarrow> exec_status (task t u) = exec_status (task s u)" "keyb t = keyb s"
      using oc by (simp_all add: only_child_def s1_def)
    have k: "kcont s' u = kcont s u \<or> u \<noteq> idle_task s \<and> kcont s' u \<in> {Ret_from_fork, kcont s (cur s)}" for u
      using oc add kc ci by (cases "u = c") (auto simp: only_child_def on_lists_def s1_def)
    from free_task_kwf[OF kw Cons[unfolded x] q tk f(1-5) st] add f have
      "\<exists>Q'. kwf s' Q' \<and> cur s' = cur s \<and> idle_task s' = idle_task s \<and> keyb s' = keyb s"
      by (auto simp: on_lists_def)
    with k show ?thesis by blast
  qed
  show ?thesis
  proof (cases ok)
    case False
    have "only_child c s1 (s3\<lparr>mem := m4\<rparr>)" by (rule only_child_trans[OF o3 only_child_steps(4)])
    moreover have "on_lists (list_add_tail (TaskList c) Freequeue) (s3\<lparr>mem := m4\<rparr>) = Some s'"
      using b False by (auto simp: B_def elim!: bind_SomeE)
    moreover have "kcont (s3\<lparr>mem := m4\<rparr>) c = kcont s (cur s)"
      using allocate_DIR_cases[of s2 c]
      by (auto simp: s3_def s2_def copy_union_def Let_def s1_def current_def upd_task_def allocate_DIR_def split: option.splits)
    ultimately show ?thesis using fin[of _ Freequeue] by (simp add: queue_status_def)
  next
    case True
    with b obtain s5 s6 s8 s10 where
      m5: "on_mem (fork_memory (get_PT c s3) (get_PT (current s1) (s3\<lparr>mem := m4\<rparr>)) n) (s3\<lparr>mem := m4\<rparr>) = Some s5"
      and m6: "on_mem (\<lambda>m. Some (set_cr3 (get_DIR (current s1) s5) m)) s5 = Some s6"
      and m8: "fork_stack c (upd_task c (\<lambda>t. t\<lparr>PID := global_PID s6\<rparr>) (s6\<lparr>global_PID := wrap32 (global_PID s6 + 1)\<rparr>)) = Some s8"
      and m10: "init_stats c (set_quantum c (quantum (task s8 (current s1))) s8) = Some s10"
      and add: "on_lists (list_add_tail (TaskList c) Readyqueue) (set_cont c Ret_from_fork (upd_task c (\<lambda>t. t\<lparr>exec_status := ST_READY,
                heapSize := heapSize (task s10 (current s1)), heapPages := heapPages (task s10 (current s1))\<rparr>) s10)) = Some s'"
      by (auto simp: B_def elim!: bind_SomeE)
    have so: "stats_only (set_quantum c (quantum (task s8 (current s1))) s8) s10"
      using stats_functions_total(6) m10 by (metis option.inject)
    note t = only_child_trans
    have "only_child c s1 s5" by (rule t[OF t[OF o3 only_child_steps(4)] only_child_steps(3)[OF m5]])
    then have "only_child c s1 s6" by (rule t[OF _ only_child_steps(3)[OF m6]])
    then have "only_child c s1 s8"
      by (rule t[OF t[OF t[OF _ only_child_steps(6)] only_child_steps(5)] only_child_steps(7)[OF m8]])
    then have "only_child c s1 s10"
      by (rule t[OF t[OF _ only_child_steps(5)] only_child_steps(8)[OF so[unfolded set_quantum_def]]])
    then have "only_child c s1 (set_cont c Ret_from_fork (upd_task c (\<lambda>t. t\<lparr>exec_status := ST_READY,
                heapSize := heapSize (task s10 (current s1)), heapPages := heapPages (task s10 (current s1))\<rparr>) s10))"
      by (rule t[OF t[OF _ only_child_steps(5)] only_child_steps(9)])
    from fin[OF this _ _ add] show ?thesis by (simp add: queue_status_def status_def set_cont_def upd_task_def)
  qed
qed

end
