(* ===== verification/Heap.thy ===== *)
theory Heap
  imports Devices
begin

text \<open>
  The heap of a process: \<open>sys_sbrk\<close> of \<open>zeos/sys.c\<close>.
\<close>

section \<open>The heap\<close>

text \<open>
  The loops of \<open>sys_sbrk\<close>. Page numbers are \<open>HEAP_INIT_PAGE\<close> plus an \<open>int\<close>; one that is not in
  the table is a fault.
\<close>

definition heap_page :: "int \<Rightarrow> nat option" where
  "heap_page i = (let p = int HEAP_INIT_PAGE + i in if 0 \<le> p \<and> p < int TOTAL_PAGES then Some (nat p) else None)"

definition drop_heap_page :: "DWord \<Rightarrow> int \<Rightarrow> mm \<Rightarrow> mm option" where
  "drop_heap_page PT hp m = do {
     p \<leftarrow> heap_page (hp - 1);
     f \<leftarrow> get_frame PT p m;
     q \<leftarrow> heap_page hp;
     del_ss_pag PT q (free_frame f m)
   }"

text \<open>Giving back pages until \<open>i\<close> has counted to \<open>n\<close>; the result is the number of pages left.\<close>

function sbrk_free :: "DWord \<Rightarrow> int \<Rightarrow> int \<Rightarrow> int \<Rightarrow> mm \<Rightarrow> (int \<times> mm) option" where
  "sbrk_free PT i n hp m =
     (if i = n then Some (hp, m)
      else if int HEAP_INIT_PAGE + hp \<le> 0 then None
      else do { m1 \<leftarrow> drop_heap_page PT hp m; sbrk_free PT (i + 1) n (hp - 1) m1 })"
  by pat_completeness auto
termination
  by (relation "measure (\<lambda>(PT, i, n, hp, m). nat (int HEAP_INIT_PAGE + hp))") auto

declare sbrk_free.simps [simp del]

text \<open>\<open>while (i > 0)\<close> of the failure path.\<close>

fun sbrk_undo :: "DWord \<Rightarrow> nat \<Rightarrow> int \<Rightarrow> mm \<Rightarrow> (int \<times> mm) option" where
  "sbrk_undo PT 0 hp m = Some (hp, m)"
| "sbrk_undo PT (Suc i) hp m = do { m1 \<leftarrow> drop_heap_page PT hp m; sbrk_undo PT i (hp - 1) m1 }"

text \<open>Reserving pages until \<open>i\<close> has counted to \<open>n\<close>; the flag says whether the frames sufficed.\<close>

function sbrk_reserve :: "DWord \<Rightarrow> int \<Rightarrow> int \<Rightarrow> int \<Rightarrow> mm \<Rightarrow> (bool \<times> int \<times> mm) option" where
  "sbrk_reserve PT i n hp m =
     (if i = n then Some (True, hp, m)
      else
        (let (f, m1) = alloc_frame m in
         if f < 0 then map_option (\<lambda>r. (False, r)) (sbrk_undo PT (nat i) hp m1)
         else if int TOTAL_PAGES \<le> int HEAP_INIT_PAGE + hp then None
         else do {
           p \<leftarrow> heap_page hp;
           m2 \<leftarrow> set_ss_pag PT p (of_int f) m1;
           sbrk_reserve PT (i + 1) n (hp + 1) m2
         }))"
  by pat_completeness auto
termination
  by (relation "measure (\<lambda>(PT, i, n, hp, m). nat (int TOTAL_PAGES - (int HEAP_INIT_PAGE + hp)))") auto

declare sbrk_reserve.simps [simp del]

definition upd_heap :: "nat \<Rightarrow> int \<Rightarrow> int \<Rightarrow> mm \<Rightarrow> kstate \<Rightarrow> kstate" where
  "upd_heap t sz hp m s = (upd_task t (\<lambda>p. p\<lparr>heapSize := sz, heapPages := hp\<rparr>) s)\<lparr>mem := m\<rparr>"

text \<open>From the second statement on: the heap exists.\<close>

definition sbrk_move :: "int \<Rightarrow> kstate \<Rightarrow> (int \<times> kstate) option" where
  "sbrk_move increment s =
     (let t = current s; PT = get_PT t s; sz = heapSize (task s t); hp = heapPages (task s t);
          heap_addr = wrap32 (int HEAP_START + sz) in
      if increment = 0 then Some (heap_addr, s)
      else if increment > 0 then
        (let sz' = wrap32 (sz + increment) in
         if wrap32 (cmod sz (int PAGE_SIZE) + increment) < int PAGE_SIZE
         then Some (heap_addr, upd_heap t sz' hp (mem s) s)
         else do {
           (ok, hp', m') \<leftarrow> sbrk_reserve PT 0 (wrap32 (cdiv sz' (int PAGE_SIZE) - hp)) hp (mem s);
           if ok then Some (heap_addr, upd_heap t sz' hp' m' s)
           else Some (-ENOMEM, upd_heap t (wrap32 (sz' - increment)) hp' m' s)
         })
      else
        (let sz' = (if wrap32 (sz + increment) \<le> 0 then 0 else wrap32 (sz + increment)) in do {
           (hp', m') \<leftarrow> sbrk_free PT 0 (wrap32 (hp - (cdiv sz' (int PAGE_SIZE) + 1))) hp (mem s);
           Some (wrap32 (int HEAP_START + sz'), upd_heap t sz' hp' m' s)
         }))"

definition sys_sbrk :: "int \<Rightarrow> kstate \<Rightarrow> (int \<times> kstate) option" where
  "sys_sbrk increment s =
     (let t = current s; PT = get_PT t s in
      if heap (task s t) = 0 then
        (if increment < 0 then Some (-ENOMEM, s)
         else
           (let (f, m) = alloc_frame (mem s) in
            if f < 0 then Some (-ENOMEM, s\<lparr>mem := m\<rparr>)
            else do {
              m1 \<leftarrow> set_ss_pag PT HEAP_INIT_PAGE (of_int f) m;
              sbrk_move increment (upd_task t (\<lambda>p. p\<lparr>heap := of_nat HEAP_START, heapPages := 1\<rparr>) (s\<lparr>mem := m1\<rparr>))
            }))
      else sbrk_move increment s)"

section \<open>Growing\<close>

lemma alloc_frame_sign: "alloc_frame m = (f, m1) \<Longrightarrow> f \<noteq> -1 \<Longrightarrow> \<not> f < 0"
  using fp.alloc_some by fastforce

text \<open>With frames enough, each round of \<open>sbrk_reserve\<close> maps one more page behind the heap.\<close>

lemma sbrk_reserve_ok:
  assumes "maps_fresh m0 PT {HEAP_INIT_PAGE + a..<HEAP_INIT_PAGE + b} m" and "a \<le> b"
    and "HEAP_INIT_PAGE + b + k \<le> TOTAL_PAGES" and "b - a + k \<le> card (frame_pool_set - used_frames m0)"
    and "n - i = int k"
  shows "\<exists>m'. sbrk_reserve PT i n (int b) m = Some (True, int (b + k), m') \<and>
    maps_fresh m0 PT {HEAP_INIT_PAGE + a..<HEAP_INIT_PAGE + b + k} m'"
  using assms
proof (induction k arbitrary: i b m)
  case 0
  then show ?case by (subst sbrk_reserve.simps) simp
next
  case (Suc k)
  let ?S = "{HEAP_INIT_PAGE + a..<HEAP_INIT_PAGE + b}"
  have "fst (alloc_frame m) \<noteq> -1"
    by (rule alloc_frame_ok[OF Suc.prems(1)]) (use Suc.prems(4) in simp_all)
  then obtain f m1 where al: "alloc_frame m = (f, m1)" "f \<noteq> -1" by (cases "alloc_frame m") auto
  let ?e = "set_present 1 (set_rw 1 (set_user 1 (set_pbase (of_int f) 0)))"
  have p: "HEAP_INIT_PAGE + b \<notin> ?S" "HEAP_INIT_PAGE + b < TOTAL_PAGES" using Suc.prems(3) by simp_all
  have e: "pte_pbase ?e = take_bit 20 (of_int f)" by simp
  from maps_fresh_step[OF Suc.prems(1) al p e] obtain m2 where m2: "write_pte PT (HEAP_INIT_PAGE + b) ?e m1 = Some m2"
    "maps_fresh m0 PT (insert (HEAP_INIT_PAGE + b) ?S) m2" by blast
  have "insert (HEAP_INIT_PAGE + b) ?S = {HEAP_INIT_PAGE + a..<HEAP_INIT_PAGE + Suc b}" using Suc.prems(2) by auto
  with m2(2) have fresh: "maps_fresh m0 PT {HEAP_INIT_PAGE + a..<HEAP_INIT_PAGE + Suc b} m2" by (simp only:)
  have "n - (i + 1) = int k" using Suc.prems(5) by simp
  moreover have "Suc b - a + k \<le> card (frame_pool_set - used_frames m0)" using Suc.prems(2,4) by (simp add: Suc_diff_le)
  ultimately obtain m' where
    m': "sbrk_reserve PT (i + 1) n (int (Suc b)) m2 = Some (True, int (Suc b + k), m')"
    "maps_fresh m0 PT {HEAP_INIT_PAGE + a..<HEAP_INIT_PAGE + Suc b + k} m'"
    using Suc.IH[OF fresh, of "i + 1"] Suc.prems(2,3) by auto
  have hp: "heap_page (int b) = Some (HEAP_INIT_PAGE + b)" using p(2) by (simp add: heap_page_def Let_def)
  have "sbrk_reserve PT i n (int b) m = sbrk_reserve PT (i + 1) n (int b + 1) m2"
    using Suc.prems(5) al alloc_frame_sign[OF al] p(2) hp m2(1)
    by (subst sbrk_reserve.simps) (simp add: set_ss_pag_def)
  moreover have "int b + 1 = int (Suc b)" "HEAP_INIT_PAGE + Suc b + k = HEAP_INIT_PAGE + b + Suc k"
    "Suc b + k = b + Suc k" by simp_all
  ultimately show ?case using m' by (simp only: ex_simps) auto
qed

section \<open>Shrinking\<close>

text \<open>
  \<open>sbrk_free\<close> gives back the frames of the last \<open>n\<close> pages, but it clears the entries one page further
  up: the lowest page given back stays mapped.
\<close>

lemma sbrk_free_pages:
  assumes "n \<le> b" and "HEAP_INIT_PAGE + b < TOTAL_PAGES" and "k - i = int n"
  shows "\<exists>m'. sbrk_free PT i k (int b) m = Some (int (b - n), m') \<and>
    (\<forall>T p. pagusr_table m' T p = (if T = PT \<and> HEAP_INIT_PAGE + b - n < p \<and> p \<le> HEAP_INIT_PAGE + b then 0 else pagusr_table m T p)) \<and>
    used_frames m' = used_frames m - (page_frame m PT ` {HEAP_INIT_PAGE + b - n..<HEAP_INIT_PAGE + b} \<inter> returnable_frames)"
  using assms
proof (induction n arbitrary: i b m)
  case 0
  then show ?case by (subst sbrk_free.simps) auto
next
  case (Suc n)
  then obtain c where b: "b = Suc c" by (cases b) auto
  let ?f = "pte_pbase (pagusr_table m PT (HEAP_INIT_PAGE + c))"
  let ?m = "(free_frame ?f m)\<lparr>pagusr_table := (pagusr_table (free_frame ?f m))(PT :=
      (pagusr_table (free_frame ?f m) PT)(HEAP_INIT_PAGE + b := 0))\<rparr>"
  have hp: "heap_page (int b - 1) = Some (HEAP_INIT_PAGE + c)" "heap_page (int b) = Some (HEAP_INIT_PAGE + b)"
    using Suc.prems(2) b by (simp_all add: heap_page_def Let_def)
  have step: "drop_heap_page PT (int b) m = Some ?m"
    using Suc.prems(2) b hp by (simp add: drop_heap_page_def get_frame_def del_ss_pag_def write_pte_def)
  have tab: "pagusr_table ?m T p = (if T = PT \<and> p = HEAP_INIT_PAGE + b then 0 else pagusr_table m T p)" for T p
    by (simp add: free_frame_def)
  have used: "used_frames ?m = used_frames m - ({page_frame m PT (HEAP_INIT_PAGE + c)} \<inter> returnable_frames)"
    using fp.free_used[of ?f m] by (auto simp: used_frames_def page_frame_def)
  have "k - (i + 1) = int n" using Suc.prems(3) by simp
  with Suc.IH[of c "i + 1" ?m] Suc.prems(1,2) b obtain m' where
    m': "sbrk_free PT (i + 1) k (int c) ?m = Some (int (c - n), m')"
    "\<And>T p. pagusr_table m' T p = (if T = PT \<and> HEAP_INIT_PAGE + c - n < p \<and> p \<le> HEAP_INIT_PAGE + c then 0 else pagusr_table ?m T p)"
    "used_frames m' = used_frames ?m - (page_frame ?m PT ` {HEAP_INIT_PAGE + c - n..<HEAP_INIT_PAGE + c} \<inter> returnable_frames)"
    by auto
  have pf: "page_frame ?m PT ` {HEAP_INIT_PAGE + c - n..<HEAP_INIT_PAGE + c} = page_frame m PT ` {HEAP_INIT_PAGE + c - n..<HEAP_INIT_PAGE + c}"
  proof (rule image_cong[OF refl])
    fix p assume "p \<in> {HEAP_INIT_PAGE + c - n..<HEAP_INIT_PAGE + c}"
    then have "p \<noteq> HEAP_INIT_PAGE + b" using b by simp
    then show "page_frame ?m PT p = page_frame m PT p" unfolding page_frame_def tab by simp
  qed
  have un: "{HEAP_INIT_PAGE + b - Suc n..<HEAP_INIT_PAGE + b} = insert (HEAP_INIT_PAGE + c) {HEAP_INIT_PAGE + c - n..<HEAP_INIT_PAGE + c}"
    using b Suc.prems(1) by auto
  have "used_frames m' = used_frames m - (page_frame m PT ` {HEAP_INIT_PAGE + b - Suc n..<HEAP_INIT_PAGE + b} \<inter> returnable_frames)"
    unfolding m'(3) used pf un by auto
  moreover have "pagusr_table m' T p = (if T = PT \<and> HEAP_INIT_PAGE + b - Suc n < p \<and> p \<le> HEAP_INIT_PAGE + b then 0 else pagusr_table m T p)" for T p
    unfolding m'(2) tab using b by auto
  moreover have "sbrk_free PT i k (int b) m = Some (int (b - Suc n), m')"
    using Suc.prems(3) step m'(1) b by (subst sbrk_free.simps) simp
  ultimately show ?case by blast
qed

section \<open>The break\<close>

definition heap_small :: "int \<Rightarrow> bool" where
  "heap_small x \<longleftrightarrow> 0 \<le> x \<and> x < 2 ^ 30"

lemma wrap_heap: "heap_small x \<Longrightarrow> wrap32 x = x" "heap_small x \<Longrightarrow> wrap32 (int HEAP_START + x) = int HEAP_START + x"
  by (intro wrap32_id; simp add: heap_small_def)+

text \<open>
  C21. A growth of the heap that reaches a page boundary returns the old end (not the new one, as the comment in the
  code has it) and maps the pages below the
  page of the new end, which itself stays as it was even when the end lies inside it, each to a frame of its own that was free; no other mapping changes.
\<close>

theorem sbrk_grow:
  assumes h: "heap (task s (cur s)) \<noteq> 0" and inc: "0 < increment" "heap_small (sz + increment)" "0 \<le> sz"
    and sz: "heapSize (task s (cur s)) = sz" and hp: "heapPages (task s (cur s)) = int b"
    and cross: "int PAGE_SIZE \<le> sz mod int PAGE_SIZE + increment"
    and pages: "(sz + increment) div int PAGE_SIZE = int (b + k)" "HEAP_INIT_PAGE + b + k \<le> TOTAL_PAGES"
    and frames: "k \<le> card (frame_pool_set - used_frames (mem s))"
  shows "\<exists>m'. sys_sbrk increment s = Some (int HEAP_START + sz, upd_heap (cur s) (sz + increment) (int (b + k)) m' s) \<and>
    maps_fresh (mem s) (get_PT (cur s) s) {HEAP_INIT_PAGE + b..<HEAP_INIT_PAGE + b + k} m'"
proof -
  have small: "heap_small sz" "heap_small increment" using inc by (simp_all add: heap_small_def)
  have w: "wrap32 (int HEAP_START + sz) = int HEAP_START + sz" "wrap32 (sz + increment) = sz + increment"
    using wrap_heap small inc(2) by blast+
  have cm: "cmod sz (int PAGE_SIZE) = sz mod int PAGE_SIZE" "cdiv (sz + increment) (int PAGE_SIZE) = int (b + k)"
    using inc pages(1) by (simp_all add: cmod_nonneg cdiv_nonneg)
  have "heap_small (sz mod int PAGE_SIZE + increment)"
    using inc small zmod_le_nonneg_dividend[OF inc(3), of "int PAGE_SIZE"] by (simp add: heap_small_def)
  then have nx: "\<not> wrap32 (cmod sz (int PAGE_SIZE) + increment) < int PAGE_SIZE"
    using cross unfolding cm(1) by (simp only: wrap_heap(1))
  have wk: "wrap32 (int (b + k) - int b) = int k"
    using pages(2) by (subst wrap32_id) simp_all
  have "maps_fresh (mem s) (get_PT (cur s) s) {HEAP_INIT_PAGE + b..<HEAP_INIT_PAGE + b} (mem s)"
    by (simp add: maps_fresh_refl)
  from sbrk_reserve_ok[OF this _ pages(2), of "int k" 0] frames obtain m' where
    m': "sbrk_reserve (get_PT (cur s) s) 0 (int k) (int b) (mem s) = Some (True, int (b + k), m')"
    "maps_fresh (mem s) (get_PT (cur s) s) {HEAP_INIT_PAGE + b..<HEAP_INIT_PAGE + b + k} m'" by auto
  have "sbrk_move increment s = Some (int HEAP_START + sz, upd_heap (cur s) (sz + increment) (int (b + k)) m' s)"
    using inc(1) nx w cm(2) wk m'(1) unfolding sbrk_move_def Let_def current_def sz hp
    by simp
  then have "sys_sbrk increment s = Some (int HEAP_START + sz, upd_heap (cur s) (sz + increment) (int (b + k)) m' s)"
    using h by (simp add: sys_sbrk_def Let_def current_def)
  with m'(2) show ?thesis by blast
qed

text \<open>A growth within the last page, and a call with 0, only report the old break.\<close>

lemma sbrk_within_page:
  assumes h: "heap (task s (cur s)) \<noteq> 0" and inc: "0 < increment" "heap_small (sz + increment)" "0 \<le> sz"
    and sz: "heapSize (task s (cur s)) = sz" and "sz mod int PAGE_SIZE + increment < int PAGE_SIZE"
  shows "sys_sbrk increment s = Some (int HEAP_START + sz,
    upd_heap (cur s) (sz + increment) (heapPages (task s (cur s))) (mem s) s)"
proof -
  have w: "wrap32 (int HEAP_START + sz) = int HEAP_START + sz" "wrap32 (sz + increment) = sz + increment"
    using inc by (intro wrap_heap; simp add: heap_small_def)+
  have c: "cmod sz (int PAGE_SIZE) = sz mod int PAGE_SIZE" using inc by (simp add: cmod_nonneg)
  have "wrap32 (sz mod int PAGE_SIZE + increment) < int PAGE_SIZE"
    using assms(6) inc by (subst wrap32_id) simp_all
  with h inc(1) w c show ?thesis
    by (simp add: sys_sbrk_def sbrk_move_def Let_def current_def sz del: PAGE_SIZE_def HEAP_START_def)
qed

lemma sbrk_zero:
  assumes "heap (task s (cur s)) \<noteq> 0" and "heap_small (heapSize (task s (cur s)))"
  shows "sys_sbrk 0 s = Some (int HEAP_START + heapSize (task s (cur s)), s)"
  using assms wrap_heap(2) by (simp add: sys_sbrk_def sbrk_move_def Let_def current_def del: HEAP_START_def)

text \<open>
  C22. Shrinking the heap by \<open>n\<close> pages gives back the frames of the last \<open>n\<close> heap pages, but takes the
  mapping away from the page behind each of them: the lowest page given back stays mapped to a frame
  that is free again.
\<close>

theorem sbrk_shrink:
  assumes h: "heap (task s (cur s)) \<noteq> 0" and inc: "increment < 0" "heap_small sz" "0 < sz + increment"
    and sz: "heapSize (task s (cur s)) = sz" and hp: "heapPages (task s (cur s)) = int b" "HEAP_INIT_PAGE + b < TOTAL_PAGES"
    and n: "int b - ((sz + increment) div int PAGE_SIZE + 1) = int n"
  shows "\<exists>m'. sys_sbrk increment s = Some (int HEAP_START + (sz + increment), upd_heap (cur s) (sz + increment) (int (b - n)) m' s) \<and>
    (\<forall>T p. pagusr_table m' T p = (if T = get_PT (cur s) s \<and> HEAP_INIT_PAGE + b - n < p \<and> p \<le> HEAP_INIT_PAGE + b then 0
        else pagusr_table (mem s) T p)) \<and>
    used_frames m' = used_frames (mem s) -
      (page_frame (mem s) (get_PT (cur s) s) ` {HEAP_INIT_PAGE + b - n..<HEAP_INIT_PAGE + b} \<inter> returnable_frames)"
proof -
  have small: "heap_small (sz + increment)" using inc by (simp add: heap_small_def)
  have w: "wrap32 (sz + increment) = sz + increment" "wrap32 (int HEAP_START + (sz + increment)) = int HEAP_START + (sz + increment)"
    using wrap_heap[OF small] by blast+
  have d: "cdiv (sz + increment) (int PAGE_SIZE) = (sz + increment) div int PAGE_SIZE" using inc(3) by (simp add: cdiv_nonneg)
  have "0 \<le> (sz + increment) div int PAGE_SIZE" using inc(3) by (simp add: pos_imp_zdiv_nonneg_iff)
  with n have nb: "n \<le> b" by linarith
  have wn: "wrap32 (int b - (cdiv (sz + increment) (int PAGE_SIZE) + 1)) = int n"
    unfolding d n using nb hp(2) by (intro wrap32_id) simp_all
  from sbrk_free_pages[OF nb hp(2), of "int n" 0 "get_PT (cur s) s" "mem s"] obtain m' where
    m': "sbrk_free (get_PT (cur s) s) 0 (int n) (int b) (mem s) = Some (int (b - n), m')"
    "\<forall>T p. pagusr_table m' T p = (if T = get_PT (cur s) s \<and> HEAP_INIT_PAGE + b - n < p \<and> p \<le> HEAP_INIT_PAGE + b then 0
        else pagusr_table (mem s) T p)"
    "used_frames m' = used_frames (mem s) -
      (page_frame (mem s) (get_PT (cur s) s) ` {HEAP_INIT_PAGE + b - n..<HEAP_INIT_PAGE + b} \<inter> returnable_frames)" by auto
  have "sbrk_move increment s = Some (int HEAP_START + (sz + increment), upd_heap (cur s) (sz + increment) (int (b - n)) m' s)"
    using inc(1,3) w wn m'(1) unfolding sbrk_move_def Let_def current_def sz hp(1)
    by (simp add: not_le del: PAGE_SIZE_def HEAP_START_def)
  then have "sys_sbrk increment s = Some (int HEAP_START + (sz + increment), upd_heap (cur s) (sz + increment) (int (b - n)) m' s)"
    using h by (simp add: sys_sbrk_def Let_def current_def)
  with m'(2,3) show ?thesis by blast
qed

text \<open>Process 1 with a heap of one page, then with one of five.\<close>

definition with_heap :: "int \<Rightarrow> int \<Rightarrow> kstate" where
  "with_heap sz pages = upd_task 1 (\<lambda>p. p\<lparr>heap := of_nat HEAP_START, heapSize := sz, heapPages := pages\<rparr>) booted"

lemma with_heap_facts:
  "cur (with_heap sz pages) = 1" "heap (task (with_heap sz pages) 1) \<noteq> 0" "heapSize (task (with_heap sz pages) 1) = sz"
  "heapPages (task (with_heap sz pages) 1) = pages" "mem (with_heap sz pages) = mem booted"
  using booted_facts(2) by (simp_all add: with_heap_def upd_task_def)

lemma sbrk_grow_witness:
  "\<exists>m'. sys_sbrk 8192 (with_heap 0 1) = Some (int HEAP_START, upd_heap 1 8192 2 m' (with_heap 0 1)) \<and>
    maps_fresh (mem booted) (get_PT 1 (with_heap 0 1)) {HEAP_INIT_PAGE + 1..<HEAP_INIT_PAGE + 1 + 1} m'"
  using sbrk_grow[of "with_heap 0 1" 8192 0 1 1] booted_memory(4) by (simp add: with_heap_facts heap_small_def del: One_nat_def)

lemma sbrk_shrink_witness:
  "\<exists>m'. sys_sbrk (- 8192) (with_heap 16384 5) =
     Some (int HEAP_START + 8192, upd_heap 1 8192 3 m' (with_heap 16384 5))"
  using sbrk_shrink[of "with_heap 16384 5" "- 8192" 16384 5 2] by (simp add: with_heap_facts heap_small_def del: One_nat_def) blast

section \<open>Shrinking too much\<close>

text \<open>
  The loop that gives back pages counts up to \<open>n\<close> and tests \<open>i \<noteq> n\<close>: once \<open>i\<close> is past \<open>n\<close> it goes on
  below the heap until it leaves the page table.
\<close>

lemma sbrk_free_runaway: "n < i \<Longrightarrow> sbrk_free PT i n hp m = None"
proof (induction PT i n hp m rule: sbrk_free.induct)
  case (1 PT i n hp m)
  then show ?case by (subst sbrk_free.simps) (auto split: bind_splits)
qed

text \<open>A shrink that leaves some of the heap, up to its loop.\<close>

lemma sbrk_shrink_eval:
  assumes "heap (task s (cur s)) \<noteq> 0" and "increment < 0" "heap_small sz" "0 < sz + increment"
    and "heapSize (task s (cur s)) = sz" and "heapPages (task s (cur s)) = int b" "b < 2 ^ 30"
  shows "sys_sbrk increment s = map_option (\<lambda>(hp', m'). (int HEAP_START + (sz + increment), upd_heap (cur s) (sz + increment) hp' m' s))
    (sbrk_free (get_PT (cur s) s) 0 (int b - ((sz + increment) div int PAGE_SIZE + 1)) (int b) (mem s))"
proof -
  have small: "heap_small (sz + increment)" using assms by (simp add: heap_small_def)
  have w: "wrap32 (sz + increment) = sz + increment" "wrap32 (int HEAP_START + (sz + increment)) = int HEAP_START + (sz + increment)"
    using wrap_heap[OF small] by blast+
  have d: "cdiv (sz + increment) (int PAGE_SIZE) = (sz + increment) div int PAGE_SIZE" using assms(4) by (simp add: cdiv_nonneg)
  have "0 \<le> (sz + increment) div int PAGE_SIZE" "(sz + increment) div int PAGE_SIZE < 2 ^ 30"
    using small int_div_less_self[of "sz + increment" "int PAGE_SIZE"] by (auto simp: heap_small_def pos_imp_zdiv_nonneg_iff)
  then have wn: "wrap32 (int b - (cdiv (sz + increment) (int PAGE_SIZE) + 1)) = int b - ((sz + increment) div int PAGE_SIZE + 1)"
    unfolding d using assms(7) by (intro wrap32_id) simp_all
  show ?thesis
    using assms(1,2,4) w wn unfolding sys_sbrk_def sbrk_move_def Let_def current_def assms(5,6)
    by (simp add: not_le del: PAGE_SIZE_def HEAP_START_def) (auto simp del: PAGE_SIZE_def HEAP_START_def split: bind_splits option.split)
qed

text \<open>
  C20. A shrink that leaves some of the heap stays inside the page table exactly when the heap has more pages than
  the new size has full pages; otherwise its loop steps past its bound, unmaps everything below the heap and
  leaves the table.
\<close>

theorem sbrk_shrink_bounds:
  assumes "heap (task s (cur s)) \<noteq> 0" and "increment < 0" "heap_small sz" "0 < sz + increment"
    and "heapSize (task s (cur s)) = sz" and "heapPages (task s (cur s)) = int b" "HEAP_INIT_PAGE + b < TOTAL_PAGES"
  shows "sys_sbrk increment s = None \<longleftrightarrow> int b \<le> (sz + increment) div int PAGE_SIZE"
proof -
  let ?q = "(sz + increment) div int PAGE_SIZE"
  have "b < 2 ^ 30" using assms(7) by simp
  note eval = sbrk_shrink_eval[OF assms(1-6) this]
  show ?thesis
  proof (cases "int b \<le> ?q")
    case True
    then show ?thesis unfolding eval by (simp add: sbrk_free_runaway del: PAGE_SIZE_def)
  next
    case False
    have "0 \<le> ?q" using assms(4) by (simp add: pos_imp_zdiv_nonneg_iff)
    then have n: "nat (int b - (?q + 1)) \<le> b" "int b - (?q + 1) - 0 = int (nat (int b - (?q + 1)))" using False by simp_all
    from sbrk_free_pages[OF n(1) assms(7) n(2), of "get_PT (cur s) s" "mem s"]
    obtain r where "sbrk_free (get_PT (cur s) s) 0 (int b - (?q + 1)) (int b) (mem s) = Some r" by blast
    then show ?thesis using False unfolding eval by (simp split: prod.split)
  qed
qed

text \<open>Two calls of a user program: \<open>sbrk(8193)\<close> on a heap of one page, then \<open>sbrk(-1)\<close>.\<close>

lemma sbrk_shrink_bounds_witness:
  "sys_sbrk (- 1) (with_heap 8193 2) = None \<and> sys_sbrk (- 8192) (with_heap 16384 5) \<noteq> None"
  using sbrk_shrink_bounds[of "with_heap 8193 2" "- 1" 8193 2] sbrk_shrink_bounds[of "with_heap 16384 5" "- 8192" 16384 5]
  by (simp add: with_heap_facts heap_small_def del: One_nat_def)

end
