(* ===== verification/Files.thy ===== *)
theory Files
  imports Devices
begin

text \<open>
  Reading, writing and the calls that only report: \<open>check_fd\<close>, \<open>sys_read\<close>, \<open>sys_write\<close>,
  \<open>sys_gettime\<close>, \<open>sys_getpid\<close> and \<open>sys_get_stats\<close> of \<open>zeos/sys.c\<close>. The array of variable length that \<open>sys_read\<close>
  and \<open>sys_write\<close> put on the kernel stack has no bound in the code: when it does not fit, the model has no result.
\<close>

section \<open>Descriptors and small calls\<close>

definition LECTURA :: int where [simp]: "LECTURA = 0"
definition ESCRIPTURA :: int where [simp]: "ESCRIPTURA = 1"

definition check_fd :: "int \<Rightarrow> int \<Rightarrow> int" where
  "check_fd fd permissions =
     (if fd > 1 \<or> fd < 0 then -EBADF
      else if fd = 1 \<and> permissions \<noteq> ESCRIPTURA then -EBADF
      else if fd = 0 \<and> permissions \<noteq> LECTURA then -EBADF
      else 0)"

definition ret_from_fork :: int where "ret_from_fork = 0"

definition sys_ni_syscall :: int where "sys_ni_syscall = -ENOSYS"

definition sys_gettime :: "kstate \<Rightarrow> int" where "sys_gettime s = zeos_ticks s"

definition sys_getpid :: "kstate \<Rightarrow> int" where "sys_getpid s = PID (task s (current s))"

section \<open>Reading and writing\<close>

definition sys_read :: "int \<Rightarrow> DWord \<Rightarrow> int \<Rightarrow> kstate \<Rightarrow> (outcome \<times> kstate) option" where
  "sys_read fd buf count s =
     (let tmp = check_fd fd LECTURA in
      if \<not> access_ok VERIFY_WRITE buf (of_int count) then Some (Returned (-EFAULT), s)
      else if tmp < 0 then Some (Returned tmp, s)
      else if buf = 0 then Some (Returned (-EFAULT), s)
      else if count < 0 then Some (Returned (-EINVAL), s)
      else if stack_left s < count then None
      else sys_read_keyboard buf count s)"

text \<open>The chunks of 2048 bytes, from position \<open>i\<close> on.\<close>

function write_loop :: "DWord \<Rightarrow> int \<Rightarrow> int \<Rightarrow> int \<Rightarrow> kstate \<Rightarrow> (int \<times> kstate) option" where
  "write_loop buffer sz i ret s =
     (if i < sz then do {
        bufferTmp \<leftarrow> get_user (buffer + of_int i) (nat (min 2048 (sz - i))) (mem s);
        let (n, d) = sys_write_console bufferTmp (min 2048 (sz - i)) (scr s);
        write_loop buffer sz (i + 2048) (ret + n) (s\<lparr>scr := d\<rparr>)
      } else Some (ret, s))"
  by pat_completeness auto
termination
  by (relation "measure (\<lambda>(buffer, sz, i, ret, s). nat (sz - i))") auto

declare write_loop.simps [simp del]

definition sys_write :: "int \<Rightarrow> DWord \<Rightarrow> int \<Rightarrow> kstate \<Rightarrow> (int \<times> kstate) option" where
  "sys_write fd buffer sz s =
     (let tmp = check_fd fd ESCRIPTURA in
      if tmp < 0 then Some (tmp, s)
      else if buffer = 0 then Some (-EFAULT, s)
      else if sz < 0 then Some (-EINVAL, s)
      else if stack_left s < sz then None
      else write_loop buffer sz 0 0 s)"

section \<open>Statistics\<close>

definition dword_bytes :: "DWord \<Rightarrow> Byte list" where
  "dword_bytes v = map (\<lambda>k. ucast (drop_bit (8 * k) v)) [0..<4]"

definition stats_bytes :: "stats \<Rightarrow> Byte list" where
  "stats_bytes st = concat (map dword_bytes [user_ticks st, system_ticks st, blocked_ticks st,
     ready_ticks st, elapsed_total_ticks st, total_trans st, remaining_ticks st])"

definition sys_get_stats :: "int \<Rightarrow> DWord \<Rightarrow> kstate \<Rightarrow> (int \<times> kstate) option" where
  "sys_get_stats pid st s =
     (let c = current s in
      if pid < 0 then Some (-EINVAL, s)
      else if st = 0 then Some (-EFAULT, s)
      else if \<not> access_ok VERIFY_WRITE st 28 then Some (-EFAULT, s)
      else if pid = PID (task s c) then
        map_option (\<lambda>s'. (0, s')) (on_mem (put_user st (stats_bytes (process_stats (task s c)))) s)
      else (case find (\<lambda>i. PID (task s i) = pid) [0..<NR_TASKS] of
          Some i \<Rightarrow> do {
            let s1 = upd_stats i (\<lambda>e. e\<lparr>remaining_ticks := remaining_ticks (process_stats (task s c))\<rparr>) s;
            s2 \<leftarrow> on_mem (put_user st (stats_bytes (process_stats (task s1 i)))) s1;
            Some (0, s2)
          }
        | None \<Rightarrow> Some (-ESRCH, s)))"

section \<open>Reading the keyboard\<close>

lemma next_task_cong: "idle_task s' = idle_task s \<Longrightarrow> next_task s' Q = next_task s Q"
  unfolding next_task_def by (simp only:)

lemma next_task_keyb [simp]: "next_task (s\<lparr>keyb := k\<rparr>) Q = next_task s Q"
  by (rule next_task_cong) simp

text \<open>
  One run of the reader. It returns when the characters at hand complete the request, waits at the
  front of the keyboard queue when they do not, and overruns the buffer when they exceed it.
\<close>

lemma read_loop_wait:
  assumes kw: "kwf s Q" and ni: "cur s \<noteq> idle_task s" and cb: "cb_ok (keyb s)"
    and few: "int (length bs) + int (length (waiting (keyb s))) < n"
  shows "\<exists>s'. read_loop buf n bs s = Some (Switched, s') \<and>
    kwf s' (ready_rest (Q(Keyboardqueue := TaskList (cur s) # Q Keyboardqueue))) \<and> cur s' = next_task s Q \<and>
    kcont s' = (kcont s)(cur s := After_read buf n (bs @ waiting (keyb s))) \<and> cb_ok (keyb s') \<and>
    waiting (keyb s') = [] \<and> (\<not> cbfull (keyb s) \<longrightarrow> \<not> cbfull (keyb s')) \<and> idle_task s' = idle_task s \<and>
    semaphores s' = semaphores s"
proof -
  have "int (length bs) + charsInCirc (keyb s) \<le> n \<or> waiting (keyb s) = []"
    using few length_waiting[OF cb] by simp
  from drain_all[OF cb this] obtain k where k: "drain n bs (keyb s) = Some (bs @ waiting (keyb s), k)" "taken (keyb s) k"
    "lastRead k = nextToWrite k" "cb_is_empty k = (if waiting (keyb s) = [] then cb_is_empty (keyb s) else 1)" by blast
  have ck: "cb_ok k" "waiting k = []" "\<not> cbfull (keyb s) \<longrightarrow> \<not> cbfull k"
    using k(2,3,4) by (auto simp: taken_def waiting_empty cbfull_def)
  let ?s = "s\<lparr>keyb := k\<rparr>"
  have k1: "kwf ?s Q" by (rule kwf_cong[OF kw]) simp_all
  have w: "ks ?s Q" "cur ?s < NR_TASKS" "off_queues ?s Q (cur ?s)" using k1 by (simp_all add: kwf_def kqs_def)
  let ?r = "do { s2 \<leftarrow> on_lists (list_add (TaskList (cur ?s)) Keyboardqueue) ?s;
                 s3 \<leftarrow> sys_to_ready_stats s2; Some (set_status (cur ?s) ST_BLOCKED s3) }"
  have qs: "queue_step ?s ?r (Q(Keyboardqueue := TaskList (cur ?s) # Q Keyboardqueue)) ((status ?s)(cur ?s := ST_BLOCKED))"
    by (rule push_with_status[OF w(1) fixed_heads(4) w(2,3)])
  have ni': "cur ?s \<noteq> idle_task ?s \<or> Keyboardqueue = Readyqueue" using ni by simp
  from leave_switch[OF k1 fixed_heads(4) ni' qs, of "After_read buf n (bs @ waiting (keyb s))"] obtain s1 s' where s':
    "?r = Some s1" "sched_next_rr (set_cont (cur ?s) (After_read buf n (bs @ waiting (keyb s))) s1) = Some s'"
    "kwf s' (ready_rest (Q(Keyboardqueue := TaskList (cur ?s) # Q Keyboardqueue)))" "same_kernel ?s s'"
    "kcont s' = (kcont ?s)(cur ?s := After_read buf n (bs @ waiting (keyb s)))"
    "cur s' = next_task ?s (Q(Keyboardqueue := TaskList (cur ?s) # Q Keyboardqueue))"
    by (auto simp: queue_status_def)
  from s'(1) obtain s2 s3 where s23: "on_lists (list_add (TaskList (cur s)) Keyboardqueue) ?s = Some s2"
    "sys_to_ready_stats s2 = Some s3" "s1 = set_status (cur s) ST_BLOCKED s3"
    by (auto elim!: bind_SomeE)
  have "int (length bs) < n" using few by simp
  with few k(1) s23 s'(2) have "read_loop buf n bs s = Some (Switched, s')"
    by (simp add: read_loop_def current_def Let_def)
  moreover have "cur s' = next_task s Q" using s'(6) unfolding next_task_keyb by (simp add: next_task_def)
  ultimately show ?thesis using s'(3,4,5) ck by (auto simp: same_kernel_def)
qed

lemma read_loop_done:
  assumes kw: "kwf s Q" and cb: "cb_ok (keyb s)"
    and all: "int (length bs) + int (length (waiting (keyb s))) = n"
    and mem: "put_user buf (bs @ waiting (keyb s)) (mem s) = Some m"
  shows "\<exists>k. read_loop buf n bs s = Some (Returned n, s\<lparr>keyb := k, mem := m\<rparr>) \<and> kwf (s\<lparr>keyb := k, mem := m\<rparr>) Q \<and>
    cb_ok k \<and> waiting k = [] \<and> (\<not> cbfull (keyb s) \<longrightarrow> \<not> cbfull k)"
proof (cases "int (length bs) < n")
  case True
  have "int (length bs) + charsInCirc (keyb s) \<le> n \<or> waiting (keyb s) = []"
    using all length_waiting[OF cb] by simp
  from drain_all[OF cb this] obtain k where k: "drain n bs (keyb s) = Some (bs @ waiting (keyb s), k)" "taken (keyb s) k"
    "lastRead k = nextToWrite k" "cb_is_empty k = (if waiting (keyb s) = [] then cb_is_empty (keyb s) else 1)" by blast
  have "kwf (s\<lparr>keyb := k, mem := m\<rparr>) Q" by (rule kwf_cong[OF kw]) simp_all
  moreover have "read_loop buf n bs s = Some (Returned n, s\<lparr>keyb := k, mem := m\<rparr>)"
    using True k(1) all mem by (simp add: read_loop_def on_mem_def)
  moreover have "cb_ok k" "waiting k = []" "\<not> cbfull (keyb s) \<longrightarrow> \<not> cbfull k"
    using k by (auto simp: taken_def waiting_empty cbfull_def)
  ultimately show ?thesis by blast
next
  case False
  with all have w: "waiting (keyb s) = []" "int (length bs) = n" by auto
  have "read_loop buf n bs s = Some (Returned n, s\<lparr>mem := m\<rparr>)"
    using False w mem by (simp add: read_loop_def on_mem_def)
  moreover have "s\<lparr>mem := m\<rparr> = s\<lparr>keyb := keyb s, mem := m\<rparr>" by simp
  moreover have "kwf (s\<lparr>keyb := keyb s, mem := m\<rparr>) Q" by (rule kwf_cong[OF kw]) simp_all
  ultimately show ?thesis using w cb by metis
qed

lemma read_loop_overrun:
  assumes "cb_ok (keyb s)" and "int (length bs) < n" and "n < int (length bs) + int (length (waiting (keyb s)))"
  shows "read_loop buf n bs s = None"
proof -
  have "drain n bs (keyb s) = None"
    using assms length_waiting[OF assms(1)] by (intro drain_overrun) auto
  with assms(2) show ?thesis by (simp add: read_loop_def)
qed

text \<open>Whatever happens, the queues and the circular buffer stay in order.\<close>

lemma read_loop_kwf:
  assumes r: "read_loop buf n bs s = Some (r, s')" and kw: "kwf s Q" and ni: "cur s \<noteq> idle_task s"
    and cb: "cb_ok (keyb s)" "\<not> cbfull (keyb s)" and bs: "int (length bs) \<le> n"
  shows "\<exists>Q'. kwf s' Q' \<and> cb_ok (keyb s') \<and> \<not> cbfull (keyb s') \<and> idle_task s' = idle_task s \<and>
    (kcont s' = kcont s \<or> (\<exists>bs'. int (length bs') \<le> n \<and> kcont s' = (kcont s)(cur s := After_read buf n bs')))"
proof -
  consider "int (length bs) + int (length (waiting (keyb s))) < n"
    | "int (length bs) + int (length (waiting (keyb s))) = n" | "int (length bs) = n"
    | "int (length bs) < n" "n < int (length bs) + int (length (waiting (keyb s)))" using bs by linarith
  then show ?thesis
  proof cases
    case 1
    from read_loop_wait[OF kw ni cb(1) 1, of buf] obtain s2 where "read_loop buf n bs s = Some (Switched, s2)"
      "kwf s2 (ready_rest (Q(Keyboardqueue := TaskList (cur s) # Q Keyboardqueue)))" "cb_ok (keyb s2)"
      "\<not> cbfull (keyb s) \<longrightarrow> \<not> cbfull (keyb s2)" "idle_task s2 = idle_task s"
      "kcont s2 = (kcont s)(cur s := After_read buf n (bs @ waiting (keyb s)))" by blast
    moreover from this have "\<exists>bs'. int (length bs') \<le> n \<and> kcont s2 = (kcont s)(cur s := After_read buf n bs')"
      using 1 by (intro exI[of _ "bs @ waiting (keyb s)"]) simp
    ultimately show ?thesis using r cb(2) by (intro exI conjI) simp_all
  next
    case 2
    obtain m where m: "put_user buf (bs @ waiting (keyb s)) (mem s) = Some m"
    proof (cases "int (length bs) < n")
      case True
      have "int (length bs) + charsInCirc (keyb s) \<le> n \<or> waiting (keyb s) = []"
        using 2 length_waiting[OF cb(1)] by simp
      from drain_all[OF cb(1) this] obtain k where "drain n bs (keyb s) = Some (bs @ waiting (keyb s), k)" by blast
      with r True 2 that show ?thesis by (auto simp: read_loop_def on_mem_def split: option.splits elim!: bind_SomeE)
    next
      case False
      with 2 r that show ?thesis by (auto simp: read_loop_def on_mem_def elim!: bind_SomeE)
    qed
    from read_loop_done[OF kw cb(1) 2 m] r cb(2) show ?thesis by auto
  next
    case 3
    with r obtain m where "s' = s\<lparr>mem := m\<rparr>" by (auto simp: read_loop_def on_mem_def elim!: bind_SomeE)
    moreover have "kwf (s\<lparr>mem := m\<rparr>) Q" by (rule kwf_cong[OF kw]) simp_all
    ultimately show ?thesis using cb by auto
  next
    case 4
    from read_loop_overrun[OF cb(1) 4] r show ?thesis by simp
  qed
qed

lemma sys_read_keyboard_wait:
  assumes kw: "kwf s Q" and ni: "cur s \<noteq> idle_task s" and cb: "\<not> cbfull (keyb s)"
  shows "\<exists>s'. sys_read_keyboard buf n s = Some (Switched, s') \<and>
    kwf s' (ready_rest (Q(Keyboardqueue := Q Keyboardqueue @ [TaskList (cur s)]))) \<and> cur s' = next_task s Q \<and>
    kcont s' = (kcont s)(cur s := After_read buf n []) \<and> keyb s' = (keyb s)\<lparr>leftToRead := n\<rparr> \<and> idle_task s' = idle_task s \<and>
    semaphores s' = semaphores s \<and> (\<forall>u. PID (task s' u) = PID (task s u))"
proof -
  let ?s = "s\<lparr>keyb := (keyb s)\<lparr>leftToRead := n\<rparr>\<rparr>"
  have k1: "kwf ?s Q" by (rule kwf_cong[OF kw]) simp_all
  have ni': "cur ?s \<noteq> idle_task ?s" using ni by simp
  from block_switch[OF k1 fixed_heads(4) ni', of "After_read buf n []"] obtain s1 s' where s':
    "block (cur ?s) Keyboardqueue ?s = Some s1" "sched_next_rr (set_cont (cur ?s) (After_read buf n []) s1) = Some s'"
    "kwf s' (ready_rest (Q(Keyboardqueue := Q Keyboardqueue @ [TaskList (cur ?s)])))" "same_kernel ?s s'"
    "kcont s' = (kcont ?s)(cur ?s := After_read buf n [])" "cur s' = next_task ?s Q" by auto
  have "sys_read_keyboard buf n s = Some (Switched, s')"
    using cb s'(1,2) by (simp add: sys_read_keyboard_def Let_def current_def cbfull_def)
  then show ?thesis using s'(3-6) unfolding next_task_keyb by (auto simp: same_kernel_def)
qed

section \<open>Writing\<close>

text \<open>The bytes of the process appear on the screen in order, whatever the chunks.\<close>

lemma get_user_append:
  "get_user a (m + n) mm = (case get_user a m mm of None \<Rightarrow> None | Some bs \<Rightarrow>
     map_option (\<lambda>cs. bs @ cs) (get_user (a + of_nat m) n mm))"
proof (induction m arbitrary: a)
  case 0
  then show ?case by (cases "get_user a n mm") simp_all
next
  case (Suc m)
  have "a + 1 + of_nat m = a + of_nat (Suc m)" by simp
  then show ?case using Suc[of "a + 1"]
    by (cases "rd8 (vtrans mm) a (case_prod (pmem mm))"; cases "get_user (a + 1) m mm";
        cases "get_user (a + 1 + of_nat m) n mm") (auto simp: add.assoc)
qed

lemma get_user_length: "get_user a n mm = Some bs \<Longrightarrow> length bs = n"
  by (induction n arbitrary: a bs) (auto elim!: bind_SomeE)

lemma console_prints: "length bs = n \<Longrightarrow> sys_write_console bs (int n) d = (int n, fold printc bs d)"
proof -
  assume n: "length bs = n"
  have "fold (\<lambda>i. printc (bs ! i)) [0..<n] d = fold printc (map ((!) bs) [0..<n]) d" by (simp add: fold_map comp_def)
  also have "map ((!) bs) [0..<n] = bs" using n by (metis map_nth)
  finally show ?thesis by (simp add: sys_write_console_def)
qed

lemma write_loop_prints:
  assumes "get_user (buf + of_int i) (nat (sz - i)) (mem s) = Some bs" and "i \<le> sz"
  shows "write_loop buf sz i ret s = Some (ret + (sz - i), s\<lparr>scr := fold printc bs (scr s)\<rparr>)"
  using assms
proof (induction "nat (sz - i)" arbitrary: i ret s bs rule: less_induct)
  case less
  show ?case
  proof (cases "i < sz")
    case False
    with less.prems show ?thesis by (subst write_loop.simps) simp
  next
    case True
    let ?c = "min 2048 (sz - i)"
    have split: "nat (sz - i) = nat ?c + nat (sz - (i + ?c))" using True by simp
    obtain b1 b2 where b: "get_user (buf + of_int i) (nat ?c) (mem s) = Some b1"
      "get_user (buf + of_int i + of_nat (nat ?c)) (nat (sz - (i + ?c))) (mem s) = Some b2" "bs = b1 @ b2"
      using less.prems(1) unfolding split get_user_append by (auto split: option.splits)
    have cons: "sys_write_console b1 ?c (scr s) = (?c, fold printc b1 (scr s))"
      using console_prints[OF get_user_length[OF b(1)], of "scr s"] True by simp
    let ?s = "s\<lparr>scr := fold printc b1 (scr s)\<rparr>"
    have step: "write_loop buf sz i ret s = write_loop buf sz (i + 2048) (ret + ?c) ?s"
      using True b(1) cons by (subst write_loop.simps) simp
    show ?thesis
    proof (cases "2048 \<le> sz - i")
      case big: True
      then have "?c = 2048" by simp
      have "of_int i + of_nat (nat ?c) = (of_int (i + 2048) :: DWord)" unfolding \<open>?c = 2048\<close> by simp
      then have "get_user (buf + of_int (i + 2048)) (nat (sz - (i + 2048))) (mem ?s) = Some b2"
        using b(2) \<open>?c = 2048\<close> by (simp add: add.assoc)
      from less.hyps[OF _ this] True big \<open>?c = 2048\<close>
      have "write_loop buf sz (i + 2048) (ret + ?c) ?s = Some (ret + ?c + (sz - (i + 2048)), ?s\<lparr>scr := fold printc b2 (scr ?s)\<rparr>)"
        by auto
      with step b(3) \<open>?c = 2048\<close> show ?thesis by simp
    next
      case small: False
      then have "?c = sz - i" by simp
      with b(2) have "b2 = []" by simp
      moreover have "write_loop buf sz (i + 2048) (ret + ?c) ?s = Some (ret + ?c, ?s)"
        using small by (subst write_loop.simps) simp
      ultimately show ?thesis using step b(3) \<open>?c = sz - i\<close> by simp
    qed
  qed
qed

lemma write_loop_scr: "write_loop buf sz i ret s = Some (v, s') \<Longrightarrow> \<exists>d. s' = s\<lparr>scr := d\<rparr>"
proof (induction buf sz i ret s rule: write_loop.induct)
  case (1 buf sz i ret s)
  show ?case
  proof (cases "i < sz")
    case True
    with 1(2) obtain bs n d where b: "get_user (buf + of_int i) (nat (min 2048 (sz - i))) (mem s) = Some bs"
      "sys_write_console bs (min 2048 (sz - i)) (scr s) = (n, d)"
      "write_loop buf sz (i + 2048) (ret + n) (s\<lparr>scr := d\<rparr>) = Some (v, s')"
      by (subst (asm) write_loop.simps) (auto elim!: bind_SomeE split: prod.splits)
    from 1(1)[OF True b(1) b(2)[symmetric] refl b(3)] show ?thesis by auto
  next
    case False
    with 1(2) show ?thesis by (subst (asm) write_loop.simps) (auto intro: exI[of _ "scr s"])
  qed
qed

end
