(* ===== verification/Interrupt.thy ===== *)
theory Interrupt
  imports Sem
begin

text \<open>
  \<open>zeos/interrupt.c\<close>: the gates of the interrupt descriptor table, and the routines of the keyboard
  and of the clock. The addresses of the assembly handlers are arguments; so are \<open>set_handlers\<close>
  and \<open>zeos_show_clock\<close>, which come from \<open>libzeos.a\<close>.
\<close>

section \<open>Gates\<close>

record gate =
  lowOffset :: Word16
  segmentSelector :: Word16
  gate_flags :: Word16
  highOffset :: Word16

definition KERNEL_CS :: Word16 where [simp]: "KERNEL_CS = 0x10"
definition KERNEL_DS :: Word16 where [simp]: "KERNEL_DS = 0x18"
definition USER_CS :: Word16 where [simp]: "USER_CS = 0x23"
definition USER_DS :: Word16 where [simp]: "USER_DS = 0x2B"
definition IDT_ENTRIES :: nat where [simp]: "IDT_ENTRIES = 256"

definition highWord :: "DWord \<Rightarrow> Word16" where
  "highWord a = ucast (drop_bit 16 a AND 0xFFFF)"

definition lowWord :: "DWord \<Rightarrow> Word16" where
  "lowWord a = ucast (a AND 0xFFFF)"

type_synonym idt = "nat \<Rightarrow> gate"

definition setInterruptHandler :: "nat \<Rightarrow> DWord \<Rightarrow> DWord \<Rightarrow> idt \<Rightarrow> idt option" where
  "setInterruptHandler vector handler maxAccessibleFromPL t =
     (if vector < IDT_ENTRIES then
        (let flags = ucast (push_bit 13 maxAccessibleFromPL) OR 0x8E00
         in Some (t(vector := \<lparr>lowOffset = lowWord handler, segmentSelector = KERNEL_CS,
                               gate_flags = flags, highOffset = highWord handler\<rparr>)))
      else None)"

text \<open>The trap handler installs an interrupt gate too.\<close>

definition setTrapHandler :: "nat \<Rightarrow> DWord \<Rightarrow> DWord \<Rightarrow> idt \<Rightarrow> idt option" where
  "setTrapHandler vector handler maxAccessibleFromPL t =
     (if vector < IDT_ENTRIES then
        (let flags = ucast (push_bit 13 maxAccessibleFromPL) OR 0x8E00
         in Some (t(vector := \<lparr>lowOffset = lowWord handler, segmentSelector = KERNEL_CS,
                               gate_flags = flags, highOffset = highWord handler\<rparr>)))
      else None)"

record descriptor_register =
  reg_base :: DWord
  reg_limit :: Word16

definition setIdt ::
  "(idt \<Rightarrow> idt) \<Rightarrow> DWord \<Rightarrow> DWord \<Rightarrow> DWord \<Rightarrow> DWord \<Rightarrow> idt \<Rightarrow> (descriptor_register \<times> idt) option" where
  "setIdt set_handlers idt_addr keyboard_handler clock_handler system_call_handler t = do {
     let idtR = \<lparr>reg_base = idt_addr, reg_limit = of_nat (IDT_ENTRIES * 8 - 1)\<rparr>;
     t1 \<leftarrow> setInterruptHandler 33 keyboard_handler 0 (set_handlers t);
     t2 \<leftarrow> setInterruptHandler 32 clock_handler 0 t1;
     t3 \<leftarrow> setTrapHandler 0x80 system_call_handler 3 t2;
     Some (idtR, t3)
   }"

text \<open>How the processor reads a gate: offset, privilege level, type and presence.\<close>

definition gate_offset :: "gate \<Rightarrow> DWord" where
  "gate_offset g = push_bit 16 (ucast (highOffset g)) OR ucast (lowOffset g)"

definition gate_dpl :: "gate \<Rightarrow> Word16" where
  "gate_dpl g = take_bit 2 (drop_bit 13 (gate_flags g))"

definition gate_is_interrupt :: "gate \<Rightarrow> bool" where
  "gate_is_interrupt g \<longleftrightarrow> take_bit 4 (drop_bit 8 (gate_flags g)) = 0xE \<and> bit (gate_flags g) 15"

lemma gate_offset_handler:
  "gate_offset \<lparr>lowOffset = lowWord h, segmentSelector = cs, gate_flags = f, highOffset = highWord h\<rparr> = h"
proof (rule bit_word_eqI)
  have m: "(0xFFFF :: DWord) = mask 16" by (simp add: mask_eq_exp_minus_1)
  fix n assume "n < LENGTH(32)"
  moreover have "16 \<le> n \<Longrightarrow> 16 + (n - 16) = n" by simp
  ultimately show "bit (gate_offset \<lparr>lowOffset = lowWord h, segmentSelector = cs, gate_flags = f, highOffset = highWord h\<rparr>) n = bit h n"
    by (auto simp: gate_offset_def lowWord_def highWord_def m bit_simps)
qed

section \<open>The keyboard\<close>

definition char_map :: "Byte list" where
  "char_map =
     [0, 0, 0x31, 0x32, 0x33, 0x34, 0x35, 0x36,
      0x37, 0x38, 0x39, 0x30, 0x27, 0xA1, 0, 0,
      0x71, 0x77, 0x65, 0x72, 0x74, 0x79, 0x75, 0x69,
      0x6F, 0x70, 0x60, 0x2B, 0, 0, 0x61, 0x73,
      0x64, 0x66, 0x67, 0x68, 0x6A, 0x6B, 0x6C, 0xF1,
      0, 0xBA, 0, 0xE7, 0x7A, 0x78, 0x63, 0x76,
      0x62, 0x6E, 0x6D, 0x2C, 0x2E, 0x2D, 0, 0x2A,
      0, 0, 0, 0, 0, 0, 0, 0,
      0, 0, 0, 0, 0, 0, 0, 0x37,
      0x38, 0x39, 0x2D, 0x34, 0x35, 0x36, 0x2B, 0x31,
      0x32, 0x33, 0x30, 0, 0, 0, 0x3C, 0,
      0, 0, 0, 0, 0, 0, 0, 0,
      0, 0]"

text \<open>The routine on the scan code that the controller delivers at port \<open>0x60\<close>.\<close>

definition keyboard_routine :: "Byte \<Rightarrow> kstate \<Rightarrow> (outcome \<times> kstate) option" where
  "keyboard_routine scan s =
     (let mask = 0x80 :: Byte in
      if scan AND 0x80 \<noteq> 0 then
        (let i = unat (NOT mask AND scan) in
         if length char_map \<le> i then None
         else do {
           let ch = char_map ! i;
           s1 \<leftarrow> (if ch = 0 then Some (s\<lparr>scr := printc_xy 0 0 67 (scr s)\<rparr>)
                  else map_option snd (putC ch s));
           if (cbfull (keyb s1) \<or> leftToRead (keyb s1) \<ge> charsInCirc (keyb s1)) \<and>
              \<not> list_empty Keyboardqueue (lists s1)
           then do {
             s2 \<leftarrow> unblock_first Keyboardqueue s1;
             s3 \<leftarrow> sched_next_rr (set_cont (current s2) In_user s2);
             Some (Switched, s3)
           } else Some (Returned 0, s1)
         })
      else Some (Returned 0, s))"

section \<open>The clock\<close>

text \<open>\<open>zeos_show_clock\<close> draws on the screen.\<close>

definition clock_routine :: "(int \<Rightarrow> screen \<Rightarrow> screen) \<Rightarrow> kstate \<Rightarrow> kstate option" where
  "clock_routine zeos_show_clock s =
     (let s1 = s\<lparr>scr := zeos_show_clock (zeos_ticks s) (scr s)\<rparr>;
          s2 = s1\<lparr>zeos_ticks := wrap32 (zeos_ticks s1 + 1)\<rparr>
      in schedule s2)"

section \<open>Invariants\<close>

lemma kwf_scr: "kwf s Q \<Longrightarrow> kwf (s\<lparr>scr := d\<rparr>) Q"
  by (rule kwf_cong) simp_all

lemma kwf_keyb: "kwf s Q \<Longrightarrow> kwf (s\<lparr>keyb := k\<rparr>) Q"
  by (rule kwf_cong) simp_all

lemma clock_routine_kwf:
  assumes "kwf s Q"
  shows "\<exists>s' Q'. clock_routine f s = Some s' \<and> kwf s' Q' \<and> idle_task s' = idle_task s \<and> keyb s' = keyb s \<and>
    (kcont s' = kcont s \<or> kcont s' = (kcont s)(cur s := In_user))"
proof -
  let ?s = "s\<lparr>scr := f (zeos_ticks s) (scr s), zeos_ticks := wrap32 (zeos_ticks s + 1)\<rparr>"
  have "kwf ?s Q" by (rule kwf_cong[OF assms]) simp_all
  from schedule_step[OF this] show ?thesis
    by (auto simp: clock_routine_def Let_def tick_result_def)
qed

text \<open>The character part of the routine.\<close>

lemma keyboard_char:
  assumes "kwf s Q" and "cb_ok (keyb s)" and "\<not> cbfull (keyb s)"
  shows "\<exists>s1. (if ch = 0 then Some (s\<lparr>scr := printc_xy 0 0 67 (scr s)\<rparr>) else map_option snd (putC ch s)) = Some s1 \<and>
    kwf s1 Q \<and> cb_ok (keyb s1) \<and> \<not> cbfull (keyb s1) \<and> leftToRead (keyb s1) = leftToRead (keyb s) \<and>
    s1 = s\<lparr>scr := scr s1, keyb := keyb s1\<rparr> \<and>
    waiting (keyb s1) = (if ch = 0 then waiting (keyb s)
      else if length (waiting (keyb s)) < 9 then waiting (keyb s) @ [ch] else [])"
proof (cases "ch = 0")
  case True
  then show ?thesis using assms kwf_scr[OF assms(1)] by auto
next
  case False
  from putC_waiting[OF assms(2,3), of ch] obtain s' where s': "putC ch s = Some (0, s')" "s' = s\<lparr>keyb := keyb s'\<rparr>"
    "cb_ok (keyb s')" "\<not> cbfull (keyb s')" "leftToRead (keyb s') = leftToRead (keyb s)"
    "waiting (keyb s') = (if length (waiting (keyb s)) < 9 then waiting (keyb s) @ [ch] else [])" by blast
  have "kwf s' Q" by (subst s'(2)) (rule kwf_keyb[OF assms(1)])
  moreover have "s' = s\<lparr>scr := scr s', keyb := keyb s'\<rparr>" by (subst (1) s'(2), subst (1) s'(2)) simp
  ultimately show ?thesis using False s' by auto
qed

text \<open>
  The routine wakes the first reader when fewer characters are there than requested, and gives it the
  processor; the interrupted process goes to no queue.
\<close>

lemma keyboard_routine_cases:
  assumes "kwf s Q" and "cb_ok (keyb s)" and "\<not> cbfull (keyb s)" and "unat (0x7F AND scan) < length char_map"
    and "scan AND 0x80 \<noteq> 0"
  defines "ch \<equiv> char_map ! unat (0x7F AND scan)"
  defines "w \<equiv> (if ch = 0 then waiting (keyb s)
      else if length (waiting (keyb s)) < 9 then waiting (keyb s) @ [ch] else [])"
  shows "if int (length w) \<le> leftToRead (keyb s) \<and> Q Keyboardqueue \<noteq> []
    then \<exists>t s'. hd (Q Keyboardqueue) = TaskList t \<and> keyboard_routine scan s = Some (Switched, s') \<and>
      kwf s' (Q(Keyboardqueue := tl (Q Keyboardqueue))) \<and> cur s' = t \<and>
      kcont s' = (kcont s)(cur s := In_user) \<and> cb_ok (keyb s') \<and> \<not> cbfull (keyb s') \<and> waiting (keyb s') = w \<and>
      leftToRead (keyb s') = leftToRead (keyb s) \<and> (\<forall>u. PID (task s' u) = PID (task s u)) \<and> idle_task s' = idle_task s \<and>
      semaphores s' = semaphores s
    else \<exists>s'. keyboard_routine scan s = Some (Returned 0, s') \<and> kwf s' Q \<and> cur s' = cur s \<and> kcont s' = kcont s \<and>
      cb_ok (keyb s') \<and> \<not> cbfull (keyb s') \<and> waiting (keyb s') = w \<and> leftToRead (keyb s') = leftToRead (keyb s) \<and>
      (\<forall>u. PID (task s' u) = PID (task s u)) \<and> idle_task s' = idle_task s \<and> semaphores s' = semaphores s"
proof -
  have m: "NOT (0x80 :: Byte) = 0x7F" by simp
  from keyboard_char[OF assms(1-3), of ch] obtain s1 where s1:
    "(if ch = 0 then Some (s\<lparr>scr := printc_xy 0 0 67 (scr s)\<rparr>) else map_option snd (putC ch s)) = Some s1"
    "kwf s1 Q" "cb_ok (keyb s1)" "\<not> cbfull (keyb s1)" "leftToRead (keyb s1) = leftToRead (keyb s)"
    "s1 = s\<lparr>scr := scr s1, keyb := keyb s1\<rparr>" "waiting (keyb s1) = w" unfolding w_def by blast
  have c: "charsInCirc (keyb s1) = int (length w)" using length_waiting[OF s1(3)] s1(7) by simp
  have e: "list_empty Keyboardqueue (lists s1) \<longleftrightarrow> Q Keyboardqueue = []"
    using ks_empty[OF _ fixed_heads(4)] s1(2) by (simp add: kwf_def kqs_def)
  have f: "cur s1 = cur s" "kcont s1 = kcont s" "task s1 = task s" "idle_task s1 = idle_task s" "semaphores s1 = semaphores s"
    by (subst s1(6), simp)+
  have r: "keyboard_routine scan s = (if int (length w) \<le> leftToRead (keyb s) \<and> Q Keyboardqueue \<noteq> []
      then do { s2 \<leftarrow> unblock_first Keyboardqueue s1; s3 \<leftarrow> sched_next_rr (set_cont (current s2) In_user s2); Some (Switched, s3) }
      else Some (Returned 0, s1))"
    using assms(4,5) s1(1,4,5) c e unfolding keyboard_routine_def Let_def m ch_def[symmetric]
    by (simp del: char_map_def)
  show ?thesis
  proof (cases "int (length w) \<le> leftToRead (keyb s) \<and> Q Keyboardqueue \<noteq> []")
    case False
    then show ?thesis using r s1 f by auto
  next
    case True
    then obtain x xs where q: "Q Keyboardqueue = x # xs" by (cases "Q Keyboardqueue") auto
    let ?Q = "Q(Keyboardqueue := xs, Readyqueue := x # Q Readyqueue)"
    from unblock_first_kwf[OF s1(2) fixed_heads(4) _ _ q] obtain t s2 where s2: "x = TaskList t"
      "unblock_first Keyboardqueue s1 = Some s2" "sframe s1 s2" "kwf s2 ?Q" by auto
    note f2 = sframe_frame[OF s2(3)]
    have "kqs (set_cont (cur s2) In_user s2) ?Q" using kqs_set_cont s2(4) by (simp add: kwf_def)
    from sched_next_kwf[OF this] obtain s3 where s3: "sched_next_rr (set_cont (cur s2) In_user s2) = Some s3"
      "kwf s3 (ready_rest ?Q)" "switched (set_cont (cur s2) In_user s2) (next_task (set_cont (cur s2) In_user s2) ?Q) s3"
      by blast
    note f3 = switched_frame[OF s3(3)]
    have Q': "ready_rest ?Q = Q(Keyboardqueue := tl (Q Keyboardqueue))" using q by (auto simp: ready_rest_def)
    have "next_task (set_cont (cur s2) In_user s2) ?Q = t" using s2(1) by (simp add: next_task_def)
    then have "cur s3 = t" using f3(1) by simp
    moreover have "kcont s3 = (kcont s)(cur s := In_user)" "keyb s3 = keyb s1"
      "\<forall>u. PID (task s3 u) = PID (task s u)" "idle_task s3 = idle_task s" "semaphores s3 = semaphores s"
      using f3(3,5,8,11,15) f2(2,4,5,8,14,17) f by (simp_all add: set_cont_def)
    moreover have "keyboard_routine scan s = Some (Switched, s3)"
      using r True s2(2) s3(1) by (simp add: current_def)
    ultimately show ?thesis using True q s2(1) s3(2) s1(3,4,5,7) unfolding Q' by auto
  qed
qed

end
