(* ===== verification/System.thy ===== *)
theory System
  imports Fork Heap Files Interrupt
begin

text \<open>
  The kernel as a whole: \<open>system_call_handler\<close> of \<open>zeos/entry.S\<close> with the table of
  \<open>zeos/sys_call_table.S\<close>, the return of a process that was switched to (\<open>resume\<close>), and the step
  relation of the machine: user code stores into the frames of user pages until an interrupt or a system call enters the
  kernel, which runs to its end with interrupts off. The queues of the scheduler are in order in every reachable state.

  Not steps: stores of user code into the kernel's own frames, which the pages of a forked child allow (\<open>Isolation\<close>), and
  interrupt 0x82 of the library that the build links. A call that overruns its stack or faults has no step either.
\<close>

section \<open>System calls\<close>

definition MAX_SYSCALL :: nat where [simp]: "MAX_SYSCALL = 36"

definition ret :: "(int \<times> kstate) option \<Rightarrow> (outcome \<times> kstate) option" where
  "ret r = map_option (\<lambda>(v, s). (Returned v, s)) r"

text \<open>
  \<open>call *sys_call_table (, %eax, 4)\<close>, with the saved registers as the arguments on the stack. Entry 36
  is past the end of the table.
\<close>

definition sys_call_table :: "nat \<Rightarrow> DWord \<Rightarrow> DWord \<Rightarrow> DWord \<Rightarrow> kstate \<Rightarrow> (outcome \<times> kstate) option" where
  "sys_call_table n ebx ecx edx s =
     (if n = 1 then sys_exit s
      else if n = 2 then ret (sys_fork s)
      else if n = 3 then sys_read (sint ebx) ecx (sint edx) s
      else if n = 4 then ret (sys_write (sint ebx) ecx (sint edx) s)
      else if n = 10 then Some (Returned (sys_gettime s), s)
      else if n = 12 then ret (sys_sbrk (sint ebx) s)
      else if n = 19 then ret (sys_clone ebx ecx s)
      else if n = 20 then Some (Returned (sys_getpid s), s)
      else if n = 21 then (let (v, s') = sys_sem_init (sint ebx) ecx s in Some (Returned v, s'))
      else if n = 22 then sys_sem_wait (sint ebx) s
      else if n = 23 then ret (sys_sem_signal (sint ebx) s)
      else if n = 24 then ret (sys_sem_destroy (sint ebx) s)
      else if n = 35 then ret (sys_get_stats (sint ebx) ecx s)
      else if n < MAX_SYSCALL then Some (Returned sys_ni_syscall, s)
      else None)"

text \<open>The way out: accounting, then the result goes to the saved \<open>%eax\<close>.\<close>

definition set_eax :: "int \<Rightarrow> kstate \<Rightarrow> kstate" where
  "set_eax v s = s\<lparr>user_eax := (user_eax s)(current s := v)\<rparr>"

definition leave_kernel :: "int \<Rightarrow> kstate \<Rightarrow> kstate option" where
  "leave_kernel v s = map_option (set_eax v) (sys_to_user_stats s)"

definition system_call_handler ::
  "DWord \<Rightarrow> DWord \<Rightarrow> DWord \<Rightarrow> DWord \<Rightarrow> kstate \<Rightarrow> (outcome \<times> kstate) option" where
  "system_call_handler eax ebx ecx edx s =
     (if sint eax < 0 \<or> int MAX_SYSCALL < sint eax then Some (Returned (-ENOSYS), set_eax (-ENOSYS) s)
      else do {
        s1 \<leftarrow> user_to_sys_stats s;
        (r, s2) \<leftarrow> sys_call_table (unat eax) ebx ecx edx s1;
        case r of Switched \<Rightarrow> Some (Switched, s2)
        | Returned v \<Rightarrow> map_option (\<lambda>s3. (Returned v, s3)) (leave_kernel v s2)
      })"

text \<open>A process that was switched to goes on where it left the kernel's code.\<close>

definition resume :: "kstate \<Rightarrow> (outcome \<times> kstate) option" where
  "resume s =
     (case kcont s (current s) of
        In_user \<Rightarrow> Some (Returned 0, s)
      | Idle_start \<Rightarrow> Some (Returned 0, s)
      | Ret_from_fork \<Rightarrow> map_option (\<lambda>s'. (Returned 0, s')) (leave_kernel ret_from_fork s)
      | After_sem_wait n_sem mySemID \<Rightarrow>
          map_option (\<lambda>s'. (Returned 0, s')) (leave_kernel (sem_wait_result n_sem mySemID s) s)
      | After_read buf n bs \<Rightarrow> do {
          (r, s1) \<leftarrow> read_loop buf n bs s;
          case r of Switched \<Rightarrow> Some (Switched, s1)
          | Returned v \<Rightarrow> map_option (\<lambda>s'. (Returned v, s')) (leave_kernel v s1)
        }
      | Exited \<Rightarrow> None)"

section \<open>Steps of the machine\<close>

text \<open>
  The mode says whether user code runs or a process that was just switched to has to finish its stay
  in the kernel. User code may store anything into the frames that are not the kernel's, whatever the page tables and the
  TLB say. The frame pointer at a system call is any index of the process's stack.
\<close>

datatype mode = User | Kernel

definition mode_of :: "outcome \<Rightarrow> mode" where
  "mode_of r = (case r of Returned _ \<Rightarrow> User | Switched \<Rightarrow> Kernel)"

inductive kstep :: "(int \<Rightarrow> screen \<Rightarrow> screen) \<Rightarrow> mode \<times> kstate \<Rightarrow> mode \<times> kstate \<Rightarrow> bool"
  for zeos_show_clock where
  user_code: "cur s \<noteq> idle_task s \<Longrightarrow> \<forall>f. unat f < NUM_PAG_KERNEL \<longrightarrow> p f = pmem (mem s) f \<Longrightarrow>
    kstep zeos_show_clock (User, s) (User, s\<lparr>mem := (mem s)\<lparr>pmem := p\<rparr>\<rparr>)"
| clock: "clock_routine zeos_show_clock s = Some s' \<Longrightarrow>
    kstep zeos_show_clock (User, s) (if cur s' = cur s then User else Kernel, s')"
| keyboard: "keyboard_routine scan s = Some (r, s') \<Longrightarrow>
    kstep zeos_show_clock (User, s) (mode_of r, s')"
| syscall: "cur s \<noteq> idle_task s \<Longrightarrow> 0 < ebp \<Longrightarrow> ebp < KERNEL_STACK_SIZE \<Longrightarrow>
    system_call_handler eax ebx ecx edx (s\<lparr>ebp_index := ebp\<rparr>) = Some (r, s') \<Longrightarrow>
    kstep zeos_show_clock (User, s) (mode_of r, s')"
| resume: "resume s = Some (r, s') \<Longrightarrow> kstep zeos_show_clock (Kernel, s) (mode_of r, s')"

inductive_cases kstepE: "kstep f c c'"
inductive_simps kstep_kernel: "kstep f (Kernel, s) c'"

inductive reachable :: "(int \<Rightarrow> screen \<Rightarrow> screen) \<Rightarrow> mode \<times> kstate \<Rightarrow> mode \<times> kstate \<Rightarrow> bool"
  for zeos_show_clock where
  start: "reachable zeos_show_clock c c"
| next_step: "reachable zeos_show_clock c c1 \<Longrightarrow> kstep zeos_show_clock c1 c2 \<Longrightarrow> reachable zeos_show_clock c c2"

section \<open>The invariant\<close>

text \<open>
  The queues are in order; the circular buffer is a buffer; the idle process has no request pending,
  and a reader has not read more than it asked for.
\<close>

definition read_fits :: "kcont \<Rightarrow> bool" where
  "read_fits c \<longleftrightarrow> (case c of After_read buf n bs \<Rightarrow> int (length bs) \<le> n | _ \<Rightarrow> True)"

lemma read_fits_simps [simp]:
  "read_fits In_user" "read_fits Idle_start" "read_fits Ret_from_fork" "read_fits (After_sem_wait n i)" "read_fits Exited"
  "read_fits (After_read buf k bs) \<longleftrightarrow> int (length bs) \<le> k"
  by (simp_all add: read_fits_def)

definition conts_ok :: "kstate \<Rightarrow> bool" where
  "conts_ok s \<longleftrightarrow> kcont s (idle_task s) \<in> {In_user, Idle_start} \<and> (\<forall>t. read_fits (kcont s t))"

definition kinv :: "kstate \<Rightarrow> bool" where
  "kinv s \<longleftrightarrow> (\<exists>Q. kwf s Q) \<and> cb_ok (keyb s) \<and> \<not> cbfull (keyb s) \<and> conts_ok s"

lemma kinv_cong:
  assumes "kinv s" and "lists s' = lists s" "semaphores s' = semaphores s" "idle_task s' = idle_task s"
    "cur s' = cur s" "\<And>u. exec_status (task s' u) = exec_status (task s u)" "keyb s' = keyb s" "kcont s' = kcont s"
  shows "kinv s'"
proof -
  from assms(1) obtain Q where "kwf s Q" by (auto simp: kinv_def)
  from kwf_cong[OF this assms(2-6)] show ?thesis using assms(1,4,7,8) by (auto simp: kinv_def conts_ok_def)
qed

lemma kinv_stats: "kinv s \<Longrightarrow> stats_only s s' \<Longrightarrow> kinv s'"
  by (rule kinv_cong) (simp_all add: stats_only_frame)

lemma kinv_leave: "kinv s \<Longrightarrow> leave_kernel v s = Some s' \<Longrightarrow> kinv s'"
proof -
  assume k: "kinv s" and l: "leave_kernel v s = Some s'"
  obtain s1 where s1: "sys_to_user_stats s = Some s1" "stats_only s s1" using stats_functions_total(2) by blast
  from l s1(1) have "s' = set_eax v s1" by (simp add: leave_kernel_def)
  then show ?thesis using kinv_cong[OF kinv_stats[OF k s1(2)], of s'] by (simp add: set_eax_def)
qed


text \<open>The calls that touch neither the queues nor the keyboard buffer.\<close>

definition quiet :: "kstate \<Rightarrow> kstate \<Rightarrow> bool" where
  "quiet s s' \<longleftrightarrow> lists s' = lists s \<and> semaphores s' = semaphores s \<and> idle_task s' = idle_task s \<and> cur s' = cur s \<and>
     (\<forall>u. exec_status (task s' u) = exec_status (task s u)) \<and> keyb s' = keyb s \<and> kcont s' = kcont s"

lemma kinv_quiet: "kinv s \<Longrightarrow> quiet s s' \<Longrightarrow> kinv s'"
  unfolding quiet_def by (elim conjE) (rule kinv_cong[of s]; simp)

lemma quiet_refl [intro]: "quiet s s"
  by (simp add: quiet_def)

lemma quiet_mem [intro]: "quiet s (s\<lparr>mem := m\<rparr>)" "quiet s (s\<lparr>scr := d\<rparr>)" "quiet s (s\<lparr>ebp_index := n\<rparr>)"
  by (simp_all add: quiet_def)

lemma quiet_upd_stats [intro]: "quiet s (upd_stats t g s)"
  by (simp add: quiet_def upd_stats_def upd_task_def)

lemma quiet_upd_heap [intro]: "quiet s (upd_heap t sz hp m s)"
  by (simp add: quiet_def upd_heap_def upd_task_def)

lemma quiet_trans: "quiet s s1 \<Longrightarrow> quiet s1 s2 \<Longrightarrow> quiet s s2"
  by (simp add: quiet_def)

lemma quiet_stats: "stats_only s s' \<Longrightarrow> quiet s s'"
  by (simp add: quiet_def stats_only_frame)

lemma quiet_on_mem: "on_mem f s = Some s' \<Longrightarrow> quiet s s'"
  by (auto simp: on_mem_def)

lemma quiet_sbrk_move: "sbrk_move i s = Some (v, s') \<Longrightarrow> quiet s s'"
  by (auto simp: sbrk_move_def Let_def elim!: bind_SomeE split: if_splits)

lemma quiet_sys_sbrk: "sys_sbrk i s = Some (v, s') \<Longrightarrow> quiet s s'"
proof -
  have 1: "quiet s (upd_task t (\<lambda>p. p\<lparr>heap := a, heapPages := 1\<rparr>) (s\<lparr>mem := m\<rparr>))" for t a m
    by (simp add: quiet_def upd_task_def)
  assume "sys_sbrk i s = Some (v, s')"
  then show ?thesis
    by (auto simp: sys_sbrk_def Let_def elim!: bind_SomeE split: if_splits prod.splits
      intro: quiet_sbrk_move quiet_trans[OF 1])
qed

lemma quiet_sys_write: "sys_write fd buf n s = Some (v, s') \<Longrightarrow> quiet s s'"
  by (auto simp: sys_write_def Let_def split: if_splits dest!: write_loop_scr)

lemma quiet_sys_get_stats: "sys_get_stats pid st s = Some (v, s') \<Longrightarrow> quiet s s'"
  by (auto simp: sys_get_stats_def Let_def split: if_splits option.splits elim!: bind_SomeE
    intro: quiet_on_mem quiet_trans[OF quiet_upd_stats])


section \<open>Every step keeps the invariant\<close>

text \<open>A change of continuations that the invariant allows.\<close>

definition cont_fits :: "kstate \<Rightarrow> nat \<Rightarrow> kcont \<Rightarrow> bool" where
  "cont_fits s t c \<longleftrightarrow> c = In_user \<or> t \<noteq> idle_task s \<and> read_fits c"

lemma kinvI:
  assumes "kinv s" and "kwf s' Q'" and "cb_ok (keyb s')" and "\<not> cbfull (keyb s')" and "idle_task s' = idle_task s"
    and "\<And>u. kcont s' u = kcont s u \<or> cont_fits s u (kcont s' u)"
  shows "kinv s'"
proof -
  have c: "conts_ok s" using assms(1) by (simp add: kinv_def)
  have "conts_ok s'"
    unfolding conts_ok_def
  proof (intro conjI allI)
    show "kcont s' (idle_task s') \<in> {In_user, Idle_start}"
      using assms(6)[of "idle_task s"] c assms(5) by (auto simp: conts_ok_def cont_fits_def)
    show "read_fits (kcont s' t)" for t
      using assms(6)[of t] c by (auto simp: conts_ok_def cont_fits_def)
  qed
  then show ?thesis using assms(2-4) by (auto simp: kinv_def)
qed

lemma kinvD:
  assumes "kinv s"
  obtains Q where "kwf s Q" "cb_ok (keyb s)" "\<not> cbfull (keyb s)" "conts_ok s"
  using assms by (auto simp: kinv_def)

lemma kinv_clock: "kinv s \<Longrightarrow> clock_routine f s = Some s' \<Longrightarrow> kinv s'"
proof -
  assume k: "kinv s" and r: "clock_routine f s = Some s'"
  obtain Q where Q: "kwf s Q" "cb_ok (keyb s)" "\<not> cbfull (keyb s)" using k by (rule kinvD)
  from clock_routine_kwf[OF Q(1), of f] r show ?thesis
    using Q by (auto intro!: kinvI[OF k] simp: cont_fits_def)
qed

lemma kinv_keyboard:
  assumes k: "kinv s" and r: "keyboard_routine scan s = Some (v, s')"
  shows "kinv s'"
proof (cases "scan AND 0x80 = 0")
  case True
  with k r show ?thesis by (simp add: keyboard_routine_def)
next
  case False
  obtain Q where Q: "kwf s Q" "cb_ok (keyb s)" "\<not> cbfull (keyb s)" using k by (rule kinvD)
  have m: "NOT (0x80 :: Byte) = 0x7F" by simp
  have i: "unat (0x7F AND scan) < length char_map"
    using r False unfolding keyboard_routine_def Let_def m by (simp add: not_le[symmetric] split: if_splits)
  from keyboard_routine_cases[OF Q i False] r show ?thesis
    using Q by (auto intro!: kinvI[OF k] simp: cont_fits_def split: if_splits)
qed

lemma kinv_exit: "kinv s \<Longrightarrow> cur s \<noteq> idle_task s \<Longrightarrow> sys_exit s = Some (v, s') \<Longrightarrow> kinv s'"
proof -
  assume k: "kinv s" and ni: "cur s \<noteq> idle_task s" and r: "sys_exit s = Some (v, s')"
  obtain Q where Q: "kwf s Q" "cb_ok (keyb s)" "\<not> cbfull (keyb s)" using k by (rule kinvD)
  from sys_exit_kwf[OF Q(1) ni] r show ?thesis
    using Q ni by (auto intro!: kinvI[OF k] simp: cont_fits_def)
qed

lemma kinv_fork: "kinv s \<Longrightarrow> sys_fork s = Some (v, s') \<Longrightarrow> kinv s'"
proof -
  assume k: "kinv s" and r: "sys_fork s = Some (v, s')"
  obtain Q where Q: "kwf s Q" "cb_ok (keyb s)" "\<not> cbfull (keyb s)" "conts_ok s" using k by (rule kinvD)
  from sys_fork_kwf[OF r Q(1)] obtain Q' where f: "kwf s' Q'" "idle_task s' = idle_task s" "keyb s' = keyb s"
    "\<forall>u. kcont s' u = kcont s u \<or> u \<noteq> idle_task s \<and> kcont s' u \<in> {Ret_from_fork, kcont s (cur s)}" by blast
  show ?thesis
  proof (rule kinvI[OF k f(1)])
    show "kcont s' u = kcont s u \<or> cont_fits s u (kcont s' u)" for u
      using f(4)[rule_format, of u] Q(4) by (auto simp: cont_fits_def conts_ok_def)
  qed (use Q f in simp_all)
qed

lemma kinv_clone: "kinv s \<Longrightarrow> sys_clone g st s = Some (v, s') \<Longrightarrow> kinv s'"
proof -
  assume k: "kinv s" and r: "sys_clone g st s = Some (v, s')"
  obtain Q where Q: "kwf s Q" "cb_ok (keyb s)" "\<not> cbfull (keyb s)" using k by (rule kinvD)
  from sys_clone_kwf[OF r Q(1)] show ?thesis
    using Q by (auto intro!: kinvI[OF k] simp: cont_fits_def)
qed

lemma kinv_read_loop:
  assumes k: "kinv s" and r: "read_loop buf n bs s = Some (v, s')" and ni: "cur s \<noteq> idle_task s" and bs: "int (length bs) \<le> n"
  shows "kinv s'"
proof -
  obtain Q where Q: "kwf s Q" "cb_ok (keyb s)" "\<not> cbfull (keyb s)" using k by (rule kinvD)
  from read_loop_kwf[OF r Q(1) ni Q(2,3) bs] show ?thesis
    using ni by (auto intro!: kinvI[OF k] simp: cont_fits_def)
qed

lemma kinv_sys_read:
  assumes k: "kinv s" and r: "sys_read fd buf n s = Some (v, s')" and ni: "cur s \<noteq> idle_task s"
  shows "kinv s'"
proof -
  obtain Q where Q: "kwf s Q" "cb_ok (keyb s)" "\<not> cbfull (keyb s)" using k by (rule kinvD)
  have same: "s' = s \<Longrightarrow> ?thesis" using k by simp
  from sys_read_keyboard_wait[OF Q(1) ni Q(3), of buf n] obtain s1 Q1 where s1:
    "sys_read_keyboard buf n s = Some (Switched, s1)" "kwf s1 Q1" "kcont s1 = (kcont s)(cur s := After_read buf n [])"
    "keyb s1 = (keyb s)\<lparr>leftToRead := n\<rparr>" "idle_task s1 = idle_task s" by blast
  show ?thesis
  proof (cases "s' = s")
    case False
    with r have "sys_read_keyboard buf n s = Some (v, s')" "0 \<le> n"
      by (auto simp: sys_read_def Let_def split: if_splits)
    with s1(1) have "s' = s1" by simp
    have "cb_ok (keyb s1)" "\<not> cbfull (keyb s1)" using Q(2,3) s1(4) by (simp_all add: cb_ok_def cbfull_def)
    then show ?thesis unfolding \<open>s' = s1\<close>
      using s1 ni \<open>0 \<le> n\<close> by (intro kinvI[OF k s1(2)]) (simp_all add: cont_fits_def)
  qed (simp add: k)
qed


lemma kinv_sem:
  assumes k: "kinv s" and ni: "cur s \<noteq> idle_task s"
  shows "sys_sem_init n v s = (r, s') \<Longrightarrow> kinv s'" and "sys_sem_wait n s = Some (w, s') \<Longrightarrow> kinv s'"
    and "sys_sem_signal n s = Some (r, s') \<Longrightarrow> kinv s'" and "sys_sem_destroy n s = Some (r, s') \<Longrightarrow> kinv s'"
proof -
  obtain Q where Q: "kwf s Q" "cb_ok (keyb s)" "\<not> cbfull (keyb s)" using k by (rule kinvD)
  show "kinv s'" if a: "sys_sem_init n v s = (r, s')"
    using sys_sem_init_kwf[OF Q(1) a] a Q(2,3)
    by (auto intro!: kinvI[OF k] simp: sys_sem_init_def upd_sem_def Let_def split: if_splits)
  show "kinv s'" if a: "sys_sem_wait n s = Some (w, s')"
    using sys_sem_wait_kwf[OF Q(1) ni, of n] a Q(2,3) ni by (auto intro!: kinvI[OF k] simp: cont_fits_def)
  show "kinv s'" if a: "sys_sem_signal n s = Some (r, s')"
    using sys_sem_signal_kwf[OF Q(1), of n] a Q(2,3) by (auto intro!: kinvI[OF k])
  show "kinv s'" if a: "sys_sem_destroy n s = Some (r, s')"
    using sys_sem_destroy_kwf[OF Q(1), of n] a Q(2,3) by (auto intro!: kinvI[OF k])
qed

lemma kinv_table:
  assumes k: "kinv s" and ni: "cur s \<noteq> idle_task s" and r: "sys_call_table n ebx ecx edx s = Some (r, s')"
  shows "kinv s'"
proof -
  have q: "quiet s s' \<Longrightarrow> kinv s'" by (rule kinv_quiet[OF k])
  show ?thesis
    using r k unfolding sys_call_table_def ret_def
    by (auto split: if_splits prod.splits intro: kinv_exit[OF k ni] kinv_fork[OF k] kinv_clone[OF k]
      kinv_sys_read[OF k _ ni] kinv_sem[OF k ni] q[OF quiet_sys_write] q[OF quiet_sys_sbrk] q[OF quiet_sys_get_stats])

qed

lemma kinv_syscall:
  assumes k: "kinv s" and ni: "cur s \<noteq> idle_task s" and r: "system_call_handler eax ebx ecx edx s = Some (r, s')"
  shows "kinv s'"
proof (cases "sint eax < 0 \<or> int MAX_SYSCALL < sint eax")
  case True
  with r have "s' = set_eax (-ENOSYS) s" by (simp add: system_call_handler_def)
  then show ?thesis using kinv_cong[OF k, of s'] by (simp add: set_eax_def)
next
  case False
  obtain s1 where s1: "user_to_sys_stats s = Some s1" "stats_only s s1" using stats_functions_total(1) by blast
  have n1: "cur s1 \<noteq> idle_task s1" using ni s1(2) by (simp add: stats_only_frame)
  from r False s1(1) obtain v s2 where s2: "sys_call_table (unat eax) ebx ecx edx s1 = Some (v, s2)"
    "(case v of Switched \<Rightarrow> Some (Switched, s2) | Returned v \<Rightarrow> map_option (\<lambda>s3. (Returned v, s3)) (leave_kernel v s2)) = Some (r, s')"
    unfolding system_call_handler_def by (auto elim!: bind_SomeE)
  have "kinv s2" by (rule kinv_table[OF kinv_stats[OF k s1(2)] n1 s2(1)])
  with s2(2) show ?thesis by (auto split: outcome.splits intro: kinv_leave)
qed

lemma kinv_resume:
  assumes k: "kinv s" and r: "resume s = Some (r, s')"
  shows "kinv s'"
proof (cases "kcont s (cur s)")
  case (After_read buf n bs)
  have c: "conts_ok s" using k by (simp add: kinv_def)
  have ni: "cur s \<noteq> idle_task s" using c After_read by (auto simp: conts_ok_def)
  have bs: "int (length bs) \<le> n" using c After_read unfolding conts_ok_def by (metis read_fits_simps(6))
  from r After_read obtain v s1 where s1: "read_loop buf n bs s = Some (v, s1)"
    "(case v of Switched \<Rightarrow> Some (Switched, s1) | Returned v \<Rightarrow> map_option (\<lambda>s'. (Returned v, s')) (leave_kernel v s1)) = Some (r, s')"
    by (auto simp: resume_def current_def elim!: bind_SomeE)
  have "kinv s1" by (rule kinv_read_loop[OF k s1(1) ni bs])
  with s1(2) show ?thesis by (auto split: outcome.splits intro: kinv_leave)
qed (use r k in \<open>auto simp: resume_def current_def intro: kinv_leave\<close>)

lemma kinv_step: "kstep f c c' \<Longrightarrow> kinv (snd c) \<Longrightarrow> kinv (snd c')"
proof (induction rule: kstep.induct)
  case (syscall s ebp eax ebx ecx edx r s')
  have "kinv (s\<lparr>ebp_index := ebp\<rparr>)" by (rule kinv_quiet[OF _ quiet_mem(3)]) (use syscall in simp)
  from kinv_syscall[OF this _ syscall(4)] syscall(1) show ?case by simp
qed (auto intro: kinv_clock kinv_keyboard kinv_resume kinv_quiet[OF _ quiet_mem(1)])

lemma kinv_reachable: "reachable f c c' \<Longrightarrow> kinv (snd c) \<Longrightarrow> kinv (snd c')"
  by (induction rule: reachable.induct) (auto dest: kinv_step)


section \<open>From boot on\<close>

lemma boot_kinv:
  assumes "fresh_image s" and "cb_ok (keyb s)" and "\<not> cbfull (keyb s)" and "\<forall>t. read_fits (kcont s t)"
  shows "\<exists>s'. init_kernel s = Some s' \<and> kinv (enter_user s')"
proof -
  from init_kernel_ok[OF assms(1)] obtain s' where s': "init_kernel s = Some s'"
    "kwf (enter_user s') ((\<lambda>_. [])(Freequeue := map TaskList [2..<NR_TASKS]))" "idle_task s' = 0"
    "keyb s' = keyb s" "kcont s' = (kcont s)(0 := Idle_start)" by blast
  moreover have "conts_ok (enter_user s')" using s'(3,5) assms(4) by (simp add: conts_ok_def enter_user_def)
  moreover have "keyb (enter_user s') = keyb s'" by (simp add: enter_user_def)
  ultimately show ?thesis using assms(2,3) unfolding kinv_def by auto
qed


text \<open>The invariant, spelled out over the state, and what it excludes.\<close>

lemma kinv_no_fault:
  assumes k: "kinv s" and ni: "cur s \<noteq> idle_task s"
  shows "\<exists>s'. clock_routine f s = Some s'" and "\<exists>r s'. sys_exit s = Some (r, s')"
    and "\<exists>r s'. sys_sem_wait n s = Some (r, s')" and "\<exists>r s'. sys_sem_signal n s = Some (r, s')"
    and "\<exists>r s'. sys_sem_destroy n s = Some (r, s')"
proof -
  obtain Q where Q: "kwf s Q" using k by (rule kinvD)
  show "\<exists>s'. clock_routine f s = Some s'" using clock_routine_kwf[OF Q] by blast
  show "\<exists>r s'. sys_exit s = Some (r, s')" using sys_exit_kwf[OF Q ni] by blast
  show "\<exists>r s'. sys_sem_wait n s = Some (r, s')" using sys_sem_wait_kwf[OF Q ni] by blast
  show "\<exists>r s'. sys_sem_signal n s = Some (r, s')" using sys_sem_signal_kwf[OF Q] by blast
  show "\<exists>r s'. sys_sem_destroy n s = Some (r, s')" using sys_sem_destroy_kwf[OF Q] by blast
qed

lemma zero_kernel_keyb: "cb_ok (keyb zero_kernel)" "\<not> cbfull (keyb zero_kernel)" "\<forall>t. read_fits (kcont zero_kernel t)"
  by (simp_all add: zero_kernel_def cb_ok_def cbfull_def)

lemma booted_kinv: "kinv booted"
  using boot_kinv[OF zero_fresh zero_kernel_keyb] by (auto simp: booted_def)

text \<open>
  C1. The kernel invariant. From the state that the initialisation leaves, every state that stores of user code into the
  frames of user pages, clock and keyboard interrupts and system calls that return or switch reach, in any order, has its
  task queues in order: the pointer lists are cyclic, disjoint and hold tasks, each task on a queue has the status of
  that queue, the running process is on none, nobody waits at an open semaphore, and the circular buffer is a
  buffer. In each of them a clock tick runs to its end, and so do the calls of a process that exits or waits at,
  signals or destroys a semaphore. A process that a key has interrupted may be on no queue at all. Not covered are
  stores of user code into the kernel's frames, which a forked child can make, and interrupt 0x82 of the linked library.
\<close>

theorem kernel_invariant:
  assumes "fresh_image s0" and "cb_ok (keyb s0)" and "\<not> cbfull (keyb s0)" and "\<forall>t. read_fits (kcont s0 t)"
    and "init_kernel s0 = Some s1" and "reachable f (User, enter_user s1) (m, s)"
  shows "(\<exists>Q. qsys (heads s) Q (lists s) \<and> (\<forall>q \<in> heads s. \<forall>x \<in> set (Q q). \<exists>i < NR_TASKS. x = TaskList i) \<and>
      (\<forall>q \<in> heads s. \<forall>i. TaskList i \<in> set (Q q) \<longrightarrow> queue_status q (status s i) \<and> i \<noteq> cur s) \<and>
      (\<forall>n < NR_SEMS. 0 \<le> ownerPID (semaphores s n) \<longrightarrow> 0 < counter (semaphores s n) \<longrightarrow> Q (SemQueue n) = [])) \<and>
    cur s < NR_TASKS \<and> status s (cur s) = ST_RUN \<and> cb_ok (keyb s) \<and> (\<exists>s'. clock_routine f s = Some s') \<and>
    (cur s \<noteq> idle_task s \<longrightarrow> sys_exit s \<noteq> None \<and>
      (\<forall>n. sys_sem_wait n s \<noteq> None \<and> sys_sem_signal n s \<noteq> None \<and> sys_sem_destroy n s \<noteq> None))"
proof -
  have "kinv (enter_user s1)" using boot_kinv[OF assms(1-4)] assms(5) by simp
  with kinv_reachable[OF assms(6)] have k: "kinv s" by simp
  then obtain Q where Q: "kwf s Q" "cb_ok (keyb s)" by (rule kinvD)
  have "\<exists>s'. clock_routine f s = Some s'" using clock_routine_kwf[OF Q(1)] by blast
  moreover have "sys_exit s \<noteq> None \<and> sys_sem_wait n s \<noteq> None \<and> sys_sem_signal n s \<noteq> None \<and> sys_sem_destroy n s \<noteq> None"
    if "cur s \<noteq> idle_task s" for n
    using kinv_no_fault[OF k that] by (metis option.distinct(1))
  moreover have "queue_status q (status s i) \<and> i \<noteq> cur s" if "q \<in> heads s" "TaskList i \<in> set (Q q)" for q i
    using Q(1) that by (auto simp: kwf_def kqs_def status_ok_def off_queues_def)
  ultimately show ?thesis using Q by (auto simp: kwf_def kqs_def ks_def sem_ok_def)
qed

text \<open>Process 1 fills a frame of its own, and the clock ticks.\<close>

lemma kernel_invariant_witness:
  "\<exists>s p s'. s = booted\<lparr>mem := (mem booted)\<lparr>pmem := p\<rparr>\<rparr> \<and> p 300 = (\<lambda>_. 7) \<and> clock_routine (\<lambda>_ d. d) s = Some s' \<and>
     cur s' < NR_TASKS \<and> status s' (cur s') = ST_RUN \<and> sys_exit s \<noteq> None"
proof -
  obtain s1 where s1: "init_kernel zero_kernel = Some s1" "booted = enter_user s1"
    using init_kernel_ok[OF zero_fresh] by (auto simp: booted_def)
  define p where "p = (pmem (mem booted))(300 := \<lambda>_. 7)"
  let ?s = "booted\<lparr>mem := (mem booted)\<lparr>pmem := p\<rparr>\<rparr>"
  have user: "cur booted \<noteq> idle_task booted" using booted_facts(2,3) by simp
  have "kstep (\<lambda>_ d. d) (User, booted) (User, ?s)"
    by (rule kstep.user_code[OF user]) (auto simp: p_def)
  then have r1: "reachable (\<lambda>_ d. d) (User, enter_user s1) (User, ?s)"
    using reachable.next_step[OF reachable.start] s1(2) by simp
  note i1 = kernel_invariant[OF zero_fresh zero_kernel_keyb s1(1) r1]
  then obtain s' where s': "clock_routine (\<lambda>_ d. d) ?s = Some s'" by blast
  note i2 = kernel_invariant[OF zero_fresh zero_kernel_keyb s1(1) reachable.next_step[OF r1 kstep.clock[OF s']]]
  have "sys_exit ?s \<noteq> None" using i1 user by simp
  then show ?thesis using s' i2 by (intro exI[of _ ?s] exI[of _ p] exI[of _ s']) (simp add: p_def)
qed

end
