(* ===== verification/Contracts.thy ===== *)
theory Contracts
  imports System
begin

text \<open>
  What the scheduler promises, on lists instead of pointers: a view of the kernel (the running
  process, the ready list, the free slots, the readers of the keyboard, the semaphores with their
  waiters) and the operations on it that the system calls and the clock implement.
\<close>

section \<open>The view\<close>

record sched_view =
  running :: nat
  ready :: "nat list"
  free :: "nat list"
  readers :: "nat list"
  sems :: "nat \<Rightarrow> (int \<times> int \<times> nat list) option"

definition task_list :: "laddr list \<Rightarrow> nat list" where
  "task_list xs = map (\<lambda>x. the (list_head_to_task_struct x)) xs"

definition view :: "kstate \<Rightarrow> (laddr \<Rightarrow> laddr list) \<Rightarrow> sched_view" where
  "view s Q = \<lparr>running = cur s, ready = task_list (Q Readyqueue), free = task_list (Q Freequeue),
     readers = task_list (Q Keyboardqueue),
     sems = (\<lambda>n. if n < NR_SEMS \<and> 0 \<le> ownerPID (semaphores s n)
        then Some (ownerPID (semaphores s n), counter (semaphores s n), task_list (Q (SemQueue n))) else None)\<rparr>"

lemma task_list_simps [simp]:
  "task_list [] = []" "task_list (xs @ ys) = task_list xs @ task_list ys" "task_list (rev xs) = rev (task_list xs)"
  "task_list (TaskList i # xs) = i # task_list xs" "task_list (tl xs) = tl (task_list xs)"
  "task_list xs = [] \<longleftrightarrow> xs = []"
  by (simp_all add: task_list_def list_head_to_task_struct_def rev_map map_tl)

section \<open>Abstract operations\<close>

text \<open>The first ready process runs; without one, the idle process.\<close>

definition run_next :: "nat \<Rightarrow> sched_view \<Rightarrow> sched_view" where
  "run_next idle a = (case ready a of [] \<Rightarrow> a\<lparr>running := idle\<rparr> | t # ts \<Rightarrow> a\<lparr>running := t, ready := ts\<rparr>)"

definition abs_wait :: "nat \<Rightarrow> int \<Rightarrow> sched_view \<Rightarrow> outcome \<times> sched_view" where
  "abs_wait idle n a =
     (case if 0 \<le> n then sems a (nat n) else None of None \<Rightarrow> (Returned (-EINVAL), a)
      | Some (p, v, ws) \<Rightarrow>
          if v \<le> 0 then (Switched, run_next idle (a\<lparr>sems := (sems a)(nat n \<mapsto> (p, v, ws @ [running a]))\<rparr>))
          else (Returned 0, a\<lparr>sems := (sems a)(nat n \<mapsto> (p, v - 1, ws))\<rparr>))"

definition abs_signal :: "int \<Rightarrow> sched_view \<Rightarrow> int \<times> sched_view" where
  "abs_signal n a =
     (case if 0 \<le> n then sems a (nat n) else None of None \<Rightarrow> (-EINVAL, a)
      | Some (p, v, []) \<Rightarrow> (0, a\<lparr>sems := (sems a)(nat n \<mapsto> (p, wrap32 (v + 1), []))\<rparr>)
      | Some (p, v, t # ts) \<Rightarrow> (0, a\<lparr>sems := (sems a)(nat n \<mapsto> (p, v, ts)), ready := t # ready a\<rparr>))"

text \<open>The waiters become ready in the reverse of the order in which they came.\<close>

definition abs_destroy :: "int \<Rightarrow> int \<Rightarrow> sched_view \<Rightarrow> int \<times> sched_view" where
  "abs_destroy pid n a =
     (case if 0 \<le> n then sems a (nat n) else None of None \<Rightarrow> (-EINVAL, a)
      | Some (p, v, ws) \<Rightarrow>
          if p = pid then (0, a\<lparr>sems := (sems a)(nat n := None), ready := rev ws @ ready a\<rparr>)
          else (-EPERM, a))"

definition abs_init :: "int \<Rightarrow> int \<Rightarrow> int \<Rightarrow> sched_view \<Rightarrow> int \<times> sched_view" where
  "abs_init pid n v a =
     (if n < 0 \<or> 19 < n then (-EINVAL, a)
      else if sems a (nat n) \<noteq> None then (-EBUSY, a)
      else (0, a\<lparr>sems := (sems a)(nat n := (if 0 \<le> pid then Some (pid, v, []) else None))\<rparr>))"

text \<open>A tick: the last one of a quantum sends the running process to the end of the ready list.\<close>

definition abs_tick :: "bool \<Rightarrow> sched_view \<Rightarrow> sched_view" where
  "abs_tick ends a =
     (if ends \<and> ready a \<noteq> []
      then a\<lparr>running := hd (ready a), ready := tl (ready a) @ [running a]\<rparr> else a)"

definition abs_clone :: "sched_view \<Rightarrow> sched_view" where
  "abs_clone a = (case free a of [] \<Rightarrow> a | c # cs \<Rightarrow> a\<lparr>free := cs, ready := ready a @ [c]\<rparr>)"

text \<open>An exiting process destroys its semaphores and frees its slot.\<close>

definition abs_exit :: "nat \<Rightarrow> int \<Rightarrow> sched_view \<Rightarrow> sched_view" where
  "abs_exit idle pid a =
     (let a1 = fold (\<lambda>i b. snd (abs_destroy pid (int i) b)) [0..<20] a
      in run_next idle (a1\<lparr>free := free a1 @ [running a1]\<rparr>))"

section \<open>Views of updated queues\<close>

lemma ready_tasks:
  assumes "kwf s Q"
  shows "Q Readyqueue = map TaskList (task_list (Q Readyqueue))"
proof -
  have "\<forall>x \<in> set (Q Readyqueue). \<exists>i. x = TaskList i" using assms ks_tasks[OF _ fixed_heads(2)] unfolding kwf_def kqs_def by blast
  then have "map (\<lambda>x. TaskList (the (list_head_to_task_struct x))) (Q Readyqueue) = map (\<lambda>x. x) (Q Readyqueue)"
    by (intro map_cong refl) (auto simp: list_head_to_task_struct_def)
  then show ?thesis by (simp add: task_list_def comp_def)
qed

lemma next_task_view:
  assumes "kwf s Q"
  shows "next_task s Q = (case task_list (Q Readyqueue) of [] \<Rightarrow> idle_task s | t # _ \<Rightarrow> t)"
  unfolding next_task_def by (subst ready_tasks[OF assms]) (simp split: list.splits)

lemma view_run_next:
  assumes "kwf s Q" and "q \<noteq> Readyqueue" and "semaphores s' = semaphores s" and "cur s' = next_task s Q"
  shows "view s' (ready_rest (Q(q := xs))) = run_next (idle_task s) (view s (Q(q := xs)))"
  using assms(2-4) next_task_view[OF assms(1)]
  by (cases "task_list (Q Readyqueue)") (auto simp: view_def run_next_def ready_rest_def)

lemma valid_sem_view:
  "valid_sem n s \<longleftrightarrow> 0 \<le> n \<and> sems (view s Q) (nat n) \<noteq> None"
  by (auto simp: valid_sem_def view_def nat_less_iff)

lemma view_sem:
  "valid_sem n s \<Longrightarrow> sems (view s Q) (nat n) =
     Some (ownerPID (semaphores s (nat n)), counter (semaphores s (nat n)), task_list (Q (SemQueue (nat n))))"
  by (auto simp: valid_sem_def view_def nat_less_iff)

section \<open>The system calls implement the abstract operations\<close>


lemma view_cong: "cur t = cur s \<Longrightarrow> semaphores t = semaphores s \<Longrightarrow> view t Q = view s Q"
  by (simp add: view_def cong: if_cong)

lemma view_exit_sems:
  "distinct is \<Longrightarrow> set is \<subseteq> {..<20} \<Longrightarrow>
   view (s\<lparr>semaphores := exit_semaphores s (set is)\<rparr>) (exit_queues s is Q) =
     fold (\<lambda>i b. snd (abs_destroy (PID (task s (cur s))) (int i) b)) is (view s Q)"
proof (induction "is" rule: rev_induct)
  case Nil
  have "exit_semaphores s {} = semaphores s" by (simp add: exit_semaphores_def)
  then show ?case by simp
next
  case (snoc i "is")
  define t where "t = s\<lparr>semaphores := exit_semaphores s (set is)\<rparr>"
  have i: "i < 20" "i \<notin> set is" using snoc.prems by auto
  have sem: "sems (view t (exit_queues s is Q)) i = (if 0 \<le> ownerPID (semaphores s i) then
      Some (ownerPID (semaphores s i), counter (semaphores s i), task_list (exit_queues s is Q (SemQueue i))) else None)"
    using i by (simp add: view_def t_def exit_semaphores_def)
  have step: "view (s\<lparr>semaphores := exit_semaphores s (set (is @ [i]))\<rparr>) (exit_queues s (is @ [i]) Q) =
      snd (abs_destroy (PID (task s (cur s))) (int i) (view t (exit_queues s is Q)))"
  proof (cases "owns_sem s i")
    case True
    then have "exit_semaphores s (set (is @ [i])) = (exit_semaphores s (set is))(i := (semaphores s i)\<lparr>ownerPID := -1, semID := -1\<rparr>)"
      by (auto simp: exit_semaphores_def fun_eq_iff)
    with True i show ?thesis
      by (simp add: abs_destroy_def sem owns_sem_def) (auto simp: view_def t_def owns_sem_def fun_eq_iff)
  next
    case False
    then have "exit_semaphores s (set (is @ [i])) = exit_semaphores s (set is)"
      by (auto simp: exit_semaphores_def fun_eq_iff)
    moreover have "0 \<le> ownerPID (semaphores s i) \<Longrightarrow> ownerPID (semaphores s i) \<noteq> PID (task s (cur s))"
      using False by (auto simp: owns_sem_def)
    then have "snd (abs_destroy (PID (task s (cur s))) (int i) (view t (exit_queues s is Q))) = view t (exit_queues s is Q)"
      by (auto simp: abs_destroy_def sem)
    ultimately show ?thesis using False by (simp add: t_def)
  qed
  show ?case using snoc step by (simp add: t_def)
qed


lemma sem_init_refines:
  assumes kw: "kwf s Q" and r: "sys_sem_init n v s = (r, s')"
  shows "\<exists>Q'. kwf s' Q' \<and> (r, view s' Q') = abs_init (PID (task s (cur s))) n (sint v) (view s Q)"
proof (cases "n < 0 \<or> 19 < n \<or> 0 \<le> ownerPID (semaphores s (nat n))")
  case True
  then have "nat n < NR_SEMS \<or> n < 0 \<or> 19 < n" by auto
  then have "s' = s \<and> abs_init p n w (view s Q) = (r, view s Q)" for p w
    using r True by (auto simp: sys_sem_init_def abs_init_def view_def split: if_splits)
  then show ?thesis using kw by metis
next
  case False
  then have n: "0 \<le> n" "nat n < NR_SEMS" "ownerPID (semaphores s (nat n)) < 0" by auto
  have r0: "r = 0" and sem: "semaphores s' = (semaphores s)(nat n := (semaphores s (nat n))\<lparr>ownerPID := PID (task s (cur s)),
      counter := sint v, semID := wrap32 (global_semID s + 1)\<rparr>)" and c: "cur s' = cur s"
    using r False by (auto simp: sys_sem_init_def Let_def current_def upd_sem_def)
  have "kwf s' (Q(SemQueue (nat n) := []))" using sys_sem_init_kwf[OF kw r] r0 by simp
  moreover have "(0, view s' (Q(SemQueue (nat n) := []))) = abs_init (PID (task s (cur s))) n (sint v) (view s Q)"
    using n False sem c by (auto simp: abs_init_def view_def fun_eq_iff)
  ultimately show ?thesis using r0 by blast
qed

lemma clone_view:
  assumes "Q Freequeue = TaskList c # xs" and "semaphores s' = semaphores s" and "cur s' = cur s"
  shows "view s' (Q(Freequeue := xs, Readyqueue := Q Readyqueue @ [TaskList c])) = abs_clone (view s Q)"
  using assms by (simp add: abs_clone_def view_def cong: if_cong)

section \<open>Sample states\<close>

text \<open>After boot: process 1 runs; then with a second thread; then with a closed semaphore.\<close>

lemma view_booted: "view booted booted_queues = \<lparr>running = 1, ready = [], free = [2..<10], readers = [], sems = \<lambda>_. None\<rparr>"
  using booted_facts by (auto simp: view_def booted_queues_def task_list_def list_head_to_task_struct_def comp_def)

definition threads :: kstate where
  "threads = snd (the (sys_clone 0x100000 0x11C000 booted))"

definition threads_queues :: "laddr \<Rightarrow> laddr list" where
  "threads_queues = booted_queues(Freequeue := map TaskList [3..<10], Readyqueue := [TaskList 2])"

lemma threads_facts:
  "sys_clone 0x100000 0x11C000 booted = Some (2, threads)" "kwf threads threads_queues" "cur threads = 1" "idle_task threads = 0"
  "PID (task threads 1) = 1" "PID (task threads 2) = 2" "quantum (task threads 2) = 10" "quantum (task threads 1) = 10"
  "ticks_left threads = 10" "keyb threads = keyb booted"
  "view threads threads_queues = \<lparr>running = 1, ready = [2], free = [3..<10], readers = [], sems = \<lambda>_. None\<rparr>"
proof -
  have up: "[2..<10] = (2 :: nat) # [3..<10]" by (simp add: upt_rec)
  have q: "booted_queues Freequeue = TaskList 2 # map TaskList [3..<10]" by (simp add: booted_queues_def up)
  have a: "access_ok VERIFY_WRITE 0x11C000 4" "access_ok VERIFY_READ 0x100000 4" by (simp_all add: access_ok_def Let_def)
  from sys_clone_thread[OF booted_facts(1) a q] obtain s' where s': "sys_clone 0x100000 0x11C000 booted = Some (2, s')"
    "kwf s' (booted_queues(Freequeue := map TaskList [3..<10], Readyqueue := booted_queues Readyqueue @ [TaskList 2]))"
    "cur s' = 1" "PID (task s' 2) = 2" "quantum (task s' 2) = 10" "idle_task s' = 0" "keyb s' = keyb booted" "semaphores s' = semaphores booted"
    "\<forall>u. u \<noteq> 2 \<longrightarrow> task s' u = task booted u"
    using booted_facts by auto
  have "threads = s'" by (simp add: threads_def s'(1))
  then show "sys_clone 0x100000 0x11C000 booted = Some (2, threads)" "kwf threads threads_queues" "cur threads = 1" "idle_task threads = 0"
    "PID (task threads 1) = 1" "PID (task threads 2) = 2" "quantum (task threads 2) = 10" "quantum (task threads 1) = 10"
    "ticks_left threads = 10" "keyb threads = keyb booted"
    using s' booted_facts(4,6,7) booted_facts(2)
    by (simp_all add: threads_queues_def booted_queues_def ticks_left_def del: upt_rec_numeral)
  have "view threads threads_queues = abs_clone (view booted booted_queues)"
    using clone_view[of booted_queues 2 "map TaskList [3..<10]", OF q, of s' booted] s'(3,8) booted_facts(2) \<open>threads = s'\<close>
    by (simp add: threads_queues_def booted_queues_def)
  then show "view threads threads_queues = \<lparr>running = 1, ready = [2], free = [3..<10], readers = [], sems = \<lambda>_. None\<rparr>"
    unfolding view_booted by (simp add: abs_clone_def up)
qed


lemma booted_child:
  defines "s \<equiv> (upd_task 1 (\<lambda>p. p\<lparr>heapPages := 0\<rparr>) booted)\<lparr>ebp_index := 100\<rparr>"
  shows "kwf s booted_queues" "cur s = 1" "global_PID s = 2" "dirCounter (mem s) = (\<lambda>_. 0)(0 := 1, 1 := 1)"
    "get_PT_of 2 (mem s) \<noteq> get_PT (cur s) s" "parent_mapped s" "fork_pages s = 20"
    "fork_pages s \<le> card (frame_pool_set - used_frames (mem s))" "ebp_index s = 100" "semaphores s = semaphores booted"
proof -
  have f: "mem s = mem booted" "cur s = 1" "get_PT (cur s) s = 41" "heapPages (task s (cur s)) = 0" "get_DIR (cur s) s = 1"
    using booted_facts(2) booted_facts(9) booted_memory(3)[of 1]
    by (simp_all add: s_def upd_task_def get_PT_def get_DIR_def)
  show n: "fork_pages s = 20" using f(4) by (simp add: fork_pages_def)
  show "kwf s booted_queues" by (rule kwf_cong[OF booted_facts(1)]) (simp_all add: s_def upd_task_def)
  show "cur s = 1" by (rule f(2))
  show "global_PID s = 2" using booted_facts(8) by (simp add: s_def upd_task_def)
  show "dirCounter (mem s) = (\<lambda>_. 0)(0 := 1, 1 := 1)" using f(1) booted_memory(2) by simp
  show "get_PT_of 2 (mem s) \<noteq> get_PT (cur s) s" unfolding f(3) unfolding f(1) booted_memory(3)[of 2, simplified] by simp
  show "parent_mapped s" unfolding parent_mapped_def f(3,4,5) n unfolding f(1) booted_memory(1)
    using booted_memory(5,6) by (simp del: atLeastLessThan_iff)
  show "fork_pages s \<le> card (frame_pool_set - used_frames (mem s))" unfolding n f(1) booted_memory(4) by simp
  show "ebp_index s = 100" "semaphores s = semaphores booted" by (simp_all add: s_def upd_task_def)
qed

text \<open>Process 1 waits at semaphore 0 that it has made with value 0, and process 2 runs.\<close>

definition with_sem :: "DWord \<Rightarrow> kstate" where
  "with_sem v = snd (sys_sem_init 0 v threads)"

lemma with_sem_facts:
  "\<exists>Q. kwf (with_sem v) Q \<and> view (with_sem v) Q =
     \<lparr>running = 1, ready = [2], free = [3..<10], readers = [], sems = (\<lambda>_. None)(0 \<mapsto> (1, sint v, []))\<rparr>"
  "cur (with_sem v) = 1" "idle_task (with_sem v) = 0" "PID (task (with_sem v) 1) = 1"
proof -
  obtain r s' where r: "sys_sem_init 0 v threads = (r, s')" by (cases "sys_sem_init 0 v threads") auto
  from sem_init_refines[OF threads_facts(2) r] obtain Q where Q: "kwf s' Q"
    "(r, view s' Q) = abs_init 1 0 (sint v) \<lparr>running = 1, ready = [2], free = [3..<10], readers = [], sems = \<lambda>_. None\<rparr>"
    unfolding threads_facts(3,5,11) by blast
  have "with_sem v = s'" by (simp add: with_sem_def r)
  then show "\<exists>Q. kwf (with_sem v) Q \<and> view (with_sem v) Q =
     \<lparr>running = 1, ready = [2], free = [3..<10], readers = [], sems = (\<lambda>_. None)(0 \<mapsto> (1, sint v, []))\<rparr>"
    using Q by (auto simp: abs_init_def)
  show "cur (with_sem v) = 1" "idle_task (with_sem v) = 0" "PID (task (with_sem v) 1) = 1"
    using threads_facts(3-5) by (simp_all add: with_sem_def sys_sem_init_def upd_sem_def Let_def)
qed

section \<open>The calls implement the abstract operations\<close>

text \<open>
  C5. Waiting at a semaphore: on the view, a bad or free semaphore is \<open>-EINVAL\<close>, an open one is
  decremented, and at a closed one the caller goes to the end of the waiters and the first ready
  process (or the idle process) runs.
\<close>

theorem sem_wait_refines:
  assumes kw: "kwf s Q" and ni: "cur s \<noteq> idle_task s"
  shows "\<exists>r s' Q'. sys_sem_wait n s = Some (r, s') \<and> kwf s' Q' \<and> (r, view s' Q') = abs_wait (idle_task s) n (view s Q)"
proof (cases "valid_sem n s")
  case False
  then have "sys_sem_wait n s = Some (Returned (-EINVAL), s)" by (simp add: sys_sem_wait_def)
  moreover have "abs_wait (idle_task s) n (view s Q) = (Returned (-EINVAL), view s Q)"
    using False valid_sem_view[of n s Q] by (auto simp: abs_wait_def split: option.splits)
  ultimately show ?thesis using kw by metis
next
  case True
  have n: "0 \<le> n" "nat n < NR_SEMS" "0 \<le> ownerPID (semaphores s (nat n))"
    using True by (auto simp: valid_sem_def nat_less_iff)
  show ?thesis
  proof (cases "0 < counter (semaphores s (nat n))")
    case open': True
    from sys_sem_wait_open[OF kw True open'] n open' show ?thesis
      by (auto simp: abs_wait_def view_sem[OF True]) (auto simp: view_def upd_sem_def fun_eq_iff)
  next
    case False
    then have c: "counter (semaphores s (nat n)) \<le> 0" by simp
    from sys_sem_wait_closed[OF kw True c ni] obtain s' where s': "sys_sem_wait n s = Some (Switched, s')"
      "kwf s' (ready_rest (Q(SemQueue (nat n) := Q (SemQueue (nat n)) @ [TaskList (cur s)])))"
      "same_kernel s s'" "cur s' = next_task s Q" by blast
    have "view s (Q(SemQueue (nat n) := Q (SemQueue (nat n)) @ [TaskList (cur s)])) =
        (view s Q)\<lparr>sems := (sems (view s Q))(nat n \<mapsto> (ownerPID (semaphores s (nat n)), counter (semaphores s (nat n)),
          task_list (Q (SemQueue (nat n))) @ [running (view s Q)]))\<rparr>"
      using n by (auto simp: view_def fun_eq_iff)
    then show ?thesis using s' n(1) c view_run_next[OF kw, of "SemQueue (nat n)" s']
      by (auto simp: abs_wait_def view_sem[OF True] same_kernel_def)
  qed
qed

lemma sem_wait_refines_witness:
  "\<exists>s' Q'. sys_sem_wait 0 (with_sem 0) = Some (Switched, s') \<and>
     view s' Q' = \<lparr>running = 2, ready = [], free = [3..<10], readers = [], sems = (\<lambda>_. None)(0 \<mapsto> (1, 0, [1]))\<rparr>"
proof -
  obtain Q where Q: "kwf (with_sem 0) Q" "view (with_sem 0) Q =
     \<lparr>running = 1, ready = [2], free = [3..<10], readers = [], sems = (\<lambda>_. None)(0 \<mapsto> (1, sint (0 :: DWord), []))\<rparr>"
    using with_sem_facts(1) by blast
  have "cur (with_sem 0) \<noteq> idle_task (with_sem 0)" by (simp add: with_sem_facts)
  from sem_wait_refines[OF Q(1) this, of 0] show ?thesis
    unfolding Q(2) by (auto simp: abs_wait_def run_next_def)
qed

text \<open>
  C6. Signalling a semaphore: without waiters the value goes up by one (as a 32-bit integer); with
  waiters the first of them goes to the front of the ready list.
\<close>

theorem sem_signal_refines:
  assumes kw: "kwf s Q"
  shows "\<exists>r s' Q'. sys_sem_signal n s = Some (r, s') \<and> kwf s' Q' \<and> (r, view s' Q') = abs_signal n (view s Q)"
proof (cases "valid_sem n s")
  case False
  then have "sys_sem_signal n s = Some (-EINVAL, s)" by (simp add: sys_sem_signal_def)
  moreover have "abs_signal n (view s Q) = (-EINVAL, view s Q)"
    using False valid_sem_view[of n s Q] by (auto simp: abs_signal_def split: option.splits)
  ultimately show ?thesis using kw by metis
next
  case True
  have n: "0 \<le> n" "nat n < NR_SEMS" "0 \<le> ownerPID (semaphores s (nat n))"
    using True by (auto simp: valid_sem_def nat_less_iff)
  show ?thesis
  proof (cases "Q (SemQueue (nat n))")
    case Nil
    from sys_sem_signal_none[OF kw True Nil] n Nil show ?thesis
      by (auto simp: abs_signal_def view_sem[OF True]) (auto simp: view_def upd_sem_def fun_eq_iff)
  next
    case (Cons x xs)
    from sys_sem_signal_waiter[OF kw True Cons] obtain t s' where s': "x = TaskList t" "sys_sem_signal n s = Some (0, s')"
      "sframe s s'" "kwf s' (Q(SemQueue (nat n) := xs, Readyqueue := x # Q Readyqueue))" by blast
    have "view s' (Q(SemQueue (nat n) := xs, Readyqueue := x # Q Readyqueue)) = snd (abs_signal n (view s Q))"
      using n s'(1) Cons sframe_frame(4,8)[OF s'(3)]
      by (simp add: abs_signal_def view_sem[OF True]) (auto simp: view_def fun_eq_iff)
    moreover have "fst (abs_signal n (view s Q)) = 0" using n s'(1) Cons by (simp add: abs_signal_def view_sem[OF True])
    ultimately show ?thesis using s'(2,4) by (metis prod.collapse)
  qed
qed

lemma sem_signal_refines_witness:
  "\<exists>s' Q'. sys_sem_signal 0 (with_sem 5) = Some (0, s') \<and>
     view s' Q' = \<lparr>running = 1, ready = [2], free = [3..<10], readers = [], sems = (\<lambda>_. None)(0 \<mapsto> (1, 6, []))\<rparr>"
proof -
  obtain Q where Q: "kwf (with_sem 5) Q" "view (with_sem 5) Q =
     \<lparr>running = 1, ready = [2], free = [3..<10], readers = [], sems = (\<lambda>_. None)(0 \<mapsto> (1, sint (5 :: DWord), []))\<rparr>"
    using with_sem_facts(1) by blast
  have "wrap32 6 = 6" by (simp add: wrap32_id)
  with sem_signal_refines[OF Q(1), of 0] show ?thesis unfolding Q(2) by (auto simp: abs_signal_def)
qed

text \<open>
  C15. Destroying a semaphore: only its owner may; all waiters become ready, before those that were
  ready and in the reverse of the order in which they came.
\<close>

theorem sem_destroy_refines:
  assumes kw: "kwf s Q"
  shows "\<exists>r s' Q'. sys_sem_destroy n s = Some (r, s') \<and> kwf s' Q' \<and>
    (r, view s' Q') = abs_destroy (PID (task s (cur s))) n (view s Q)"
proof (cases "valid_sem n s")
  case False
  then have "sys_sem_destroy n s = Some (-EINVAL, s)" by (simp add: sys_sem_destroy_def)
  moreover have "abs_destroy p n (view s Q) = (-EINVAL, view s Q)" for p
    using False valid_sem_view[of n s Q] by (auto simp: abs_destroy_def split: option.splits)
  ultimately show ?thesis using kw by metis
next
  case True
  have n: "0 \<le> n" "nat n < NR_SEMS" "0 \<le> ownerPID (semaphores s (nat n))"
    using True by (auto simp: valid_sem_def nat_less_iff)
  show ?thesis
  proof (cases "ownerPID (semaphores s (nat n)) = PID (task s (cur s))")
    case False
    then have "sys_sem_destroy n s = Some (-EPERM, s)" using True by (simp add: sys_sem_destroy_def current_def)
    moreover have "abs_destroy (PID (task s (cur s))) n (view s Q) = (-EPERM, view s Q)"
      using n False by (simp add: abs_destroy_def view_sem[OF True])
    ultimately show ?thesis using kw by metis
  next
    case own: True
    let ?u = "upd_sem n (\<lambda>e. e\<lparr>ownerPID := -1, semID := -1\<rparr>)"
    let ?Q = "Q(SemQueue (nat n) := [], Readyqueue := rev (Q (SemQueue (nat n))) @ Q Readyqueue)"
    from sys_sem_destroy_owner[OF kw True own] obtain s1 where s1: "sframe s s1"
      "sys_sem_destroy n s = Some (0, ?u s1)" "kwf (?u s1) ?Q" by blast
    have "view (?u s1) ?Q = snd (abs_destroy (PID (task s (cur s))) n (view s Q))"
      using n own sframe_frame(4,8)[OF s1(1)]
      by (simp add: abs_destroy_def view_sem[OF True]) (auto simp: view_def upd_sem_def fun_eq_iff)
    moreover have "fst (abs_destroy (PID (task s (cur s))) n (view s Q)) = 0"
      using n own by (simp add: abs_destroy_def view_sem[OF True])
    ultimately show ?thesis using s1(2,3) by (metis prod.collapse)
  qed
qed

lemma sem_destroy_refines_witness:
  "\<exists>s' Q'. sys_sem_destroy 0 (with_sem 5) = Some (0, s') \<and>
     view s' Q' = \<lparr>running = 1, ready = [2], free = [3..<10], readers = [], sems = \<lambda>_. None\<rparr>"
proof -
  obtain Q where Q: "kwf (with_sem 5) Q" "view (with_sem 5) Q =
     \<lparr>running = 1, ready = [2], free = [3..<10], readers = [], sems = (\<lambda>_. None)(0 \<mapsto> (1, sint (5 :: DWord), []))\<rparr>"
    using with_sem_facts(1) by blast
  from sem_destroy_refines[OF Q(1), of 0] show ?thesis
    unfolding Q(2) with_sem_facts by (auto simp: abs_destroy_def)
qed

text \<open>
  C7. Exit: every semaphore of the process is destroyed, its slot goes to the end of the free list, its
  directory loses one user, and the first ready process runs.
\<close>

theorem exit_refines:
  assumes kw: "kwf s Q" and ni: "cur s \<noteq> idle_task s"
  shows "\<exists>s' Q'. sys_exit s = Some (Switched, s') \<and> kwf s' Q' \<and>
    view s' Q' = abs_exit (idle_task s) (PID (task s (cur s))) (view s Q) \<and>
    PID (task s' (cur s)) = -1 \<and> kcont s' (cur s) = Exited \<and>
    dirCounter (mem s') = (dirCounter (mem s))(get_DIR (cur s) s := dirCounter (mem s) (get_DIR (cur s) s) - 1)"
proof -
  let ?Q1 = "exit_queues s [0..<20] Q"
  let ?t = "s\<lparr>semaphores := exit_semaphores s {0..<20}\<rparr>"
  from sys_exit_kwf[OF kw ni] obtain s' where s': "sys_exit s = Some (Switched, s')"
    "kwf s' (ready_rest (?Q1(Freequeue := Q Freequeue @ [TaskList (cur s)])))"
    "cur s' = next_task s ?Q1" "semaphores s' = exit_semaphores s {0..<20}" "PID (task s' (cur s)) = -1"
    "kcont s' = (kcont s)(cur s := Exited)"
    "dirCounter (mem s') = (dirCounter (mem s))(get_DIR (cur s) s := dirCounter (mem s) (get_DIR (cur s) s) - 1)" by blast
  have f: "fold (\<lambda>i b. snd (abs_destroy (PID (task s (cur s))) (int i) b)) [0..<20] (view s Q) = view ?t ?Q1"
    using view_exit_sems[of "[0..<20]" s Q] by (simp add: atLeast_upt)
  from exit_sems[OF kw] obtain s1 where s1: "exit_frame s s1" "kwf s1 ?Q1" "semaphores s1 = exit_semaphores s {0..<20}" by blast
  have n: "next_task s1 ?Q1 = next_task s ?Q1" "idle_task s1 = idle_task s" "view s1 ?Q1 = view ?t ?Q1"
    using s1(1,3) next_task_cong[of s1 s] by (auto simp: exit_frame_def intro: view_cong)
  have "view s1 (?Q1(Freequeue := Q Freequeue @ [TaskList (cur s)])) =
      (view ?t ?Q1)\<lparr>free := free (view ?t ?Q1) @ [running (view ?t ?Q1)]\<rparr>"
    using n(3) s1(1,3) by (auto simp: view_def exit_frame_def fun_eq_iff)
  with view_run_next[OF s1(2), of Freequeue s' "Q Freequeue @ [TaskList (cur s)]"] n(1,2) s'(3,4) s1(3)
  have "view s' (ready_rest (?Q1(Freequeue := Q Freequeue @ [TaskList (cur s)]))) =
      abs_exit (idle_task s) (PID (task s (cur s))) (view s Q)"
    unfolding abs_exit_def f Let_def by simp
  then show ?thesis using s' by auto
qed

lemma exit_refines_witness:
  "\<exists>s' Q'. sys_exit threads = Some (Switched, s') \<and>
     view s' Q' = \<lparr>running = 2, ready = [], free = [3..<10] @ [1], readers = [], sems = \<lambda>_. None\<rparr>"
proof -
  have ni: "cur threads \<noteq> idle_task threads" using threads_facts(3,4) by simp
  have "fold (\<lambda>i b. snd (abs_destroy p (int i) b)) xs \<lparr>running = 1, ready = [2], free = [3..<10], readers = [], sems = \<lambda>_. None\<rparr> =
      \<lparr>running = 1, ready = [2], free = [3..<10], readers = [], sems = \<lambda>_. None\<rparr>" for p xs
    by (induction xs) (simp_all add: abs_destroy_def)
  then have "abs_exit 0 1 \<lparr>running = 1, ready = [2], free = [3..<10], readers = [], sems = \<lambda>_. None\<rparr> =
      \<lparr>running = 2, ready = [], free = [3..<10] @ [1], readers = [], sems = \<lambda>_. None\<rparr>"
    by (simp add: abs_exit_def run_next_def)
  with exit_refines[OF threads_facts(2) ni] show ?thesis
    unfolding threads_facts(3,4,5,11) by metis
qed

text \<open>
  C8. The clock interrupt: time goes on by one; the running process loses one tick of its quantum, and
  with the last one it goes to the end of the ready list and the first ready process runs for its
  quantum.
\<close>

theorem tick_refines:
  assumes kw: "kwf s Q"
  shows "\<exists>s' Q'. clock_routine f s = Some s' \<and> kwf s' Q' \<and> view s' Q' = abs_tick (ticks_left s = 1) (view s Q) \<and>
    ticks_left s' = (if ticks_left s = 1 then of_int (quantum (task s (cur s'))) else ticks_left s - 1) \<and>
    zeos_ticks s' = wrap32 (zeos_ticks s + 1)"
proof -
  let ?s = "s\<lparr>scr := f (zeos_ticks s) (scr s), zeos_ticks := wrap32 (zeos_ticks s + 1)\<rparr>"
  have k: "kwf ?s Q" by (rule kwf_cong[OF kw]) simp_all
  have t: "ticks_left ?s = ticks_left s" "ring ?s Q = ring s Q" by (simp_all add: ticks_left_def ring_def)
  from schedule_step[OF k] obtain s' Q' where s': "schedule ?s = Some s'" "tick_result ?s Q s' Q'" by blast
  have r: "kwf s' Q'" "semaphores s' = semaphores s" "\<And>q. q \<noteq> Readyqueue \<Longrightarrow> Q' q = Q q" "zeos_ticks s' = wrap32 (zeos_ticks s + 1)"
    "ring s' Q' = (if ticks_left s = 1 then rotate1 (ring s Q) else ring s Q)"
    "ticks_left s' = (if ticks_left s = 1 then of_int (quantum (task s (cur s'))) else ticks_left s - 1)"
    using s'(2) t by (auto simp: tick_result_def split: if_splits)
  have "view s' Q' = abs_tick (ticks_left s = 1) (view s Q)"
  proof (cases "ticks_left s = 1 \<and> Q Readyqueue \<noteq> []")
    case True
    then obtain t ts where q: "Q Readyqueue = TaskList t # ts"
      using ready_tasks[OF kw] by (cases "task_list (Q Readyqueue)") auto
    then have "cur s' = t" "Q' Readyqueue = ts @ [TaskList (cur s)]" using True r(5) by (simp_all add: ring_def)
    with True q r(2,3) show ?thesis by (simp add: view_def abs_tick_def cong: if_cong)
  next
    case False
    then have "cur s' = cur s" "Q' Readyqueue = Q Readyqueue" using r(5) by (auto simp: ring_def split: if_splits)
    moreover have "Q' q = Q q" for q using r(3) \<open>Q' Readyqueue = Q Readyqueue\<close> by (cases "q = Readyqueue") auto
    then have "Q' = Q" by blast
    ultimately show ?thesis using False r(2) by (auto simp: abs_tick_def view_def cong: if_cong)
  qed
  then show ?thesis using s'(1) r(1,4,6) by (auto simp: clock_routine_def Let_def)
qed

lemma tick_refines_witness:
  "\<exists>s' Q'. clock_routine (\<lambda>_ d. d) threads = Some s' \<and> view s' Q' = view threads threads_queues \<and> ticks_left s' = 9"
  using tick_refines[OF threads_facts(2), of "\<lambda>_ d. d"] unfolding threads_facts(9) by (auto simp: abs_tick_def)

text \<open>
  C3. Round robin. When every runnable process has the quantum \<open>n\<close> and the running one starts its own,
  \<open>k * n\<close> calls of \<open>schedule\<close> turn the ring of runnable processes \<open>k\<close> places: nobody is skipped
  and nobody runs longer than \<open>n\<close> ticks.
\<close>

theorem round_robin_turns:
  assumes "kwf s Q" and "ticks_left s = of_nat n" and "0 < n" and "n < 2 ^ 32"
    and "\<forall>u \<in> insert (cur s) (set (ready (view s Q))). quantum (task s u) = int n"
  shows "\<exists>s' Q'. clock_ticks (k * n) s = Some s' \<and> kwf s' Q' \<and> ticks_left s' = of_nat n \<and>
    running (view s' Q') # ready (view s' Q') = rotate k (running (view s Q) # ready (view s Q))"
proof -
  have rg: "task_list (ring t P) = running (view t P) # ready (view t P)" for t P by (simp add: ring_def view_def)
  have "\<forall>u. TaskList u \<in> set (ring s Q) \<longrightarrow> quantum (task s u) = int n"
  proof (intro allI impI)
    fix u assume "TaskList u \<in> set (ring s Q)"
    then have "u \<in> set (task_list (ring s Q))" by (force simp: task_list_def list_head_to_task_struct_def)
    then show "quantum (task s u) = int n" using assms(5) unfolding rg by (auto simp: view_def)
  qed
  from round_robin_run[OF assms(1-4) this, of k] obtain s' Q' where s': "clock_ticks (k * n) s = Some s'" "kwf s' Q'"
    "ring s' Q' = rotate k (ring s Q)" "ticks_left s' = of_nat n" by blast
  have "task_list (ring s' Q') = rotate k (task_list (ring s Q))" by (simp add: s'(3) task_list_def rotate_map)
  with s' show ?thesis unfolding rg by blast
qed

lemma round_robin_turns_witness:
  "\<exists>s' Q'. clock_ticks (3 * 10) threads = Some s' \<and> running (view s' Q') # ready (view s' Q') = [2, 1]"
proof -
  have "\<forall>u \<in> insert (cur threads) (set (ready (view threads threads_queues))). quantum (task threads u) = int 10"
    using threads_facts(3,7,8,11) by simp
  from round_robin_turns[OF threads_facts(2) _ _ _ this, of 3] obtain s' Q' where "clock_ticks (3 * 10) threads = Some s'"
    "running (view s' Q') # ready (view s' Q') = rotate 3 [1, 2]"
    unfolding threads_facts(9,11) by auto
  moreover have "rotate 3 [1, 2 :: nat] = [2, 1]" by (simp add: rotate_def eval_nat_numeral)
  ultimately show ?thesis by auto
qed

text \<open>
  C2. Fork. With a free slot, a free directory and enough frames, \<open>fork\<close> returns the new PID, the child
  joins the end of the ready list with its own directory and frames, its data and heap pages hold what
  the parent's hold, the pages below are shared, the parent's mapping is as before, and the child's
  stack leads to \<open>ret_from_fork\<close>.
\<close>

theorem fork_creates_child:
  assumes "kwf s Q" and "Q Freequeue = TaskList c # xs"
    and "i < NR_TASKS" "dirCounter (mem s) i = 0" "\<forall>j < i. dirCounter (mem s) j \<noteq> 0"
    and "get_PT_of i (mem s) \<noteq> get_PT (cur s) s" and "parent_mapped s"
    and "fork_pages s \<le> card (frame_pool_set - used_frames (mem s))"
    and "0 < ebp_index s" "ebp_index s < KERNEL_STACK_SIZE"
  shows "\<exists>s' Q'. sys_fork s = Some (global_PID s, s') \<and> kwf s' Q' \<and> view s' Q' = abs_clone (view s Q) \<and>
    PID (task s' c) = global_PID s \<and> dir_pages_baseAddr (task s' c) = i \<and> child_space s i s' \<and>
    kernel_esp (task s' c) = ebp_index s - 1 \<and> kstack s' c (ebp_index s) = ret_from_fork_addr (link s) \<and>
    kcont s' c = Ret_from_fork \<and> heapSize (task s' c) = heapSize (task s (cur s)) \<and> (\<forall>u. u \<noteq> c \<longrightarrow> task s' u = task s u)"
proof -
  from sys_fork_child[OF assms] obtain s' where s': "sys_fork s = Some (global_PID s, s')"
    "kwf s' (Q(Freequeue := xs, Readyqueue := Q Readyqueue @ [TaskList c]))" "cur s' = cur s" "PID (task s' c) = global_PID s"
    "dir_pages_baseAddr (task s' c) = i" "child_space s i s'" "kcont s' = (kcont s)(c := Ret_from_fork)"
    "kernel_esp (task s' c) = ebp_index s - 1"
    "kstack s' c = (kstack s (cur s))(ebp_index s - 1 := 0, ebp_index s := ret_from_fork_addr (link s))"
    "heapSize (task s' c) = heapSize (task s (cur s))" "semaphores s' = semaphores s" "\<forall>u. u \<noteq> c \<longrightarrow> task s' u = task s u"
    by blast
  have "view s' (Q(Freequeue := xs, Readyqueue := Q Readyqueue @ [TaskList c])) = abs_clone (view s Q)"
    by (rule clone_view[of Q c xs s' s]) (use assms(2) s'(3,11) in simp_all)
  with s' show ?thesis by auto
qed

lemma fork_creates_child_witness:
  "\<exists>s' Q'. sys_fork ((upd_task 1 (\<lambda>p. p\<lparr>heapPages := 0\<rparr>) booted)\<lparr>ebp_index := 100\<rparr>) = Some (2, s') \<and>
     view s' Q' = \<lparr>running = 1, ready = [2], free = [3..<10], readers = [], sems = \<lambda>_. None\<rparr>"
proof -
  let ?s = "(upd_task 1 (\<lambda>p. p\<lparr>heapPages := 0\<rparr>) booted)\<lparr>ebp_index := 100\<rparr>"
  have up: "[2..<10] = (2 :: nat) # [3..<10]" by (simp add: upt_rec)
  have q: "booted_queues Freequeue = TaskList 2 # map TaskList [3..<10]" by (simp add: booted_queues_def up)
  have d: "dirCounter (mem ?s) 2 = 0" "\<forall>j < 2. dirCounter (mem ?s) j \<noteq> 0"
    unfolding booted_child(4) by (auto simp: less_2_cases_iff)
  have v: "view ?s booted_queues = view booted booted_queues"
    by (rule view_cong) (simp_all add: booted_child(10) upd_task_def)
  have "0 < ebp_index ?s" "ebp_index ?s < KERNEL_STACK_SIZE" by simp_all
  from fork_creates_child[OF booted_child(1) q _ d booted_child(5,6,8) this]
  obtain s' Q' where "sys_fork ?s = Some (2, s')" "view s' Q' = abs_clone (view booted booted_queues)"
    unfolding booted_child(3) v by auto
  then show ?thesis unfolding view_booted by (intro exI conjI) (simp_all add: abs_clone_def up)
qed

section \<open>The keyboard\<close>

text \<open>
  C17. A key that wakes a reader. When no more characters are there than the reader asked for, the first
  reader gets the processor at once, and the process that was interrupted is neither running nor on
  any queue afterwards.
\<close>

theorem keyboard_loses_interrupted:
  assumes "kwf s Q" and "cb_ok (keyb s)" and "\<not> cbfull (keyb s)" and "scan AND 0x80 \<noteq> 0"
    and "unat (0x7F AND scan) < length char_map" and "char_map ! unat (0x7F AND scan) \<noteq> 0"
    and "length (waiting (keyb s)) < 9" and "int (length (waiting (keyb s))) < leftToRead (keyb s)"
    and "readers (view s Q) = r # rs"
  shows "\<exists>s' Q'. keyboard_routine scan s = Some (Switched, s') \<and> kwf s' Q' \<and>
    view s' Q' = (view s Q)\<lparr>running := r, readers := rs\<rparr> \<and> off_queues s' Q' (cur s) \<and> cur s' \<noteq> cur s \<and>
    kcont s' (cur s) = In_user \<and> waiting (keyb s') = waiting (keyb s) @ [char_map ! unat (0x7F AND scan)]"
proof -
  let ?Q' = "Q(Keyboardqueue := tl (Q Keyboardqueue))"
  have k: "Q Keyboardqueue \<noteq> []" using assms(9) by (auto simp: view_def)
  have "int (length (waiting (keyb s) @ [char_map ! unat (0x7F AND scan)])) \<le> leftToRead (keyb s)" using assms(8) by simp
  with keyboard_routine_cases[OF assms(1-3,5,4)] assms(6,7) k obtain t s' where s': "hd (Q Keyboardqueue) = TaskList t"
    "keyboard_routine scan s = Some (Switched, s')" "kwf s' ?Q'" "cur s' = t" "kcont s' = (kcont s)(cur s := In_user)"
    "waiting (keyb s') = waiting (keyb s) @ [char_map ! unat (0x7F AND scan)]" "semaphores s' = semaphores s"
    by (auto simp del: length_append)
  have q: "Q Keyboardqueue = TaskList t # tl (Q Keyboardqueue)" using k s'(1) by (cases "Q Keyboardqueue") auto
  then have r: "t = r" "task_list (tl (Q Keyboardqueue)) = rs"
    using assms(9) by (simp_all add: view_def, (metis list.inject task_list_simps(4))+)
  have off: "TaskList (cur s) \<notin> set (Q p)" if "p \<in> heads s" for p using assms(1) that by (auto simp: kwf_def off_queues_def)
  have "TaskList (cur s) \<notin> set (TaskList t # tl (Q Keyboardqueue))" using off[OF fixed_heads(4)] q by metis
  moreover have "heads s' = heads s" using s'(7) by (simp add: heads_def)
  ultimately have "off_queues s' ?Q' (cur s)" "t \<noteq> cur s" using off by (auto simp: off_queues_def)
  moreover have "view s' ?Q' = (view s Q)\<lparr>running := r, readers := rs\<rparr>"
    using s'(4,7) r by (simp add: view_def cong: if_cong)
  ultimately show ?thesis using s' by (intro exI[of _ s'] exI[of _ ?Q']) simp
qed

text \<open>Process 1 reads five characters, process 2 runs, and the key \<open>1\<close> is typed: process 2 is lost.\<close>

lemma keyboard_loses_interrupted_witness:
  "\<exists>s s' Q'. cur s = 2 \<and> PID (task s 2) = 2 \<and> keyboard_routine 0x82 s = Some (Switched, s') \<and> off_queues s' Q' 2 \<and>
     view s' Q' = \<lparr>running = 1, ready = [], free = [3..<10], readers = [], sems = \<lambda>_. None\<rparr>"
proof -
  have ni: "cur threads \<noteq> idle_task threads" using threads_facts(3,4) by simp
  have kb: "keyb threads = keyb zero_kernel" using threads_facts(10) booted_facts(11) by simp
  have cb: "\<not> cbfull (keyb threads)" using zero_kernel_keyb(2) kb by simp
  let ?Q = "threads_queues(Keyboardqueue := threads_queues Keyboardqueue @ [TaskList (cur threads)])"
  from sys_read_keyboard_wait[OF threads_facts(2) ni cb, of "0x108000" 5] obtain s where s:
    "sys_read_keyboard 0x108000 5 threads = Some (Switched, s)" "kwf s (ready_rest ?Q)" "cur s = next_task threads threads_queues"
    "keyb s = (keyb threads)\<lparr>leftToRead := 5\<rparr>" "semaphores s = semaphores threads" "\<forall>u. PID (task s u) = PID (task threads u)" by blast
  note sem = s(5)
  have pid: "PID (task s 2) = 2" using s(6) threads_facts(6) by simp
  have v: "view s (ready_rest ?Q) = \<lparr>running = 2, ready = [], free = [3..<10], readers = [1], sems = \<lambda>_. None\<rparr>"
    unfolding view_run_next[OF threads_facts(2) _ sem s(3), of Keyboardqueue, simplified]
  proof -
    have "view threads ?Q = (view threads threads_queues)\<lparr>readers := readers (view threads threads_queues) @ [1]\<rparr>"
      by (simp add: view_def threads_facts(3) cong: if_cong)
    then show "run_next (idle_task threads) (view threads ?Q) =
        \<lparr>running = 2, ready = [], free = [3..<10], readers = [1], sems = \<lambda>_. None\<rparr>"
      unfolding threads_facts(11) by (simp add: run_next_def)
  qed
  have c: "cur s = 2" using v by (simp add: view_def)
  have w: "waiting (keyb s) = []" "cb_ok (keyb s)" "\<not> cbfull (keyb s)" "leftToRead (keyb s) = 5"
    unfolding s(4) kb by (simp_all add: zero_kernel_def waiting_def cb_ok_def cbfull_def)
  have k: "unat (0x7F AND 0x82 :: Byte) = 2" "(0x82 :: Byte) AND 0x80 \<noteq> 0" by simp_all
  have "\<exists>s' Q'. keyboard_routine 0x82 s = Some (Switched, s') \<and> kwf s' Q' \<and>
      view s' Q' = (view s (ready_rest ?Q))\<lparr>running := 1, readers := []\<rparr> \<and> off_queues s' Q' (cur s) \<and> cur s' \<noteq> cur s \<and>
      kcont s' (cur s) = In_user \<and> waiting (keyb s') = waiting (keyb s) @ [char_map ! unat (0x7F AND 0x82 :: Byte)]"
    by (rule keyboard_loses_interrupted[OF s(2) w(2,3) k(2)]) (use v w in \<open>simp_all add: char_map_def\<close>)
  then show ?thesis using c pid unfolding v by auto
qed

end
