(* ===== verification/Calls.thy ===== *)
theory Calls
  imports Contracts
begin

text \<open>
  What the calls that read, write and move the heap promise, branch by branch, and the way in and out
  of the kernel for a system call.
\<close>

section \<open>Reading\<close>

text \<open>
  C16. A run of the reader, at the call or when it is woken. With fewer characters at hand than are
  missing it takes them all, goes to the front of the readers and the next process runs; with exactly
  those missing it stores everything in the buffer of the process and returns the count; with more it
  runs over its temporary buffer, which the model reports as a fault.
\<close>

theorem read_loop_outcomes:
  assumes kw: "kwf s Q" and ni: "cur s \<noteq> idle_task s" and cb: "cb_ok (keyb s)" and bs: "int (length bs) \<le> n"
  defines "have \<equiv> bs @ waiting (keyb s)"
  shows "if int (length have) < n then \<exists>s' Q'. read_loop buf n bs s = Some (Switched, s') \<and> kwf s' Q' \<and>
        view s' Q' = run_next (idle_task s) ((view s Q)\<lparr>readers := cur s # readers (view s Q)\<rparr>) \<and>
        kcont s' = (kcont s)(cur s := After_read buf n have) \<and> waiting (keyb s') = []
    else if int (length have) = n then
        (case put_user buf have (mem s) of None \<Rightarrow> read_loop buf n bs s = None
         | Some m \<Rightarrow> \<exists>k. read_loop buf n bs s = Some (Returned n, s\<lparr>keyb := k, mem := m\<rparr>) \<and> waiting k = [])
    else int (length bs) < n \<longrightarrow> read_loop buf n bs s = None"
proof -
  consider (few) "int (length have) < n" | (all) "int (length have) = n" | (many) "n < int (length have)" by linarith
  then show ?thesis
  proof cases
    case few
    let ?Q = "Q(Keyboardqueue := TaskList (cur s) # Q Keyboardqueue)"
    from few have "int (length bs) + int (length (waiting (keyb s))) < n" by (simp add: have_def)
    from read_loop_wait[OF kw ni cb this, of buf] obtain s' where s': "read_loop buf n bs s = Some (Switched, s')"
      "kwf s' (ready_rest ?Q)" "cur s' = next_task s Q" "kcont s' = (kcont s)(cur s := After_read buf n have)"
      "waiting (keyb s') = []" "semaphores s' = semaphores s" unfolding have_def by blast
    have "view s ?Q = (view s Q)\<lparr>readers := cur s # readers (view s Q)\<rparr>" by (simp add: view_def cong: if_cong)
    with view_run_next[OF kw _ s'(6,3), of Keyboardqueue] s' few show ?thesis by auto
  next
    case all
    then have sum: "int (length bs) + int (length (waiting (keyb s))) = n" by (simp add: have_def)
    show ?thesis
    proof (cases "put_user buf have (mem s)")
      case (Some m)
      from read_loop_done[OF kw cb sum, of buf m] Some all show ?thesis by (auto simp: have_def)
    next
      case None
      have "read_loop buf n bs s = None"
      proof (cases "int (length bs) < n")
        case True
        have "int (length bs) + charsInCirc (keyb s) \<le> n \<or> waiting (keyb s) = []"
          using sum length_waiting[OF cb] by simp
        from drain_all[OF cb this] obtain k where "drain n bs (keyb s) = Some (bs @ waiting (keyb s), k)" by blast
        with True sum None show ?thesis by (simp add: read_loop_def on_mem_def have_def)
      next
        case False
        with sum have "waiting (keyb s) = []" by (cases "waiting (keyb s)") auto
        with False None show ?thesis by (simp add: read_loop_def on_mem_def have_def)
      qed
      with None all show ?thesis by simp
    qed
  next
    case many
    then have "n < int (length bs) + int (length (waiting (keyb s)))" by (simp add: have_def)
    with read_loop_overrun[OF cb] many show ?thesis by auto
  qed
qed

text \<open>Two characters are there and five are wanted.\<close>

lemma read_loop_outcomes_witness:
  "\<exists>s s' Q'. waiting (keyb s) = [49, 50] \<and> read_loop 0x108000 5 [48] s = Some (Switched, s') \<and>
     kcont s' 1 = After_read 0x108000 5 [48, 49, 50] \<and>
     view s' Q' = \<lparr>running = 2, ready = [], free = [3..<10], readers = [1], sems = \<lambda>_. None\<rparr>"
proof -
  define s where "s = threads\<lparr>keyb := (keyb zero_kernel)\<lparr>circBuffer := (\<lambda>_. 0)(0 := 49, 1 := 50), nextToWrite := 2, cb_is_empty := 1\<rparr>\<rparr>"
  have w: "waiting (keyb s) = [49, 50]" "cb_ok (keyb s)"
    by (simp_all add: s_def zero_kernel_def waiting_def cb_ok_def upt_rec)
  have k: "kwf s threads_queues" by (rule kwf_cong[OF threads_facts(2)]) (simp_all add: s_def)
  have c: "cur s = 1" "idle_task s = 0" using threads_facts(3,4) by (simp_all add: s_def)
  have v: "view s threads_queues = view threads threads_queues" by (rule view_cong) (simp_all add: s_def)
  have ni: "cur s \<noteq> idle_task s" using c by simp
  have "int (length [48 :: Byte]) \<le> 5" by simp
  from read_loop_outcomes[OF k ni w(2) this, of "0x108000"] obtain s' Q' where
    "read_loop 0x108000 5 [48] s = Some (Switched, s')" "kcont s' = (kcont s)(cur s := After_read 0x108000 5 [48, 49, 50])"
    "view s' Q' = run_next (idle_task s) ((view s threads_queues)\<lparr>readers := cur s # readers (view s threads_queues)\<rparr>)"
    unfolding w(1) by auto
  with w(1) c show ?thesis unfolding v threads_facts(11) by (intro exI[of _ s] exI[of _ s'] exI[of _ Q']) (simp add: run_next_def)
qed

section \<open>Writing\<close>

text \<open>
  C24. \<open>sys_write\<close> refuses bad descriptors, a null buffer and a negative size; when its array of variable length fits the
  kernel stack of the process it prints the bytes of the process on the console, in order, in however many chunks,
  and returns how many; when the array does not fit, which no test in the code excludes, there is no result.
\<close>

theorem sys_write_prints:
  assumes "get_user buf (nat sz) (mem s) = Some bs"
  shows "sys_write fd buf sz s =
    (if fd \<noteq> 1 then Some (-EBADF, s) else if buf = 0 then Some (-EFAULT, s) else if sz < 0 then Some (-EINVAL, s)
     else if stack_left s < sz then None else Some (sz, s\<lparr>scr := fold printc bs (scr s)\<rparr>))"
proof -
  have "write_loop buf sz 0 0 s = Some (0 + (sz - 0), s\<lparr>scr := fold printc bs (scr s)\<rparr>)" if "0 \<le> sz"
    using assms that by (intro write_loop_prints) simp_all
  then show ?thesis by (auto simp: sys_write_def check_fd_def Let_def)
qed

lemma booted_reads: "\<exists>bs. get_user 0x108000 3 (mem booted) = Some bs"
proof -
  have pt: "get_PT_of (cr3_dir (mem booted)) (mem booted) = 41" using booted_memory(1) booted_memory(3)[of 1] by simp
  have a: "page_addr 264 = 0x108000" by (simp add: page_addr_def)
  have "vtrans (mem booted) (0x108000 + of_nat k) \<noteq> None" if "k < 3" for k
    using vtrans_page[of 264 k "mem booted"] that booted_memory(5)[of 264] unfolding pt a by simp
  from this[of 0] this[of 1] this[of 2] show ?thesis
    by (auto simp: eval_nat_numeral rd8_def)
qed

lemma sys_write_prints_witness:
  "\<exists>s bs. ebp_index s = 1000 \<and> length bs = 3 \<and> sys_write 1 0x108000 3 s = Some (3, s\<lparr>scr := fold printc bs (scr s)\<rparr>)"
proof -
  let ?s = "booted\<lparr>ebp_index := 1000, link := link zero_kernel\<rparr>"
  obtain bs where bs: "get_user 0x108000 (nat 3) (mem ?s) = Some bs" using booted_reads by auto
  have "\<not> stack_left ?s < 3" by (simp add: stack_left_def zero_kernel_def)
  with sys_write_prints[OF bs, of 1] get_user_length[OF bs] show ?thesis by (intro exI[of _ ?s] exI[of _ bs]) simp
qed

end
