(* ===== verification/Fair.thy ===== *)
theory Fair
  imports Contracts
begin

text \<open>
  Liveness of the scheduler: with whatever quanta the processes have set for themselves, a ready process runs after
  the ticks that the running process has left and the quanta of the processes before it.
\<close>

lemma task_list_take: "task_list (map TaskList us) = us"
  by (induction us) (simp_all add: task_list_def list_head_to_task_struct_def)

lemma rotate_Suc_Cons: "j < length ys \<Longrightarrow> hd (rotate (Suc j) (x # ys)) = ys ! j"
  using hd_rotate_conv_nth[of "x # ys" "Suc j"] by (simp del: rotate_Suc)

text \<open>The quantum of a process in range is what the counter of ticks holds.\<close>

lemma quantum_word:
  assumes "0 < q" "q < 2 ^ 32"
  shows "(of_int q :: DWord) = of_nat (Suc (nat q - 1))" "Suc (nat q - 1) < 2 ^ 32" "Suc (nat q - 1) = nat q"
proof -
  show "Suc (nat q - 1) = nat q" using assms by simp
  then show "Suc (nat q - 1) < 2 ^ 32" using assms by simp
  show "(of_int q :: DWord) = of_nat (Suc (nat q - 1))" unfolding \<open>Suc (nat q - 1) = nat q\<close> using assms by (simp add: of_nat_nat)
qed

lemma ring_turns:
  assumes "kwf s Q" and "Q Readyqueue = map TaskList us" and "ticks_left s \<noteq> 0"
    and quanta: "\<And>u. u \<in> insert (cur s) (set us) \<Longrightarrow> 0 < quantum (task s u) \<and> quantum (task s u) < 2 ^ 32" and "j < length us"
  shows "\<exists>s' Q'. clock_ticks (unat (ticks_left s) + sum_list (map (\<lambda>u. nat (quantum (task s u))) (take j us))) s = Some s' \<and>
    kwf s' Q' \<and> ring s' Q' = rotate (Suc j) (ring s Q) \<and> ticks_left s' = of_int (quantum (task s (cur s'))) \<and>
    (\<forall>u. quantum (task s' u) = quantum (task s u))"
  using assms(5)
proof (induction j)
  case 0
  obtain n where n: "unat (ticks_left s) = Suc n" using assms(3) by (metis not0_implies_Suc unsigned_0 word_unat_eq_iff)
  then have "ticks_left s = of_nat (Suc n)" by (metis n of_nat_unat ucast_id)
  moreover have "Suc n < 2 ^ 32" using n unsigned_less[of "ticks_left s", where 'a = nat] by simp
  ultimately show ?case using quantum_run[OF assms(1), of n] n by (simp add: rotate1_rotate_swap)
next
  case (Suc j)
  then obtain s1 Q1 where s1: "kwf s1 Q1" "ring s1 Q1 = rotate (Suc j) (ring s Q)" "ticks_left s1 = of_int (quantum (task s (cur s1)))"
    "\<forall>u. quantum (task s1 u) = quantum (task s u)"
    "clock_ticks (unat (ticks_left s) + sum_list (map (\<lambda>u. nat (quantum (task s u))) (take j us))) s = Some s1" by auto
  have "TaskList (cur s1) = hd (rotate (Suc j) (TaskList (cur s) # map TaskList us))"
    using s1(2) assms(2) by (metis list.sel(1) ring_def)
  then have cur: "cur s1 = us ! j" using Suc.prems by (simp add: rotate_Suc_Cons del: rotate_Suc)
  then have "cur s1 \<in> set us" using Suc.prems by simp
  then have "0 < quantum (task s (cur s1))" "quantum (task s (cur s1)) < 2 ^ 32" using quanta by blast+
  note q = quantum_word[OF this]
  let ?n = "nat (quantum (task s (cur s1))) - 1"
  have "ticks_left s1 = of_nat (Suc ?n)" unfolding s1(3) by (rule q(1))
  moreover have "Suc ?n < 2 ^ 32" by (rule q(2))
  moreover have "Suc ?n = nat (quantum (task s (us ! j)))" unfolding q(3) by (simp add: cur)
  ultimately have n: "ticks_left s1 = of_nat (Suc ?n)" "Suc ?n < 2 ^ 32" "Suc ?n = nat (quantum (task s (us ! j)))" by blast+
  from quantum_run[OF s1(1) n(1,2)] obtain s' Q' where s': "clock_ticks (nat (quantum (task s (us ! j)))) s1 = Some s'" "kwf s' Q'"
    "ring s' Q' = rotate1 (ring s1 Q1)" "ticks_left s' = of_int (quantum (task s1 (cur s')))"
    "\<forall>u. quantum (task s' u) = quantum (task s1 u)" unfolding n(3) by blast
  have "sum_list (map (\<lambda>u. nat (quantum (task s u))) (take (Suc j) us)) =
      sum_list (map (\<lambda>u. nat (quantum (task s u))) (take j us)) + nat (quantum (task s (us ! j)))"
    using Suc.prems by (simp add: take_Suc_conv_app_nth)
  then have "clock_ticks (unat (ticks_left s) + sum_list (map (\<lambda>u. nat (quantum (task s u))) (take (Suc j) us))) s = Some s'"
    using s1(5) s'(1) by (simp add: clock_ticks_add add.assoc[symmetric])
  then show ?case using s' s1(2,4) by (intro exI[of _ s'] exI[of _ Q']) simp
qed

text \<open>
  C19. No process starves. When the quanta of the runnable processes are positive, the process at position \<open>i\<close> of the
  ready list is the running one after exactly the ticks that the running process has left and the quanta of the
  \<open>i\<close> processes before it, whatever quanta they have chosen.
\<close>

theorem ready_process_runs:
  assumes "kwf s Q" and "ticks_left s \<noteq> 0" and "i < length (ready (view s Q))"
    and "\<forall>u \<in> insert (cur s) (set (ready (view s Q))). 0 < quantum (task s u) \<and> quantum (task s u) < 2 ^ 32"
  shows "\<exists>s' Q'. clock_ticks (unat (ticks_left s) + sum_list (map (\<lambda>u. nat (quantum (task s u))) (take i (ready (view s Q))))) s =
      Some s' \<and> kwf s' Q' \<and> running (view s' Q') = ready (view s Q) ! i \<and> ticks_left s' = of_int (quantum (task s (cur s')))"
proof -
  define us where "us = ready (view s Q)"
  have Q: "Q Readyqueue = map TaskList us" using ready_tasks[OF assms(1)] by (simp add: us_def view_def)
  from ring_turns[OF assms(1) Q assms(2), of i] assms(3,4) obtain s' Q' where s':
    "clock_ticks (unat (ticks_left s) + sum_list (map (\<lambda>u. nat (quantum (task s u))) (take i us))) s = Some s'" "kwf s' Q'"
    "ring s' Q' = rotate (Suc i) (ring s Q)" "ticks_left s' = of_int (quantum (task s (cur s')))"
    unfolding us_def[symmetric] by blast
  have "TaskList (cur s') = hd (rotate (Suc i) (TaskList (cur s) # map TaskList us))"
    using s'(3) Q by (metis list.sel(1) ring_def)
  then have "cur s' = us ! i" using assms(3) by (simp add: rotate_Suc_Cons us_def[symmetric] del: rotate_Suc)
  then show ?thesis using s' unfolding us_def[symmetric] by (intro exI[of _ s'] exI[of _ Q']) (simp add: view_def)
qed

lemma ready_process_runs_witness:
  "\<exists>s' Q'. clock_ticks 10 threads = Some s' \<and> running (view s' Q') = 2"
  using ready_process_runs[OF threads_facts(2), of 0] threads_facts(3,7,8,9,11) by auto

end
