(* ===== verification/Build.thy ===== *)
theory Build
  imports Prelude
begin

text \<open>
  The image builder \<open>zeos/build.c\<close>: it checks the Minix header and the boot flag of the boot
  sector, appends the kernel and the user program, and writes their sizes into the image. A file
  is the list of its bytes, \<open>None\<close> if it cannot be opened; \<open>die\<close> is the left summand. Writes to
  standard output and the calls of the operating system on open files are taken to succeed.
\<close>

datatype die = Usage | Unable_to_open | Unable_to_read_header | Non_Minix_header
  | Illegal_data_segment | Illegal_bss_segment | Illegal_symbol_table
  | Boot_block_size | Boot_block_flag | Unexpected_EOF

definition MINIX_HEADER_LEN :: nat where [simp]: "MINIX_HEADER_LEN = 32"
definition BUF_SIZE :: nat where [simp]: "BUF_SIZE = 1024"

definition minix_hdr :: "Byte list" where
  "minix_hdr = [0x01, 0x03, 0x10, 0x04, 0x20, 0x00, 0x00, 0x00]"

text \<open>\<open>lb[k]\<close> of the little-endian view of the buffer.\<close>

definition le32 :: "Byte list \<Rightarrow> nat \<Rightarrow> nat" where
  "le32 bs p = unat (bs ! p) + 256 * unat (bs ! (p + 1)) + 65536 * unat (bs ! (p + 2))
     + 16777216 * unat (bs ! (p + 3))"

text \<open>The descriptor left by \<open>minix_open\<close> is at the end of the header.\<close>

definition minix_open :: "Byte list option \<Rightarrow> die + Byte list" where
  "minix_open file =
     (case file of None \<Rightarrow> Inl Unable_to_open
      | Some bs \<Rightarrow>
          if length (take MINIX_HEADER_LEN bs) \<noteq> MINIX_HEADER_LEN then Inl Unable_to_read_header
          else if take 8 bs \<noteq> minix_hdr \<or> le32 bs 20 \<noteq> 0 then Inl Non_Minix_header
          else if le32 bs 12 \<noteq> 0 then Inl Illegal_data_segment
          else if le32 bs 16 \<noteq> 0 then Inl Illegal_bss_segment
          else if le32 bs 28 \<noteq> 0 then Inl Illegal_symbol_table
          else Inr (drop MINIX_HEADER_LEN bs))"

text \<open>The boot sector: read, checked, and written with the root device numbers 0.\<close>

definition boot_sector :: "Byte list \<Rightarrow> die + Byte list" where
  "boot_sector rest =
     (let buf = take BUF_SIZE rest in
      if length buf \<noteq> 512 then Inl Boot_block_size
      else if buf ! 510 \<noteq> 0x55 \<or> buf ! 511 \<noteq> 0xaa then Inl Boot_block_flag
      else Inr ((buf[508 := 0])[509 := 0]))"

text \<open>The copy loop over blocks of at most 1024 bytes; \<open>rest\<close> is the unread part of the file.\<close>

function copy_file :: "nat \<Rightarrow> Byte list \<Rightarrow> Byte list \<Rightarrow> die + Byte list" where
  "copy_file sz rest out =
     (if sz > 0 then
        (let l = (if sz > BUF_SIZE then BUF_SIZE else sz); chunk = take l rest in
         if length chunk \<noteq> l then Inl Unexpected_EOF
         else copy_file (sz - l) (drop l rest) (out @ chunk))
      else Inr out)"
  by pat_completeness auto
termination
  by (relation "measure (\<lambda>(sz, rest, out). sz)") (auto simp: Let_def)

declare copy_file.simps [simp del]

text \<open>\<open>lseek\<close> and \<open>write\<close>: bytes are overwritten at an offset, a gap is filled with zeros.\<close>

definition pwrite :: "nat \<Rightarrow> Byte list \<Rightarrow> Byte list \<Rightarrow> Byte list" where
  "pwrite off bs out =
     (let padded = out @ replicate (off - length out) 0
      in take off padded @ bs @ drop (off + length bs) padded)"

definition byte_of :: "nat \<Rightarrow> DWord \<Rightarrow> Byte" where
  "byte_of k v = ucast (drop_bit (8 * k) v AND 0xff)"

definition patch_sizes :: "DWord \<Rightarrow> DWord \<Rightarrow> Byte list \<Rightarrow> Byte list" where
  "patch_sizes sys_size usr_size out =
     (let im_size = (sys_size + usr_size + 15) div 16;
          out1 = pwrite 500 [byte_of 0 im_size, byte_of 1 im_size] out;
          out2 = pwrite 512 [byte_of 0 sys_size, byte_of 1 sys_size, byte_of 2 sys_size, 0] out1;
          out3 = pwrite 516 [byte_of 0 usr_size, byte_of 1 usr_size, byte_of 2 usr_size, 0] out2
      in pwrite 520 [byte_of 0 0x7E1B, byte_of 1 0x7E1B, byte_of 2 0x7E1B, 0] out3)"

definition build_main :: "Byte list option list \<Rightarrow> die + Byte list" where
  "build_main args =
     (case args of
        [boot, system, user] \<Rightarrow>
          (case minix_open boot of Inl e \<Rightarrow> Inl e | Inr rest \<Rightarrow>
          (case boot_sector rest of Inl e \<Rightarrow> Inl e | Inr out0 \<Rightarrow>
          (case system of None \<Rightarrow> Inl Unable_to_open | Some sys \<Rightarrow>
          (case copy_file (length sys) sys out0 of Inl e \<Rightarrow> Inl e | Inr out1 \<Rightarrow>
          (case user of None \<Rightarrow> Inl Unable_to_open | Some usr \<Rightarrow>
          (case copy_file (length usr) usr out1 of Inl e \<Rightarrow> Inl e | Inr out2 \<Rightarrow>
             Inr (patch_sizes (of_nat (length sys)) (of_nat (length usr)) out2)))))))
      | _ \<Rightarrow> Inl Usage)"

section \<open>The image\<close>

lemma copy_file_all: "copy_file (length rest) rest out = Inr (out @ rest)"
proof (induction "length rest" arbitrary: rest out rule: less_induct)
  case less
  let ?l = "if length rest > BUF_SIZE then BUF_SIZE else length rest"
  show ?case
  proof (cases "length rest = 0")
    case True
    then show ?thesis by (subst copy_file.simps) simp
  next
    case False
    then have "copy_file (length (drop ?l rest)) (drop ?l rest) (out @ take ?l rest)
        = Inr ((out @ take ?l rest) @ drop ?l rest)"
      by (intro less) auto
    with False show ?thesis by (subst copy_file.simps) (auto simp: Let_def)
  qed
qed

lemma pwrite_inside:
  assumes "off + length bs \<le> length out"
  shows "length (pwrite off bs out) = length out"
    and "i < length bs \<Longrightarrow> pwrite off bs out ! (off + i) = bs ! i"
    and "j < off \<or> off + length bs \<le> j \<Longrightarrow> j < length out \<Longrightarrow> pwrite off bs out ! j = out ! j"
  using assms by (auto simp: pwrite_def Let_def nth_append)

lemma unat_byte_of: "unat (byte_of k v) = (unat v div 2 ^ (8 * k)) mod 256"
proof -
  have m: "(0xff :: DWord) = mask 8" by (simp add: mask_eq_exp_minus_1)
  show ?thesis
    by (simp only: byte_of_def m take_bit_eq_mask[symmetric] unsigned_ucast_eq unsigned_take_bit_eq unat_drop_bit_eq)
      (simp add: drop_bit_eq_div take_bit_eq_mod)
qed

lemma two_bytes: "n mod 256 + 256 * (n div 256 mod 256) = n mod (65536 :: nat)"
  using mod_mult2_eq[of n 256 256] by simp

text \<open>The three bytes of a size read back to the size, when it fits in them.\<close>

lemma bytes_of_size:
  assumes "n < 2 ^ 24"
  shows "unat (byte_of 0 (of_nat n)) + 256 * unat (byte_of 1 (of_nat n)) +
    65536 * unat (byte_of 2 (of_nat n)) = n"
proof -
  have "unat (of_nat n :: DWord) = n" using assms by (simp add: unsigned_of_nat take_bit_nat_eq_self)
  then have "unat (byte_of k (of_nat n)) = (n div 2 ^ (8 * k)) mod 256" for k
    by (simp add: unat_byte_of)
  moreover have top: "n div 65536 mod 256 = n div 65536"
    using assms by (simp add: div_less_iff_less_mult)
  moreover have "n mod 256 + 256 * (n div 256 mod 256) + 65536 * (n div 65536) = n"
  proof -
    have "n div 65536 = n div 256 div 256" by (simp add: div_mult2_eq[symmetric])
    moreover have "256 * (n div 256) + n mod 256 = n" by simp
    moreover have "256 * (n div 256 div 256) + n div 256 mod 256 = n div 256" by simp
    ultimately show ?thesis by linarith
  qed
  ultimately show ?thesis by simp
qed

text \<open>
  C32. A good boot sector, a system and a user program of less than 16 MB are put into one image, of exactly their
  lengths: the code of the boot sector with the root device 0 at 508 and, at 500, the number of 16-byte paragraphs of
  both programs (its low 16 bits); the three words at the start of the system (which the kernel reads back at
  \<open>KERNEL_START\<close>); the bytes of both programs behind them; and the boot flag.
\<close>

theorem build_main_image:
  assumes boot: "minix_open boot = Inr rest" "boot_sector rest = Inr sector"
    and sizes: "12 \<le> length sys + length usr" "length sys < 2 ^ 24" "length usr < 2 ^ 24"
  shows "\<exists>img. build_main [boot, Some sys, Some usr] = Inr img \<and>
    length img = 512 + length sys + length usr \<and>
    (\<forall>i < 512. i \<notin> {500, 501} \<longrightarrow> img ! i = (if i = 508 \<or> i = 509 then 0 else rest ! i)) \<and>
    unat (img ! 500) + 256 * unat (img ! 501) = ((length sys + length usr + 15) div 16) mod 65536 \<and>
    le32 img 512 = length sys \<and> le32 img 516 = length usr \<and> le32 img 520 = 0x7E1B \<and>
    (\<forall>i. 524 \<le> i \<and> i < length img \<longrightarrow> img ! i = (sys @ usr) ! (i - 512)) \<and>
    img ! 510 = 0x55 \<and> img ! 511 = 0xaa"
proof -
  have sector: "length sector = 512" "sector ! 510 = 0x55" "sector ! 511 = 0xaa"
    using boot(2) by (auto simp: boot_sector_def Let_def split: if_splits)
  have code: "sector ! i = (if i = 508 \<or> i = 509 then 0 else rest ! i)" if "i < 512" for i
    using boot(2) that by (auto simp: boot_sector_def Let_def nth_list_update split: if_splits)
  define out where "out = sector @ sys @ usr"
  define s u :: DWord where "s = of_nat (length sys)" and "u = of_nat (length usr)"
  define w1 w2 w3 w4 where "w1 = [byte_of 0 ((s + u + 15) div 16), byte_of 1 ((s + u + 15) div 16)]"
    and "w2 = [byte_of 0 s, byte_of 1 s, byte_of 2 s, 0]" and "w3 = [byte_of 0 u, byte_of 1 u, byte_of 2 u, 0]"
    and "w4 = [byte_of 0 0x7E1B, byte_of 1 0x7E1B, byte_of 2 0x7E1B, 0]"
  define o1 o2 o3 o4 where "o1 = pwrite 500 w1 out" and "o2 = pwrite 512 w2 o1" and "o3 = pwrite 516 w3 o2"
    and "o4 = pwrite 520 w4 o3"
  have img: "build_main [boot, Some sys, Some usr] = Inr o4"
    using boot by (simp add: build_main_def copy_file_all patch_sizes_def Let_def
        o1_def o2_def o3_def o4_def out_def s_def u_def w1_def w2_def w3_def w4_def)
  have lw: "length w1 = 2" "length w2 = 4" "length w3 = 4" "length w4 = 4"
    by (simp_all add: w1_def w2_def w3_def w4_def)
  have lout: "length out = 512 + length sys + length usr" using sector by (simp add: out_def)
  then have l: "length o1 = length out" "length o2 = length out" "length o3 = length out" "length o4 = length out"
    using sizes(1) lw unfolding o1_def o2_def o3_def o4_def by (simp_all add: pwrite_inside(1))
  have n4: "o4 ! j = (if 520 \<le> j \<and> j < 524 then w4 ! (j - 520) else o3 ! j)" if "j < length out" for j
    using pwrite_inside(2)[of 520 w4 o3 "j - 520"] pwrite_inside(3)[of 520 w4 o3 j] that l lw lout sizes(1)
    unfolding o4_def by auto
  have n3: "o3 ! j = (if 516 \<le> j \<and> j < 520 then w3 ! (j - 516) else o2 ! j)" if "j < length out" for j
    using pwrite_inside(2)[of 516 w3 o2 "j - 516"] pwrite_inside(3)[of 516 w3 o2 j] that l lw lout sizes(1)
    unfolding o3_def by auto
  have n2: "o2 ! j = (if 512 \<le> j \<and> j < 516 then w2 ! (j - 512) else o1 ! j)" if "j < length out" for j
    using pwrite_inside(2)[of 512 w2 o1 "j - 512"] pwrite_inside(3)[of 512 w2 o1 j] that l lw lout sizes(1)
    unfolding o2_def by auto
  have n1: "o1 ! j = (if 500 \<le> j \<and> j < 502 then w1 ! (j - 500) else out ! j)" if "j < length out" for j
    using pwrite_inside(2)[of 500 w1 out "j - 500"] pwrite_inside(3)[of 500 w1 out j] that lw lout unfolding o1_def by auto
  have low: "o4 ! j = o1 ! j" if "j < 512" for j using that lout by (simp add: n4 n3 n2)
  have head: "o4 ! i = (if i = 508 \<or> i = 509 then 0 else rest ! i)" if "i < 512" "i \<notin> {500, 501}" for i
    using that sector(1) lout code[of i] unfolding low[OF that(1)] by (auto simp: n1 out_def nth_append)
  have "unat (o4 ! 500) + 256 * unat (o4 ! 501) = unat (w1 ! 0) + 256 * unat (w1 ! 1)"
    using lout by (simp add: low n1)
  also have "\<dots> = unat ((s + u + 15) div 16) mod 65536" by (simp add: w1_def unat_byte_of two_bytes)
  also have "unat ((s + u + 15) div 16) = (length sys + length usr + 15) div 16"
    using sizes(2,3) by (simp add: s_def u_def unat_div unat_word_ariths unsigned_of_nat take_bit_nat_eq_self)
  finally have words: "unat (o4 ! 500) + 256 * unat (o4 ! 501) = ((length sys + length usr + 15) div 16) mod 65536" .
  have lt: "j \<le> 523 \<Longrightarrow> j < length out" for j using lout sizes(1) by linarith
  have le: "le32 [a, b, c, 0] 0 = unat a + 256 * unat b + 65536 * unat c" for a b c
    by (simp add: le32_def)
  have "le32 o4 512 = le32 w2 0" "le32 o4 516 = le32 w3 0" "le32 o4 520 = le32 w4 0"
    using lt by (simp_all add: le32_def n4 n3 n2 numeral_2_eq_2)
  moreover have "le32 w2 0 = length sys" "le32 w3 0 = length usr"
    using bytes_of_size sizes by (simp_all add: w2_def w3_def le s_def u_def)
  moreover have "le32 w4 0 = 0x7E1B" using bytes_of_size[of "0x7E1B"] by (simp add: w4_def le)
  moreover have "o4 ! i = (sys @ usr) ! (i - 512)" if "524 \<le> i" "i < length o4" for i
    using that l sector by (simp add: n4 n3 n2 n1) (simp add: out_def nth_append)
  moreover have "o4 ! 510 = 0x55" "o4 ! 511 = 0xaa"
    using lout sector by (simp_all add: n4 n3 n2 n1) (simp_all add: out_def nth_append)
  ultimately show ?thesis using img l lout head words by (intro exI[of _ o4]) simp
qed

text \<open>A boot sector of zeros with the boot flag.\<close>

definition sample_boot :: "Byte list" where
  "sample_boot = minix_hdr @ replicate 24 0 @ replicate 510 0 @ [0x55, 0xaa]"

lemma sample_boot_good:
  "minix_open (Some sample_boot) = Inr (replicate 510 0 @ [0x55, 0xaa])"
  "boot_sector (replicate 510 0 @ [0x55, 0xaa]) = Inr (replicate 510 0 @ [0x55, 0xaa])"
proof -
  have "(replicate 510 (0 :: Byte))[i := 0] = replicate 510 0" if "i < 510" for i
    using that by (simp add: list_eq_iff_nth_eq nth_list_update)
  then show "boot_sector (replicate 510 0 @ [0x55, 0xaa]) = Inr (replicate 510 0 @ [0x55, 0xaa])"
    by (simp add: boot_sector_def list_update_append nth_append)
qed (simp add: minix_open_def sample_boot_def minix_hdr_def le32_def nth_append)

lemma build_main_image_witness:
  "\<exists>img. build_main [Some sample_boot, Some (replicate 12 1), Some [7]] = Inr img \<and>
    length img = 525 \<and> img ! 0 = 0 \<and> unat (img ! 500) + 256 * unat (img ! 501) = 1 \<and>
    le32 img 512 = 12 \<and> le32 img 516 = 1 \<and> img ! 524 = 7"
proof -
  from build_main_image[OF sample_boot_good, of "replicate 12 1" "[7]"]
  obtain img where img: "build_main [Some sample_boot, Some (replicate 12 1), Some [7]] = Inr img"
    "length img = 525" "le32 img 512 = 12" "le32 img 516 = 1" "unat (img ! 500) + 256 * unat (img ! 501) = 1"
    "\<forall>i < 512. i \<notin> {500, 501} \<longrightarrow> img ! i = (if i = 508 \<or> i = 509 then 0 else (replicate 510 0 @ [0x55, 0xaa]) ! i)"
    "\<forall>i. 524 \<le> i \<and> i < length img \<longrightarrow> img ! i = (replicate 12 1 @ [7]) ! (i - 512)"
    by auto
  from img(2) img(7)[rule_format, of 524] have "img ! 524 = 7" by (simp add: nth_append)
  moreover from img(6)[rule_format, of 0] have "img ! 0 = 0" by (simp add: nth_append)
  ultimately show ?thesis using img by blast
qed

end
