(* ===== verification/Boot.thy ===== *)
theory Boot
  imports Contracts Build
begin

text \<open>
  From the boot sector to user mode: the segment descriptors and the task state segment
  (\<open>zeos/include/types.h\<close>, \<open>zeos/mm.c\<close>, the table in \<open>zeos/bootsect.S\<close>), the register operations of
  \<open>zeos/hardware.c\<close> and \<open>main\<close> of \<open>zeos/system.c\<close>. The addresses that the linker chooses are a record;
  \<open>set_handlers\<close> and \<open>zeos_init_auxjp\<close> come from binary libraries and are arguments; the second works on the whole state
  of the machine at boot, since it opens a gate of the interrupt table.
\<close>

section \<open>Descriptors\<close>

record Descriptor =
  limit :: Word16
  lowBase :: Word16
  midBase :: Byte
  flags1 :: Byte
  flags2 :: Byte
  highBase :: Byte

definition midByte :: "DWord \<Rightarrow> Byte" where "midByte a = ucast (drop_bit 16 a AND 0xFF)"
definition highByte :: "DWord \<Rightarrow> Byte" where "highByte a = ucast (drop_bit (16 + 8) a AND 0xFF)"

definition KERNEL_TSS :: Word16 where [simp]: "KERNEL_TSS = 0x30"
definition GDT_START :: DWord where [simp]: "GDT_START = 0x901b3"

text \<open>The table of the boot sector; the TSS has no base yet.\<close>

definition boot_gdt :: "Descriptor list" where
  "boot_gdt =
     [\<lparr>limit = 0, lowBase = 0, midBase = 0, flags1 = 0, flags2 = 0, highBase = 0\<rparr>,
      \<lparr>limit = 0, lowBase = 0, midBase = 0, flags1 = 0, flags2 = 0, highBase = 0\<rparr>,
      \<lparr>limit = 0xFFFF, lowBase = 0, midBase = 0, flags1 = 0x9a, flags2 = 0xcf, highBase = 0\<rparr>,
      \<lparr>limit = 0xFFFF, lowBase = 0, midBase = 0, flags1 = 0x92, flags2 = 0xcf, highBase = 0\<rparr>,
      \<lparr>limit = 0xFFFF, lowBase = 0, midBase = 0, flags1 = 0xfa, flags2 = 0xcf, highBase = 0\<rparr>,
      \<lparr>limit = 0xFFFF, lowBase = 0, midBase = 0, flags1 = 0xf2, flags2 = 0xcf, highBase = 0\<rparr>,
      \<lparr>limit = 104, lowBase = 0, midBase = 0, flags1 = 0x89, flags2 = 0, highBase = 0\<rparr>]"

definition setGdt :: "DWord \<Rightarrow> Descriptor list \<Rightarrow> descriptor_register \<times> Descriptor list" where
  "setGdt tss_addr g =
     (let i = unat (drop_bit 3 KERNEL_TSS);
          g1 = g[i := (g ! i)\<lparr>lowBase := lowWord tss_addr, midBase := midByte tss_addr, highBase := highByte tss_addr\<rparr>]
      in (\<lparr>reg_base = GDT_START, reg_limit = 256 * 8\<rparr>, g1))"

text \<open>The base and the privilege level as the processor reads them.\<close>

definition descriptor_base :: "Descriptor \<Rightarrow> DWord" where
  "descriptor_base d = push_bit 24 (ucast (highBase d)) OR push_bit 16 (ucast (midBase d)) OR ucast (lowBase d)"

definition descriptor_dpl :: "Descriptor \<Rightarrow> Byte" where
  "descriptor_dpl d = take_bit 2 (drop_bit 5 (flags1 d))"

lemma descriptor_base_tss:
  "descriptor_base (d\<lparr>lowBase := lowWord a, midBase := midByte a, highBase := highByte a\<rparr>) = a"
proof (rule bit_word_eqI)
  have m: "(0xFFFF :: DWord) = mask 16" "(0xFF :: DWord) = mask 8" by (simp_all add: mask_eq_exp_minus_1)
  fix n assume n: "n < LENGTH(32)"
  consider "n < 16" | "16 \<le> n" "n < 24" | "24 \<le> n" by linarith
  then show "bit (descriptor_base (d\<lparr>lowBase := lowWord a, midBase := midByte a, highBase := highByte a\<rparr>)) n = bit a n"
    using n by cases (auto simp: descriptor_base_def lowWord_def midByte_def highByte_def m bit_simps)
qed

section \<open>The task state segment and the registers\<close>

definition INITIAL_EFLAGS :: DWord where [simp]: "INITIAL_EFLAGS = 0x200"
definition KERNEL_START :: DWord where [simp]: "KERNEL_START = 0x10000"
definition PH_USER_START :: DWord where [simp]: "PH_USER_START = 0x100000"
definition USER_ESP :: DWord where [simp]: "USER_ESP = 0x100000 + (8 + 20) * 0x1000 - 16"

text \<open>\<open>esp0\<close> is \<open>tss_esp0\<close> of the kernel state: the task on whose stack the kernel is entered.\<close>

record TSS =
  PreviousTaskLink :: Word16
  tss_ss0 :: Word16
  tss_esp1 :: DWord
  tss_ss1 :: Word16
  tss_esp2 :: DWord
  tss_ss2 :: Word16
  tss_cr3 :: DWord
  tss_eip :: DWord
  tss_eFlags :: DWord
  tss_eax :: DWord
  tss_ecx :: DWord
  tss_edx :: DWord
  tss_ebx :: DWord
  tss_esp :: DWord
  tss_ebp :: DWord
  tss_esi :: DWord
  tss_edi :: DWord
  tss_es :: Word16
  tss_cs :: Word16
  tss_ss :: Word16
  tss_ds :: Word16
  tss_fs :: Word16
  tss_gs :: Word16
  LDTSegmentSelector :: Word16
  debugTrap :: Word16
  IOMapBaseAddress :: Word16

record cpu =
  r_ds :: Word16
  r_es :: Word16
  r_fs :: Word16
  r_gs :: Word16
  r_ss :: Word16
  r_cs :: Word16
  r_esp :: DWord
  r_eip :: DWord
  r_eflags :: DWord
  r_cr0 :: DWord
  r_gdtr :: descriptor_register
  r_idtr :: descriptor_register
  r_tr :: Word16

record boot =
  kern :: kstate
  gdt :: "Descriptor list"
  tss :: TSS
  idt_table :: idt
  proc :: cpu
  master_mask :: Byte

record addresses =
  tss_address :: DWord
  idt_address :: DWord
  keyboard_handler :: DWord
  clock_handler :: DWord
  syscall_handler :: DWord
  main_stack :: DWord

definition setTSS :: "boot \<Rightarrow> boot" where
  "setTSS b =
     b\<lparr>tss := \<lparr>PreviousTaskLink = 0, tss_ss0 = KERNEL_DS, tss_esp1 = 0, tss_ss1 = 0, tss_esp2 = 0, tss_ss2 = 0,
          tss_cr3 = 0, tss_eip = 0, tss_eFlags = INITIAL_EFLAGS, tss_eax = 0, tss_ecx = 0, tss_edx = 0, tss_ebx = 0,
          tss_esp = USER_ESP, tss_ebp = USER_ESP, tss_esi = 0, tss_edi = 0, tss_es = USER_DS, tss_cs = USER_CS,
          tss_ss = USER_DS, tss_ds = USER_DS, tss_fs = 0, tss_gs = 0, LDTSegmentSelector = KERNEL_TSS,
          debugTrap = 0, IOMapBaseAddress = 0\<rparr>,
       kern := (kern b)\<lparr>tss_esp0 := 1\<rparr>,
       proc := (proc b)\<lparr>r_tr := KERNEL_TSS\<rparr>\<rparr>"

definition set_eflags :: "cpu \<Rightarrow> cpu" where "set_eflags c = c\<lparr>r_eflags := 0\<rparr>"

definition set_seg_regs :: "Word16 \<Rightarrow> Word16 \<Rightarrow> DWord \<Rightarrow> cpu \<Rightarrow> cpu" where
  "set_seg_regs data_sel stack_sel esp c =
     c\<lparr>r_ds := data_sel, r_es := data_sel, r_fs := data_sel, r_gs := data_sel, r_ss := stack_sel, r_esp := esp - 5 * 4\<rparr>"

definition set_pe_flag :: "cpu \<Rightarrow> cpu" where "set_pe_flag c = c\<lparr>r_cr0 := r_cr0 c OR 0x80000000\<rparr>"

definition set_gdt_reg :: "descriptor_register \<Rightarrow> cpu \<Rightarrow> cpu" where "set_gdt_reg r c = c\<lparr>r_gdtr := r\<rparr>"

definition set_idt_reg :: "descriptor_register \<Rightarrow> cpu \<Rightarrow> cpu" where "set_idt_reg r c = c\<lparr>r_idtr := r\<rparr>"

text \<open>\<open>enable_int\<close>: the mask of the master controller, then \<open>sti\<close>.\<close>

definition enable_int :: "boot \<Rightarrow> boot" where
  "enable_int b = b\<lparr>master_mask := 0xfc, proc := (proc b)\<lparr>r_eflags := r_eflags (proc b) OR 0x200\<rparr>\<rparr>"

definition dword_at :: "DWord \<Rightarrow> mm \<Rightarrow> DWord option" where
  "dword_at a m = map_option (\<lambda>bs. of_nat (le32 bs 0)) (get_user a 4 m)"

text \<open>
  \<open>return_gate\<close>: a word goes to the user stack, and \<open>lret\<close> to the outer level loads CS:EIP and SS:ESP.
\<close>

definition return_gate :: "Word16 \<Rightarrow> Word16 \<Rightarrow> DWord \<Rightarrow> Word16 \<Rightarrow> DWord \<Rightarrow> boot \<Rightarrow> boot option" where
  "return_gate ds ss esp cs eip b = do {
     v \<leftarrow> dword_at (KERNEL_START + 8) (mem (kern b));
     k \<leftarrow> on_mem (put_user (esp + 12) (dword_bytes v)) (kern b);
     Some (b\<lparr>kern := enter_user k, proc := (proc b)\<lparr>r_es := ds, r_ds := ds, r_ss := ss, r_esp := esp, r_cs := cs, r_eip := eip\<rparr>\<rparr>)
   }"

section \<open>The main program\<close>

definition c_string :: "string \<Rightarrow> Byte list" where
  "c_string s = map of_char s @ [0]"

definition print :: "string \<Rightarrow> boot \<Rightarrow> boot option" where
  "print s b = map_option (\<lambda>d. b\<lparr>kern := (kern b)\<lparr>scr := d\<rparr>\<rparr>) (printk (c_string s) (scr (kern b)))"

definition main :: "(idt \<Rightarrow> idt) \<Rightarrow> (boot \<Rightarrow> boot) \<Rightarrow> addresses \<Rightarrow> boot \<Rightarrow> boot option" where
  "main set_handlers zeos_init_auxjp ad b = do {
     let b1 = b\<lparr>proc := set_seg_regs KERNEL_DS KERNEL_DS (main_stack ad) (set_eflags (proc b))\<rparr>;
     b2 \<leftarrow> print ''Kernel Loaded!    '' b1;
     let (gdtR, g) = setGdt (tss_address ad) (gdt b2);
     let b3 = b2\<lparr>gdt := g, proc := set_gdt_reg gdtR (proc b2)\<rparr>;
     (idtR, t) \<leftarrow> setIdt set_handlers (idt_address ad) (keyboard_handler ad) (clock_handler ad) (syscall_handler ad) (idt_table b3);
     let b4 = b3\<lparr>idt_table := t, proc := set_idt_reg idtR (proc b3)\<rparr>;
     let b5 = setTSS b4;
     k \<leftarrow> init_kernel (kern b5);
     let b6 = b5\<lparr>kern := k, proc := set_pe_flag (proc b5)\<rparr>;
     p_sys_size \<leftarrow> dword_at KERNEL_START (mem (kern b6));
     p_usr_size \<leftarrow> dword_at (KERNEL_START + 4) (mem (kern b6));
     k7 \<leftarrow> on_mem (\<lambda>m. on_pmem (copy_data (vtrans m) (KERNEL_START + p_sys_size) PH_USER_START (sint p_usr_size)) m) (kern b6);
     b8 \<leftarrow> print ''Entering user mode...'' (b6\<lparr>kern := k7\<rparr>);
     let b9 = zeos_init_auxjp (b8\<lparr>kern := (kern b8)\<lparr>zeos_ticks := 0\<rparr>\<rparr>);
     return_gate USER_DS USER_DS USER_ESP USER_CS (of_nat L_USER_START) (enable_int b9)
   }"

section \<open>Memory at the end of the initialisation\<close>

lemma init_table_pages_table:
  assumes "j < NR_TASKS"
  shows "\<exists>t. pagusr_table (init_table_pages m) (pagusr_page0 m + of_nat j) = init_table (tasks_page0 m) (tasks_page0 m + 11) t"
proof -
  define g where "g = (\<lambda>j (m :: mm). let PT = pagusr_page0 m + of_nat j in m\<lparr>pagusr_table := (pagusr_table m)
     (PT := init_table (tasks_page0 m) (tasks_page0 m + 11) (pagusr_table m PT))\<rparr>)"
  have g: "g j x = x\<lparr>pagusr_table := (pagusr_table x)(pagusr_page0 x + of_nat j :=
     init_table (tasks_page0 x) (tasks_page0 x + 11) (pagusr_table x (pagusr_page0 x + of_nat j)))\<rparr>" for j x
    by (simp add: g_def Let_def)
  have "pagusr_page0 (fold g [0..<n] m) = pagusr_page0 m \<and> tasks_page0 (fold g [0..<n] m) = tasks_page0 m \<and>
      (\<forall>j < n. \<exists>t. pagusr_table (fold g [0..<n] m) (pagusr_page0 m + of_nat j) = init_table (tasks_page0 m) (tasks_page0 m + 11) t)" for n
  proof (induction n)
    case (Suc n)
    then show ?case by (auto simp: g less_Suc_eq)
  qed simp
  then show ?thesis using assms unfolding init_table_pages_def g_def by blast
qed

text \<open>The linker places the page tables below 4 GB and the task array in kernel pages.\<close>

lemma init_mm_kernel_page:
  assumes "j < NR_TASKS" and "unat (pagusr_page0 m) + NR_TASKS \<le> 2 ^ 20"
    and "1 \<le> p" "p < NUM_PAG_KERNEL" "p \<noteq> tasks_page0 m" "p \<noteq> tasks_page0 m + 11"
  defines "e \<equiv> pagusr_table (init_mm m) (get_PT_of j (init_mm m)) p"
  shows "pte_present e" and "pte_pbase e = of_nat p"
proof -
  have u: "unat (pagusr_page0 m + of_nat j) = unat (pagusr_page0 m) + j"
    using assms(1,2) by (simp add: unat_word_ariths unsigned_of_nat take_bit_nat_eq_self)
  have "take_bit 20 (pagusr_page0 m + of_nat j) = pagusr_page0 m + of_nat j"
    by (rule word_unat_eq_iff[THEN iffD2]) (use u assms(1,2) in \<open>simp add: unsigned_take_bit_eq take_bit_nat_eq_self\<close>)
  then have pt: "get_PT_of j (init_mm m) = pagusr_page0 m + of_nat j" using init_mm_facts(3)[OF assms(1), of m] by simp
  obtain t where "pagusr_table (init_mm m) (pagusr_page0 m + of_nat j) = init_table (tasks_page0 m) (tasks_page0 m + 11) t"
    using init_table_pages_table[OF assms(1), of m] init_mm_facts(4)[of m] by auto
  then have e: "e = set_present 1 (set_rw 1 (set_pbase (of_nat p) 0))"
    unfolding e_def pt using init_table_entry[of p "tasks_page0 m" "tasks_page0 m + 11" t] assms(3-6) by simp
  have "take_bit 20 (of_nat p :: DWord) = of_nat p"
    by (rule word_unat_eq_iff[THEN iffD2]) (use assms(4) in \<open>simp add: unsigned_take_bit_eq unsigned_of_nat take_bit_nat_eq_self\<close>)
  then show "pte_present e" "pte_pbase e = of_nat p" by (simp_all add: e)
qed

text \<open>A logical address as page and offset.\<close>

lemma vtrans_nat:
  assumes "a div 4096 < TOTAL_PAGES" and "pte_present (pagusr_table m (get_PT_of (cr3_dir m) m) (a div 4096))"
  shows "vtrans m (of_nat a) = Some (pte_pbase (pagusr_table m (get_PT_of (cr3_dir m) m) (a div 4096)), a mod 4096)"
proof -
  have "page_addr (a div 4096) + of_nat (a mod 4096) = (of_nat a :: DWord)"
  proof (rule word_unat_eq_iff[THEN iffD2])
    have "a < 2 ^ 32" using assms(1) by simp
    then show "unat (page_addr (a div 4096) + of_nat (a mod 4096)) = unat (of_nat a :: DWord)"
      using page_addr_unat[of "a div 4096" "a mod 4096"] assms(1)
      by (simp add: unsigned_of_nat take_bit_nat_eq_self div_mult_mod_eq)
  qed
  with vtrans_page[OF assms(1) _ assms(2), of "a mod 4096"] show ?thesis by simp
qed

text \<open>
  The address space in which \<open>main\<close> ends: kernel pages are mapped to themselves, the pages of process 1
  to frames of their own above the kernel's.
\<close>

definition boot_space :: "nat set \<Rightarrow> mm \<Rightarrow> bool" where
  "boot_space K m \<longleftrightarrow> (let t = pagusr_table m (get_PT_of (cr3_dir m) m) in
     (\<forall>p \<in> K. pte_present (t p) \<and> pte_pbase (t p) = of_nat p) \<and>
     (\<forall>p \<in> {256..<284}. pte_present (t p) \<and> 256 \<le> unat (pte_pbase (t p))) \<and>
     inj_on (\<lambda>p. pte_pbase (t p)) {256..<284})"

definition user_loc :: "mm \<Rightarrow> nat \<Rightarrow> DWord \<times> nat" where
  "user_loc m i = (pte_pbase (pagusr_table m (get_PT_of (cr3_dir m) m) (256 + i div 4096)), i mod 4096)"

definition kernel_loc :: "nat \<Rightarrow> DWord \<times> nat" where
  "kernel_loc a = (of_nat (a div 4096), a mod 4096)"

lemma boot_space_user: "boot_space K m \<Longrightarrow> i < 28 * 4096 \<Longrightarrow> vtrans m (of_nat (0x100000 + i)) = Some (user_loc m i)"
proof -
  assume b: "boot_space K m" and i: "i < 28 * 4096"
  have d: "(0x100000 + i) div 4096 = 256 + i div 4096" "(0x100000 + i) mod 4096 = i mod 4096"
    using div_mult_self3[of 4096 256 i] mod_mult_self3[of 256 4096 i] by simp_all
  have "256 + i div 4096 \<in> {256..<284}" using i by auto
  with b vtrans_nat[of "0x100000 + i" m] show ?thesis
    unfolding d boot_space_def user_loc_def Let_def by auto
qed

lemma boot_space_kernel:
  "boot_space K m \<Longrightarrow> a div 4096 \<in> K \<Longrightarrow> a div 4096 < 256 \<Longrightarrow> vtrans m (of_nat a) = Some (kernel_loc a)"
  using vtrans_nat[of a m] by (auto simp: boot_space_def kernel_loc_def Let_def)

lemma user_loc_inj: "boot_space K m \<Longrightarrow> i < 28 * 4096 \<Longrightarrow> j < 28 * 4096 \<Longrightarrow> user_loc m i = user_loc m j \<Longrightarrow> i = j"
proof -
  assume b: "boot_space K m" and ij: "i < 28 * 4096" "j < 28 * 4096" and e: "user_loc m i = user_loc m j"
  have "256 + i div 4096 = 256 + j div 4096"
    using b e ij unfolding boot_space_def user_loc_def Let_def by (elim conjE inj_onD) auto
  moreover have "i mod 4096 = j mod 4096" using e by (simp add: user_loc_def)
  ultimately show "i = j" by (metis add_left_cancel div_mult_mod_eq)
qed

lemma user_loc_kernel: "boot_space K m \<Longrightarrow> i < 28 * 4096 \<Longrightarrow> a div 4096 < 256 \<Longrightarrow> kernel_loc a \<noteq> user_loc m i"
proof -
  assume b: "boot_space K m" and i: "i < 28 * 4096" and a: "a div 4096 < 256"
  have "256 \<le> unat (fst (user_loc m i))" using b i unfolding boot_space_def user_loc_def Let_def by auto
  moreover have "unat (fst (kernel_loc a)) < 256" using a by (simp add: kernel_loc_def unsigned_of_nat take_bit_nat_eq_self)
  ultimately show ?thesis by auto
qed

lemma copy_program:
  assumes b: "boot_space K m" and n: "n \<le> 28 * 4096" and K: "\<And>i. i < n \<Longrightarrow> (a + i) div 4096 \<in> K \<and> (a + i) div 4096 < 256"
  shows "\<exists>m'. on_pmem (copy_data (vtrans m) (of_nat a) 0x100000 (int n)) m = Some m' \<and> m' = m\<lparr>pmem := pmem m'\<rparr> \<and>
    (\<forall>i < n. case_prod (pmem m') (user_loc m i) = case_prod (pmem m) (kernel_loc (a + i))) \<and>
    (\<forall>x. x div 4096 < 256 \<longrightarrow> case_prod (pmem m') (kernel_loc x) = case_prod (pmem m) (kernel_loc x))"
proof -
  let ?s = "\<lambda>i. kernel_loc (a + i)" and ?d = "user_loc m" and ?c = "case_prod (pmem m)"
  have "regions (vtrans m) (of_nat a) ?s n"
    using boot_space_kernel[OF b] K unfolding regions_def by (metis of_nat_add)
  moreover have "vtrans m (0x100000 + of_nat i) = Some (?d i)" if "i < n" for i
    using boot_space_user[OF b, of i] that n by simp
  then have "regions (vtrans m) 0x100000 ?d n" by (simp add: regions_def)
  moreover have "separate ?s ?d n"
    unfolding separate_def using user_loc_inj[OF b] user_loc_kernel[OF b] K n by (meson less_le_trans)
  ultimately obtain c' where c': "copy_loop (vtrans m) (of_nat a) 0x100000 (int n) ?c = Some c'" "copied ?s ?d n ?c c'"
    using copy_loop_copied by blast
  let ?m = "m\<lparr>pmem := curry c'\<rparr>"
  have cc: "case_prod (pmem ?m) = c'" by simp
  have "c' (kernel_loc x) = ?c (kernel_loc x)" if "x div 4096 < 256" for x
  proof -
    have "kernel_loc x \<notin> ?d ` {..<n}" using user_loc_kernel[OF b _ that] n by (metis imageE lessThan_iff less_le_trans)
    then show ?thesis using c'(2) unfolding copied_def by metis
  qed
  then show ?thesis using c' cc by (intro exI[of _ ?m]) (simp add: on_pmem_def copy_data_def copied_def)
qed

lemma init_mm_pmem: "pmem (init_mm m) = pmem m" "cr3_dir (init_mm m) = cr3_dir m"
proof -
  have "pmem (init_table_pages m) = pmem m" "cr3_dir (init_table_pages m) = cr3_dir m"
    by (subst init_table_pages_fold, simp)+
  then show "pmem (init_mm m) = pmem m" "cr3_dir (init_mm m) = cr3_dir m"
    by (simp_all add: init_mm_def init_dir_pages_fold init_frames_def Let_def)
qed

definition kernel_pages :: "kstate \<Rightarrow> nat set" where
  "kernel_pages s = {p. 1 \<le> p \<and> p < 256 \<and> p \<noteq> tasks_page0 (mem s) \<and> p \<noteq> tasks_page0 (mem s) + 11}"

lemma init_kernel_space:
  assumes f: "fresh_image s" and l: "unat (pagusr_page0 (mem s)) + NR_TASKS \<le> 2 ^ 20" and i: "init_kernel s = Some s'"
  shows "boot_space (kernel_pages s) (mem s')" and "pmem (mem s') = pmem (mem s)"
proof -
  let ?m0 = "(init_mm (mem s))\<lparr>dirCounter := (dirCounter (mem s))(0 := 1, 1 := 1)\<rparr>"
  obtain m where m: "set_user_pages 1 ?m0 = Some m" "mem s' = set_cr3 1 m"
    using init_kernel_ok[OF f] i by auto
  have "card (frame_pool_set - used_frames ?m0) = 384" using init_mm_frames_left[of "mem s"] by (simp add: used_frames_def)
  then have "28 \<le> card (frame_pool_set - used_frames ?m0)" by simp
  from set_user_pages_maps[OF this, of 1] m(1) have
    mf: "maps_fresh ?m0 (get_PT_of 1 ?m0) {PAG_LOG_INIT_CODE..<HEAP_INIT_PAGE} m" and
    pr: "\<And>p. p \<in> {PAG_LOG_INIT_CODE..<PAG_LOG_INIT_DATA} \<Longrightarrow> pte_present (pagusr_table m (get_PT_of 1 ?m0) p)"
      "\<And>p. p \<in> {PAG_LOG_INIT_DATA..<HEAP_INIT_PAGE} \<Longrightarrow> pte_present (pagusr_table m (get_PT_of 1 ?m0) p)"
    by (auto simp: Let_def)
  have r: "m = ?m0\<lparr>phys_mem := phys_mem m, pagusr_table := pagusr_table m\<rparr>" using mf by (simp add: maps_fresh_def)
  have "pmem m = pmem ?m0" "dir_pages m = dir_pages ?m0" by (subst r, simp)+
  then show "pmem (mem s') = pmem (mem s)" by (simp add: m(2) set_cr3_def init_mm_pmem)
  have pt: "get_PT_of (cr3_dir (mem s')) (mem s') = get_PT_of 1 ?m0" "pagusr_table (mem s') = pagusr_table m"
    using \<open>dir_pages m = dir_pages ?m0\<close> by (simp_all add: m(2) set_cr3_def get_PT_of_def)
  have pt0: "get_PT_of 1 ?m0 = get_PT_of 1 (init_mm (mem s))" by (simp add: get_PT_of_def)
  have k: "pagusr_table m (get_PT_of 1 ?m0) p = pagusr_table (init_mm (mem s)) (get_PT_of 1 (init_mm (mem s))) p" if "p < 256" for p
    using mf that unfolding maps_fresh_def pt0 by simp
  have split: "p \<in> {PAG_LOG_INIT_CODE..<PAG_LOG_INIT_DATA} \<or> p \<in> {PAG_LOG_INIT_DATA..<HEAP_INIT_PAGE}" if "p \<in> {256..<284}" for p
    using that by auto
  show "boot_space (kernel_pages s) (mem s')"
    unfolding boot_space_def Let_def pt
  proof (intro conjI ballI)
    fix p assume p: "p \<in> kernel_pages s"
    show "pte_present (pagusr_table m (get_PT_of 1 ?m0) p)" "pte_pbase (pagusr_table m (get_PT_of 1 ?m0) p) = of_nat p"
      using k[of p] init_mm_kernel_page[of 1 "mem s" p] p l by (simp_all add: kernel_pages_def)
  next
    fix p :: nat assume p: "p \<in> {256..<284}"
    show "pte_present (pagusr_table m (get_PT_of 1 ?m0) p)" using pr split[OF p] by blast
    have "page_frame m (get_PT_of 1 ?m0) p \<in> frame_pool_set" using mf p by (auto simp: maps_fresh_def)
    then show "256 \<le> unat (pte_pbase (pagusr_table m (get_PT_of 1 ?m0) p))" by (simp add: page_frame_def frame_pool_set_def)
  next
    have "inj_on (page_frame m (get_PT_of 1 ?m0)) {256..<284}" using mf by (simp add: maps_fresh_def)
    then show "inj_on (\<lambda>p. pte_pbase (pagusr_table m (get_PT_of 1 ?m0) p)) {256..<284}"
      by (auto simp: inj_on_def page_frame_def)
  qed
qed

section \<open>Reading and writing the memory of the image\<close>

lemma get_user_bytes:
  "\<forall>i < n. vtrans m (a + of_nat i) = Some (l i) \<Longrightarrow> get_user a n m = Some (map (\<lambda>i. case_prod (pmem m) (l i)) [0..<n])"
proof (induction n arbitrary: a l)
  case (Suc n)
  have "\<forall>i < n. vtrans m (a + 1 + of_nat i) = Some (l (Suc i))"
    using Suc.prems by (auto simp: add.assoc dest: spec[of _ "Suc _"])
  from Suc.IH[OF this] Suc.prems[rule_format, of 0] show ?case
    by (simp add: rd8_def map_upt_Suc del: upt_Suc)
qed simp

lemma put_user_frame:
  assumes "\<forall>i < length bs. vtrans m (a + of_nat i) = Some (l i)"
  shows "\<exists>m'. put_user a bs m = Some m' \<and> m' = m\<lparr>pmem := pmem m'\<rparr> \<and>
    (\<forall>x. x \<notin> l ` {..<length bs} \<longrightarrow> case_prod (pmem m') x = case_prod (pmem m) x)"
proof -
  define P where "P done c \<longleftrightarrow> (\<forall>x. x \<notin> l ` {..<length bs} \<longrightarrow> c x = case_prod (pmem m) x)"
    for "done" :: "nat list" and c :: "DWord \<times> nat \<Rightarrow> Byte"
  have "\<exists>c. foldM (\<lambda>i c. wr8 (vtrans m) (a + of_nat i) (bs ! i) c) [0..<length bs] (case_prod (pmem m)) = Some c \<and> P [0..<length bs] c"
  proof (rule foldM_rule)
    show "P [] (case_prod (pmem m))" by (simp add: P_def)
    fix "done" i c assume c: "P done c" and "\<exists>rest. [0..<length bs] = done @ i # rest"
    then have "i \<in> set [0..<length bs]" by (metis in_set_conv_decomp)
    then have i: "i < length bs" by simp
    then have "wr8 (vtrans m) (a + of_nat i) (bs ! i) c = Some (c(l i := bs ! i))" using assms by (simp add: wr8_def)
    moreover have "P (done @ [i]) (c(l i := bs ! i))" using c i unfolding P_def by (metis fun_upd_other imageI lessThan_iff)
    ultimately show "\<exists>c'. wr8 (vtrans m) (a + of_nat i) (bs ! i) c = Some c' \<and> P (done @ [i]) c'" by blast
  qed
  then obtain c where "foldM (\<lambda>i c. wr8 (vtrans m) (a + of_nat i) (bs ! i) c) [0..<length bs] (case_prod (pmem m)) = Some c"
    "P [0..<length bs] c" by blast
  then show ?thesis by (intro exI[of _ "m\<lparr>pmem := curry c\<rparr>"]) (simp add: put_user_def on_pmem_def P_def)
qed

text \<open>The boot sector loads the image from its second sector on at \<open>0x10000\<close>.\<close>

definition loaded :: "Byte list \<Rightarrow> mm \<Rightarrow> bool" where
  "loaded bs m \<longleftrightarrow> (\<forall>i < length bs. case_prod (pmem m) (kernel_loc (0x10000 + i)) = bs ! i)"

lemma dword_at_loaded:
  assumes b: "boot_space K m" and "16 \<in> K" and l: "loaded bs m" and k: "k + 4 \<le> length bs" "k + 4 \<le> 4096"
  shows "dword_at (0x10000 + of_nat k) m = Some (of_nat (le32 bs k))"
proof -
  have v: "vtrans m (0x10000 + of_nat k + of_nat i) = Some (kernel_loc (0x10000 + (k + i)))" if "i < 4" for i
  proof -
    have "(0x10000 + (k + i)) div 4096 = 16" using div_mult_self3[of 4096 16 "k + i"] that k(2) by simp
    from boot_space_kernel[OF b, of "0x10000 + (k + i)"] this assms(2) show ?thesis by (simp add: add.assoc)
  qed
  have "get_user (0x10000 + of_nat k) 4 m = Some (map (\<lambda>i. case_prod (pmem m) (kernel_loc (0x10000 + (k + i)))) [0..<4])"
    by (rule get_user_bytes) (use v in simp)
  also have "map (\<lambda>i. case_prod (pmem m) (kernel_loc (0x10000 + (k + i)))) [0..<4] = map (\<lambda>i. bs ! (k + i)) [0..<4]"
    using l k(1) by (intro map_cong refl) (simp add: loaded_def)
  moreover have "[0..<4] = [0, 1, 2, 3 :: nat]" by (simp add: upt_rec)
  ultimately have "get_user (0x10000 + of_nat k) 4 m = Some [bs ! k, bs ! (k + 1), bs ! (k + 2), bs ! (k + 3)]" by simp
  then show ?thesis unfolding dword_at_def by (simp only: le32_def option.map nth_Cons_0) (simp add: nth_Cons')
qed

section \<open>The kernel starts the user program\<close>

lemma print_total:
  "\<forall>c \<in> set s. (of_char c :: Byte) \<noteq> 0 \<Longrightarrow> print s b = Some (b\<lparr>kern := (kern b)\<lparr>scr := fold printc (map of_char s) (scr (kern b))\<rparr>\<rparr>)"
  using printk_prints[of "map of_char s" "scr (kern b)"] by (simp add: print_def c_string_def)

lemma setIdt_some: "setIdt f a k c y t = Some (\<lparr>reg_base = a, reg_limit = 2047\<rparr>,
    (f t)(33 := \<lparr>lowOffset = lowWord k, segmentSelector = KERNEL_CS, gate_flags = 0x8E00, highOffset = highWord k\<rparr>,
          32 := \<lparr>lowOffset = lowWord c, segmentSelector = KERNEL_CS, gate_flags = 0x8E00, highOffset = highWord c\<rparr>,
          0x80 := \<lparr>lowOffset = lowWord y, segmentSelector = KERNEL_CS, gate_flags = 0xEE00, highOffset = highWord y\<rparr>))"
  by (simp add: setIdt_def setInterruptHandler_def setTrapHandler_def Let_def push_bit_eq_mult)

text \<open>What the linker and the boot loader have to provide.\<close>

definition image_fits :: "Byte list \<Rightarrow> nat \<Rightarrow> nat \<Rightarrow> kstate \<Rightarrow> bool" where
  "image_fits bs sys usr s \<longleftrightarrow> loaded bs (mem s) \<and> sys + usr = length bs \<and> 12 \<le> sys \<and> 0x10000 + length bs \<le> 0x100000 \<and>
     le32 bs 0 = sys \<and> le32 bs 4 = usr \<and> usr \<le> 28 * 4096 - 4 \<and>
     unat (pagusr_page0 (mem s)) + NR_TASKS \<le> 2 ^ 20 \<and> 16 < tasks_page0 (mem s) \<and> (tasks_page0 (mem s) + 12) * 4096 \<le> 0x10000 + sys"

lemma program_copied:
  assumes b: "boot_space K m" and l: "loaded bs m" and k: "16 \<in> K"
    and s: "sys + usr = length bs" "12 \<le> sys" "0x10000 + length bs \<le> 0x100000" "le32 bs 0 = sys" "le32 bs 4 = usr" "usr \<le> 28 * 4096 - 4"
    and K: "\<And>i. i < usr \<Longrightarrow> (0x10000 + sys + i) div 4096 \<in> K"
  shows "\<exists>m'. dword_at KERNEL_START m = Some (of_nat sys) \<and> dword_at (KERNEL_START + 4) m = Some (of_nat usr) \<and>
    on_pmem (copy_data (vtrans m) (KERNEL_START + of_nat sys) PH_USER_START (sint (of_nat usr :: DWord))) m = Some m' \<and>
    m' = m\<lparr>pmem := pmem m'\<rparr> \<and> boot_space K m' \<and> loaded bs m' \<and>
    (\<forall>i < usr. case_prod (pmem m') (user_loc m' i) = bs ! (sys + i))"
proof -
  have lo: "(0x10000 + i) div 4096 < 256" if "i < length bs" for i using that s(3) by auto
  have r: "dword_at KERNEL_START m = Some (of_nat sys)" "dword_at (KERNEL_START + 4) m = Some (of_nat usr)"
    using dword_at_loaded[OF b k l, of 0] dword_at_loaded[OF b k l, of 4] s by simp_all
  have sz: "sint (of_nat usr :: DWord) = int usr" using s(6) by (simp add: signed_of_nat signed_take_bit_int_eq_self)
  have c: "i < usr \<Longrightarrow> (0x10000 + sys + i) div 4096 \<in> K \<and> (0x10000 + sys + i) div 4096 < 256" for i
    using K[of i] lo[of "sys + i"] s(1) by (simp add: add.assoc)
  have n: "usr \<le> 28 * 4096" using s(6) by simp
  from copy_program[OF b n c] obtain m' where m': "on_pmem (copy_data (vtrans m) (of_nat (0x10000 + sys)) 0x100000 (int usr)) m = Some m'"
    "m' = m\<lparr>pmem := pmem m'\<rparr>" "\<forall>i < usr. case_prod (pmem m') (user_loc m i) = case_prod (pmem m) (kernel_loc (0x10000 + sys + i))"
    "\<forall>x. x div 4096 < 256 \<longrightarrow> case_prod (pmem m') (kernel_loc x) = case_prod (pmem m) (kernel_loc x)" by blast
  have u: "user_loc m' i = user_loc m i" for i by (subst m'(2)) (simp add: user_loc_def get_PT_of_def)
  have "boot_space K m'" using b by (subst m'(2)) (simp add: boot_space_def get_PT_of_def Let_def)
  moreover have "loaded bs m'" using l m'(4) lo by (simp add: loaded_def)
  moreover have "\<forall>i < usr. case_prod (pmem m') (user_loc m' i) = bs ! (sys + i)"
    using m'(3) l s(1) u by (simp add: loaded_def add.assoc)
  ultimately show ?thesis using r m'(1,2) sz by (intro exI[of _ m']) simp
qed

lemma return_gate_leaves:
  assumes b: "boot_space K (mem (kern c))" and l: "loaded bs (mem (kern c))" and k: "16 \<in> K" and h: "12 \<le> length bs"
  shows "\<exists>m'. return_gate ds ss USER_ESP cs eip c = Some (c\<lparr>kern := enter_user ((kern c)\<lparr>mem := m'\<rparr>),
      proc := (proc c)\<lparr>r_es := ds, r_ds := ds, r_ss := ss, r_esp := USER_ESP, r_cs := cs, r_eip := eip\<rparr>\<rparr>) \<and>
    m' = (mem (kern c))\<lparr>pmem := pmem m'\<rparr> \<and>
    (\<forall>i < 28 * 4096 - 4. case_prod (pmem m') (user_loc m' i) = case_prod (pmem (mem (kern c))) (user_loc (mem (kern c)) i))"
proof -
  let ?m = "mem (kern c)"
  have d: "dword_at (KERNEL_START + 8) ?m = Some (of_nat (le32 bs 8))" using dword_at_loaded[OF b k l, of 8] h by simp
  let ?w = "dword_bytes (of_nat (le32 bs 8))"
  have len: "length ?w = 4" by (simp add: dword_bytes_def)
  have v: "\<forall>i < length ?w. vtrans ?m (USER_ESP + 12 + of_nat i) = Some (user_loc ?m (28 * 4096 - 4 + i))"
  proof (intro allI impI)
    fix i assume "i < length ?w"
    then have "28 * 4096 - 4 + i < 28 * 4096" using len by simp
    from boot_space_user[OF b this] show "vtrans ?m (USER_ESP + 12 + of_nat i) = Some (user_loc ?m (28 * 4096 - 4 + i))" by simp
  qed
  from put_user_frame[OF v] obtain m' where m': "put_user (USER_ESP + 12) ?w ?m = Some m'" "m' = ?m\<lparr>pmem := pmem m'\<rparr>"
    "\<forall>x. x \<notin> (\<lambda>i. user_loc ?m (28 * 4096 - 4 + i)) ` {..<length ?w} \<longrightarrow> case_prod (pmem m') x = case_prod (pmem ?m) x" by blast
  have u: "user_loc m' i = user_loc ?m i" for i by (subst m'(2)) (simp add: user_loc_def get_PT_of_def)
  have "case_prod (pmem m') (user_loc m' i) = case_prod (pmem ?m) (user_loc ?m i)" if i: "i < 28 * 4096 - 4" for i
  proof -
    have "user_loc ?m i \<noteq> user_loc ?m (28 * 4096 - 4 + j)" if "j < 4" for j
      using user_loc_inj[OF b, of i "28 * 4096 - 4 + j"] i that by fastforce
    then have "user_loc ?m i \<notin> (\<lambda>i. user_loc ?m (28 * 4096 - 4 + i)) ` {..<length ?w}" using len by auto
    with m'(3) show ?thesis unfolding u by blast
  qed
  then show ?thesis using d m'(1,2) by (intro exI[of _ m']) (simp add: return_gate_def on_mem_def)
qed

text \<open>The kernel before it leaves: its tables, and the user program at its place.\<close>

lemma kernel_prepared:
  assumes fresh: "fresh_image k" "cb_ok (keyb k)" "\<not> cbfull (keyb k)" "\<forall>t. read_fits (kcont k t)"
    and img: "image_fits bs sys usr k"
  shows "\<exists>k2 m3 K. init_kernel (k\<lparr>scr := d, tss_esp0 := 1\<rparr>) = Some k2 \<and> kinv (enter_user k2) \<and> tss_esp0 k2 = 1 \<and> 16 \<in> K \<and>
    dword_at KERNEL_START (mem k2) = Some (of_nat sys) \<and> dword_at (KERNEL_START + 4) (mem k2) = Some (of_nat usr) \<and>
    on_pmem (copy_data (vtrans (mem k2)) (KERNEL_START + of_nat sys) PH_USER_START (sint (of_nat usr :: DWord))) (mem k2) = Some m3 \<and>
    boot_space K m3 \<and> loaded bs m3 \<and> (\<forall>i < usr. case_prod (pmem m3) (user_loc m3 i) = bs ! (sys + i))"
proof -
  define k1 where "k1 = k\<lparr>scr := d, tss_esp0 := 1\<rparr>"
  have f1: "fresh_image k1" "cb_ok (keyb k1)" "\<not> cbfull (keyb k1)" "\<forall>t. read_fits (kcont k1 t)" "mem k1 = mem k"
    using fresh by (simp_all add: k1_def fresh_image_def)
  from boot_kinv[OF f1(1-4)] init_kernel_ok[OF f1(1)] obtain k2 where k2: "init_kernel k1 = Some k2" "kinv (enter_user k2)" "tss_esp0 k2 = 1"
    by auto
  let ?K = "kernel_pages k1"
  have i: "loaded bs (mem k1)" "sys + usr = length bs" "12 \<le> sys" "0x10000 + length bs \<le> 0x100000" "le32 bs 0 = sys" "le32 bs 4 = usr"
    "usr \<le> 28 * 4096 - 4" "unat (pagusr_page0 (mem k1)) + NR_TASKS \<le> 2 ^ 20" "16 < tasks_page0 (mem k1)"
    "(tasks_page0 (mem k1) + 12) * 4096 \<le> 0x10000 + sys"
    using img f1(5) by (simp_all add: image_fits_def)
  note sp = init_kernel_space[OF f1(1) i(8) k2(1)]
  have l2: "loaded bs (mem k2)" using i(1) sp(2) by (simp add: loaded_def)
  have K16: "16 \<in> ?K" using i(9) by (simp add: kernel_pages_def)
  have KK: "(0x10000 + sys + j) div 4096 \<in> ?K" if "j < usr" for j
  proof -
    have "tasks_page0 (mem k1) + 12 \<le> (0x10000 + sys + j) div 4096" using i(10) by (simp add: less_eq_div_iff_mult_less_eq)
    moreover have "(0x10000 + sys + j) div 4096 < 256" using i(2,4) that by auto
    ultimately show ?thesis by (simp add: kernel_pages_def)
  qed
  from program_copied[OF sp(1) l2 K16 i(2-7) KK] k2 K16 show ?thesis unfolding k1_def by blast
qed

text \<open>The program where user code finds it.\<close>

lemma program_read:
  assumes "boot_space K m" and "usr \<le> 28 * 4096 - 4" and "sys + usr = length bs"
    and "\<forall>i < usr. case_prod (pmem m) (user_loc m i) = bs ! (sys + i)"
  shows "get_user 0x100000 usr m = Some (drop sys bs)"
proof -
  have "\<forall>i < usr. vtrans m (0x100000 + of_nat i) = Some (user_loc m i)"
    using boot_space_user[OF assms(1)] assms(2) by simp
  from get_user_bytes[OF this] have "get_user 0x100000 usr m = Some (map (\<lambda>i. bs ! (sys + i)) [0..<usr])"
    using assms(4) by (simp cong: map_cong)
  also have "map (\<lambda>i. bs ! (sys + i)) [0..<usr] = drop sys bs" using assms(3) by (intro nth_equalityI) simp_all
  finally show ?thesis .
qed

text \<open>The gates of the kernel and the one of the library on top of them.\<close>

lemma boot_gates:
  assumes "\<exists>r t. setIdt f a kb ck sc t0 = Some (r, t) \<and> setTrapHandler 0x82 aux 3 t = Some t'"
  shows "gate_offset (t' 32) = ck" "gate_dpl (t' 32) = 0" "gate_offset (t' 33) = kb" "gate_dpl (t' 33) = 0"
    "gate_offset (t' 0x80) = sc" "gate_dpl (t' 0x80) = 3" "gate_offset (t' 0x82) = aux" "gate_dpl (t' 0x82) = 3"
  using assms by (auto simp: setIdt_some setTrapHandler_def gate_offset_handler gate_dpl_def push_bit_eq_mult)

text \<open>
  What the object code of \<open>zeos_init_auxjp\<close> in \<open>libauxjp.a\<close> does: it clears semaphores of its own, prints, and calls
  \<open>setTrapHandler (0x82, &zeos_call_handler, 3)\<close>. Its own variables, like the kernel's, are not in \<open>pmem\<close>.
\<close>

definition auxjp_initialised :: "DWord \<Rightarrow> boot \<Rightarrow> boot \<Rightarrow> bool" where
  "auxjp_initialised zeos_call_handler b b' \<longleftrightarrow>
     quiet (kern b) (kern b') \<and> mem (kern b') = mem (kern b) \<and> tss_esp0 (kern b') = tss_esp0 (kern b) \<and>
     gdt b' = gdt b \<and> tss b' = tss b \<and> proc b' = proc b \<and> master_mask b' = master_mask b \<and>
     setTrapHandler 0x82 zeos_call_handler 3 (idt_table b) = Some (idt_table b')"

text \<open>
  C4. Boot. When the boot sector has loaded an image below 1 MB whose header gives the sizes of the system
  and of the user program, \<open>main\<close> runs to its end and leaves the processor in user mode at the first
  instruction of the user program, paging on, interrupts enabled for clock and keyboard only; the gates
  of the clock and the keyboard lead to their handlers and are closed to user code, the gate of the system calls
  (0x80) and the one that the linked \<open>libauxjp.a\<close> installs (0x82) lead to theirs and are open to it; the TSS
  descriptor points to the TSS, process 1 is current and the scheduler's invariant holds; and the logical addresses
  from \<open>0x100000\<close> on hold the user program, byte by byte.
\<close>

theorem main_starts_user:
  assumes fresh: "fresh_image (kern b)" "cb_ok (keyb (kern b))" "\<not> cbfull (keyb (kern b))" "\<forall>t. read_fits (kcont (kern b) t)"
    and img: "image_fits bs sys usr (kern b)" and gdt: "length (gdt b) = 7"
    and aux: "\<forall>b. auxjp_initialised zeos_call_handler b (zeos_init_auxjp b)"
  shows "\<exists>b'. main set_handlers zeos_init_auxjp ad b = Some b' \<and> kinv (kern b') \<and> cur (kern b') = 1 \<and>
    get_user 0x100000 usr (mem (kern b')) = Some (drop sys bs) \<and>
    r_cs (proc b') = USER_CS \<and> r_eip (proc b') = 0x100000 \<and> r_ss (proc b') = USER_DS \<and> r_ds (proc b') = USER_DS \<and>
    r_esp (proc b') = USER_ESP \<and> bit (r_cr0 (proc b')) 31 \<and> bit (r_eflags (proc b')) 9 \<and> master_mask b' = 0xFC \<and>
    gate_offset (idt_table b' 32) = clock_handler ad \<and> gate_dpl (idt_table b' 32) = 0 \<and>
    gate_offset (idt_table b' 33) = keyboard_handler ad \<and> gate_dpl (idt_table b' 33) = 0 \<and>
    gate_offset (idt_table b' 0x80) = syscall_handler ad \<and> gate_dpl (idt_table b' 0x80) = 3 \<and>
    gate_offset (idt_table b' 0x82) = zeos_call_handler \<and> gate_dpl (idt_table b' 0x82) = 3 \<and>
    descriptor_base (gdt b' ! 6) = tss_address ad \<and> tss_ss0 (tss b') = KERNEL_DS"
proof -
  define d1 where "d1 = fold printc (map of_char ''Kernel Loaded!    '') (scr (kern b))"
  from kernel_prepared[OF fresh img, of d1] obtain k2 m3 K where k2: "init_kernel ((kern b)\<lparr>scr := d1, tss_esp0 := 1\<rparr>) = Some k2"
      "kinv (enter_user k2)" "tss_esp0 k2 = 1" and K16: "16 \<in> K" and m3: "dword_at KERNEL_START (mem k2) = Some (of_nat sys)"
      "dword_at (KERNEL_START + 4) (mem k2) = Some (of_nat usr)"
      "on_pmem (copy_data (vtrans (mem k2)) (KERNEL_START + of_nat sys) PH_USER_START (sint (of_nat usr :: DWord))) (mem k2) = Some m3"
      "boot_space K m3" "loaded bs m3" "\<forall>i < usr. case_prod (pmem m3) (user_loc m3 i) = bs ! (sys + i)" by blast
  have i: "sys + usr = length bs" "12 \<le> sys" "usr \<le> 28 * 4096 - 4" using img by (simp_all add: image_fits_def)
  define d2 where "d2 = fold printc (map of_char ''Entering user mode...'') (scr k2)"
  define c where "c = setTSS (b\<lparr>gdt := snd (setGdt (tss_address ad) (gdt b)),
      idt_table := snd (the (setIdt set_handlers (idt_address ad) (keyboard_handler ad) (clock_handler ad) (syscall_handler ad) (idt_table b))),
      proc := set_idt_reg \<lparr>reg_base = idt_address ad, reg_limit = 2047\<rparr> (set_gdt_reg \<lparr>reg_base = GDT_START, reg_limit = 256 * 8\<rparr>
        (set_seg_regs KERNEL_DS KERNEL_DS (main_stack ad) (set_eflags (proc b))))\<rparr>)"
  define a where "a = c\<lparr>proc := set_pe_flag (proc c), kern := k2\<lparr>mem := m3, scr := d2, zeos_ticks := 0\<rparr>\<rparr>"
  define k4 where "k4 = kern (zeos_init_auxjp a)"
  have x: "auxjp_initialised zeos_call_handler a (zeos_init_auxjp a)" using aux by simp
  then have a4: "quiet (k2\<lparr>mem := m3, scr := d2, zeos_ticks := 0\<rparr>) k4" "mem k4 = m3" "tss_esp0 k4 = 1"
    "gdt (zeos_init_auxjp a) = gdt c" "tss (zeos_init_auxjp a) = tss c" "proc (zeos_init_auxjp a) = set_pe_flag (proc c)"
    using k2(3) by (simp_all add: k4_def auxjp_initialised_def a_def)
  have inv: "kinv (enter_user (k4\<lparr>mem := m\<rparr>))" for m
    by (rule kinv_quiet[OF k2(2)]) (use a4 k2(3) in \<open>simp add: quiet_def enter_user_def\<close>)
  define d where "d = enable_int (zeos_init_auxjp a)"
  have dk: "kern d = k4" by (simp add: d_def enable_int_def k4_def)
  have bd: "boot_space K (mem (kern d))" "loaded bs (mem (kern d))" "12 \<le> length bs"
    using m3(4,5) a4(2) dk i(1,2) by simp_all
  from return_gate_leaves[OF bd(1,2) K16 bd(3), of USER_DS USER_DS USER_CS "of_nat L_USER_START"] obtain m5 where m5:
    "return_gate USER_DS USER_DS USER_ESP USER_CS (of_nat L_USER_START) d = Some (d\<lparr>kern := enter_user (k4\<lparr>mem := m5\<rparr>),
      proc := (proc d)\<lparr>r_es := USER_DS, r_ds := USER_DS, r_ss := USER_DS, r_esp := USER_ESP, r_cs := USER_CS, r_eip := of_nat L_USER_START\<rparr>\<rparr>)"
    "m5 = m3\<lparr>pmem := pmem m5\<rparr>" "\<forall>i < 28 * 4096 - 4. case_prod (pmem m5) (user_loc m5 i) = case_prod (pmem m3) (user_loc m3 i)"
    unfolding dk a4(2) by blast
  have pk: "print ''Kernel Loaded!    '' x = Some (x\<lparr>kern := (kern x)\<lparr>scr := d1\<rparr>\<rparr>)" if "scr (kern x) = scr (kern b)" for x
    using print_total[of "''Kernel Loaded!    ''" x] that by (simp add: d1_def)
  have pu: "print ''Entering user mode...'' x = Some (x\<lparr>kern := (kern x)\<lparr>scr := d2\<rparr>\<rparr>)" if "scr (kern x) = scr k2" for x
    using print_total[of "''Entering user mode...''" x] that by (simp add: d2_def)
  have run: "main set_handlers zeos_init_auxjp ad b = return_gate USER_DS USER_DS USER_ESP USER_CS (of_nat L_USER_START) d"
    unfolding main_def Let_def
    by (simp add: pk pu setIdt_some setTSS_def k2(1) m3(1-3)[simplified] on_mem_def d_def a_def c_def
        setGdt_def Let_def del: One_nat_def)
  define b' where "b' = d\<lparr>kern := enter_user (k4\<lparr>mem := m5\<rparr>),
      proc := (proc d)\<lparr>r_es := USER_DS, r_ds := USER_DS, r_ss := USER_DS, r_esp := USER_ESP, r_cs := USER_CS, r_eip := of_nat L_USER_START\<rparr>\<rparr>"
  have res: "main set_handlers zeos_init_auxjp ad b = Some b'" using run m5(1) by (simp only: b'_def)
  have k: "kern b' = enter_user (k4\<lparr>mem := m5\<rparr>)" by (simp add: b'_def)
  have m: "mem (kern b') = m5" by (simp add: k enter_user_def)
  have "boot_space K m5" using m3(4) by (subst m5(2)) (simp add: boot_space_def get_PT_of_def Let_def)
  then have prog: "get_user 0x100000 usr (mem (kern b')) = Some (drop sys bs)"
    using program_read[of K m5 usr sys bs] m5(3) m3(6) i(1,3) by (simp add: m)
  have cpu: "r_cs (proc b') = USER_CS" "r_eip (proc b') = 0x100000" "r_ss (proc b') = USER_DS" "r_ds (proc b') = USER_DS"
    "r_esp (proc b') = USER_ESP" "master_mask b' = 0xFC"
    by (simp_all add: b'_def d_def enable_int_def)
  have bits: "bit (r_cr0 (proc b')) 31" "bit (r_eflags (proc b')) 9"
    by (simp_all add: b'_def d_def enable_int_def a4(6) set_pe_flag_def bit_simps)
  have tab: "\<exists>t0 t. setIdt set_handlers (idt_address ad) (keyboard_handler ad) (clock_handler ad) (syscall_handler ad) (idt_table b) = Some (t0, t) \<and>
      setTrapHandler 0x82 zeos_call_handler 3 t = Some (idt_table b')"
    using x by (simp add: b'_def d_def enable_int_def auxjp_initialised_def a_def c_def setTSS_def setIdt_some)
  note gates = boot_gates[OF tab]
  have seg: "descriptor_base (gdt b' ! 6) = tss_address ad" "tss_ss0 (tss b') = KERNEL_DS"
    using gdt by (simp_all add: b'_def d_def enable_int_def a4(4,5) c_def setTSS_def setGdt_def Let_def descriptor_base_tss)
  have "kinv (kern b')" "cur (kern b') = 1" using inv[of m5] a4(3) by (simp_all only: k, simp_all add: enter_user_def)
  then show ?thesis using res prog cpu bits gates seg by blast
qed

text \<open>A system of 53248 bytes and a user program of three, in a machine whose memory is zero elsewhere.\<close>

definition sample_image :: "Byte list" where
  "sample_image = [0, 0xD0, 0, 0, 3, 0, 0, 0, 0x1B, 0x7E, 0, 0] @ replicate 53236 0 @ [0x90, 0xEB, 0xFE]"

definition sample_kernel :: kstate where
  "sample_kernel = zero_kernel\<lparr>mem := zero_mm\<lparr>tasks_page0 := 17, pmem := \<lambda>f k.
     if 16 \<le> unat f \<and> unat f * 4096 + k - 0x10000 < length sample_image then sample_image ! (unat f * 4096 + k - 0x10000) else 0\<rparr>\<rparr>"

lemma sample_image_fits: "image_fits sample_image 53248 3 sample_kernel"
proof -
  have len: "length sample_image = 53251" by (simp add: sample_image_def)
  have m: "pmem (mem sample_kernel) = (\<lambda>f k. if 16 \<le> unat f \<and> unat f * 4096 + k - 0x10000 < length sample_image
      then sample_image ! (unat f * 4096 + k - 0x10000) else 0)"
    by (simp add: sample_kernel_def)
  have "case_prod (pmem (mem sample_kernel)) (kernel_loc (0x10000 + i)) = sample_image ! i" if i: "i < length sample_image" for i
  proof -
    have "(0x10000 + i) div 4096 < 2 ^ 32" using i len by auto
    then have u: "unat (of_nat ((0x10000 + i) div 4096) :: DWord) = (0x10000 + i) div 4096"
      by (simp add: unsigned_of_nat take_bit_nat_eq_self)
    have "(0x10000 + i) div 4096 * 4096 + (0x10000 + i) mod 4096 = 0x10000 + i" by (rule div_mult_mod_eq)
    moreover have "16 \<le> (0x10000 + i) div 4096" by (simp add: less_eq_div_iff_mult_less_eq)
    ultimately show ?thesis using i unfolding m kernel_loc_def prod.case u by simp
  qed
  then have "loaded sample_image (mem sample_kernel)" by (simp add: loaded_def)
  moreover have "le32 sample_image 0 = 53248" "le32 sample_image 4 = 3"
    by (simp_all add: sample_image_def le32_def nth_append)
  moreover have "pagusr_page0 (mem sample_kernel) = 40" "tasks_page0 (mem sample_kernel) = 17"
    by (simp_all add: sample_kernel_def zero_mm_def)
  ultimately show ?thesis by (simp add: image_fits_def len)
qed

text \<open>A library that does nothing but print a blank and install its gate.\<close>

definition sample_auxjp :: "boot \<Rightarrow> boot" where
  "sample_auxjp b = b\<lparr>kern := (kern b)\<lparr>scr := printc 32 (scr (kern b))\<rparr>,
     idt_table := the (setTrapHandler 0x82 0x15000 3 (idt_table b))\<rparr>"

lemma sample_auxjp_initialised: "auxjp_initialised 0x15000 b (sample_auxjp b)"
  by (simp add: auxjp_initialised_def sample_auxjp_def setTrapHandler_def quiet_mem)

lemma main_starts_user_witness:
  "\<forall>ad t i c. \<exists>b'. main (\<lambda>t. t) sample_auxjp ad \<lparr>kern = sample_kernel, gdt = boot_gdt, tss = t, idt_table = i, proc = c, master_mask = 0xFB\<rparr> = Some b' \<and>
     get_user 0x100000 3 (mem (kern b')) = Some [0x90, 0xEB, 0xFE] \<and> r_eip (proc b') = 0x100000 \<and>
     gate_offset (idt_table b' 0x82) = 0x15000 \<and> gate_dpl (idt_table b' 0x82) = 3"
proof (intro allI)
  fix ad t i c
  have f: "fresh_image sample_kernel" "cb_ok (keyb sample_kernel)" "\<not> cbfull (keyb sample_kernel)" "\<forall>t. read_fits (kcont sample_kernel t)"
    using zero_fresh zero_kernel_keyb by (simp_all add: sample_kernel_def fresh_image_def zero_kernel_def zero_mm_def)
  have d: "drop 53248 sample_image = [0x90, 0xEB, 0xFE]" by (simp add: sample_image_def)
  let ?b = "\<lparr>kern = sample_kernel, gdt = boot_gdt, tss = t, idt_table = i, proc = c, master_mask = 0xFB\<rparr>"
  have "length boot_gdt = 7" by (simp add: boot_gdt_def)
  then show "\<exists>b'. main (\<lambda>t. t) sample_auxjp ad ?b = Some b' \<and>
     get_user 0x100000 3 (mem (kern b')) = Some [0x90, 0xEB, 0xFE] \<and> r_eip (proc b') = 0x100000 \<and>
     gate_offset (idt_table b' 0x82) = 0x15000 \<and> gate_dpl (idt_table b' 0x82) = 3"
    using main_starts_user[of ?b sample_image 53248 3 "0x15000" sample_auxjp "\<lambda>t. t" ad] f sample_image_fits sample_auxjp_initialised
    unfolding d by auto
qed

end
