(* ===== verification/Libc.thy ===== *)
theory Libc
  imports Prelude
begin

text \<open>
  The user library \<open>zeos/libc.c\<close>: decimal printing of integers, string length and the messages of
  \<open>perror\<close>. A character buffer is a function from indices to bytes.
\<close>

section \<open>itoa\<close>

text \<open>The first loop stores the digits, least significant first; the result is the length.\<close>

function itoa_digits :: "int \<Rightarrow> nat \<Rightarrow> (nat \<Rightarrow> Byte) \<Rightarrow> nat \<times> (nat \<Rightarrow> Byte)" where
  "itoa_digits a i b =
     (if a > 0 then itoa_digits (cdiv a 10) (i + 1) (b(i := of_int (cmod a 10) + 48)) else (i, b))"
  by pat_completeness auto
termination
  by (relation "measure (\<lambda>(a, i, b). nat a)") (auto simp: cdiv_nonneg)

declare itoa_digits.simps [simp del]

text \<open>The second loop reverses the first \<open>i\<close> characters in place.\<close>

definition itoa_swap :: "nat \<Rightarrow> nat \<Rightarrow> (nat \<Rightarrow> Byte) \<Rightarrow> (nat \<Rightarrow> Byte)" where
  "itoa_swap i i1 b =
     (let c = b i1; b1 = b(i1 := b (i - i1 - 1)) in b1(i - i1 - 1 := c))"

definition itoa :: "int \<Rightarrow> (nat \<Rightarrow> Byte) \<Rightarrow> (nat \<Rightarrow> Byte)" where
  "itoa a b =
     (if a = 0 then b(0 := 48, 1 := 0)
      else
        (let (i, b1) = itoa_digits a 0 b;
             b2 = fold (itoa_swap i) [0..<i div 2] b1
         in b2(i := 0)))"

section \<open>strlen\<close>

text \<open>\<open>None\<close> is a string without terminator: the loop does not end.\<close>

partial_function (option) strlen_loop :: "(nat \<Rightarrow> Byte) \<Rightarrow> nat \<Rightarrow> nat option" where
  "strlen_loop a i = (if a i \<noteq> 0 then strlen_loop a (i + 1) else Some i)"

definition strlen :: "(nat \<Rightarrow> Byte) \<Rightarrow> nat option" where
  "strlen a = strlen_loop a 0"

section \<open>perror\<close>

text \<open>The text and the length that \<open>perror\<close> passes to \<open>write\<close> for a value of \<open>errno\<close>.\<close>

definition newline :: string where "newline = [CHR 0x0A]"

definition perror :: "int \<Rightarrow> string \<times> int" where
  "perror errno =
     (if errno = 9 then (''Bad file number'' @ newline, 16)
      else if errno = 13 then (''Permission denied'' @ newline, 18)
      else if errno = 14 then (''Bad address'' @ newline, 12)
      else if errno = 22 then (''Invalid argument'' @ newline, 17)
      else if errno = 38 then (''Function not implemented'' @ newline, 25)
      else (''Error not defined'' @ newline, 18))"

lemma perror_length: "snd (perror e) = int (length (fst (perror e)))"
  by (simp add: perror_def newline_def)

section \<open>What strlen computes\<close>

lemma strlen_loop_ok:
  "i \<le> n \<Longrightarrow> \<forall>k. i \<le> k \<and> k < n \<longrightarrow> a k \<noteq> 0 \<Longrightarrow> a n = 0 \<Longrightarrow> strlen_loop a i = Some n"
proof (induction "n - i" arbitrary: i)
  case 0
  then show ?case by (subst strlen_loop.simps) simp
next
  case (Suc d)
  then have "a i \<noteq> 0" "i + 1 \<le> n" by auto
  moreover have "strlen_loop a (i + 1) = Some n"
    by (rule Suc.hyps) (use Suc in auto)
  ultimately show ?case by (subst strlen_loop.simps) simp
qed

lemma strlen_first_nul: "\<forall>k < n. a k \<noteq> 0 \<Longrightarrow> a n = 0 \<Longrightarrow> strlen a = Some n"
  unfolding strlen_def by (rule strlen_loop_ok) auto

section \<open>What itoa prints\<close>

text \<open>Reading a run of decimal digits back.\<close>

definition decimal :: "Byte list \<Rightarrow> int" where
  "decimal cs = foldl (\<lambda>v c. 10 * v + (uint c - 48)) 0 cs"

lemma decimal_snoc: "decimal (cs @ [c]) = 10 * decimal cs + (uint c - 48)"
  by (simp add: decimal_def)

definition is_digit :: "Byte \<Rightarrow> bool" where
  "is_digit c \<longleftrightarrow> 48 \<le> uint c \<and> uint c \<le> 57"

text \<open>The digits of a positive number, most significant first.\<close>

fun digits :: "int \<Rightarrow> Byte list" where
  "digits a = (if a > 0 then digits (a div 10) @ [of_int (a mod 10) + 48] else [])"

declare digits.simps [simp del]

lemma digit_char:
  assumes "0 \<le> d" and "d < 10"
  shows "uint (of_int d + 48 :: Byte) = d + 48"
  using assms by (simp add: uint_word_ariths uint_word_of_int)

lemma digits_decimal: "0 \<le> a \<Longrightarrow> decimal (digits a) = a \<and> (\<forall>c \<in> set (digits a). is_digit c)"
proof (induction a rule: digits.induct)
  case (1 a)
  show ?case
  proof (cases "a > 0")
    case True
    with 1 have IH: "decimal (digits (a div 10)) = a div 10" "\<forall>c \<in> set (digits (a div 10)). is_digit c"
      by auto
    have d: "uint (of_int (a mod 10) + 48 :: Byte) = a mod 10 + 48" by (rule digit_char) auto
    have "digits a = digits (a div 10) @ [of_int (a mod 10) + 48]"
      using True by (subst digits.simps) simp
    with IH d show ?thesis by (auto simp: decimal_snoc is_digit_def)
  next
    case False
    with 1(2) show ?thesis by (subst (1 2) digits.simps) (simp add: decimal_def)
  qed
qed

lemma itoa_digits_spec:
  "0 \<le> a \<Longrightarrow> \<exists>b'. itoa_digits a i b = (i + length (digits a), b') \<and>
     (\<forall>k < length (digits a). b' (i + k) = rev (digits a) ! k) \<and> (\<forall>k < i. b' k = b k)"
proof (induction a arbitrary: i b rule: digits.induct)
  case (1 a)
  show ?case
  proof (cases "a > 0")
    case False
    then show ?thesis by (simp add: itoa_digits.simps[of a] digits.simps[of a])
  next
    case True
    let ?c = "of_int (a mod 10) + 48 :: Byte"
    have ds: "digits a = digits (a div 10) @ [?c]" using True by (subst digits.simps) simp
    have "0 \<le> a div 10" using True by (simp add: pos_imp_zdiv_nonneg_iff)
    from 1(1)[OF True this, of "i + 1" "b(i := ?c)"] obtain b' where
      b': "itoa_digits (a div 10) (i + 1) (b(i := ?c)) = (i + 1 + length (digits (a div 10)), b')"
        "\<forall>k < length (digits (a div 10)). b' (i + 1 + k) = rev (digits (a div 10)) ! k"
        "\<forall>k < i + 1. b' k = (b(i := ?c)) k" by blast
    have "b' (i + k) = rev (digits a) ! k" if "k < length (digits a)" for k
    proof (cases k)
      case 0
      then show ?thesis using b'(3) ds by simp
    next
      case (Suc j)
      then show ?thesis using b'(2) that ds by simp
    qed
    then show ?thesis using b' True ds
      by (subst itoa_digits.simps) (simp add: cdiv_nonneg cmod_nonneg)
  qed
qed

text \<open>The swaps reverse the prefix.\<close>

lemma swaps_reverse:
  assumes "n \<le> i div 2"
  shows "fold (itoa_swap i) [0..<n] b k =
    (if k < n \<or> (i - n \<le> k \<and> k < i) then b (i - k - 1) else b k)"
  using assms
proof (induction n arbitrary: k)
  case 0
  show ?case by (cases "i \<le> k") auto
next
  case (Suc n)
  then have n: "n \<le> i div 2" "n < i div 2" by auto
  note IH = Suc.IH[OF n(1)]
  have "i - n - 1 \<noteq> n" using n(2) by linarith
  have "fold (itoa_swap i) [0..<Suc n] b k = itoa_swap i n (fold (itoa_swap i) [0..<n] b) k" by simp
  also have "\<dots> = (if k = i - n - 1 then b n else if k = n then b (i - n - 1)
      else if k < n \<or> (i - n \<le> k \<and> k < i) then b (i - k - 1) else b k)"
    using n by (auto simp: itoa_swap_def Let_def IH)
  also have "\<dots> = (if k < Suc n \<or> (i - Suc n \<le> k \<and> k < i) then b (i - k - 1) else b k)"
  proof -
    have "i - (i - n - 1) - 1 = n" using n(2) by linarith
    moreover have "k \<noteq> i - n - 1 \<Longrightarrow> k \<noteq> n \<Longrightarrow>
        (k < Suc n \<or> (i - Suc n \<le> k \<and> k < i)) = (k < n \<or> (i - n \<le> k \<and> k < i))"
      using n(2) by linarith
    ultimately show ?thesis using n(2) by auto
  qed
  finally show ?case .
qed

text \<open>C33. \<open>itoa\<close> of a positive number writes its decimal digits, most significant first, and the
  terminator right behind them.\<close>

theorem itoa_digit_string:
  assumes "0 < a"
  shows "strlen (itoa a b) = Some (length (digits a)) \<and>
    map (itoa a b) [0..<length (digits a)] = digits a"
proof -
  let ?n = "length (digits a)"
  obtain b1 where b1: "itoa_digits a 0 b = (?n, b1)" "\<forall>k < ?n. b1 k = rev (digits a) ! k"
    using itoa_digits_spec[of a 0 b] assms by auto
  define b2 where "b2 = fold (itoa_swap ?n) [0..<?n div 2] b1"
  have it: "itoa a b = b2(?n := 0)" using assms b1(1) by (simp add: itoa_def b2_def)
  have b2: "b2 k = digits a ! k" if "k < ?n" for k
  proof -
    have "b2 k = (if k < ?n div 2 \<or> (?n - ?n div 2 \<le> k \<and> k < ?n) then b1 (?n - k - 1) else b1 k)"
      unfolding b2_def by (rule swaps_reverse) simp
    moreover have "b1 (?n - k - 1) = digits a ! k" using b1(2) that by (simp add: rev_nth)
    moreover have "b1 k = digits a ! k" if "\<not> (k < ?n div 2 \<or> (?n - ?n div 2 \<le> k \<and> k < ?n))"
    proof -
      have "?n - Suc k = k" using that \<open>k < ?n\<close> by linarith
      then show ?thesis using b1(2) \<open>k < ?n\<close> by (simp add: rev_nth)
    qed
    ultimately show ?thesis by auto
  qed
  have "digits a ! k \<noteq> 0" if "k < ?n" for k
  proof -
    have "is_digit (digits a ! k)" using digits_decimal[of a] assms that by auto
    then show ?thesis by (auto simp: is_digit_def)
  qed
  then have "strlen (itoa a b) = Some ?n" unfolding it by (intro strlen_first_nul) (auto simp: b2)
  moreover have "map (itoa a b) [0..<?n] = digits a"
    unfolding it by (rule nth_equalityI) (auto simp: b2)
  ultimately show ?thesis ..
qed

lemma itoa_zero: "strlen (itoa 0 b) = Some 1 \<and> itoa 0 b 0 = 48"
  by (auto simp: itoa_def intro!: strlen_first_nul)

text \<open>A negative argument leaves the empty string.\<close>

lemma itoa_negative: "a < 0 \<Longrightarrow> strlen (itoa a b) = Some 0"
  by (intro strlen_first_nul) (simp_all add: itoa_def itoa_digits.simps)

lemma itoa_digit_string_witness: "strlen (itoa 70321 (\<lambda>_. 0)) = Some 5 \<and> map (itoa 70321 (\<lambda>_. 0)) [0..<5] = [55, 48, 51, 50, 49]"
proof -
  have "digits 70321 = [55, 48, 51, 50, 49]" by (simp add: digits.simps)
  moreover from this have "length (digits 70321) = 5" by simp
  ultimately show ?thesis using itoa_digit_string[of 70321 "\<lambda>_. 0"] by (simp only:)
qed

end
