(* ===== verification/Pic.thy ===== *)
theory Pic
  imports Prelude
begin

text \<open>
  The interrupt controllers of the machine the kernel runs on: the pair of 8259 chips of
  \<open>bochs-2.6.7/iodev/pic.cc\<close>, with its state \<open>bx_pic_t\<close> (\<open>iodev/pic.h\<close>). A panic (\<open>BX_PANIC\<close>, which
  by default stops the simulation) is \<^const>\<open>None\<close>. The debug output, the registration of ports and
  state, and the forwarding of lines to the I/O APIC are left out. Numbers of lines and the priority
  are natural numbers: the code keeps them in \<open>0..7\<close>.
\<close>

section \<open>State\<close>

record pic_t =
  single_PIC :: bool
  interrupt_offset :: Byte
  slave_u :: Byte
  sfnm :: bool
  buffered_mode :: bool
  master_slave :: bool
  auto_eoi :: bool
  imr :: Byte
  isr :: Byte
  irr :: Byte
  read_reg_select :: bool
  irq :: nat
  lowest_priority :: nat
  INT_pin :: bool
  IRQ_in :: Byte
  in_init :: bool
  requires_4 :: bool
  byte_expected :: nat
  special_mask :: bool
  polled :: bool
  rotate_on_autoeoi :: bool
  edge_level :: Byte

text \<open>Both chips, and the interrupt line of the CPU (\<open>BX_RAISE_INTR\<close>, \<open>BX_CLEAR_INTR\<close>).\<close>

record pics =
  master_pic :: pic_t
  slave_pic :: pic_t
  intr :: bool

definition upd_master :: "(pic_t \<Rightarrow> pic_t) \<Rightarrow> pics \<Rightarrow> pics" where
  "upd_master f s = s\<lparr>master_pic := f (master_pic s)\<rparr>"

definition upd_slave :: "(pic_t \<Rightarrow> pic_t) \<Rightarrow> pics \<Rightarrow> pics" where
  "upd_slave f s = s\<lparr>slave_pic := f (slave_pic s)\<rparr>"

definition pic_init :: pics where
  "pic_init =
     \<lparr>master_pic = \<lparr>single_PIC = False, interrupt_offset = 0x08, slave_u = 0x04, sfnm = False,
        buffered_mode = False, master_slave = True, auto_eoi = False, imr = 0xFF, isr = 0, irr = 0,
        read_reg_select = False, irq = 0, lowest_priority = 7, INT_pin = False, IRQ_in = 0, in_init = False,
        requires_4 = False, byte_expected = 0, special_mask = False, polled = False,
        rotate_on_autoeoi = False, edge_level = 0\<rparr>,
      slave_pic = \<lparr>single_PIC = False, interrupt_offset = 0x70, slave_u = 0x02, sfnm = False,
        buffered_mode = False, master_slave = False, auto_eoi = False, imr = 0xFF, isr = 0, irr = 0,
        read_reg_select = False, irq = 0, lowest_priority = 7, INT_pin = False, IRQ_in = 0, in_init = False,
        requires_4 = False, byte_expected = 0, special_mask = False, polled = False,
        rotate_on_autoeoi = False, edge_level = 0\<rparr>,
      intr = False\<rparr>"

section \<open>Priorities\<close>

text \<open>\<open>irq++; if (irq > 7) irq = 0;\<close> and the line of highest priority.\<close>

definition next_irq :: "nat \<Rightarrow> nat" where
  "next_irq i = (if i + 1 > 7 then 0 else i + 1)"

definition highest_priority :: "pic_t \<Rightarrow> nat" where
  "highest_priority pic = (if lowest_priority pic + 1 > 7 then 0 else lowest_priority pic + 1)"

text \<open>
  The loop of \<open>clear_highest_interrupt\<close>; the loop that finds the first line in service; the loop
  over the requests. Each runs around the eight lines; \<^const>\<open>None\<close> would be a loop without end.
\<close>

partial_function (option) clear_loop :: "nat \<Rightarrow> nat \<Rightarrow> Byte \<Rightarrow> Byte option" where
  "clear_loop hp i s =
     (if bit s i then Some (s AND NOT (push_bit i 1))
      else let i' = next_irq i in if i' \<noteq> hp then clear_loop hp i' s else Some s)"

definition clear_highest_interrupt :: "pic_t \<Rightarrow> pic_t option" where
  "clear_highest_interrupt pic =
     map_option (\<lambda>s. pic\<lparr>isr := s\<rparr>) (clear_loop (highest_priority pic) (highest_priority pic) (isr pic))"

partial_function (option) first_in_service :: "Byte \<Rightarrow> nat \<Rightarrow> nat option" where
  "first_in_service s i = (if bit s i then Some i else first_in_service s (next_irq i))"

partial_function (option) request_loop :: "pic_t \<Rightarrow> Byte \<Rightarrow> nat \<Rightarrow> nat \<Rightarrow> nat option option" where
  "request_loop pic unmasked_requests max_irq i =
     (if \<not> (special_mask pic \<and> bit (isr pic) i) \<and> bit unmasked_requests i then Some (Some i)
      else let i' = next_irq i in
           if i' \<noteq> max_irq then request_loop pic unmasked_requests max_irq i' else Some None)"

declare clear_loop.simps [code] first_in_service.simps [code] request_loop.simps [code]

text \<open>
  What \<open>service_master_pic\<close> and \<open>service_slave_pic\<close> have in common: the line to signal, if there is
  one to signal.
\<close>

definition select_irq :: "pic_t \<Rightarrow> nat option option" where
  "select_irq pic =
     (let hp = highest_priority pic in
      if INT_pin pic then Some None
      else do {
        max_irq \<leftarrow> (if special_mask pic then Some hp
                    else if isr pic \<noteq> 0 then first_in_service (isr pic) hp else Some hp);
        (if \<not> special_mask pic \<and> isr pic \<noteq> 0 \<and> max_irq = hp then Some None
         else let unmasked_requests = irr pic AND NOT (imr pic)
              in if unmasked_requests \<noteq> 0 then request_loop pic unmasked_requests max_irq hp else Some None)
      })"

definition service_master_pic :: "pics \<Rightarrow> pics option" where
  "service_master_pic s =
     map_option (\<lambda>r. case r of None \<Rightarrow> s
                 | Some i \<Rightarrow> (upd_master (\<lambda>p. p\<lparr>INT_pin := True, irq := i\<rparr>) s)\<lparr>intr := True\<rparr>)
       (select_irq (master_pic s))"

section \<open>Lines\<close>

definition lower_irq :: "nat \<Rightarrow> pics \<Rightarrow> pics" where
  "lower_irq irq_no s =
     (let m :: Byte = push_bit (irq_no mod 8) 1;
          low = (\<lambda>p. p\<lparr>IRQ_in := IRQ_in p AND NOT m, irr := irr p AND NOT m\<rparr>) in
      if irq_no \<le> 7 \<and> IRQ_in (master_pic s) AND m \<noteq> 0 then upd_master low s
      else if irq_no > 7 \<and> irq_no \<le> 15 \<and> IRQ_in (slave_pic s) AND m \<noteq> 0 then upd_slave low s
      else s)"

text \<open>
  \<open>raise_irq\<close> and \<open>service_slave_pic\<close> call each other: the slave requests line 2 of the master. So
  \<open>raise_irq\<close> on lines up to 7 comes first, then the slave, then \<open>raise_irq\<close> on any line.
\<close>

definition raise_pin :: "Byte \<Rightarrow> pic_t \<Rightarrow> pic_t" where
  "raise_pin m p = p\<lparr>IRQ_in := IRQ_in p OR m, irr := irr p OR m\<rparr>"

definition raise_irq_master :: "nat \<Rightarrow> pics \<Rightarrow> pics option" where
  "raise_irq_master irq_no s =
     (let m :: Byte = push_bit (irq_no mod 8) 1 in
      if irq_no \<le> 7 \<and> IRQ_in (master_pic s) AND m = 0 then service_master_pic (upd_master (raise_pin m) s)
      else Some s)"

definition service_slave_pic :: "pics \<Rightarrow> pics option" where
  "service_slave_pic s =
     Option.bind (select_irq (slave_pic s)) (\<lambda>r. case r of None \<Rightarrow> Some s
        | Some i \<Rightarrow> raise_irq_master 2 (upd_slave (\<lambda>p. p\<lparr>INT_pin := True, irq := i\<rparr>) s))"

definition raise_irq :: "nat \<Rightarrow> pics \<Rightarrow> pics option" where
  "raise_irq irq_no s =
     (let m :: Byte = push_bit (irq_no mod 8) 1 in
      if irq_no \<le> 7 \<and> IRQ_in (master_pic s) AND m = 0 then service_master_pic (upd_master (raise_pin m) s)
      else if irq_no > 7 \<and> irq_no \<le> 15 \<and> IRQ_in (slave_pic s) AND m = 0
      then service_slave_pic (upd_slave (raise_pin m) s)
      else Some s)"

definition set_mode :: "bool \<Rightarrow> Byte \<Rightarrow> pics \<Rightarrow> pics" where
  "set_mode ma_sl md s =
     (if ma_sl then upd_master (\<lambda>p. p\<lparr>edge_level := md\<rparr>) s else upd_slave (\<lambda>p. p\<lparr>edge_level := md\<rparr>) s)"

section \<open>Interrupt acknowledge\<close>

text \<open>The update of a chip when its line \<open>irq\<close> is acknowledged.\<close>

definition acknowledge :: "pic_t \<Rightarrow> pic_t" where
  "acknowledge p =
     (let b = push_bit (irq p) 1;
          p1 = (if edge_level p AND b = 0 then p\<lparr>irr := irr p AND NOT b\<rparr> else p)
      in if \<not> auto_eoi p1 then p1\<lparr>isr := isr p1 OR b\<rparr>
         else if rotate_on_autoeoi p1 then p1\<lparr>lowest_priority := irq p1\<rparr> else p1)"

definition IAC :: "pics \<Rightarrow> (Byte \<times> pics) option" where
  "IAC s =
     (let s1 = (upd_master (\<lambda>p. p\<lparr>INT_pin := False\<rparr>) s)\<lparr>intr := False\<rparr> in
      if irr (master_pic s1) = 0 then Some (interrupt_offset (master_pic s1) + 7, s1)
      else
        (let s2 = upd_master acknowledge s1 in
         if irq (master_pic s2) \<noteq> 2 then
           (let vector = of_nat (irq (master_pic s2)) + interrupt_offset (master_pic s2)
            in map_option (\<lambda>s3. (vector, s3)) (service_master_pic s2))
         else
           (let s3 = upd_master (\<lambda>p. p\<lparr>IRQ_in := IRQ_in p AND NOT (push_bit 2 1)\<rparr>)
                       (upd_slave (\<lambda>p. p\<lparr>INT_pin := False\<rparr>) s2) in
            if irr (slave_pic s3) = 0 then Some (interrupt_offset (slave_pic s3) + 7, s3)
            else
              (let vector = of_nat (irq (slave_pic s3)) + interrupt_offset (slave_pic s3);
                   s4 = upd_slave acknowledge s3
               in do {
                    s5 \<leftarrow> service_slave_pic s4;
                    s6 \<leftarrow> service_master_pic s5;
                    Some (vector, s6)
                  }))))"

section \<open>Reading the ports\<close>

definition poll_value :: "nat \<Rightarrow> pic_t \<Rightarrow> DWord" where
  "poll_value io_len p =
     (if io_len = 1 then of_nat (irq p) else push_bit 8 (of_nat (irq p)) OR of_nat (irq p))"

definition pic_read :: "DWord \<Rightarrow> nat \<Rightarrow> pics \<Rightarrow> (DWord \<times> pics) option" where
  "pic_read address io_len s =
     (if (address = 0x20 \<or> address = 0x21) \<and> polled (master_pic s) then do {
        p \<leftarrow> clear_highest_interrupt (master_pic s);
        s1 \<leftarrow> service_master_pic (s\<lparr>master_pic := p\<lparr>polled := False\<rparr>\<rparr>);
        Some (poll_value io_len (master_pic s1), s1)
      } else if (address = 0xA0 \<or> address = 0xA1) \<and> polled (slave_pic s) then do {
        p \<leftarrow> clear_highest_interrupt (slave_pic s);
        s1 \<leftarrow> service_slave_pic (s\<lparr>slave_pic := p\<lparr>polled := False\<rparr>\<rparr>);
        Some (poll_value io_len (slave_pic s1), s1)
      } else if address = 0x20 then
        Some (ucast (if read_reg_select (master_pic s) then isr (master_pic s) else irr (master_pic s)), s)
      else if address = 0x21 then Some (ucast (imr (master_pic s)), s)
      else if address = 0xA0 then
        Some (ucast (if read_reg_select (slave_pic s) then isr (slave_pic s) else irr (slave_pic s)), s)
      else if address = 0xA1 then Some (ucast (imr (slave_pic s)), s)
      else None)"

section \<open>Writing the ports\<close>

text \<open>
  The command and data ports of the two chips run the same code on their own state; what differs is
  the way they are served, and two lines of the first initialisation command. The first part of each
  pair below is the new state of the chip, the second whether it is served afterwards.
\<close>

definition icw1 :: "DWord \<Rightarrow> pic_t \<Rightarrow> pic_t" where
  "icw1 value p = p\<lparr>in_init := True, requires_4 := (value AND 0x01 \<noteq> 0), byte_expected := 2, imr := 0,
     isr := 0, irr := 0, lowest_priority := 7, INT_pin := False, auto_eoi := False, rotate_on_autoeoi := False\<rparr>"

definition ocw3 :: "DWord \<Rightarrow> pic_t \<Rightarrow> pic_t \<times> bool" where
  "ocw3 value p =
     (let special = drop_bit 5 (value AND 0x60); poll = drop_bit 2 (value AND 0x04); read_op = value AND 0x03 in
      if poll \<noteq> 0 then (p\<lparr>polled := True\<rparr>, False)
      else
        (let p1 = (if read_op = 0x02 then p\<lparr>read_reg_select := False\<rparr>
                   else if read_op = 0x03 then p\<lparr>read_reg_select := True\<rparr> else p)
         in if special = 0x02 then (p1\<lparr>special_mask := False\<rparr>, False)
            else if special = 0x03 then (p1\<lparr>special_mask := True\<rparr>, True)
            else (p1, False)))"

definition ocw2 :: "DWord \<Rightarrow> pic_t \<Rightarrow> (pic_t \<times> bool) option" where
  "ocw2 value p =
     (if value = 0x00 \<or> value = 0x80 then Some (p\<lparr>rotate_on_autoeoi := (value \<noteq> 0)\<rparr>, False)
      else if value = 0xA0 \<or> value = 0x20 then do {
        p1 \<leftarrow> clear_highest_interrupt p;
        Some (if value = 0xA0 then p1\<lparr>lowest_priority := next_irq (lowest_priority p1)\<rparr> else p1, True)
      }
      else if value = 0x40 then Some (p, False)
      else if 0x60 \<le> value \<and> value \<le> 0x67
      then Some (p\<lparr>isr := isr p AND NOT (push_bit (unat (value - 0x60)) 1)\<rparr>, True)
      else if 0xC0 \<le> value \<and> value \<le> 0xC7 then Some (p\<lparr>lowest_priority := unat (value - 0xC0)\<rparr>, False)
      else if 0xE0 \<le> value \<and> value \<le> 0xE7
      then Some (p\<lparr>isr := isr p AND NOT (push_bit (unat (value - 0xE0)) 1), lowest_priority := unat (value - 0xE0)\<rparr>, True)
      else if value = 0x02 then Some (p, False)
      else None)"

definition data_write :: "DWord \<Rightarrow> pic_t \<Rightarrow> (pic_t \<times> bool) option" where
  "data_write value p =
     (if in_init p then
        (if byte_expected p = 2 then Some (p\<lparr>interrupt_offset := ucast (value AND 0xF8), byte_expected := 3\<rparr>, False)
         else if byte_expected p = 3 then
           Some (if requires_4 p then p\<lparr>byte_expected := 4\<rparr> else p\<lparr>in_init := False\<rparr>, False)
         else if byte_expected p = 4 then
           (if value AND 0x01 \<noteq> 0 then Some (p\<lparr>auto_eoi := (value AND 0x02 \<noteq> 0), in_init := False\<rparr>, False) else None)
         else None)
      else Some (p\<lparr>imr := ucast value\<rparr>, True))"

definition put_master :: "pic_t \<times> bool \<Rightarrow> pics \<Rightarrow> pics option" where
  "put_master pb s = (let s1 = s\<lparr>master_pic := fst pb\<rparr> in if snd pb then service_master_pic s1 else Some s1)"

definition put_slave :: "pic_t \<times> bool \<Rightarrow> pics \<Rightarrow> pics option" where
  "put_slave pb s = (let s1 = s\<lparr>slave_pic := fst pb\<rparr> in if snd pb then service_slave_pic s1 else Some s1)"

definition master_command :: "DWord \<Rightarrow> pics \<Rightarrow> pics option" where
  "master_command value s =
     (if value AND 0x10 \<noteq> 0 then
        (if value AND 0x02 \<noteq> 0 \<or> value AND 0x08 \<noteq> 0 then None
         else Some ((upd_master (icw1 value) s)\<lparr>intr := False\<rparr>))
      else if value AND 0x18 = 0x08 then put_master (ocw3 value (master_pic s)) s
      else Option.bind (ocw2 value (master_pic s)) (\<lambda>pb. put_master pb s))"

definition slave_command :: "DWord \<Rightarrow> pics \<Rightarrow> pics option" where
  "slave_command value s =
     (if value AND 0x10 \<noteq> 0 then
        (if value AND 0x02 \<noteq> 0 \<or> value AND 0x08 \<noteq> 0 then None
         else Some (upd_master (\<lambda>p. p\<lparr>IRQ_in := IRQ_in p AND NOT (push_bit 2 1)\<rparr>) (upd_slave (icw1 value) s)))
      else if value AND 0x18 = 0x08 then put_slave (ocw3 value (slave_pic s)) s
      else Option.bind (ocw2 value (slave_pic s)) (\<lambda>pb. put_slave pb s))"

definition master_data :: "DWord \<Rightarrow> pics \<Rightarrow> pics option" where
  "master_data value s = Option.bind (data_write value (master_pic s)) (\<lambda>pb. put_master pb s)"

definition slave_data :: "DWord \<Rightarrow> pics \<Rightarrow> pics option" where
  "slave_data value s = Option.bind (data_write value (slave_pic s)) (\<lambda>pb. put_slave pb s)"

definition pic_write :: "DWord \<Rightarrow> DWord \<Rightarrow> pics \<Rightarrow> pics option" where
  "pic_write address value s =
     (if address = 0x20 then master_command value s
      else if address = 0x21 then master_data value s
      else if address = 0xA0 then slave_command value s
      else if address = 0xA1 then slave_data value s
      else Some s)"

text \<open>What the boot sector sends to the chips (\<open>bootsect.S\<close>), and then \<open>enable_int\<close> (\<open>hardware.c\<close>).\<close>

definition bootsect_pic :: "(DWord \<times> DWord) list" where
  "bootsect_pic = [(0x20, 0x11), (0xA0, 0x11), (0x21, 0x20), (0xA1, 0x28), (0x21, 0x04), (0xA1, 0x02),
     (0x21, 0x01), (0xA1, 0x01), (0xA1, 0xFF), (0x21, 0xFB)]"

definition enable_int_mask :: "DWord \<times> DWord" where
  "enable_int_mask = (0x21, 0xFC)"

section \<open>The loops end\<close>

text \<open>Lines in the order of their priority, starting at line \<open>hp\<close>.\<close>

definition line :: "nat \<Rightarrow> nat \<Rightarrow> nat" where
  "line hp k = (hp + k) mod 8"

lemma next_irq_line: "next_irq (line hp k) = line hp (Suc k)"
proof -
  have "(hp + k) mod 8 < 8" by simp
  then show ?thesis by (auto simp: next_irq_def line_def mod_Suc)
qed

lemma line_less [simp]: "line hp k < 8"
  by (simp add: line_def)

lemma line_0 [simp]: "hp < 8 \<Longrightarrow> line hp 0 = hp"
  by (simp add: line_def)

lemma line_8 [simp]: "line hp 8 = line hp 0"
  by (simp add: line_def)

lemma line_cases:
  assumes "j < 8"
  shows "line hp j = (if hp mod 8 + j < 8 then hp mod 8 + j else hp mod 8 + j - 8)"
proof -
  obtain r where r: "hp mod 8 = r" by blast
  then have "r < 8" by auto
  moreover have "line hp j = (r + j) mod 8" unfolding line_def r[symmetric] by (simp add: mod_add_left_eq)
  ultimately show ?thesis using assms unfolding r by (cases "r + j < 8") (simp_all add: le_mod_geq)
qed

lemma line_eq_iff:
  assumes "j < 8" and "k < 8"
  shows "line hp j = line hp k \<longleftrightarrow> j = k"
proof -
  obtain r where r: "hp mod 8 = r" by blast
  then have "r < 8" by auto
  then show ?thesis unfolding line_cases[OF assms(1)] line_cases[OF assms(2)] r using assms by arith
qed

lemma line_onto:
  assumes "hp < 8" and "i < 8"
  shows "\<exists>k < 8. line hp k = i"
  by (rule exI[of _ "if hp \<le> i then i - hp else i + 8 - hp"]) (use assms line_cases[of "if hp \<le> i then i - hp else i + 8 - hp" hp] in \<open>auto split: if_splits\<close>)

lemma upt_first: "k < n \<Longrightarrow> [k..<n] = k # [Suc k..<n]"
  by (simp add: upt_rec)

lemma Suc_line:
  assumes "k < 8" and "m < 8" and "hp < 8" and "k < (if m = 0 then 8 else m)"
  shows "line hp (Suc k) = line hp m \<longleftrightarrow> Suc k = (if m = 0 then 8 else m)"
proof (cases "Suc k = 8")
  case True
  then show ?thesis using assms line_eq_iff[of 0 m hp] by (auto simp del: line_0)
next
  case False
  then show ?thesis using assms line_eq_iff[of "Suc k" m hp] by auto
qed

lemma clear_loop_finds:
  assumes "hp < 8" and "k < 8"
  shows "clear_loop hp (line hp k) s = Some (case List.find (\<lambda>j. bit s (line hp j)) [k..<8] of
    None \<Rightarrow> s | Some j \<Rightarrow> s AND NOT (push_bit (line hp j) 1))"
  using assms(2)
proof (induction "7 - k" arbitrary: k)
  case 0
  then have "k = 7" by simp
  then show ?case using assms(1) next_irq_line[of hp 7] by (subst clear_loop.simps) (simp add: upt_first)
next
  case (Suc d)
  then have k: "k < 7" "d = 7 - Suc k" by auto
  then have "line hp (Suc k) \<noteq> hp" using Suc_line[of k 0 hp] assms(1) by simp
  then show ?case using Suc.hyps(1)[OF k(2)] k(1)
    by (subst clear_loop.simps) (simp add: next_irq_line upt_first)
qed

lemma first_in_service_finds:
  assumes "List.find (\<lambda>j. bit s (line hp j)) [k..<n] = Some m"
  shows "first_in_service s (line hp k) = Some (line hp m)"
  using assms
proof (induction "n - k" arbitrary: k)
  case 0
  then show ?case by simp
next
  case (Suc d)
  then have "k < n" "d = n - Suc k" by auto
  then show ?case using Suc.hyps(1)[of "Suc k"] Suc.prems
    by (subst first_in_service.simps) (auto simp: upt_first next_irq_line split: if_splits)
qed

lemma request_loop_finds:
  assumes "hp < 8" and "m < 8" and "k < (if m = 0 then 8 else m)"
  shows "request_loop pic um (line hp m) (line hp k) = Some (map_option (line hp)
    (List.find (\<lambda>j. \<not> (special_mask pic \<and> bit (isr pic) (line hp j)) \<and> bit um (line hp j)) [k..<(if m = 0 then 8 else m)]))"
  using assms(3)
proof (induction "(if m = 0 then 8 else m) - Suc k" arbitrary: k)
  case 0
  let ?n = "if m = 0 then 8 else m"
  have k: "Suc k = ?n" "k < 8" using 0 assms(2) by (auto split: if_splits)
  then have "line hp (Suc k) = line hp m" using Suc_line[of k m hp] assms by simp
  moreover have "[k..<?n] = [k]" using k(1) by (simp add: upt_first)
  ultimately show ?case by (subst request_loop.simps) (simp add: next_irq_line)
next
  case (Suc d)
  let ?n = "if m = 0 then 8 else m"
  have k: "Suc k < ?n" "d = ?n - Suc (Suc k)" "k < 8" using Suc assms(2) by (auto split: if_splits)
  then have ne: "line hp (Suc k) \<noteq> line hp m" using Suc_line[of k m hp] assms by auto
  have "[k..<?n] = k # [Suc k..<?n]" using k(1) by (intro upt_first) simp
  then show ?case using Suc.hyps(1)[OF k(2,1)] ne by (subst request_loop.simps) (simp add: next_irq_line)
qed

section \<open>Which line is signalled\<close>

text \<open>
  The specification: rank \<open>k\<close> counts from the line of highest priority. A line can be delivered when
  it is requested, not masked, and no line of its rank or above is in service (in the special mask mode:
  when it is not in service itself).
\<close>

definition deliverable :: "pic_t \<Rightarrow> nat \<Rightarrow> bool" where
  "deliverable p k \<longleftrightarrow>
     (let ln = line (highest_priority p) in
      bit (irr p) (ln k) \<and> \<not> bit (imr p) (ln k) \<and>
      (if special_mask p then \<not> bit (isr p) (ln k) else \<forall>j \<in> set [0..<Suc k]. \<not> bit (isr p) (ln j)))"

definition chip_ok :: "pic_t \<Rightarrow> bool" where
  "chip_ok p \<longleftrightarrow> lowest_priority p < 8 \<and> irq p < 8"

lemma highest_priority_less: "lowest_priority p < 8 \<Longrightarrow> highest_priority p < 8"
  by (simp add: highest_priority_def)

lemma find_upt_restrict:
  assumes "m \<le> n"
  shows "List.find P [0..<m] = List.find (\<lambda>j. P j \<and> j < m) [0..<n]"
proof -
  have e: "[0..<n] = [0..<m] @ [m..<n]" using assms by (metis le_add_diff_inverse upt_add_eq_append zero_le)
  have a: "List.find Q (xs @ ys) = (case List.find Q xs of None \<Rightarrow> List.find Q ys | Some x \<Rightarrow> Some x)" for Q :: "nat \<Rightarrow> bool" and xs ys
    by (induction xs) auto
  have "List.find (\<lambda>j. P j \<and> j < m) [m..<n] = None" by (auto simp: find_None_iff)
  moreover have "List.find (\<lambda>j. P j \<and> j < m) [0..<m] = List.find P [0..<m]"
    by (rule find_cong) auto
  ultimately show ?thesis unfolding e a by (simp split: option.split)
qed

lemma word8_zero_iff: "(w :: Byte) = 0 \<longleftrightarrow> (\<forall>i < 8. \<not> bit w i)"
  by (auto simp: bit_eq_iff dest: bit_imp_le_length)

lemma find_first_iff:
  "List.find P [0..<n] = Some m \<longleftrightarrow> m < n \<and> P m \<and> (\<forall>j < m. \<not> P j)"
  by (auto simp: find_Some_iff)

theorem select_irq_spec:
  assumes "lowest_priority p < 8"
  shows "select_irq p = Some (if INT_pin p then None
    else map_option (line (highest_priority p)) (List.find (deliverable p) [0..<8]))"
proof (cases "INT_pin p")
  case True
  then show ?thesis by (simp add: select_irq_def Let_def)
next
  case False
  let ?hp = "highest_priority p"
  let ?um = "irr p AND NOT (imr p)"
  let ?P = "\<lambda>j. \<not> (special_mask p \<and> bit (isr p) (line ?hp j)) \<and> bit ?um (line ?hp j)"
  have hp: "?hp < 8" using assms by (rule highest_priority_less)
  have um: "bit ?um (line ?hp j) \<longleftrightarrow> bit (irr p) (line ?hp j) \<and> \<not> bit (imr p) (line ?hp j)" for j
    by (simp add: bit_simps)
  have none: "\<not> ?P j" if "?um = 0" for j using that by simp
  have req: "(if ?um \<noteq> 0 then request_loop p ?um (line ?hp m) ?hp else Some None) =
      Some (map_option (line ?hp) (List.find ?P [0..<(if m = 0 then 8 else m)]))" if "m < 8" for m
  proof (cases "?um = 0")
    case True
    then have "List.find ?P [0..<(if m = 0 then 8 else m)] = None" using none by (simp add: find_None_iff)
    then show ?thesis using True by simp
  next
    case False
    then show ?thesis using request_loop_finds[OF hp that, of 0 p ?um] hp by auto
  qed
  show ?thesis
  proof (cases "special_mask p \<or> isr p = 0")
    case True
    then have "deliverable p = ?P" by (auto simp: fun_eq_iff deliverable_def um Let_def)
    then show ?thesis using req[of 0] True \<open>\<not> INT_pin p\<close> hp by (auto simp: select_irq_def Let_def)
  next
    case nested: False
    obtain i where "i < 8" "bit (isr p) i" using nested word8_zero_iff by blast
    then obtain k where k: "k < 8" "bit (isr p) (line ?hp k)" using line_onto[OF hp] by blast
    have "List.find (\<lambda>j. bit (isr p) (line ?hp j)) [0..<8] \<noteq> None" using k by (auto simp: find_None_iff)
    then obtain m where m: "List.find (\<lambda>j. bit (isr p) (line ?hp j)) [0..<8] = Some m" by blast
    then have m8: "m < 8" "bit (isr p) (line ?hp m)" "\<forall>j < m. \<not> bit (isr p) (line ?hp j)"
      by (auto simp: find_first_iff)
    have fis: "first_in_service (isr p) ?hp = Some (line ?hp m)"
      using first_in_service_finds[OF m] hp by simp
    have del: "deliverable p = (\<lambda>j. ?P j \<and> j < m)"
    proof
      fix j
      have "(\<forall>i \<in> set [0..<Suc j]. \<not> bit (isr p) (line ?hp i)) \<longleftrightarrow> j < m"
      proof
        assume a: "\<forall>i \<in> set [0..<Suc j]. \<not> bit (isr p) (line ?hp i)"
        show "j < m"
        proof (rule ccontr)
          assume "\<not> j < m"
          then have "m \<in> set [0..<Suc j]" by (simp add: not_less) linarith
          with a m8(2) show False by blast
        qed
      qed (use m8(3) in auto)
      then show "deliverable p j = (?P j \<and> j < m)" using nested by (auto simp: deliverable_def um Let_def)
    qed
    show ?thesis
    proof (cases "m = 0")
      case True
      then have "List.find (deliverable p) [0..<8] = None" by (simp add: del find_None_iff)
      then show ?thesis using True nested \<open>\<not> INT_pin p\<close> fis hp by (simp add: select_irq_def Let_def)
    next
      case False
      then have "line ?hp m \<noteq> ?hp" using line_eq_iff[of m 0 ?hp] m8(1) hp by simp
      then show ?thesis
        using req[OF m8(1)] False nested \<open>\<not> INT_pin p\<close> fis find_upt_restrict[of m 8 ?P] m8(1)
        by (simp add: select_irq_def Let_def del)
    qed
  qed
qed

lemma select_irq_in_range:
  assumes "lowest_priority p < 8"
  shows "\<exists>r. select_irq p = Some r \<and> (\<forall>i. r = Some i \<longrightarrow> i < 8 \<and> \<not> INT_pin p)"
  using select_irq_spec[OF assms] by auto

section \<open>The end of an interrupt\<close>

lemma clear_highest_interrupt_finds:
  assumes "lowest_priority p < 8"
  shows "clear_highest_interrupt p = Some (p\<lparr>isr := case List.find (\<lambda>j. bit (isr p) (line (highest_priority p) j)) [0..<8] of
    None \<Rightarrow> isr p | Some j \<Rightarrow> isr p AND NOT (push_bit (line (highest_priority p) j) 1)\<rparr>)"
  using clear_loop_finds[of "highest_priority p" 0 "isr p"] highest_priority_less[OF assms]
  by (simp add: clear_highest_interrupt_def)

lemma bit_line_mask: "k < 8 \<Longrightarrow> bit (push_bit k (1 :: Byte)) n \<longleftrightarrow> n = k"
  by (auto simp: bit_simps)

lemma bit_line_power: "k < 8 \<Longrightarrow> bit (2 ^ k :: Byte) n \<longleftrightarrow> n = k"
  using bit_line_mask[of k n] by simp

lemma bit_line_2: "bit (4 :: Byte) n \<longleftrightarrow> n = 2"
  using bit_line_mask[of 2 n] by simp

text \<open>C12. A line that was chosen in the normal mode and acknowledged is the one that the next unspecific
  end-of-interrupt command ends: the lines in service below it stay in service.
\<close>

theorem eoi_ends_acknowledged:
  assumes "select_irq p = Some (Some i)" and "lowest_priority p < 8" and "\<not> special_mask p" and "\<not> auto_eoi p"
  shows "\<exists>q. clear_highest_interrupt (acknowledge (p\<lparr>irq := i\<rparr>)) = Some q \<and> isr q = isr p \<and>
    bit (isr (acknowledge (p\<lparr>irq := i\<rparr>))) i \<and> \<not> bit (isr p) i"
proof -
  let ?hp = "highest_priority p"
  let ?a = "acknowledge (p\<lparr>irq := i\<rparr>)"
  from assms(1) obtain k where k: "List.find (deliverable p) [0..<8] = Some k" "i = line ?hp k"
    unfolding select_irq_spec[OF assms(2)] by (auto split: if_splits)
  then have k8: "k < 8" "deliverable p k" by (auto simp: find_first_iff)
  have free: "\<not> bit (isr p) (line ?hp j)" if "j \<le> k" for j
    using k8(2) assms(3) that by (auto simp: deliverable_def Let_def)
  have i8: "i < 8" using k(2) by simp
  have a: "isr ?a = isr p OR push_bit i 1" "highest_priority ?a = ?hp" "lowest_priority ?a = lowest_priority p"
    using assms(4) by (simp_all add: acknowledge_def Let_def highest_priority_def)
  have ai: "bit (isr ?a) i" using i8 by (simp add: a(1) bit_or_iff bit_line_power)
  have "List.find (\<lambda>j. bit (isr ?a) (line ?hp j)) [0..<8] = Some k"
    using k8(1) free ai k(2) line_eq_iff[of _ k ?hp] i8
    unfolding find_first_iff a(1) by (auto simp: bit_or_iff bit_line_power)
  then have c: "clear_highest_interrupt ?a = Some (?a\<lparr>isr := isr ?a AND NOT (push_bit i 1)\<rparr>)"
    using clear_highest_interrupt_finds[of ?a] assms(2) k(2) a(2,3) by simp
  have fi: "\<not> bit (isr p) i" using free[of k] k(2) by simp
  have "isr ?a AND NOT (push_bit i 1) = isr p"
  proof (rule bit_word_eqI)
    fix n assume "n < LENGTH(8)"
    then show "bit (isr ?a AND NOT (push_bit i 1)) n = bit (isr p) n"
      using fi i8 unfolding a(1) by (auto simp: bit_and_iff bit_or_iff bit_not_iff bit_line_power)
  qed
  then show ?thesis using c ai free[of k] k(2) by auto
qed

section \<open>The invariant of the pair\<close>

text \<open>
  Priorities and lines are in range, the CPU's line is high exactly while the master has an
  unacknowledged interrupt, and while the slave has one it holds line 2 of the master.
\<close>

definition pics_ok :: "pics \<Rightarrow> bool" where
  "pics_ok s \<longleftrightarrow> chip_ok (master_pic s) \<and> chip_ok (slave_pic s) \<and> (intr s \<longleftrightarrow> INT_pin (master_pic s)) \<and>
     (INT_pin (slave_pic s) \<longrightarrow> bit (IRQ_in (master_pic s)) 2)"

lemma service_master_pic_ok:
  assumes "pics_ok s"
  shows "\<exists>s'. service_master_pic s = Some s' \<and> pics_ok s' \<and> slave_pic s' = slave_pic s \<and>
    IRQ_in (master_pic s') = IRQ_in (master_pic s)"
proof -
  have "lowest_priority (master_pic s) < 8" using assms by (simp add: pics_ok_def chip_ok_def)
  from select_irq_in_range[OF this] obtain r where
    r: "select_irq (master_pic s) = Some r" "\<forall>i. r = Some i \<longrightarrow> i < 8" by blast
  show ?thesis
  proof (cases r)
    case None
    with r assms show ?thesis by (simp add: service_master_pic_def)
  next
    case (Some i)
    with r assms show ?thesis by (simp add: service_master_pic_def upd_master_def pics_ok_def chip_ok_def)
  qed
qed

lemma raise_irq_master_ok:
  assumes "pics_ok s"
  shows "\<exists>s'. raise_irq_master n s = Some s' \<and> pics_ok s'"
proof -
  have "pics_ok (upd_master (raise_pin m) s)" for m
    using assms by (auto simp: pics_ok_def upd_master_def raise_pin_def chip_ok_def bit_simps)
  from service_master_pic_ok[OF this] assms show ?thesis by (auto simp: raise_irq_master_def Let_def)
qed

text \<open>The slave requests line 2: then the line is high, whatever it was.\<close>

lemma raise_irq_2_high:
  assumes "chip_ok (master_pic s)" and "chip_ok (slave_pic s)" and "intr s \<longleftrightarrow> INT_pin (master_pic s)"
  shows "\<exists>s'. raise_irq_master 2 s = Some s' \<and> pics_ok s'"
proof (cases "bit (IRQ_in (master_pic s)) 2")
  case True
  then have "pics_ok s" using assms by (simp add: pics_ok_def)
  then show ?thesis by (rule raise_irq_master_ok)
next
  case False
  then have m: "IRQ_in (master_pic s) AND push_bit 2 1 = 0"
    using bit_line_mask[of 2] by (intro bit_word_eqI) (auto simp: bit_and_iff simp del: push_bit_of_1)
  have "pics_ok (upd_master (raise_pin (push_bit 2 1)) s)"
    using assms by (simp add: pics_ok_def upd_master_def raise_pin_def chip_ok_def bit_or_iff bit_line_mask)
  from service_master_pic_ok[OF this] m show ?thesis by (auto simp: raise_irq_master_def Let_def)
qed

lemma service_slave_pic_ok:
  assumes "pics_ok s"
  shows "\<exists>s'. service_slave_pic s = Some s' \<and> pics_ok s'"
proof -
  have "lowest_priority (slave_pic s) < 8" using assms by (simp add: pics_ok_def chip_ok_def)
  from select_irq_in_range[OF this] obtain r where
    r: "select_irq (slave_pic s) = Some r" "\<forall>i. r = Some i \<longrightarrow> i < 8" by blast
  show ?thesis
  proof (cases r)
    case None
    with r assms show ?thesis by (simp add: service_slave_pic_def)
  next
    case (Some i)
    with r assms show ?thesis
      using raise_irq_2_high[of "upd_slave (\<lambda>p. p\<lparr>INT_pin := True, irq := i\<rparr>) s"]
      by (simp add: service_slave_pic_def upd_slave_def pics_ok_def chip_ok_def)
  qed
qed

text \<open>Updates of one chip that keep the invariant.\<close>

lemma pics_ok_upd_master:
  assumes "pics_ok s" and "chip_ok (f (master_pic s))" and "INT_pin (f (master_pic s)) = INT_pin (master_pic s)"
    and "IRQ_in (f (master_pic s)) = IRQ_in (master_pic s)"
  shows "pics_ok (upd_master f s)" "pics_ok (s\<lparr>master_pic := f (master_pic s)\<rparr>)"
  using assms by (auto simp: pics_ok_def upd_master_def)

lemma pics_ok_upd_slave:
  assumes "pics_ok s" and "chip_ok (f (slave_pic s))" and "INT_pin (f (slave_pic s)) = INT_pin (slave_pic s)"
  shows "pics_ok (upd_slave f s)" "pics_ok (s\<lparr>slave_pic := f (slave_pic s)\<rparr>)"
  using assms by (auto simp: pics_ok_def upd_slave_def)

lemma acknowledge_frame:
  "INT_pin (acknowledge p) = INT_pin p" "IRQ_in (acknowledge p) = IRQ_in p" "irq (acknowledge p) = irq p"
  "interrupt_offset (acknowledge p) = interrupt_offset p"
  by (simp_all add: acknowledge_def Let_def)

lemma acknowledge_ok: "chip_ok p \<Longrightarrow> chip_ok (acknowledge p)"
  by (simp add: acknowledge_def Let_def chip_ok_def)

lemma raise_irq_ok:
  assumes "pics_ok s"
  shows "\<exists>s'. raise_irq n s = Some s' \<and> pics_ok s'"
proof -
  have "pics_ok (upd_master (raise_pin m) s)" "pics_ok (upd_slave (raise_pin m) s)" for m
    using assms by (auto simp: pics_ok_def upd_master_def upd_slave_def raise_pin_def chip_ok_def bit_simps)
  from service_master_pic_ok[OF this(1)] service_slave_pic_ok[OF this(2)] assms
  show ?thesis unfolding raise_irq_def Let_def by auto
qed

lemma lower_irq_ok:
  assumes "pics_ok s" and "n \<noteq> 2"
  shows "pics_ok (lower_irq n s)"
proof -
  have "\<not> bit (push_bit (n mod 8) (1 :: Byte)) 2" if "n \<le> 7" using that assms(2) bit_line_mask[of n 2] by simp
  then show ?thesis
    using assms(1) by (auto simp: lower_irq_def Let_def pics_ok_def upd_master_def upd_slave_def chip_ok_def
        bit_and_iff bit_not_iff simp del: push_bit_of_1)
qed

lemma IAC_ok:
  assumes "pics_ok s"
  shows "\<exists>v s'. IAC s = Some (v, s') \<and> pics_ok s'"
proof -
  define s1 where "s1 = (upd_master (\<lambda>p. p\<lparr>INT_pin := False\<rparr>) s)\<lparr>intr := False\<rparr>"
  define s2 where "s2 = upd_master acknowledge s1"
  define s3 where "s3 = upd_master (\<lambda>p. p\<lparr>IRQ_in := IRQ_in p AND NOT (push_bit 2 1)\<rparr>)
    (upd_slave (\<lambda>p. p\<lparr>INT_pin := False\<rparr>) s2)"
  define s4 where "s4 = upd_slave acknowledge s3"
  have 1: "pics_ok s1" using assms by (simp add: s1_def pics_ok_def upd_master_def chip_ok_def)
  then have 2: "pics_ok s2" unfolding s2_def
    by (intro pics_ok_upd_master) (simp_all add: acknowledge_frame acknowledge_ok pics_ok_def)
  then have 3: "pics_ok s3" by (simp add: s3_def pics_ok_def upd_master_def upd_slave_def chip_ok_def)
  then have "pics_ok s4" unfolding s4_def
    by (intro pics_ok_upd_slave) (simp_all add: acknowledge_frame acknowledge_ok pics_ok_def)
  then obtain s5 where 5: "service_slave_pic s4 = Some s5" "pics_ok s5" using service_slave_pic_ok by blast
  from service_master_pic_ok[OF 5(2)] obtain s6 where 6: "service_master_pic s5 = Some s6" "pics_ok s6" by blast
  from service_master_pic_ok[OF 2] obtain s7 where 7: "service_master_pic s2 = Some s7" "pics_ok s7" by blast
  show ?thesis
  proof (cases "irr (master_pic s1) = 0")
    case True
    then show ?thesis using 1 unfolding IAC_def Let_def s1_def[symmetric] by simp
  next
    case False
    then show ?thesis
      using 3 5 6 7
      unfolding IAC_def Let_def s1_def[symmetric] s2_def[symmetric] s3_def[symmetric] s4_def[symmetric] by simp
  qed
qed

lemma clear_highest_interrupt_ok:
  assumes "chip_ok p"
  shows "\<exists>q. clear_highest_interrupt p = Some q \<and> chip_ok q \<and> INT_pin q = INT_pin p \<and> IRQ_in q = IRQ_in p"
  using clear_highest_interrupt_finds[of p] assms by (simp add: chip_ok_def)

lemma pic_read_ok:
  assumes "pics_ok s" and "pic_read a n s = Some (v, s')"
  shows "pics_ok s'"
proof -
  obtain p where p: "clear_highest_interrupt (master_pic s) = Some p" "chip_ok p" "INT_pin p = INT_pin (master_pic s)"
    "IRQ_in p = IRQ_in (master_pic s)"
    using clear_highest_interrupt_ok assms(1) unfolding pics_ok_def by blast
  obtain q where q: "clear_highest_interrupt (slave_pic s) = Some q" "chip_ok q" "INT_pin q = INT_pin (slave_pic s)"
    using clear_highest_interrupt_ok assms(1) unfolding pics_ok_def by blast
  have "pics_ok (s\<lparr>master_pic := p\<lparr>polled := False\<rparr>\<rparr>)" using assms(1) p(2-4) by (simp add: pics_ok_def chip_ok_def)
  from service_master_pic_ok[OF this] obtain s1 where
    1: "service_master_pic (s\<lparr>master_pic := p\<lparr>polled := False\<rparr>\<rparr>) = Some s1" "pics_ok s1" by blast
  have "pics_ok (s\<lparr>slave_pic := q\<lparr>polled := False\<rparr>\<rparr>)" using assms(1) q(2,3) by (simp add: pics_ok_def chip_ok_def)
  from service_slave_pic_ok[OF this] obtain s2 where
    2: "service_slave_pic (s\<lparr>slave_pic := q\<lparr>polled := False\<rparr>\<rparr>) = Some s2" "pics_ok s2" by blast
  show ?thesis using assms p(1) q(1) 1 2 by (auto simp: pic_read_def split: if_splits)
qed

text \<open>A chip after a command: in range, pins kept.\<close>

definition same_pins :: "pic_t \<Rightarrow> pic_t \<Rightarrow> bool" where
  "same_pins p q \<longleftrightarrow> chip_ok q \<and> INT_pin q = INT_pin p \<and> IRQ_in q = IRQ_in p"

lemma ocw3_pins: "chip_ok p \<Longrightarrow> same_pins p (fst (ocw3 v p))"
  by (simp add: ocw3_def Let_def same_pins_def chip_ok_def)

lemma data_write_pins: "chip_ok p \<Longrightarrow> data_write v p = Some pb \<Longrightarrow> same_pins p (fst pb)"
  by (auto simp: data_write_def same_pins_def chip_ok_def split: if_splits)

lemma unat_digit:
  assumes "a \<le> v" and "unat v \<le> unat a + 7"
  shows "unat (v - a) < 8"
  using assms by (simp add: unat_sub word_le_nat_alt)

lemma ocw2_pins:
  assumes "chip_ok p" and "ocw2 v p = Some pb"
  shows "same_pins p (fst pb)"
proof -
  obtain q where q: "clear_highest_interrupt p = Some q" "chip_ok q" "INT_pin q = INT_pin p" "IRQ_in q = IRQ_in p"
    using clear_highest_interrupt_ok[OF assms(1)] by blast
  have c: "unat (v - 0xC0) < 8" if "0xC0 \<le> v" "v \<le> 0xC7" using unat_digit[of "0xC0" v] that by (simp add: word_le_nat_alt)
  have e: "unat (v - 0xE0) < 8" if "0xE0 \<le> v" "v \<le> 0xE7" using unat_digit[of "0xE0" v] that by (simp add: word_le_nat_alt)
  have n: "next_irq (lowest_priority q) < 8" by (simp add: next_irq_def)
  show ?thesis using assms q c e n
    by (auto simp: ocw2_def same_pins_def chip_ok_def split: if_splits)
qed

lemma put_master_ok:
  assumes "pics_ok s" and "same_pins (master_pic s) (fst pb)"
  shows "\<exists>s'. put_master pb s = Some s' \<and> pics_ok s'"
proof -
  have "pics_ok (s\<lparr>master_pic := fst pb\<rparr>)" using assms by (simp add: pics_ok_def same_pins_def)
  with service_master_pic_ok[OF this] show ?thesis by (auto simp: put_master_def Let_def)
qed

lemma put_slave_ok:
  assumes "pics_ok s" and "same_pins (slave_pic s) (fst pb)"
  shows "\<exists>s'. put_slave pb s = Some s' \<and> pics_ok s'"
proof -
  have "pics_ok (s\<lparr>slave_pic := fst pb\<rparr>)" using assms by (simp add: pics_ok_def same_pins_def)
  with service_slave_pic_ok[OF this] show ?thesis by (auto simp: put_slave_def Let_def)
qed

lemma pic_write_ok:
  assumes "pics_ok s" and "pic_write a v s = Some s'"
  shows "pics_ok s'"
proof -
  have c: "chip_ok (master_pic s)" "chip_ok (slave_pic s)" using assms(1) by (simp_all add: pics_ok_def)
  have i: "pics_ok ((upd_master (icw1 v) s)\<lparr>intr := False\<rparr>)"
    using assms(1) by (simp add: pics_ok_def upd_master_def icw1_def chip_ok_def)
  have j: "pics_ok (upd_master (\<lambda>p. p\<lparr>IRQ_in := IRQ_in p AND NOT (push_bit 2 1)\<rparr>) (upd_slave (icw1 v) s))"
    using assms(1) by (simp add: pics_ok_def upd_master_def upd_slave_def icw1_def chip_ok_def)
  have pm: "pics_ok t" if "put_master pb s = Some t" "same_pins (master_pic s) (fst pb)" for pb t
    using put_master_ok[OF assms(1) that(2)] that(1) by simp
  have ps: "pics_ok t" if "put_slave pb s = Some t" "same_pins (slave_pic s) (fst pb)" for pb t
    using put_slave_ok[OF assms(1) that(2)] that(1) by simp
  note o = ocw2_pins[OF c(1)] ocw3_pins[OF c(1)] data_write_pins[OF c(1)]
    ocw2_pins[OF c(2)] ocw3_pins[OF c(2)] data_write_pins[OF c(2)]
  have m: "pics_ok s'" if "master_command v s = Some s'"
    using that i pm o(1,2) unfolding master_command_def
    by (auto split: if_splits simp: bind_Some_iff simp del: push_bit_of_1 split_paired_Ex)
  have sl: "pics_ok s'" if "slave_command v s = Some s'"
    using that j ps o(4,5) unfolding slave_command_def
    by (auto split: if_splits simp: bind_Some_iff simp del: push_bit_of_1 split_paired_Ex)
  have md: "pics_ok s'" if "master_data v s = Some s'"
    using that pm o(3) unfolding master_data_def by (auto simp: bind_Some_iff simp del: split_paired_Ex)
  have sd: "pics_ok s'" if "slave_data v s = Some s'"
    using that ps o(6) unfolding slave_data_def by (auto simp: bind_Some_iff simp del: split_paired_Ex)
  show ?thesis using assms m sl md sd by (auto simp: pic_write_def split: if_splits)
qed

section \<open>Runs of the controllers\<close>

datatype pic_event = Raise nat | Lower nat | Acknowledge | Read DWord nat | Write DWord DWord | Mode bool Byte

definition pic_step :: "pic_event \<Rightarrow> pics \<Rightarrow> pics option" where
  "pic_step e s =
     (case e of Raise n \<Rightarrow> raise_irq n s
      | Lower n \<Rightarrow> Some (lower_irq n s)
      | Acknowledge \<Rightarrow> map_option snd (IAC s)
      | Read a n \<Rightarrow> map_option snd (pic_read a n s)
      | Write a v \<Rightarrow> pic_write a v s
      | Mode m v \<Rightarrow> Some (set_mode m v s))"

lemma pic_step_ok:
  assumes "pics_ok s" and "pic_step e s = Some s'" and "e \<noteq> Lower 2"
  shows "pics_ok s'"
proof (cases e)
  case (Raise n)
  with assms raise_irq_ok[OF assms(1), of n] show ?thesis by (auto simp: pic_step_def)
next
  case (Lower n)
  with assms lower_irq_ok show ?thesis by (auto simp: pic_step_def)
next
  case Acknowledge
  with assms IAC_ok[OF assms(1)] show ?thesis by (auto simp: pic_step_def)
next
  case (Read a n)
  with assms pic_read_ok show ?thesis by (auto simp: pic_step_def)
next
  case (Write a v)
  with assms pic_write_ok show ?thesis by (auto simp: pic_step_def)
next
  case (Mode m v)
  with assms show ?thesis
    by (cases m) (auto simp: pic_step_def set_mode_def upd_master_def upd_slave_def pics_ok_def chip_ok_def)
qed

lemma pic_init_ok: "pics_ok pic_init"
  by (simp add: pics_ok_def pic_init_def chip_ok_def)

text \<open>C29. Whatever sequence of device signals, acknowledgements and port accesses the controllers see after
  power-on, as long as nobody but the slave drives line 2: the invariant holds afterwards, so that the
  CPU's interrupt line is high exactly while the master has an unacknowledged interrupt.\<close>

theorem pic_runs_ok:
  assumes "foldM pic_step es pic_init = Some s" and "Lower 2 \<notin> set es"
  shows "pics_ok s"
proof -
  have "foldM pic_step es t = Some s \<Longrightarrow> Lower 2 \<notin> set es \<Longrightarrow> pics_ok t \<Longrightarrow> pics_ok s" for t
    by (induction es arbitrary: t) (auto simp: bind_Some_iff intro: pic_step_ok)
  from this[OF assms pic_init_ok] show ?thesis .
qed

text \<open>C30. From a state that satisfies the invariant a device signal and an acknowledgement always return:
  the priority loops end and no panic is reached.\<close>

theorem pic_total:
  assumes "pics_ok s"
  shows "raise_irq n s \<noteq> None \<and> IAC s \<noteq> None"
  using raise_irq_ok[OF assms, of n] IAC_ok[OF assms] by auto

text \<open>C11. The line that a chip signals is the one of highest priority among those that can be delivered:
  requested, not masked, and above everything in service (or, in the special mask mode, not in service
  itself); while a signalled line is unacknowledged, no other is chosen.\<close>

theorem signalled_line:
  assumes "lowest_priority p < 8"
  shows "select_irq p = Some (Some i) \<longleftrightarrow>
    \<not> INT_pin p \<and> (\<exists>k < 8. i = line (highest_priority p) k \<and> deliverable p k \<and> (\<forall>j \<in> {0..<k}. \<not> deliverable p j))"
  unfolding select_irq_spec[OF assms] by (auto simp: find_first_iff split: if_splits)

text \<open>A chip with lines 1 and 4 requested and line 3 in service.\<close>

definition sample_chip :: pic_t where
  "sample_chip = (master_pic pic_init)\<lparr>imr := 0, irr := 0x12, isr := 0x08\<rparr>"

lemma sample_chip_selects: "select_irq sample_chip = Some (Some 1)"
  unfolding sample_chip_def by code_simp

lemma signalled_line_witness:
  "\<exists>k < 8. 1 = line (highest_priority sample_chip) k \<and> deliverable sample_chip k"
proof -
  have "lowest_priority sample_chip < 8" by (simp add: sample_chip_def pic_init_def)
  from signalled_line[OF this, of 1] sample_chip_selects show ?thesis by blast
qed

lemma eoi_ends_acknowledged_witness:
  "\<exists>q. clear_highest_interrupt (acknowledge (sample_chip\<lparr>irq := 1\<rparr>)) = Some q \<and> isr q = 0x08"
proof -
  have "lowest_priority sample_chip < 8" "\<not> special_mask sample_chip" "\<not> auto_eoi sample_chip" "isr sample_chip = 0x08"
    by (simp_all add: sample_chip_def pic_init_def)
  with eoi_ends_acknowledged[OF sample_chip_selects] show ?thesis by auto
qed

lemma pic_total_witness: "raise_irq 9 pic_init \<noteq> None \<and> IAC pic_init \<noteq> None"
  by (rule pic_total[OF pic_init_ok])

lemma pic_runs_ok_witness: "\<exists>s. foldM pic_step [Write 0x21 0, Raise 3, Raise 12, Acknowledge] pic_init = Some s \<and> pics_ok s"
proof -
  have "foldM pic_step [Write 0x21 0, Raise 3, Raise 12, Acknowledge] pic_init \<noteq> None" by code_simp
  then obtain s where "foldM pic_step [Write 0x21 0, Raise 3, Raise 12, Acknowledge] pic_init = Some s" by blast
  with pic_runs_ok[OF this] show ?thesis by simp
qed

end
