(* ===== verification/Machine.thy ===== *)
theory Machine
  imports Pic Interrupt
begin

text \<open>
  The kernel on the machine: the interrupt controllers as the boot sector and \<open>enable_int\<close> leave them,
  and the vectors that reach the interrupt table of \<open>setIdt\<close> from then on.
\<close>

section \<open>The controllers after boot\<close>

definition program_pic :: "(DWord \<times> DWord) list \<Rightarrow> pics \<Rightarrow> pics option" where
  "program_pic ws s = foldM (\<lambda>(a, v). pic_write a v) ws s"

definition booted_pic :: pics where
  "booted_pic = the (program_pic (bootsect_pic @ [enable_int_mask]) pic_init)"

text \<open>
  What stays as ZeOS programmed it: the master's vectors start at 32, only the clock and the keyboard are
  unmasked, all lines of the slave are masked, the normal mode with explicit ends of interrupts.
\<close>

definition zeos_pic :: "pics \<Rightarrow> bool" where
  "zeos_pic s \<longleftrightarrow> pics_ok s \<and>
     interrupt_offset (master_pic s) = 0x20 \<and> imr (master_pic s) = 0xFC \<and> \<not> auto_eoi (master_pic s) \<and>
     \<not> special_mask (master_pic s) \<and> lowest_priority (master_pic s) = 7 \<and>
     irq (master_pic s) < 2 \<and>
     imr (slave_pic s) = 0xFF \<and> \<not> INT_pin (slave_pic s)"

lemma program_pic_booted: "program_pic (bootsect_pic @ [enable_int_mask]) pic_init = Some booted_pic"
  unfolding booted_pic_def by code_simp

lemma zeos_pic_booted: "zeos_pic booted_pic"
  unfolding zeos_pic_def pics_ok_def chip_ok_def by code_simp

section \<open>Steps of a running system\<close>

text \<open>Devices drive their lines, the CPU acknowledges, and every handler sends the same end of interrupt.\<close>

definition zeos_event :: "pic_event \<Rightarrow> bool" where
  "zeos_event e \<longleftrightarrow>
     (case e of Raise n \<Rightarrow> True | Lower n \<Rightarrow> n \<noteq> 2 | Acknowledge \<Rightarrow> True
      | Write a v \<Rightarrow> a = 0x20 \<and> v = 0x20 | _ \<Rightarrow> False)"

lemma bit_FC: "i < 8 \<Longrightarrow> \<not> bit (0xFC :: Byte) i \<longleftrightarrow> i < 2"
  by (auto simp: numeral_eq_Suc less_Suc_eq)

lemma bit_FF: "i < 8 \<Longrightarrow> bit (0xFF :: Byte) i"
  by (auto simp: numeral_eq_Suc less_Suc_eq)

lemma slave_masked:
  assumes "lowest_priority p < 8" and "imr p = 0xFF"
  shows "select_irq p = Some None"
proof -
  have "\<not> deliverable p k" for k using assms(2) bit_FF by (simp add: deliverable_def Let_def)
  then show ?thesis using select_irq_spec[OF assms(1)] by (simp add: find_None_iff)
qed

text \<open>
  With line 0 at the top, the request for the clock or the keyboard waits while one of the same or a
  higher rank is in service, and no other request is ever chosen.
\<close>

definition pending :: "pic_t \<Rightarrow> nat \<Rightarrow> bool" where
  "pending p k \<longleftrightarrow> k < 2 \<and> bit (irr p) k \<and> (\<forall>j \<in> {0..k}. \<not> bit (isr p) j)"

lemma deliverable_zeos:
  assumes "lowest_priority p = 7" and "imr p = 0xFC" and "\<not> special_mask p" and "k < 8"
  shows "deliverable p k \<longleftrightarrow> pending p k"
proof -
  have "highest_priority p = 0" "line 0 j = j" if "j < 8" for j
    using assms(1) that by (simp_all add: highest_priority_def line_def)
  with assms bit_FC[OF assms(4)] show ?thesis
    by (auto simp: deliverable_def pending_def Let_def highest_priority_def)
qed

lemma select_zeos:
  assumes "lowest_priority p = 7" and "imr p = 0xFC" and "\<not> special_mask p" and "\<not> INT_pin p"
  shows "select_irq p = Some (if pending p 0 then Some 0 else if pending p 1 then Some 1 else None)"
proof -
  have "List.find (deliverable p) [0..<8] = List.find (pending p) [0..<8]"
    by (rule find_cong) (use deliverable_zeos[OF assms(1-3)] in auto)
  also have "\<dots> = (if pending p 0 then Some 0 else if pending p 1 then Some 1 else None)"
    by (simp add: upt_first pending_def)
  finally show ?thesis
    using select_irq_spec[of p] assms by (simp add: highest_priority_def line_def)
qed

text \<open>No request is forgotten: while the CPU's line is low nothing is pending.\<close>

definition served :: "pics \<Rightarrow> bool" where
  "served s \<longleftrightarrow> INT_pin (master_pic s) \<or> (\<forall>k. \<not> pending (master_pic s) k)"

lemma service_master_zeos:
  assumes "zeos_pic s"
  shows "\<exists>s'. service_master_pic s = Some s' \<and> zeos_pic s' \<and> served s' \<and> slave_pic s' = slave_pic s \<and>
    isr (master_pic s') = isr (master_pic s)"
proof (cases "INT_pin (master_pic s)")
  case True
  then have "service_master_pic s = Some s" by (simp add: service_master_pic_def select_irq_def Let_def)
  then show ?thesis using assms True by (simp add: served_def)
next
  case False
  have z: "lowest_priority (master_pic s) = 7" "imr (master_pic s) = 0xFC" "\<not> special_mask (master_pic s)"
    using assms by (simp_all add: zeos_pic_def)
  have k: "k < 2 \<Longrightarrow> k = 0 \<or> k = 1" for k :: nat by linarith
  show ?thesis
  proof (cases "pending (master_pic s) 0 \<or> pending (master_pic s) 1")
    case True
    then obtain i where i: "select_irq (master_pic s) = Some (Some i)" "i < 2"
      using select_zeos[OF z False] by (auto split: if_splits)
    define s1 where "s1 = (upd_master (\<lambda>p. p\<lparr>INT_pin := True, irq := i\<rparr>) s)\<lparr>intr := True\<rparr>"
    have "service_master_pic s = Some s1" using i by (simp add: service_master_pic_def s1_def)
    moreover have "zeos_pic s1" "served s1" "slave_pic s1 = slave_pic s" "isr (master_pic s1) = isr (master_pic s)"
      using assms i(2) by (auto simp: zeos_pic_def served_def s1_def upd_master_def pics_ok_def chip_ok_def)
    ultimately show ?thesis by blast
  next
    case np: False
    then have "service_master_pic s = Some s" using select_zeos[OF z False] by (simp add: service_master_pic_def)
    moreover have "served s" using np k by (auto simp: served_def pending_def)
    ultimately show ?thesis using assms by blast
  qed
qed

lemma raise_zeos:
  assumes "zeos_pic s" and "served s"
  shows "\<exists>s'. raise_irq n s = Some s' \<and> zeos_pic s' \<and> served s'"
proof -
  have m: "zeos_pic (upd_master (raise_pin b) s)" for b
    using assms(1) by (auto simp: zeos_pic_def upd_master_def raise_pin_def pics_ok_def chip_ok_def bit_simps)
  have sl: "zeos_pic (upd_slave (raise_pin b) s)" "served (upd_slave (raise_pin b) s)" for b
    using assms by (auto simp: zeos_pic_def served_def upd_slave_def raise_pin_def pics_ok_def chip_ok_def)
  have "select_irq (slave_pic (upd_slave (raise_pin b) s)) = Some None" for b
    using sl(1)[of b] by (intro slave_masked) (simp_all add: zeos_pic_def pics_ok_def chip_ok_def)
  then have "service_slave_pic (upd_slave (raise_pin b) s) = Some (upd_slave (raise_pin b) s)" for b
    by (simp add: service_slave_pic_def)
  then have sv: "\<exists>s'. service_slave_pic (upd_slave (raise_pin b) s) = Some s' \<and> zeos_pic s' \<and> served s'" for b
    using sl by blast
  have ma: "\<exists>s'. service_master_pic (upd_master (raise_pin b) s) = Some s' \<and> zeos_pic s' \<and> served s'" for b
    using service_master_zeos[OF m[of b]] by blast
  show ?thesis unfolding raise_irq_def Let_def using ma sv assms
    by (simp del: push_bit_of_1 split: if_split)
qed

lemma lower_zeos:
  assumes "zeos_pic s" and "served s" and "n \<noteq> 2"
  shows "zeos_pic (lower_irq n s)" "served (lower_irq n s)"
proof -
  have "pics_ok s" using assms(1) by (simp add: zeos_pic_def)
  with lower_irq_ok[OF this assms(3)] assms(1) show "zeos_pic (lower_irq n s)"
    by (auto simp: zeos_pic_def lower_irq_def Let_def upd_master_def upd_slave_def)
  show "served (lower_irq n s)" using assms(2)
    by (auto simp: served_def pending_def lower_irq_def Let_def upd_master_def upd_slave_def bit_and_iff)
qed

lemma eoi_zeos:
  assumes "zeos_pic s"
  shows "\<exists>s'. pic_write 0x20 0x20 s = Some s' \<and> zeos_pic s' \<and> served s'"
proof -
  obtain r where q: "clear_highest_interrupt (master_pic s) = Some ((master_pic s)\<lparr>isr := r\<rparr>)"
    using clear_highest_interrupt_finds[of "master_pic s"] assms by (simp add: zeos_pic_def)
  define s1 where "s1 = s\<lparr>master_pic := (master_pic s)\<lparr>isr := r\<rparr>\<rparr>"
  have "zeos_pic s1" using assms by (simp add: s1_def zeos_pic_def pics_ok_def chip_ok_def)
  from service_master_zeos[OF this] obtain s' where
    s': "service_master_pic s1 = Some s'" "zeos_pic s'" "served s'" by blast
  have "ocw2 0x20 (master_pic s) = Some ((master_pic s)\<lparr>isr := r\<rparr>, True)" using q by (simp add: ocw2_def)
  then have "pic_write 0x20 0x20 s = Some s'"
    using s'(1) by (simp add: pic_write_def master_command_def put_master_def s1_def)
  with s' show ?thesis by blast
qed

text \<open>What the CPU reads when it acknowledges.\<close>

lemma IAC_zeos:
  assumes "zeos_pic s" and "served s"
  shows "\<exists>s'. IAC s = Some (if irr (master_pic s) = 0 then 39 else 32 + of_nat (irq (master_pic s)), s') \<and>
    zeos_pic s' \<and> served s'"
proof -
  define s1 where "s1 = (upd_master (\<lambda>p. p\<lparr>INT_pin := False\<rparr>) s)\<lparr>intr := False\<rparr>"
  have 1: "zeos_pic s1" using assms(1) by (auto simp: s1_def zeos_pic_def upd_master_def pics_ok_def chip_ok_def)
  have irr1: "irr (master_pic s1) = irr (master_pic s)" "irq (master_pic s1) = irq (master_pic s)"
    by (simp_all add: s1_def upd_master_def)
  have "zeos_pic (upd_master acknowledge s1)"
    using 1 by (auto simp: zeos_pic_def upd_master_def pics_ok_def chip_ok_def acknowledge_def Let_def)
  from service_master_zeos[OF this] obtain s2 where
    2: "service_master_pic (upd_master acknowledge s1) = Some s2" "zeos_pic s2" "served s2" by blast
  have n2: "irq (master_pic (upd_master acknowledge s1)) = irq (master_pic s)"
    "interrupt_offset (master_pic (upd_master acknowledge s1)) = 0x20"
    using 1 irr1 by (simp_all add: upd_master_def acknowledge_frame zeos_pic_def)
  have "irq (master_pic s) < 2" using assms(1) by (simp add: zeos_pic_def)
  then have ne: "irq (master_pic (upd_master acknowledge s1)) \<noteq> 2" using n2 by simp
  show ?thesis
  proof (cases "irr (master_pic s) = 0")
    case True
    have "served s1" using True irr1 by (simp add: served_def pending_def)
    moreover have "IAC s = Some (39, s1)"
      using True irr1(1) 1 unfolding IAC_def Let_def s1_def[symmetric] by (simp add: zeos_pic_def)
    ultimately show ?thesis using 1 True by auto
  next
    case False
    have "IAC s = Some (32 + of_nat (irq (master_pic s)), s2)"
      using False irr1(1) ne 2(1) n2 unfolding IAC_def Let_def s1_def[symmetric] by (simp add: add.commute)
    with 2 False show ?thesis by auto
  qed
qed

lemma step_zeos:
  assumes "zeos_pic s" and "served s" and "zeos_event e"
  shows "\<exists>s'. pic_step e s = Some s' \<and> zeos_pic s' \<and> served s'"
proof (cases e)
  case (Raise n)
  with raise_zeos[OF assms(1,2)] show ?thesis by (simp add: pic_step_def)
next
  case (Lower n)
  with assms lower_zeos[OF assms(1,2), of n] show ?thesis by (simp add: pic_step_def zeos_event_def)
next
  case Acknowledge
  with IAC_zeos[OF assms(1,2)] show ?thesis by (auto simp: pic_step_def)
next
  case (Write a v)
  with assms eoi_zeos[OF assms(1)] show ?thesis by (simp add: pic_step_def zeos_event_def)
qed (use assms(3) in \<open>simp_all add: zeos_event_def\<close>)

lemma served_booted: "served booted_pic"
proof -
  have "irr (master_pic booted_pic) = 0" by code_simp
  then show ?thesis by (simp add: served_def pending_def)
qed

text \<open>C9. From the state in which the boot sector and \<open>enable_int\<close> leave the controllers, for any sequence of
  device signals, acknowledgements and ends of interrupts, whoever raises what: nothing stops the
  controllers, no pending clock or keyboard request is left unsignalled while the CPU's line is low, and the
  next vector the CPU reads is 32 (clock), 33 (keyboard) or the spurious 39, never another one.\<close>

theorem zeos_vectors:
  assumes "\<forall>e \<in> set es. zeos_event e"
  shows "\<exists>s v s'. foldM pic_step es booted_pic = Some s \<and> served s \<and> (intr s \<longleftrightarrow> INT_pin (master_pic s)) \<and>
    IAC s = Some (v, s') \<and> v \<in> {32, 33, 39}"
proof -
  have "\<exists>s. foldM pic_step es t = Some s \<and> zeos_pic s \<and> served s" if "zeos_pic t" "served t" for t
    using assms that
  proof (induction es arbitrary: t)
    case Nil
    then show ?case by simp
  next
    case (Cons e es)
    then obtain t1 where "pic_step e t = Some t1" "zeos_pic t1" "served t1"
      using step_zeos[of t e] by auto
    with Cons show ?case by auto
  qed
  from this[OF zeos_pic_booted served_booted] obtain s where
    s: "foldM pic_step es booted_pic = Some s" "zeos_pic s" "served s" by blast
  have "irq (master_pic s) < 2" using s(2) by (simp add: zeos_pic_def)
  then have "irq (master_pic s) = 0 \<or> irq (master_pic s) = 1" by linarith
  with IAC_zeos[OF s(2,3)] s show ?thesis by (auto simp: zeos_pic_def pics_ok_def)
qed

lemma zeos_vectors_witness:
  "\<exists>s v s'. foldM pic_step [Raise 0, Raise 9, Acknowledge, Raise 1, Write 0x20 0x20] booted_pic = Some s \<and>
    served s \<and> (intr s \<longleftrightarrow> INT_pin (master_pic s)) \<and> IAC s = Some (v, s') \<and> v \<in> {32, 33, 39}"
  by (rule zeos_vectors) (simp add: zeos_event_def)

end
