(* ===== verification/Pit.thy ===== *)
theory Pit
  imports Prelude
begin

text \<open>
  The interval timer that drives the kernel's clock: the 82C54 of \<open>bochs-2.6.7/iodev/pit82c54.cc\<close>, whose
  counter 0 is wired to interrupt line 0. All arithmetic is on the widths of the source (\<open>Bit32u\<close> counts,
  \<open>Bit16u\<close> latches, \<open>Bit8u\<close> status). Error messages are left out, as are the debugger's printing and the
  registration of the state; \<open>calls\<close> records the values the \<open>out_handler\<close> callback was called with.
\<close>

section \<open>State\<close>

datatype rw_status = LSByte | MSByte | LSByte_multiple | MSByte_multiple

record counter_type =
  GATE :: bool
  OUTpin :: bool
  count :: DWord
  outlatch :: Word16
  inlatch :: Word16
  status_latch :: Byte
  rw_mode :: Byte
  mode :: Byte
  bcd_mode :: bool
  null_count :: bool
  count_LSB_latched :: bool
  count_MSB_latched :: bool
  status_latched :: bool
  count_binary :: DWord
  triggerGATE :: bool
  write_state :: rw_status
  read_state :: rw_status
  count_written :: bool
  first_pass :: bool
  state_bit_1 :: bool
  state_bit_2 :: bool
  next_change_time :: DWord
  out_handler :: bool
  calls :: "bool list"

record pit =
  counter :: "nat \<Rightarrow> counter_type"
  controlword :: Byte

definition MAX_COUNTER :: nat where [simp]: "MAX_COUNTER = 2"
definition MAX_ADDRESS :: nat where [simp]: "MAX_ADDRESS = 3"
definition CONTROL_ADDRESS :: nat where [simp]: "CONTROL_ADDRESS = 3"

definition pit_reset_counter :: "counter_type \<Rightarrow> counter_type" where
  "pit_reset_counter c =
     c\<lparr>read_state := LSByte, write_state := LSByte, GATE := True, OUTpin := True, triggerGATE := False, mode := 4,
       first_pass := False, bcd_mode := False, count := 0, count_binary := 0, state_bit_1 := False,
       state_bit_2 := False, null_count := False, rw_mode := 1, count_written := True, count_LSB_latched := False,
       count_MSB_latched := False, status_latched := False, next_change_time := 0, out_handler := False\<rparr>"

definition pit_init :: "pit \<Rightarrow> pit" where
  "pit_init p = p\<lparr>counter := \<lambda>i. if i < 3 then pit_reset_counter (counter p i) else counter p i\<rparr>"

section \<open>The count\<close>

definition latch_counter :: "counter_type \<Rightarrow> counter_type" where
  "latch_counter c =
     (if count_LSB_latched c \<or> count_MSB_latched c then c
      else (case read_state c of
          MSByte \<Rightarrow> c\<lparr>outlatch := ucast (count c AND 0xFFFF), count_MSB_latched := True\<rparr>
        | LSByte \<Rightarrow> c\<lparr>outlatch := ucast (count c AND 0xFFFF), count_LSB_latched := True\<rparr>
        | LSByte_multiple \<Rightarrow>
            c\<lparr>outlatch := ucast (count c AND 0xFFFF), count_LSB_latched := True, count_MSB_latched := True\<rparr>
        | MSByte_multiple \<Rightarrow>
            c\<lparr>read_state := LSByte_multiple, outlatch := ucast (count c AND 0xFFFF), count_LSB_latched := True,
              count_MSB_latched := True\<rparr>))"

definition set_OUT :: "bool \<Rightarrow> counter_type \<Rightarrow> counter_type" where
  "set_OUT data c =
     (if OUTpin c \<noteq> data
      then (let c1 = c\<lparr>OUTpin := data\<rparr> in if out_handler c1 then c1\<lparr>calls := calls c1 @ [data]\<rparr> else c1)
      else c)"

definition set_binary_to_count :: "counter_type \<Rightarrow> counter_type" where
  "set_binary_to_count c =
     (if bcd_mode c
      then c\<lparr>count_binary := 1 * (drop_bit 0 (count c) AND 0xF) + 10 * (drop_bit 4 (count c) AND 0xF) +
                             100 * (drop_bit 8 (count c) AND 0xF) + 1000 * (drop_bit 12 (count c) AND 0xF)\<rparr>
      else c\<lparr>count_binary := count c\<rparr>)"

definition set_count :: "DWord \<Rightarrow> counter_type \<Rightarrow> counter_type" where
  "set_count data c = set_binary_to_count (c\<lparr>count := data AND 0xFFFF\<rparr>)"

definition set_count_to_binary :: "counter_type \<Rightarrow> counter_type" where
  "set_count_to_binary c =
     (if bcd_mode c
      then c\<lparr>count := push_bit 0 ((count_binary c div 1) mod 10) OR push_bit 4 ((count_binary c div 10) mod 10) OR
                      push_bit 8 ((count_binary c div 100) mod 10) OR push_bit 12 ((count_binary c div 1000) mod 10)\<rparr>
      else c\<lparr>count := count_binary c\<rparr>)"

definition decrement :: "counter_type \<Rightarrow> counter_type" where
  "decrement c =
     (if count c = 0 then
        (if bcd_mode c then c\<lparr>count := 0x9999, count_binary := 9999\<rparr>
         else c\<lparr>count := 0xFFFF, count_binary := 0xFFFF\<rparr>)
      else set_count_to_binary (c\<lparr>count_binary := count_binary c - 1\<rparr>))"

lemma sub_Suc_less: "(b :: DWord) < cycles \<Longrightarrow> unat (cycles - (b + 1)) = unat cycles - Suc (unat b)"
proof -
  assume a: "b < cycles"
  moreover have "unat cycles < 2 ^ 32" using unsigned_less[of cycles] by simp
  ultimately have "unat b + 1 < 2 ^ 32" by (simp add: word_less_nat_alt)
  then have "unat (b + 1) = Suc (unat b)" by (simp add: unat_word_ariths)
  moreover have "b + 1 \<le> cycles" using a by (simp add: inc_le)
  ultimately show ?thesis by (simp add: unat_sub)
qed

function decrement_multiple :: "DWord \<Rightarrow> counter_type \<Rightarrow> counter_type" where
  "decrement_multiple cycles c =
     (if cycles > 0 then
        (if cycles \<le> count_binary c
         then decrement_multiple (cycles - cycles) (set_count_to_binary (c\<lparr>count_binary := count_binary c - cycles\<rparr>))
         else decrement_multiple (cycles - (count_binary c + 1))
                (decrement (set_count_to_binary (c\<lparr>count_binary := count_binary c - count_binary c\<rparr>))))
      else c)"
  by pat_completeness auto

termination
  by (relation "measure (\<lambda>(cycles, c). unat cycles)")
    (auto simp: sub_Suc_less not_le word_less_nat_alt)

declare decrement_multiple.simps [simp del]

section \<open>One clock cycle\<close>

text \<open>The time to the next event when the count is \<open>count_binary\<close>; a count of 0 stands for the next cycle.\<close>

definition time_of_count :: "counter_type \<Rightarrow> DWord" where
  "time_of_count c = (if count_binary c = 0 then 1 else count_binary c AND 0xFFFF)"

definition clock_mode0 :: "counter_type \<Rightarrow> counter_type" where
  "clock_mode0 c =
     (let c1 =
        (if count_written c then
           (if null_count c then
              (let a = set_count (ucast (inlatch c)) c;
                   b = (if GATE a then a\<lparr>next_change_time := time_of_count a\<rparr> else a\<lparr>next_change_time := 0\<rparr>)
               in b\<lparr>null_count := False\<rparr>)
            else if GATE c \<and> write_state c \<noteq> MSByte_multiple then
              (let a = decrement c in
               if \<not> OUTpin a then
                 (let b = a\<lparr>next_change_time := count_binary a AND 0xFFFF\<rparr> in if count b = 0 then set_OUT True b else b)
               else a\<lparr>next_change_time := 0\<rparr>)
            else c\<lparr>next_change_time := 0\<rparr>)
         else c\<lparr>next_change_time := 0\<rparr>)
      in c1\<lparr>triggerGATE := False\<rparr>)"

definition clock_mode1 :: "counter_type \<Rightarrow> counter_type" where
  "clock_mode1 c =
     (let c1 =
        (if count_written c then
           (if triggerGATE c then
              (let a = set_count (ucast (inlatch c)) c
               in set_OUT False (a\<lparr>next_change_time := time_of_count a, null_count := False\<rparr>))
            else
              (let a = decrement c in
               if \<not> OUTpin a then
                 (let b = a\<lparr>next_change_time := time_of_count a\<rparr> in if count b = 0 then set_OUT True b else b)
               else a\<lparr>next_change_time := 0\<rparr>))
         else c\<lparr>next_change_time := 0\<rparr>)
      in c1\<lparr>triggerGATE := False\<rparr>)"

definition clock_mode2 :: "counter_type \<Rightarrow> counter_type" where
  "clock_mode2 c =
     (let c1 =
        (if count_written c then
           (if triggerGATE c \<or> first_pass c then
              (let a = set_count (ucast (inlatch c)) c;
                   b = a\<lparr>next_change_time := (count_binary a - 1) AND 0xFFFF, null_count := False\<rparr>;
                   d = (if \<not> OUTpin b then set_OUT True b else b)
               in d\<lparr>first_pass := False\<rparr>)
            else if GATE c then
              (let a = decrement c;
                   b = a\<lparr>next_change_time := (count_binary a - 1) AND 0xFFFF\<rparr>
               in if count b = 1 then (set_OUT False (b\<lparr>next_change_time := 1\<rparr>))\<lparr>first_pass := True\<rparr> else b)
            else c\<lparr>next_change_time := 0\<rparr>)
         else c\<lparr>next_change_time := 0\<rparr>)
      in c1\<lparr>triggerGATE := False\<rparr>)"

definition clock_mode3 :: "counter_type \<Rightarrow> counter_type" where
  "clock_mode3 c =
     (let c1 =
        (if count_written c then
           (if (triggerGATE c \<or> first_pass c \<or> state_bit_2 c) \<and> GATE c then
              (let a = set_count (ucast (inlatch c AND 0xFFFE)) c;
                   b = a\<lparr>state_bit_1 := bit (inlatch a) 0\<rparr>;
                   t = (if \<not> OUTpin b \<or> \<not> state_bit_1 b
                        then (if count_binary b div 2 - 1 = 0 then 1 else (count_binary b div 2 - 1) AND 0xFFFF)
                        else (if count_binary b div 2 = 0 then 1 else (count_binary b div 2) AND 0xFFFF));
                   d = b\<lparr>next_change_time := t, null_count := False\<rparr>;
                   e = (if \<not> OUTpin d then set_OUT True d
                        else if OUTpin d \<and> \<not> first_pass d then set_OUT False d else d)
               in e\<lparr>state_bit_2 := False, first_pass := False\<rparr>)
            else if GATE c then
              (let a = decrement (decrement c);
                   b = (if \<not> OUTpin a \<or> \<not> state_bit_1 a
                        then a\<lparr>next_change_time := (count_binary a div 2 - 1) AND 0xFFFF\<rparr>
                        else a\<lparr>next_change_time := (count_binary a div 2) AND 0xFFFF\<rparr>);
                   d = (if count b = 0 then b\<lparr>state_bit_2 := True, next_change_time := 1\<rparr> else b)
               in if count d = 2 \<and> (\<not> OUTpin d \<or> \<not> state_bit_1 d)
                  then d\<lparr>state_bit_2 := True, next_change_time := 1\<rparr> else d)
            else c\<lparr>next_change_time := 0\<rparr>)
         else c\<lparr>next_change_time := 0\<rparr>)
      in c1\<lparr>triggerGATE := False\<rparr>)"

definition clock_mode4 :: "counter_type \<Rightarrow> counter_type" where
  "clock_mode4 c =
     (let c1 =
        (if count_written c then
           (let a = (if \<not> OUTpin c then set_OUT True c else c) in
            if null_count a then
              (let b = set_count (ucast (inlatch a)) a;
                   d = (if GATE b then b\<lparr>next_change_time := time_of_count b\<rparr> else b\<lparr>next_change_time := 0\<rparr>)
               in d\<lparr>null_count := False, first_pass := True\<rparr>)
            else if GATE a then
              (let b = decrement a in
               if first_pass b then
                 (let d = b\<lparr>next_change_time := count_binary b AND 0xFFFF\<rparr>
                  in if count d = 0 then (set_OUT False d)\<lparr>next_change_time := 1, first_pass := False\<rparr> else d)
               else b\<lparr>next_change_time := 0\<rparr>)
            else a\<lparr>next_change_time := 0\<rparr>)
         else c\<lparr>next_change_time := 0\<rparr>)
      in c1\<lparr>triggerGATE := False\<rparr>)"

definition clock_mode5 :: "counter_type \<Rightarrow> counter_type" where
  "clock_mode5 c =
     (let c1 =
        (if count_written c then
           (let a = (if \<not> OUTpin c then set_OUT True c else c) in
            if triggerGATE a then
              (let b = set_count (ucast (inlatch a)) a
               in b\<lparr>next_change_time := time_of_count b, null_count := False, first_pass := True\<rparr>)
            else
              (let b = decrement a in
               if first_pass b then
                 (let d = b\<lparr>next_change_time := count_binary b AND 0xFFFF\<rparr>
                  in if count d = 0 then (set_OUT False d)\<lparr>next_change_time := 1, first_pass := False\<rparr> else d)
               else b\<lparr>next_change_time := 0\<rparr>))
         else c\<lparr>next_change_time := 0\<rparr>)
      in c1\<lparr>triggerGATE := False\<rparr>)"

text \<open>\<open>clock\<close> on the counter itself; modes 6 and 7 are not implemented in the source.\<close>

definition clock_counter :: "counter_type \<Rightarrow> counter_type" where
  "clock_counter c =
     (if mode c = 0 then clock_mode0 c
      else if mode c = 1 then clock_mode1 c
      else if mode c = 2 then clock_mode2 c
      else if mode c = 3 then clock_mode3 c
      else if mode c = 4 then clock_mode4 c
      else if mode c = 5 then clock_mode5 c
      else c\<lparr>next_change_time := 0, triggerGATE := False\<rparr>)"

definition upd_counter :: "nat \<Rightarrow> (counter_type \<Rightarrow> counter_type) \<Rightarrow> pit \<Rightarrow> pit" where
  "upd_counter cnum f p = (if cnum > MAX_COUNTER then p else p\<lparr>counter := (counter p)(cnum := f (counter p cnum))\<rparr>)"

definition clock :: "nat \<Rightarrow> pit \<Rightarrow> pit" where
  "clock cnum p = upd_counter cnum clock_counter p"

section \<open>Many cycles at once\<close>

text \<open>The cycles of a counter for which no event is scheduled.\<close>

definition run_no_event :: "DWord \<Rightarrow> counter_type \<Rightarrow> counter_type" where
  "run_no_event cycles c =
     (if count_written c then
        (if mode c = 0 then
           (if GATE c \<and> write_state c \<noteq> MSByte_multiple then decrement_multiple cycles c else c)
         else if mode c = 1 then decrement_multiple cycles c
         else if mode c = 2 then (if \<not> first_pass c \<and> GATE c then decrement_multiple cycles c else c)
         else if mode c = 3 then (if \<not> first_pass c \<and> GATE c then decrement_multiple (2 * cycles) c else c)
         else if mode c = 4 then (if GATE c then decrement_multiple cycles c else c)
         else if mode c = 5 then decrement_multiple cycles c
         else c)
      else c)"

text \<open>Counting down touches the count only.\<close>

definition set_counts :: "DWord \<Rightarrow> DWord \<Rightarrow> counter_type \<Rightarrow> counter_type" where
  "set_counts n b c = c\<lparr>count := n, count_binary := b\<rparr>"

lemma set_counts_simps [simp]:
  "set_counts n b (set_counts n' b' c) = set_counts n b c"
  "count (set_counts n b c) = n" "count_binary (set_counts n b c) = b"
  "next_change_time (set_counts n b c) = next_change_time c" "mode (set_counts n b c) = mode c"
  "first_pass (set_counts n b c) = first_pass c" "OUTpin (set_counts n b c) = OUTpin c"
  "bcd_mode (set_counts n b c) = bcd_mode c" "GATE (set_counts n b c) = GATE c"
  "count_written (set_counts n b c) = count_written c" "triggerGATE (set_counts n b c) = triggerGATE c"
  "inlatch (set_counts n b c) = inlatch c"
  by (simp_all add: set_counts_def)

lemma decrement_frame:
  "set_counts n b (set_count_to_binary c) = set_counts n b c" "set_counts n b (decrement c) = set_counts n b c"
  "set_counts n b (c\<lparr>count_binary := k\<rparr>) = set_counts n b c"
  by (simp_all add: decrement_def set_count_to_binary_def set_counts_def)

lemma decrement_multiple_frame: "set_counts n b (decrement_multiple cycles c) = set_counts n b c"
proof (induction cycles c rule: decrement_multiple.induct)
  case (1 cycles c)
  then show ?case by (subst decrement_multiple.simps) (simp add: decrement_frame)
qed

lemma decrement_multiple_next_change_time [simp]:
  "next_change_time (decrement_multiple n c) = next_change_time c"
  using arg_cong[OF decrement_multiple_frame[of 0 0 n c], of next_change_time] by simp

function clock_multiple_counter :: "DWord \<Rightarrow> counter_type \<Rightarrow> counter_type" where
  "clock_multiple_counter cycles c =
     (if cycles > 0 then
        (if next_change_time c = 0 then clock_multiple_counter (cycles - cycles) (run_no_event cycles c)
         else if mode c \<in> {0, 1, 2, 4, 5} then
           (if next_change_time c > cycles
            then clock_multiple_counter (cycles - cycles)
                   ((decrement_multiple cycles c)\<lparr>next_change_time := next_change_time (decrement_multiple cycles c) - cycles\<rparr>)
            else (let a = decrement_multiple (next_change_time c - 1) c
                  in clock_multiple_counter (cycles - next_change_time a) (clock_counter a)))
         else if mode c = 3 then
           (if next_change_time c > cycles
            then clock_multiple_counter (cycles - cycles)
                   ((decrement_multiple (cycles * 2) c)\<lparr>next_change_time := next_change_time (decrement_multiple (cycles * 2) c) - cycles\<rparr>)
            else (let a = decrement_multiple ((next_change_time c - 1) * 2) c
                  in clock_multiple_counter (cycles - next_change_time a) (clock_counter a)))
         else clock_multiple_counter (cycles - cycles) c)
      else c)"
  by pat_completeness auto

termination
  by (relation "measure (\<lambda>(cycles, c). unat cycles)")
    (auto simp: unat_sub not_less word_le_nat_alt word_less_nat_alt unat_gt_0)

declare clock_multiple_counter.simps [simp del]

definition clock_multiple :: "nat \<Rightarrow> DWord \<Rightarrow> pit \<Rightarrow> pit" where
  "clock_multiple cnum cycles p = upd_counter cnum (clock_multiple_counter cycles) p"

definition clock_all :: "DWord \<Rightarrow> pit \<Rightarrow> pit" where
  "clock_all cycles p = clock_multiple 2 cycles (clock_multiple 1 cycles (clock_multiple 0 cycles p))"

section \<open>The registers\<close>

definition pit_read_counter :: "counter_type \<Rightarrow> Byte \<times> counter_type" where
  "pit_read_counter c =
     (if status_latched c then
        (if count_MSB_latched c \<and> read_state c = MSByte_multiple then (0, c)
         else (status_latch c, c\<lparr>status_latched := False\<rparr>))
      else if count_LSB_latched c then
        (let a = (if read_state c = LSByte_multiple then c\<lparr>read_state := MSByte_multiple\<rparr> else c);
             b = a\<lparr>count_LSB_latched := False\<rparr>
         in (ucast (outlatch b AND 0xFF), b))
      else if count_MSB_latched c then
        (let a = (if read_state c = MSByte_multiple then c\<lparr>read_state := LSByte_multiple\<rparr> else c);
             b = a\<lparr>count_MSB_latched := False\<rparr>
         in (ucast (drop_bit 8 (outlatch b) AND 0xFF), b))
      else if read_state c = LSByte \<or> read_state c = LSByte_multiple then
        (let a = (if read_state c = LSByte_multiple then c\<lparr>read_state := MSByte_multiple\<rparr> else c)
         in (ucast (count a AND 0xFF), a))
      else
        (let a = (if read_state c = MSByte_multiple then c\<lparr>read_state := LSByte_multiple\<rparr> else c)
         in (ucast (drop_bit 8 (count a) AND 0xFF), a)))"

definition pit_read :: "nat \<Rightarrow> pit \<Rightarrow> Byte \<times> pit" where
  "pit_read address p =
     (if address > MAX_ADDRESS then (0, p)
      else if address = CONTROL_ADDRESS then (0, p)
      else (let (v, c) = pit_read_counter (counter p address) in (v, p\<lparr>counter := (counter p)(address := c)\<rparr>)))"

text \<open>The status byte, and the read-back command on one of its counters.\<close>

definition status_byte :: "counter_type \<Rightarrow> Byte" where
  "status_byte c =
     push_bit 7 (of_bool (OUTpin c)) OR push_bit 6 (of_bool (null_count c)) OR push_bit 4 (rw_mode c AND 0x3) OR
     push_bit 1 (mode c AND 0x7) OR of_bool (bcd_mode c)"

definition read_back :: "Byte \<Rightarrow> counter_type \<Rightarrow> counter_type" where
  "read_back cw c =
     (let a = (if drop_bit 5 cw AND 1 = 0 then latch_counter c else c) in
      if drop_bit 4 cw AND 1 = 0 then
        (if status_latched a then a else a\<lparr>status_latch := status_byte a, status_latched := True\<rparr>)
      else a)"

definition program_counter :: "Byte \<Rightarrow> Byte \<Rightarrow> Byte \<Rightarrow> counter_type \<Rightarrow> counter_type" where
  "program_counter RW M BCD c =
     (let a = c\<lparr>null_count := True, count_LSB_latched := False, count_MSB_latched := False, status_latched := False,
                inlatch := 0, count_written := False, first_pass := True, rw_mode := RW, bcd_mode := (BCD > 0), mode := M\<rparr>;
          b = (if RW = 1 then a\<lparr>read_state := LSByte, write_state := LSByte\<rparr>
               else if RW = 2 then a\<lparr>read_state := MSByte, write_state := MSByte\<rparr>
               else if RW = 3 then a\<lparr>read_state := LSByte_multiple, write_state := LSByte_multiple\<rparr>
               else a);
          d = (if M \<noteq> 0 then set_OUT True b else set_OUT False b)
      in d\<lparr>next_change_time := 0\<rparr>)"

definition write_control :: "Byte \<Rightarrow> pit \<Rightarrow> pit" where
  "write_control data p0 =
     (let p = p0\<lparr>controlword := data\<rparr>;
          SC = drop_bit 6 data AND 0x3; RW = drop_bit 4 data AND 0x3; M = drop_bit 1 data AND 0x7; BCD = data AND 0x1 in
      if SC = 3 then
        fold (\<lambda>i p. if bit M i then p\<lparr>counter := (counter p)(i := read_back data (counter p i))\<rparr> else p)
          [0..<MAX_COUNTER + 1] p
      else if RW = 0 then p\<lparr>counter := (counter p)(unat SC := latch_counter (counter p (unat SC)))\<rparr>
      else p\<lparr>counter := (counter p)(unat SC := program_counter RW M BCD (counter p (unat SC)))\<rparr>)"

text \<open>Writing an initial count: the bytes into the latch, the count, and when the next event is.\<close>

definition write_latch :: "Byte \<Rightarrow> counter_type \<Rightarrow> counter_type" where
  "write_latch data c =
     (case write_state c of
        LSByte_multiple \<Rightarrow> c\<lparr>inlatch := ucast data, write_state := MSByte_multiple\<rparr>
      | LSByte \<Rightarrow> c\<lparr>inlatch := ucast data, count_written := True\<rparr>
      | MSByte_multiple \<Rightarrow>
          c\<lparr>write_state := LSByte_multiple, inlatch := inlatch c OR push_bit 8 (ucast data), count_written := True\<rparr>
      | MSByte \<Rightarrow> c\<lparr>inlatch := push_bit 8 (ucast data), count_written := True\<rparr>)"

definition write_count :: "Byte \<Rightarrow> counter_type \<Rightarrow> counter_type" where
  "write_count data c =
     (let a = write_latch data c;
          b = (if count_written a \<and> write_state a \<noteq> MSByte_multiple
               then set_count (ucast (inlatch a)) (a\<lparr>null_count := True\<rparr>) else a)
      in if mode b = 0 then
           (let d = (if write_state b = MSByte_multiple then set_OUT False b else b) in d\<lparr>next_change_time := 1\<rparr>)
         else if mode b = 1 then (if triggerGATE b then b\<lparr>next_change_time := 1\<rparr> else b)
         else if mode b = 6 \<or> mode b = 2 then b\<lparr>next_change_time := 1\<rparr>
         else if mode b = 7 \<or> mode b = 3 then b\<lparr>next_change_time := 1\<rparr>
         else if mode b = 4 then b\<lparr>next_change_time := 1\<rparr>
         else if mode b = 5 then (if triggerGATE b then b\<lparr>next_change_time := 1\<rparr> else b)
         else b)"

definition pit_write :: "nat \<Rightarrow> Byte \<Rightarrow> pit \<Rightarrow> pit" where
  "pit_write address data p =
     (if address > MAX_ADDRESS then p
      else if address = CONTROL_ADDRESS then write_control data p
      else p\<lparr>counter := (counter p)(address := write_count data (counter p address))\<rparr>)"

section \<open>The gate\<close>

definition set_GATE_counter :: "bool \<Rightarrow> counter_type \<Rightarrow> counter_type" where
  "set_GATE_counter data c =
     (if \<not> (GATE c \<and> data \<or> \<not> (GATE c \<or> data)) then
        (let a = c\<lparr>GATE := data\<rparr>; b = (if GATE a then a\<lparr>triggerGATE := True\<rparr> else a) in
         if mode b = 0 then
           (if data \<and> count_written b then
              (if null_count b then b\<lparr>next_change_time := 1\<rparr>
               else if \<not> OUTpin b \<and> write_state b \<noteq> MSByte_multiple then b\<lparr>next_change_time := time_of_count b\<rparr>
               else b\<lparr>next_change_time := 0\<rparr>)
            else if null_count b then b\<lparr>next_change_time := 1\<rparr> else b\<lparr>next_change_time := 0\<rparr>)
         else if mode b = 1 then (if data \<and> count_written b then b\<lparr>next_change_time := 1\<rparr> else b)
         else if mode b = 2 then
           (if \<not> data then (set_OUT True b)\<lparr>next_change_time := 0\<rparr>
            else if count_written b then b\<lparr>next_change_time := 1\<rparr> else b\<lparr>next_change_time := 0\<rparr>)
         else if mode b = 3 then
           (if \<not> data then (set_OUT True b)\<lparr>first_pass := True, next_change_time := 0\<rparr>
            else if count_written b then b\<lparr>next_change_time := 1\<rparr> else b\<lparr>next_change_time := 0\<rparr>)
         else if mode b = 4 then
           (if \<not> OUTpin b \<or> null_count b then b\<lparr>next_change_time := 1\<rparr>
            else if data \<and> count_written b then
              (if first_pass b then b\<lparr>next_change_time := time_of_count b\<rparr> else b\<lparr>next_change_time := 0\<rparr>)
            else b\<lparr>next_change_time := 0\<rparr>)
         else if mode b = 5 then (if data \<and> count_written b then b\<lparr>next_change_time := 1\<rparr> else b)
         else b)
      else c)"

definition set_GATE :: "nat \<Rightarrow> bool \<Rightarrow> pit \<Rightarrow> pit" where
  "set_GATE cnum data p = upd_counter cnum (set_GATE_counter data) p"

definition read_OUT :: "nat \<Rightarrow> pit \<Rightarrow> bool" where
  "read_OUT cnum p = (if cnum > MAX_COUNTER then False else OUTpin (counter p cnum))"

definition read_GATE :: "nat \<Rightarrow> pit \<Rightarrow> bool" where
  "read_GATE cnum p = (if cnum > MAX_COUNTER then False else GATE (counter p cnum))"

definition get_clock_event_time :: "nat \<Rightarrow> pit \<Rightarrow> DWord" where
  "get_clock_event_time cnum p = (if cnum > MAX_COUNTER then 0 else next_change_time (counter p cnum))"

definition get_next_event_time :: "pit \<Rightarrow> DWord" where
  "get_next_event_time p =
     (let time0 = get_clock_event_time 0 p; time1 = get_clock_event_time 1 p; time2 = get_clock_event_time 2 p;
          out1 = (if time1 \<noteq> 0 \<and> time1 < time0 then time1 else time0)
      in if time2 \<noteq> 0 \<and> time2 < out1 then time2 else out1)"

definition get_inlatch :: "nat \<Rightarrow> pit \<Rightarrow> Word16" where
  "get_inlatch counternum p = inlatch (counter p counternum)"

definition new_count_ready :: "nat \<Rightarrow> pit \<Rightarrow> bool" where
  "new_count_ready countnum p \<longleftrightarrow> write_state (counter p countnum) \<noteq> MSByte_multiple"

definition set_OUT_handler :: "nat \<Rightarrow> pit \<Rightarrow> pit" where
  "set_OUT_handler counternum p = p\<lparr>counter := (counter p)(counternum := (counter p counternum)\<lparr>out_handler := True\<rparr>)\<rparr>"

end
