(* ===== verification/PitRate.thy ===== *)
theory PitRate
  imports Pit
begin

text \<open>
  The timer as a rate generator (mode 2), the mode in which it drives the clock interrupt: skipping
  cycles equals clocking them one by one, and a count of \<open>N\<close> gives one pulse every \<open>N\<close> cycles.
\<close>

section \<open>The states of the rate generator\<close>

text \<open>
  \<open>rate_state N j c\<close>: \<open>j\<close> cycles after a load of the count \<open>N\<close> (a count of 65536 is stored as 0). In the
  last cycle of a period the output is low and the count is reloaded at the next cycle.
\<close>

definition remaining_count :: "nat \<Rightarrow> nat \<Rightarrow> DWord" where
  "remaining_count N j = of_nat ((N - j) mod 65536)"

definition rate_state :: "nat \<Rightarrow> nat \<Rightarrow> counter_type \<Rightarrow> counter_type" where
  "rate_state N j c =
     c\<lparr>count := remaining_count N j, count_binary := remaining_count N j, OUTpin := (j \<noteq> N - 1),
       first_pass := (j = N - 1), triggerGATE := False, null_count := False,
       next_change_time := (if j = N - 1 then 1 else of_nat (N - 1 - j))\<rparr>"

text \<open>The counter is programmed for mode 2 with the count \<open>N\<close>.\<close>

definition rate_generator :: "nat \<Rightarrow> counter_type \<Rightarrow> bool" where
  "rate_generator N c \<longleftrightarrow> mode c = 2 \<and> count_written c \<and> GATE c \<and> \<not> bcd_mode c \<and>
     2 \<le> N \<and> N \<le> 65536 \<and> inlatch c = of_nat N"

text \<open>The call of the output handler, if there is one.\<close>

definition call_handler :: "bool \<Rightarrow> counter_type \<Rightarrow> counter_type" where
  "call_handler b c = (if out_handler c then c\<lparr>calls := calls c @ [b]\<rparr> else c)"

lemma rate_generator_call [simp]: "rate_generator N (call_handler b c) = rate_generator N c"
  by (simp add: rate_generator_def call_handler_def)

lemma of_nat_small: "k < 65536 \<Longrightarrow> (of_nat k :: DWord) AND 0xFFFF = of_nat k"
proof -
  have m: "(0xFFFF :: DWord) = mask 16" by (simp add: mask_eq_exp_minus_1)
  assume "k < 65536"
  then show ?thesis unfolding m take_bit_eq_mask[symmetric] by (simp add: take_bit_of_nat take_bit_nat_eq_self)
qed

lemma of_nat_eq_small: "j < 65537 \<Longrightarrow> k < 65537 \<Longrightarrow> (of_nat j :: DWord) = of_nat k \<longleftrightarrow> j = k"
  by (simp add: word_of_nat_eq_iff take_bit_nat_eq_self)

lemma load_count:
  assumes "N \<le> 65536"
  shows "(ucast (of_nat N :: Word16) :: DWord) AND 0xFFFF = remaining_count N 0"
proof -
  have "(ucast (of_nat N :: Word16) :: DWord) = of_nat (N mod 65536)"
    by (simp add: unsigned_of_nat take_bit_eq_mod)
  then show ?thesis by (simp add: remaining_count_def of_nat_small del: of_nat_mod)
qed

section \<open>Cycle by cycle\<close>

lemma of_nat_pred: "0 < r \<Longrightarrow> (of_nat r :: DWord) - 1 = of_nat (r - 1)"
  by (cases r) simp_all

lemma remaining_count_minus:
  assumes "j < N" and "N \<le> 65536"
  shows "(remaining_count N j - 1) AND 0xFFFF = of_nat (N - j - 1)"
proof (cases "N - j = 65536")
  case True
  then show ?thesis by (simp only: remaining_count_def) simp
next
  case False
  define r where "r = N - j"
  have r: "0 < r" "r < 65536" using False assms by (simp_all add: r_def)
  then have e: "remaining_count N j - 1 = of_nat (r - 1)" using of_nat_pred[of r]
    by (simp add: remaining_count_def r_def[symmetric])
  have "(of_nat (r - 1) :: DWord) AND 0xFFFF = of_nat (r - 1)" by (rule of_nat_small) (use r in simp)
  then show ?thesis unfolding e r_def .
qed

lemma remaining_count_Suc: "remaining_count N (Suc j) = of_nat ((N - j - 1) mod 65536)"
  by (simp add: remaining_count_def)

lemma decrement_rate:
  assumes "N - j \<ge> 2" and "N \<le> 65536" and "count c = remaining_count N j" and "count_binary c = remaining_count N j"
    and "\<not> bcd_mode c"
  shows "decrement c = set_counts (remaining_count N (Suc j)) (remaining_count N (Suc j)) c"
proof (cases "N - j = 65536")
  case True
  then have "remaining_count N j = 0" "remaining_count N (Suc j) = 0xFFFF"
    unfolding remaining_count_Suc by (simp_all only: remaining_count_def) simp_all
  then show ?thesis using assms by (simp add: decrement_def set_counts_def)
next
  case False
  define r where "r = N - j"
  have r: "2 \<le> r" "r < 65536" using False assms by (simp_all add: r_def)
  have e: "remaining_count N j = of_nat r" "remaining_count N (Suc j) = of_nat (r - 1)"
    using r unfolding remaining_count_Suc by (simp_all add: remaining_count_def r_def[symmetric])
  have "remaining_count N j \<noteq> 0" unfolding e(1) using r of_nat_eq_small[of r 0] by simp
  moreover have "remaining_count N j - 1 = remaining_count N (Suc j)" unfolding e by (rule of_nat_pred) (use r in simp)
  ultimately show ?thesis using assms by (simp add: decrement_def set_count_to_binary_def set_counts_def)
qed

lemma remaining_count_1:
  assumes "j < N" and "N \<le> 65536"
  shows "remaining_count N j = 1 \<longleftrightarrow> j = N - 1"
proof (cases "N - j = 65536")
  case True
  then have "j = 0" "N = 65536" using assms by linarith+
  then show ?thesis by (simp add: remaining_count_def)
next
  case False
  define r where "r = N - j"
  have r: "0 < r" "r < 65536" using False assms by (simp_all add: r_def)
  then have "remaining_count N j = 1 \<longleftrightarrow> r = 1"
    using of_nat_eq_small[of r 1] by (simp add: remaining_count_def r_def[symmetric])
  then show ?thesis using assms by (auto simp: r_def)
qed

lemma clock_running:
  assumes "rate_generator N c" and "Suc j < N"
  shows "clock_counter ((rate_state N j c)\<lparr>next_change_time := t\<rparr>) =
    (if Suc j = N - 1 then rate_state N (N - 1) (call_handler False c) else rate_state N (Suc j) c)"
proof -
  let ?d = "(rate_state N j c)\<lparr>next_change_time := t\<rparr>"
  have g: "N \<le> 65536" "N - j \<ge> 2" "mode c = 2" "count_written c" "GATE c" "\<not> bcd_mode c"
    using assms(1,2) by (auto simp: rate_generator_def)
  have dec: "decrement ?d = set_counts (remaining_count N (Suc j)) (remaining_count N (Suc j)) ?d"
    using g by (intro decrement_rate) (simp_all add: rate_state_def)
  have m: "(remaining_count N (Suc j) - 1) AND 0xFFFF = of_nat (N - Suc j - 1)"
    using remaining_count_minus[of "Suc j" N] assms(2) g(1) by simp
  have one: "remaining_count N (Suc j) = 1 \<longleftrightarrow> Suc j = N - 1" using remaining_count_1[of "Suc j" N] assms(2) g(1) by simp
  have j: "j \<noteq> N - 1" using assms(2) by linarith
  show ?thesis
  proof (cases "Suc j = N - 1")
    case True
    then have "remaining_count N (N - 1) = 1" using one by simp
    with True g j dec m show ?thesis
      by (simp add: clock_counter_def clock_mode2_def Let_def rate_state_def set_counts_def set_OUT_def call_handler_def)
  next
    case False
    then have "remaining_count N (Suc j) \<noteq> 1" using one by simp
    with False g j dec m show ?thesis
      by (simp add: clock_counter_def clock_mode2_def Let_def rate_state_def set_counts_def)
  qed
qed

lemma clock_reload:
  assumes "rate_generator N c"
  shows "clock_counter (rate_state N (N - 1) c) = rate_state N 0 (call_handler True c)"
proof -
  have g: "2 \<le> N" "N \<le> 65536" "mode c = 2" "count_written c" "\<not> bcd_mode c" "inlatch c = of_nat N"
    using assms by (auto simp: rate_generator_def)
  have l: "(ucast (inlatch c) :: DWord) AND 0xFFFF = remaining_count N 0" using load_count g(2,6) by simp
  have "(remaining_count N 0 - 1) AND 0xFFFF = of_nat (N - 1)" using remaining_count_minus[of 0 N] g by simp
  with g l show ?thesis
    by (simp add: clock_counter_def clock_mode2_def Let_def rate_state_def set_count_def set_binary_to_count_def
        set_OUT_def call_handler_def)
qed

text \<open>The state and the calls after one and after \<open>n\<close> cycles.\<close>

fun rate_step :: "nat \<Rightarrow> nat \<times> counter_type \<Rightarrow> nat \<times> counter_type" where
  "rate_step N (j, c) =
     (if Suc j = N then (0, call_handler True c)
      else if Suc j = N - 1 then (N - 1, call_handler False c) else (Suc j, c))"

lemma clock_rate_step:
  assumes "rate_generator N c" and "j < N"
  shows "clock_counter (rate_state N j c) = (case rate_step N (j, c) of (j', c') \<Rightarrow> rate_state N j' c')"
proof (cases "Suc j = N")
  case True
  then show ?thesis using clock_reload[OF assms(1)] by auto
next
  case False
  then have "Suc j < N" using assms(2) by simp
  moreover have "(rate_state N j c)\<lparr>next_change_time := next_change_time (rate_state N j c)\<rparr> = rate_state N j c" by simp
  ultimately show ?thesis
    using clock_running[OF assms(1), of j "next_change_time (rate_state N j c)"] False by auto
qed

lemma rate_step_ok: "rate_generator N c \<Longrightarrow> j < N \<Longrightarrow> rate_step N (j, c) = (j', c') \<Longrightarrow> rate_generator N c' \<and> j' < N"
  by (auto simp: rate_generator_def call_handler_def split: if_splits)

lemma clock_rate_steps:
  assumes "rate_generator N c" and "j < N"
  shows "(clock_counter ^^ n) (rate_state N j c) = (case (rate_step N ^^ n) (j, c) of (j', c') \<Rightarrow> rate_state N j' c') \<and>
    (case (rate_step N ^^ n) (j, c) of (j', c') \<Rightarrow> rate_generator N c' \<and> j' < N)"
proof (induction n)
  case 0
  then show ?case using assms by simp
next
  case (Suc n)
  obtain j' c' where "(rate_step N ^^ n) (j, c) = (j', c')" by (cases "(rate_step N ^^ n) (j, c)")
  with Suc clock_rate_step[of N c' j'] rate_step_ok[of N c' j'] show ?case
    by (cases "rate_step N (j', c')") (simp del: rate_step.simps)
qed

section \<open>Many cycles at once\<close>

lemma unat_of_nat32: "n < 2 ^ 32 \<Longrightarrow> unat (of_nat n :: DWord) = n"
  by (simp add: unat_of_nat)

lemma of_nat_less32: "m < 2 ^ 32 \<Longrightarrow> n < 2 ^ 32 \<Longrightarrow> (of_nat m :: DWord) < of_nat n \<longleftrightarrow> m < n"
  by (simp add: word_less_nat_alt unat_of_nat)

lemma of_nat_le32: "m < 2 ^ 32 \<Longrightarrow> n < 2 ^ 32 \<Longrightarrow> (of_nat m :: DWord) \<le> of_nat n \<longleftrightarrow> m \<le> n"
  by (simp add: word_le_nat_alt unat_of_nat)

lemma of_nat_sub32: "m \<le> n \<Longrightarrow> (of_nat n :: DWord) - of_nat m = of_nat (n - m)"
  by (simp add: of_nat_diff)

lemma decrement_multiple_0: "decrement_multiple 0 c = c"
  by (subst decrement_multiple.simps) simp

lemma decrement_multiple_down:
  assumes "k \<le> r" and "r < 65536" and "count c = of_nat r" "count_binary c = of_nat r" "\<not> bcd_mode c"
  shows "decrement_multiple (of_nat k) c = set_counts (of_nat (r - k)) (of_nat (r - k)) c"
proof (cases "k = 0")
  case True
  then show ?thesis using assms by (simp add: decrement_multiple_0 set_counts_def)
next
  case False
  have "(of_nat k :: DWord) > 0" using False assms(1,2) of_nat_less32[of 0 k] by simp
  moreover have "(of_nat k :: DWord) \<le> of_nat r" using assms(1,2) of_nat_le32[of k r] by simp
  moreover have "(of_nat r :: DWord) - of_nat k = of_nat (r - k)" using of_nat_sub32 assms(1) by blast
  ultimately show ?thesis using assms(4,5)
    by (subst decrement_multiple.simps)
      (simp add: decrement_multiple_0 set_count_to_binary_def set_counts_def del: of_nat_diff)
qed

lemma decrement_multiple_rate:
  assumes "k < N - j" and "N \<le> 65536" and "count c = remaining_count N j" "count_binary c = remaining_count N j"
    and "\<not> bcd_mode c"
  shows "decrement_multiple (of_nat k) c = set_counts (remaining_count N (j + k)) (remaining_count N (j + k)) c"
proof (cases "N - j = 65536")
  case False
  define r where "r = N - j"
  have r: "k < r" "r < 65536" "N - (j + k) = r - k" using False assms(1,2) by (simp_all add: r_def)
  then have e: "remaining_count N j = of_nat r" "remaining_count N (j + k) = of_nat (r - k)"
    by (simp_all add: remaining_count_def r_def[symmetric] del: of_nat_diff)
  show ?thesis unfolding e(2) by (rule decrement_multiple_down) (use r assms e(1) in simp_all)
next
  case True
  then have j: "j = 0" "N = 65536" using assms(2) by linarith+
  have z: "remaining_count N j = 0" by (simp add: j remaining_count_def)
  show ?thesis
  proof (cases k)
    case 0
    then show ?thesis using assms by (simp add: decrement_multiple_0 set_counts_def)
  next
    case (Suc m)
    have m: "m \<le> 65535" using assms(1) Suc j by simp
    define d where "d = set_counts 0xFFFF 0xFFFF c"
    have pos: "(of_nat k :: DWord) > 0" using Suc m of_nat_less32[of 0 k] by simp
    have "decrement_multiple (of_nat k) c = decrement_multiple (of_nat k - 1) d"
      using pos assms(3-5) z
      by (subst decrement_multiple.simps) (simp add: decrement_def set_count_to_binary_def set_counts_def d_def)
    also have "(of_nat k :: DWord) - 1 = of_nat m" by (simp add: Suc)
    also have "decrement_multiple (of_nat m) d = set_counts (of_nat (65535 - m)) (of_nat (65535 - m)) d"
      by (rule decrement_multiple_down) (use m assms(5) in \<open>simp_all add: d_def\<close>)
    also have "\<dots> = set_counts (remaining_count N (j + k)) (remaining_count N (j + k)) c"
      by (simp add: d_def remaining_count_def j Suc del: of_nat_diff)
    finally show ?thesis .
  qed
qed

lemma rate_steps_run: "j + n < N - 1 \<Longrightarrow> (rate_step N ^^ n) (j, c) = (j + n, c)"
  by (induction n) auto

lemma rate_steps_event:
  assumes "j < N - 1"
  shows "(rate_step N ^^ (N - 1 - j)) (j, c) = (N - 1, call_handler False c)"
proof -
  obtain m where m: "N - 1 - j = Suc m" using assms by (cases "N - 1 - j") auto
  then have "(rate_step N ^^ m) (j, c) = (j + m, c)" by (intro rate_steps_run) linarith
  then show ?thesis using m by (auto split: if_splits)
qed

text \<open>\<open>clock_multiple\<close> skips from event to event; what it computes is the iteration of \<open>clock\<close>.\<close>

lemma clock_multiple_rate:
  assumes "rate_generator N c" and "j < N" and "n < 2 ^ 32"
  shows "clock_multiple_counter (of_nat n) (rate_state N j c) = (clock_counter ^^ n) (rate_state N j c)"
  using assms
proof (induction n arbitrary: j c rule: less_induct)
  case (less n)
  let ?s = "rate_state N j c"
  define t where "t = (if j = N - 1 then 1 else N - 1 - j)"
  have g: "2 \<le> N" "N \<le> 65536" "mode c = 2" "\<not> bcd_mode c" using less.prems(1) by (auto simp: rate_generator_def)
  have t: "0 < t" "t < 65536" using less.prems(2) g by (auto simp: t_def)
  have nct: "next_change_time ?s = of_nat t" by (simp add: rate_state_def t_def del: of_nat_diff)
  have ne: "next_change_time ?s \<noteq> 0" unfolding nct using t of_nat_eq_small[of t 0] by simp
  have md: "mode ?s = 2" using g by (simp add: rate_state_def)
  show ?case
  proof (cases "n = 0")
    case True
    then show ?thesis by (subst clock_multiple_counter.simps) simp
  next
    case False
    have pos: "(of_nat n :: DWord) > 0" using False less.prems(3) of_nat_less32[of 0 n] by simp
    have cmp: "(of_nat n :: DWord) < of_nat t \<longleftrightarrow> n < t" using less.prems(3) t(2) of_nat_less32[of n t] by simp
    have dm: "decrement_multiple (of_nat k) ?s = (rate_state N (j + k) c)\<lparr>next_change_time := of_nat t\<rparr>"
      if "j + k < N - 1" for k
    proof -
      have "decrement_multiple (of_nat k) ?s = set_counts (remaining_count N (j + k)) (remaining_count N (j + k)) ?s"
        by (rule decrement_multiple_rate) (use that g less.prems in \<open>auto simp: rate_state_def\<close>)
      also have "\<dots> = (rate_state N (j + k) c)\<lparr>next_change_time := of_nat t\<rparr>"
        using that unfolding nct[symmetric] by (simp add: rate_state_def set_counts_def)
      finally show ?thesis .
    qed
    show ?thesis
    proof (cases "n < t")
      case True
      then have jn: "j + n < N - 1" "j \<noteq> N - 1" using False by (auto simp: t_def split: if_splits)
      have "t - n = N - 1 - (j + n)" using jn by (simp add: t_def)
      then have "(of_nat t :: DWord) - of_nat n = of_nat (N - 1 - (j + n))" using of_nat_sub32[of n t] True by simp
      then have "clock_multiple_counter (of_nat n) ?s = rate_state N (j + n) c"
        using pos cmp True ne md nct dm[OF jn(1)] jn
        by (subst clock_multiple_counter.simps)
          (simp add: clock_multiple_counter.simps[of 0] rate_state_def del: of_nat_diff)
      moreover have "(clock_counter ^^ n) ?s = rate_state N (j + n) c"
        using clock_rate_steps[OF less.prems(1,2), of n] rate_steps_run[OF jn(1)] by simp
      ultimately show ?thesis by simp
    next
      case tn: False
      define c' where "c' = call_handler (j = N - 1) c"
      define j' where "j' = (if j = N - 1 then 0 else N - 1)"
      have step: "clock_counter (decrement_multiple (of_nat t - 1) ?s) = rate_state N j' c'"
      proof (cases "j = N - 1")
        case True
        then show ?thesis using clock_reload[OF less.prems(1)] by (simp add: t_def decrement_multiple_0 c'_def j'_def)
      next
        case False
        then have jj: "j + (t - 1) < N - 1" "Suc (j + (t - 1)) = N - 1" using less.prems(2) by (auto simp: t_def)
        have "(of_nat t :: DWord) - 1 = of_nat (t - 1)" using of_nat_pred t(1) by blast
        then show ?thesis using dm[OF jj(1)] clock_running[OF less.prems(1), of "j + (t - 1)" "of_nat t"] jj False
          by (simp add: c'_def j'_def del: of_nat_diff)
      qed
      have one: "(clock_counter ^^ t) ?s = rate_state N j' c'"
      proof (cases "j = N - 1")
        case True
        then show ?thesis using clock_reload[OF less.prems(1)] by (simp add: t_def c'_def j'_def)
      next
        case False
        then have "j < N - 1" using less.prems(2) by simp
        from rate_steps_event[OF this, of c] clock_rate_steps[OF less.prems(1,2), of t] False show ?thesis
          by (simp add: t_def c'_def j'_def)
      qed
      have ok: "rate_generator N c'" "j' < N" using less.prems(1) g by (simp_all add: c'_def j'_def)
      have sub: "(of_nat n :: DWord) - of_nat t = of_nat (n - t)" using of_nat_sub32 tn by simp
      have "clock_multiple_counter (of_nat n) ?s = clock_multiple_counter (of_nat (n - t)) (rate_state N j' c')"
        using pos cmp tn ne md step sub
        by (subst clock_multiple_counter.simps) (simp add: Let_def nct del: of_nat_diff)
      also have "\<dots> = (clock_counter ^^ (n - t)) (rate_state N j' c')"
        using less.IH[of "n - t" c' j'] ok tn t(1) less.prems(3) by simp
      also have "\<dots> = (clock_counter ^^ (n - t)) ((clock_counter ^^ t) ?s)" by (simp only: one)
      also have "\<dots> = (clock_counter ^^ n) ?s" using tn by (simp add: funpow_add[symmetric, THEN fun_cong, unfolded o_apply])
      finally show ?thesis .
    qed
  qed
qed

lemma clock_funpow:
  assumes "cnum \<le> MAX_COUNTER"
  shows "(clock cnum ^^ n) p = p\<lparr>counter := (counter p)(cnum := (clock_counter ^^ n) (counter p cnum))\<rparr>"
  using assms by (induction n) (simp_all add: clock_def upd_counter_def)

text \<open>C10. In a rate generator that runs (mode 2, binary count of 2 to 65536, GATE high, some cycles after a load of the
  count) \<open>clock_multiple\<close>, which jumps from one scheduled event to the next, leaves the chip in the state, and makes the
  calls of the output handler, that clocking it cycle by cycle would, for any number of cycles below 2^32. Without
  these conditions, with GATE low for one, the two may differ.\<close>

theorem clock_multiple_is_clock:
  assumes "cnum \<le> MAX_COUNTER" and "counter p cnum = rate_state N j c" and "rate_generator N c" and "j < N" and "n < 2 ^ 32"
  shows "clock_multiple cnum (of_nat n) p = (clock cnum ^^ n) p"
  using clock_multiple_rate[OF assms(3-5)] assms(1,2) clock_funpow[OF assms(1)]
  by (simp add: clock_multiple_def upd_counter_def)

section \<open>The pulses\<close>

text \<open>\<open>k\<close> pulses of the output: it falls, then it rises.\<close>

definition pulse :: "counter_type \<Rightarrow> counter_type" where
  "pulse c = call_handler True (call_handler False c)"

lemma rate_generator_pulse [simp]: "rate_generator N (pulse c) = rate_generator N c"
  by (simp add: pulse_def)

lemma concat_replicate_snoc: "concat (replicate (Suc k) xs) = concat (replicate k xs) @ xs"
  by (induction k) simp_all

lemma calls_pulses: "out_handler c \<Longrightarrow> calls ((pulse ^^ k) c) = calls c @ concat (replicate k [False, True]) \<and> out_handler ((pulse ^^ k) c)"
  by (induction k) (auto simp: pulse_def call_handler_def concat_replicate_snoc simp del: replicate_Suc)

lemma rate_period:
  assumes "2 \<le> N"
  shows "(rate_step N ^^ N) (0, c) = (0, pulse c)"
proof -
  obtain m where m: "N = Suc m" using assms by (cases N) auto
  then have "(rate_step N ^^ m) (0, c) = (N - 1, call_handler False c)"
    using rate_steps_event[of 0 N c] assms by simp
  then show ?thesis using m by (simp add: pulse_def)
qed

lemma rate_periods: "2 \<le> N \<Longrightarrow> (rate_step N ^^ (k * N)) (0, c) = (0, (pulse ^^ k) c)"
  by (induction k arbitrary: c) (simp_all add: funpow_add rate_period funpow_swap1 del: rate_step.simps)

text \<open>C13. A counter that was loaded with \<open>N\<close> in the rate generator mode is back in the same state after
  every \<open>N\<close> cycles, and has pulsed its output exactly once in each period: with \<open>k * N\<close> cycles the
  handler is called with low and high \<open>k\<close> times in turn.\<close>

theorem rate_generator_pulses:
  assumes "rate_generator N c" and "out_handler c" and "k * N < 2 ^ 32"
  shows "\<exists>c'. clock_multiple_counter (of_nat (k * N)) (rate_state N 0 c) = rate_state N 0 c' \<and> rate_generator N c' \<and>
    out_handler c' \<and> calls c' = calls c @ concat (replicate k [False, True])"
proof -
  have g: "2 \<le> N" "0 < N" using assms(1) by (auto simp: rate_generator_def)
  have "clock_multiple_counter (of_nat (k * N)) (rate_state N 0 c) = rate_state N 0 ((pulse ^^ k) c)"
    using clock_multiple_rate[OF assms(1) g(2) assms(3)] clock_rate_steps[OF assms(1) g(2), of "k * N"]
      rate_periods[OF g(1), of k c] by simp
  moreover have "rate_generator N ((pulse ^^ k) c)" using assms(1) by (induction k) simp_all
  ultimately show ?thesis using calls_pulses[OF assms(2)] by blast
qed

section \<open>Programming\<close>

text \<open>The count that two bytes stand for.\<close>

definition count_of_bytes :: "Byte \<Rightarrow> Byte \<Rightarrow> nat" where
  "count_of_bytes lo hi = (let n = unat lo + 256 * unat hi in if n = 0 then 65536 else n)"

lemma inlatch_of_bytes:
  "(ucast (lo :: Byte) :: Word16) OR push_bit 8 (ucast hi) = of_nat (unat lo + 256 * unat (hi :: Byte))"
proof -
  have lo: "\<not> bit lo n" if "8 \<le> n" for n using bit_imp_le_length[of lo n] that by auto
  have "(ucast lo :: Word16) OR push_bit 8 (ucast hi) = ucast lo + push_bit 8 (ucast hi)"
    by (subst disjunctive_add) (auto simp: bit_simps lo)
  also have "\<dots> = of_nat (unat lo) + of_nat (256 * unat hi)"
    by (simp add: push_bit_eq_mult)
  finally show ?thesis by simp
qed

text \<open>C14. Programming a counter with control word \<open>0x34\<close> (mode 2, low then high byte, binary) and the two
  bytes of a count other than 1 makes it a rate generator with that count, 0 meaning 65536, that
  starts its first period at the next cycle.\<close>

theorem programmed_rate_generator:
  assumes "counter p 0 = c0" and "GATE c0" and "(lo, hi) \<noteq> (1, 0)"
  shows "\<exists>c. counter (clock 0 (pit_write 0 hi (pit_write 0 lo (pit_write CONTROL_ADDRESS 0x34 p)))) 0 =
      rate_state (count_of_bytes lo hi) 0 c \<and> rate_generator (count_of_bytes lo hi) c \<and> out_handler c = out_handler c0"
proof -
  let ?N = "count_of_bytes lo hi"
  define n where "n = unat lo + 256 * unat hi"
  have b: "unat lo < 256" "unat hi < 256" using unsigned_less[of lo] unsigned_less[of hi] by simp_all
  have "n \<noteq> 1"
  proof
    assume "n = 1"
    then have "unat hi = 0 \<and> unat lo = 1" unfolding n_def by presburger
    then have "hi = 0" "lo = 1" by (simp_all add: word_unat_eq_iff)
    then show False using assms(3) by simp
  qed
  then have N: "2 \<le> ?N" "?N \<le> 65536" using b by (auto simp: count_of_bytes_def Let_def n_def)
  define c1 where "c1 = set_OUT True (c0\<lparr>null_count := True, count_LSB_latched := False, count_MSB_latched := False,
    status_latched := False, inlatch := 0, count_written := False, first_pass := True, rw_mode := 3, bcd_mode := False,
    mode := 2, read_state := LSByte_multiple, write_state := LSByte_multiple\<rparr>)"
  define l where "l = (of_nat n :: Word16)"
  define c2 where "c2 = c1\<lparr>write_state := LSByte_multiple, inlatch := l, count_written := True, null_count := False, first_pass := False,
     triggerGATE := False, next_change_time := (ucast l AND 0xFFFF) - 1 AND 0xFFFF, count := ucast l AND 0xFFFF,
     count_binary := ucast l AND 0xFFFF, next_change_time := of_nat (?N - 1)\<rparr>"
  have nN: "?N = (if n = 0 then 65536 else n)" by (simp add: count_of_bytes_def n_def Let_def)
  have l: "l = of_nat ?N" unfolding nN l_def by simp
  have o: "out_handler c1 = out_handler c0" "OUTpin c1" "GATE c1" "mode c1 = 2" "\<not> bcd_mode c1" "write_state c1 = LSByte_multiple"
    "first_pass c1"
    using assms(2) by (simp_all add: c1_def set_OUT_def Let_def)
  have lc: "(ucast l :: DWord) AND 0xFFFF = remaining_count ?N 0" unfolding l using load_count N(2) by blast
  have m: "(remaining_count ?N 0 - 1) AND 0xFFFF = of_nat (?N - 1)" using remaining_count_minus[of 0 ?N] N by simp
  have "counter (pit_write CONTROL_ADDRESS 0x34 p) 0 = c1\<lparr>next_change_time := 0\<rparr>"
    using assms(1) by (simp add: pit_write_def write_control_def program_counter_def Let_def c1_def set_OUT_def)
  then have "counter (clock 0 (pit_write 0 hi (pit_write 0 lo (pit_write CONTROL_ADDRESS 0x34 p)))) 0 = rate_state ?N 0 c2"
    using o lc m N inlatch_of_bytes[of lo hi]
    by (simp add: pit_write_def clock_def upd_counter_def write_count_def write_latch_def Let_def set_count_def
        set_binary_to_count_def clock_counter_def clock_mode2_def rate_state_def c2_def l_def n_def)
  moreover have "rate_generator ?N c2" using o N l by (simp add: rate_generator_def c2_def)
  moreover have "out_handler c2 = out_handler c0" using o by (simp add: c2_def)
  ultimately show ?thesis by blast
qed

section \<open>A counter with count 3\<close>

definition sample_counter :: counter_type where
  "sample_counter = \<lparr>GATE = True, OUTpin = True, count = 0, outlatch = 0, inlatch = 3, status_latch = 0, rw_mode = 3,
     mode = 2, bcd_mode = False, null_count = False, count_LSB_latched = False, count_MSB_latched = False,
     status_latched = False, count_binary = 0, triggerGATE = False, write_state = LSByte_multiple,
     read_state = LSByte_multiple, count_written = True, first_pass = False, state_bit_1 = False, state_bit_2 = False,
     next_change_time = 0, out_handler = True, calls = []\<rparr>"

definition sample_pit :: pit where
  "sample_pit = \<lparr>counter = \<lambda>_. rate_state 3 1 sample_counter, controlword = 0\<rparr>"

lemma sample_rate_generator: "rate_generator 3 sample_counter"
  by (simp add: rate_generator_def sample_counter_def)

text \<open>
  Count 5, the gate dropped while the output is low: three cycles at once leave the count 1 and clocking reloads 5.
\<close>

lemma gate_low_differs:
  defines "c \<equiv> set_GATE_counter False ((rate_state 5 4 sample_counter)\<lparr>inlatch := 5\<rparr>)"
  shows "count (clock_multiple_counter 3 c) = 1" and "count ((clock_counter ^^ 3) c) = 5"
proof -
  have c: "c = sample_counter\<lparr>inlatch := 5, count := 1, count_binary := 1, first_pass := True, GATE := False, OUTpin := True, calls := [True]\<rparr>"
    by (simp add: c_def set_GATE_counter_def rate_state_def sample_counter_def remaining_count_def set_OUT_def Let_def)
  have z: "clock_multiple_counter 0 d = d" for d by (subst clock_multiple_counter.simps) simp
  have n: "next_change_time c = 0" "run_no_event 3 c = c" "count c = 1" by (simp_all add: c run_no_event_def sample_counter_def)
  then show "count (clock_multiple_counter 3 c) = 1"
    by (subst clock_multiple_counter.simps) (simp add: n z)
  have d: "count (clock_counter c) = 5" "mode (clock_counter c) = 2" "count_written (clock_counter c)" "\<not> GATE (clock_counter c)"
    "\<not> first_pass (clock_counter c)" "\<not> triggerGATE (clock_counter c)"
    by (simp_all add: c clock_counter_def clock_mode2_def set_count_def set_binary_to_count_def sample_counter_def Let_def)
  have idle: "clock_counter x = x\<lparr>next_change_time := 0, triggerGATE := False\<rparr>"
    if "mode x = 2" "count_written x" "\<not> GATE x" "\<not> first_pass x" "\<not> triggerGATE x" for x
    using that by (simp add: clock_counter_def clock_mode2_def Let_def)
  have "(clock_counter ^^ 3) c = clock_counter (clock_counter (clock_counter c))" by (simp add: eval_nat_numeral)
  then show "count ((clock_counter ^^ 3) c) = 5" using d by (simp add: idle)
qed

lemma clock_multiple_is_clock_witness: "clock_multiple 0 1000 sample_pit = (clock 0 ^^ 1000) sample_pit"
  using clock_multiple_is_clock[OF _ _ sample_rate_generator, of 0 sample_pit 1 1000] by (simp add: sample_pit_def)

lemma rate_generator_pulses_witness:
  "\<exists>c'. clock_multiple_counter 6 (rate_state 3 0 sample_counter) = rate_state 3 0 c' \<and>
    calls c' = [False, True, False, True]"
proof -
  have "concat (replicate 2 [False, True]) = [False, True, False, True]" by (simp add: numeral_2_eq_2)
  moreover have "out_handler sample_counter" "calls sample_counter = []" by (simp_all add: sample_counter_def)
  ultimately show ?thesis using rate_generator_pulses[OF sample_rate_generator, of 2] by auto
qed

lemma programmed_rate_generator_witness:
  "\<exists>c. counter (clock 0 (pit_write 0 0x10 (pit_write 0 0 (pit_write CONTROL_ADDRESS 0x34 sample_pit)))) 0 =
      rate_state 4096 0 c \<and> rate_generator 4096 c"
  using programmed_rate_generator[of sample_pit "rate_state 3 1 sample_counter" 0 "0x10"]
  by (auto simp: sample_pit_def rate_state_def sample_counter_def count_of_bytes_def Let_def)

text \<open>C31. While counter 0 has no event scheduled, \<open>get_next_event_time\<close> answers that there is none, whatever
  the other counters have scheduled; otherwise it is the earliest of the scheduled events.\<close>

theorem next_event_time:
  "get_next_event_time p =
     (let ts = filter (\<lambda>t. t \<noteq> 0) (map (\<lambda>i. next_change_time (counter p i)) [0, 1, 2]) in
      if next_change_time (counter p 0) = 0 then 0 else fold min (tl ts) (hd ts))"
  by (auto simp: get_next_event_time_def get_clock_event_time_def Let_def min_def)

end
