(* ===== verification/Flags.thy ===== *)
theory Flags
  imports Prelude
begin

text \<open>
  The arithmetic flags of the CPU, which Bochs computes when they are read: an instruction stores its
  result and its vector of carries (\<open>bochs-2.6.7/cpu/lazy_flags.h\<close>), the accessors of
  \<open>bochs-2.6.7/cpu/cpu.h\<close> derive the flags. The build has 32-bit registers (\<open>BX_SUPPORT_X86_64\<close> is 0 in
  \<open>config.h\<close>), so \<open>bx_address\<close> is a 32-bit word and the sign bit of a result is bit 31. The macros take
  the operand size as a number; \<open>(bx_address)(Bit8s) x\<close> is \<open>signed_take_bit 7 x\<close>.

  The reference is the definition of the flags by the sums of the operands; the lemmas show that the
  lazy flags agree with it for every operand size, carry in included.
\<close>

unbundle bit_operations_syntax

section \<open>The lazy flags\<close>

record bx_lf_flags_entry =
  result :: DWord
  auxbits :: DWord

definition LF_BIT_SD :: nat where "LF_BIT_SD = 0"
definition LF_BIT_AF :: nat where "LF_BIT_AF = 3"
definition LF_BIT_PDB :: nat where "LF_BIT_PDB = 8"
definition LF_BIT_CF :: nat where "LF_BIT_CF = 31"
definition LF_BIT_PO :: nat where "LF_BIT_PO = 30"
definition BX_LF_SIGN_BIT :: nat where "BX_LF_SIGN_BIT = 31"
definition LF_MASK_SD :: DWord where "LF_MASK_SD = push_bit LF_BIT_SD 1"
definition LF_MASK_AF :: DWord where "LF_MASK_AF = push_bit LF_BIT_AF 1"
definition LF_MASK_PDB :: DWord where "LF_MASK_PDB = push_bit LF_BIT_PDB 0xFF"
definition LF_MASK_CF :: DWord where "LF_MASK_CF = push_bit LF_BIT_CF 1"
definition LF_MASK_PO :: DWord where "LF_MASK_PO = push_bit LF_BIT_PO 1"

lemmas lf_consts = LF_BIT_SD_def LF_BIT_AF_def LF_BIT_PDB_def LF_BIT_CF_def LF_BIT_PO_def
  BX_LF_SIGN_BIT_def LF_MASK_SD_def LF_MASK_AF_def LF_MASK_PDB_def LF_MASK_CF_def LF_MASK_PO_def

definition ADD_COUT_VEC :: "DWord \<Rightarrow> DWord \<Rightarrow> DWord \<Rightarrow> DWord" where
  "ADD_COUT_VEC op1 op2 res = (op1 AND op2) OR ((op1 OR op2) AND NOT res)"

definition SUB_COUT_VEC :: "DWord \<Rightarrow> DWord \<Rightarrow> DWord \<Rightarrow> DWord" where
  "SUB_COUT_VEC op1 op2 res = (NOT op1 AND op2) OR ((NOT op1 XOR op2) AND res)"

text \<open>The value of \<open>temp\<close> after the three tests of the macros.\<close>

definition lf_temp :: "nat \<Rightarrow> DWord \<Rightarrow> DWord" where
  "lf_temp sz carries =
     (if sz = 32 then carries AND NOT (LF_MASK_PDB OR LF_MASK_SD)
      else if sz = 16 then (carries AND LF_MASK_AF) OR push_bit 16 carries
      else if sz = 8 then (carries AND LF_MASK_AF) OR push_bit 24 carries
      else (carries AND LF_MASK_AF) OR push_bit LF_BIT_PO (drop_bit (sz - 2) carries))"

definition SET_FLAGS_OSZAPC_SIZE :: "nat \<Rightarrow> DWord \<Rightarrow> DWord \<Rightarrow> bx_lf_flags_entry \<Rightarrow> bx_lf_flags_entry" where
  "SET_FLAGS_OSZAPC_SIZE sz carries res f =
     f\<lparr>result := signed_take_bit (sz - 1) res, auxbits := lf_temp sz carries\<rparr>"

definition SET_FLAGS_OSZAP_SIZE :: "nat \<Rightarrow> DWord \<Rightarrow> DWord \<Rightarrow> bx_lf_flags_entry \<Rightarrow> bx_lf_flags_entry" where
  "SET_FLAGS_OSZAP_SIZE sz carries res f =
     (let temp = lf_temp sz carries;
          f1 = f\<lparr>result := signed_take_bit (sz - 1) res\<rparr>;
          delta_c = (auxbits f1 XOR temp) AND LF_MASK_CF;
          delta_c' = delta_c XOR drop_bit 1 delta_c
      in f1\<lparr>auxbits := temp XOR delta_c'\<rparr>)"

definition SET_FLAGS_OSZAPC_LOGIC :: "nat \<Rightarrow> DWord \<Rightarrow> bx_lf_flags_entry \<Rightarrow> bx_lf_flags_entry" where
  "SET_FLAGS_OSZAPC_LOGIC sz res = SET_FLAGS_OSZAPC_SIZE sz 0 res"

definition SET_FLAGS_OSZAPC_ADD :: "nat \<Rightarrow> DWord \<Rightarrow> DWord \<Rightarrow> DWord \<Rightarrow> bx_lf_flags_entry \<Rightarrow> bx_lf_flags_entry" where
  "SET_FLAGS_OSZAPC_ADD sz op1 op2 res = SET_FLAGS_OSZAPC_SIZE sz (ADD_COUT_VEC op1 op2 res) res"

definition SET_FLAGS_OSZAPC_SUB :: "nat \<Rightarrow> DWord \<Rightarrow> DWord \<Rightarrow> DWord \<Rightarrow> bx_lf_flags_entry \<Rightarrow> bx_lf_flags_entry" where
  "SET_FLAGS_OSZAPC_SUB sz op1 op2 diff = SET_FLAGS_OSZAPC_SIZE sz (SUB_COUT_VEC op1 op2 diff) diff"

definition SET_FLAGS_OSZAP_ADD :: "nat \<Rightarrow> DWord \<Rightarrow> DWord \<Rightarrow> DWord \<Rightarrow> bx_lf_flags_entry \<Rightarrow> bx_lf_flags_entry" where
  "SET_FLAGS_OSZAP_ADD sz op1 op2 res = SET_FLAGS_OSZAP_SIZE sz (ADD_COUT_VEC op1 op2 res) res"

definition SET_FLAGS_OSZAP_SUB :: "nat \<Rightarrow> DWord \<Rightarrow> DWord \<Rightarrow> DWord \<Rightarrow> bx_lf_flags_entry \<Rightarrow> bx_lf_flags_entry" where
  "SET_FLAGS_OSZAP_SUB sz op1 op2 diff = SET_FLAGS_OSZAP_SIZE sz (SUB_COUT_VEC op1 op2 diff) diff"

section \<open>Reading and writing single flags\<close>

definition getB_ZF :: "bx_lf_flags_entry \<Rightarrow> bool" where
  "getB_ZF f \<longleftrightarrow> 0 = result f"

definition getB_SF :: "bx_lf_flags_entry \<Rightarrow> bool" where
  "getB_SF f \<longleftrightarrow> bit (drop_bit BX_LF_SIGN_BIT (result f) XOR drop_bit LF_BIT_SD (auxbits f)) 0"

definition getB_PF :: "bx_lf_flags_entry \<Rightarrow> bool" where
  "getB_PF f \<longleftrightarrow>
     (let t1 = 255 AND result f;
          t2 = t1 XOR (255 AND drop_bit LF_BIT_PDB (auxbits f));
          t3 = (t2 XOR drop_bit 4 t2) AND 0x0F
      in bit (drop_bit (unat t3) (0x9669 :: DWord)) 0)"

definition getB_AF :: "bx_lf_flags_entry \<Rightarrow> bool" where
  "getB_AF f \<longleftrightarrow> bit (drop_bit LF_BIT_AF (auxbits f)) 0"

definition getB_CF :: "bx_lf_flags_entry \<Rightarrow> bool" where
  "getB_CF f \<longleftrightarrow> bit (drop_bit LF_BIT_CF (auxbits f)) 0"

definition getB_OF :: "bx_lf_flags_entry \<Rightarrow> bool" where
  "getB_OF f \<longleftrightarrow> bit (drop_bit LF_BIT_CF (auxbits f + push_bit LF_BIT_PO 1)) 0"

definition SET_FLAGS_OxxxxC :: "bool \<Rightarrow> bool \<Rightarrow> bx_lf_flags_entry \<Rightarrow> bx_lf_flags_entry" where
  "SET_FLAGS_OxxxxC new_of new_cf f =
     f\<lparr>auxbits := (auxbits f AND NOT (LF_MASK_PO OR LF_MASK_CF)) OR
        (push_bit LF_BIT_PO (of_bool (new_of \<noteq> new_cf)) OR push_bit LF_BIT_CF (of_bool new_cf))\<rparr>"

definition clear_ZF :: "bx_lf_flags_entry \<Rightarrow> bx_lf_flags_entry" where
  "clear_ZF f = f\<lparr>result := result f OR push_bit 8 1\<rparr>"

definition assert_ZF :: "bx_lf_flags_entry \<Rightarrow> bx_lf_flags_entry" where
  "assert_ZF f =
     (let f1 = f\<lparr>auxbits := auxbits f XOR push_bit LF_BIT_SD (drop_bit BX_LF_SIGN_BIT (result f) AND 1)\<rparr>;
          f2 = f1\<lparr>auxbits := auxbits f1 XOR push_bit LF_BIT_PDB (255 AND result f1)\<rparr>
      in f2\<lparr>result := 0\<rparr>)"

definition set_ZF :: "bool \<Rightarrow> bx_lf_flags_entry \<Rightarrow> bx_lf_flags_entry" where
  "set_ZF val f = (if val then assert_ZF f else clear_ZF f)"

definition set_SF :: "bool \<Rightarrow> bx_lf_flags_entry \<Rightarrow> bx_lf_flags_entry" where
  "set_SF val f = f\<lparr>auxbits := auxbits f XOR push_bit LF_BIT_SD (of_bool (getB_SF f \<noteq> val))\<rparr>"

definition set_PF :: "bool \<Rightarrow> bx_lf_flags_entry \<Rightarrow> bx_lf_flags_entry" where
  "set_PF val f =
     (let temp_pdb = (255 AND result f) XOR of_bool (\<not> val)
      in f\<lparr>auxbits := (auxbits f AND NOT LF_MASK_PDB) OR push_bit LF_BIT_PDB temp_pdb\<rparr>)"

definition set_AF :: "bool \<Rightarrow> bx_lf_flags_entry \<Rightarrow> bx_lf_flags_entry" where
  "set_AF val f = f\<lparr>auxbits := (auxbits f AND NOT LF_MASK_AF) OR push_bit LF_BIT_AF (of_bool val)\<rparr>"

definition set_CF :: "bool \<Rightarrow> bx_lf_flags_entry \<Rightarrow> bx_lf_flags_entry" where
  "set_CF val f = SET_FLAGS_OxxxxC (getB_OF f) val f"

definition set_OF :: "bool \<Rightarrow> bx_lf_flags_entry \<Rightarrow> bx_lf_flags_entry" where
  "set_OF val f = SET_FLAGS_OxxxxC val (getB_CF f) f"

definition setEFlagsOSZAPC :: "DWord \<Rightarrow> bx_lf_flags_entry \<Rightarrow> bx_lf_flags_entry" where
  "setEFlagsOSZAPC flags32 f =
     (let f1 = set_OF (bit flags32 11) f; f2 = set_SF (bit flags32 7) f1; f3 = set_ZF (bit flags32 6) f2;
          f4 = set_AF (bit flags32 4) f3; f5 = set_PF (bit flags32 2) f4
      in set_CF (bit flags32 0) f5)"

definition clearEFlagsOSZAPC :: "bx_lf_flags_entry \<Rightarrow> bx_lf_flags_entry" where
  "clearEFlagsOSZAPC = SET_FLAGS_OSZAPC_LOGIC 32 1"

definition SET_FLAGS_OSZAxC_LOGIC_SIZE :: "nat \<Rightarrow> DWord \<Rightarrow> bx_lf_flags_entry \<Rightarrow> bx_lf_flags_entry" where
  "SET_FLAGS_OSZAxC_LOGIC_SIZE sz res f =
     (let saved_PF = getB_PF f in set_PF saved_PF (SET_FLAGS_OSZAPC_SIZE sz 0 res f))"

section \<open>The flags as bits of the state\<close>

record oszapc =
  vOF :: bool
  vSF :: bool
  vZF :: bool
  vAF :: bool
  vPF :: bool
  vCF :: bool

definition read_oszapc :: "bx_lf_flags_entry \<Rightarrow> oszapc" where
  "read_oszapc f = \<lparr>vOF = getB_OF f, vSF = getB_SF f, vZF = getB_ZF f, vAF = getB_AF f,
     vPF = getB_PF f, vCF = getB_CF f\<rparr>"

lemma getB_CF_bit: "getB_CF f = bit (auxbits f) 31"
  by (simp add: getB_CF_def lf_consts bit_simps)

lemma getB_AF_bit: "getB_AF f = bit (auxbits f) 3"
  by (simp add: getB_AF_def lf_consts bit_simps)

lemma getB_SF_bit: "getB_SF f \<longleftrightarrow> bit (result f) 31 \<noteq> bit (auxbits f) 0"
  by (simp add: getB_SF_def lf_consts bit_simps)

text \<open>Bits of the powers of two that the masks are made of.\<close>

lemma bit_pow_int: "bit (2 ^ i :: int) k \<longleftrightarrow> k = i"
  by (auto simp: bit_simps)

lemmas bit_masks [simp] = bit_pow_int[of 3, simplified] bit_pow_int[of 8, simplified]
  bit_pow_int[of 30, simplified] bit_pow_int[of 31, simplified]

lemma bit_mask_OC [simp]: "bit (3221225472 :: int) k \<longleftrightarrow> k = 30 \<or> k = 31"
proof -
  have "(3221225472 :: int) = push_bit 30 (mask 2)" by (simp add: mask_eq_exp_minus_1)
  then show ?thesis by (simp only: bit_push_bit_iff bit_mask_iff) auto
qed

lemma bit_unat: "bit w n \<longleftrightarrow> odd (unat w div 2 ^ n)"
proof -
  have "bit w n = bit (unat w) n" by (simp add: bit_unsigned_iff)
  then show ?thesis by (simp add: bit_iff_odd)
qed

lemma getB_OF_bit: "getB_OF f \<longleftrightarrow> bit (auxbits f) 31 \<noteq> bit (auxbits f) 30"
proof -
  define n where "n = unat (auxbits f)"
  define q where "q = n div 2 ^ 30"
  have "n < 2 ^ 32" using unsigned_less[of "auxbits f"] by (simp add: n_def)
  then have q: "q < 4" by (simp add: q_def)
  have 1: "(n + 2 ^ 30) div 2 ^ 31 = (q + 1) div 2" "n div 2 ^ 31 = q div 2" by (simp_all add: q_def)
  have "bit (auxbits f + push_bit 30 1) 31 \<longleftrightarrow> odd (unat (auxbits f + 2 ^ 30) div 2 ^ 31)"
    by (simp add: bit_unat push_bit_eq_mult)
  also have "unat (auxbits f + 2 ^ 30) = (n + 2 ^ 30) mod 2 ^ 32"
    by (simp add: unat_word_ariths n_def)
  also have "odd ((n + 2 ^ 30) mod 2 ^ 32 div 2 ^ 31) \<longleftrightarrow> odd ((n + 2 ^ 30) div 2 ^ 31)"
  proof -
    have "bit (take_bit 32 (n + 2 ^ 30)) 31 = bit (n + 2 ^ 30) 31" by (simp add: bit_take_bit_iff)
    then show ?thesis by (simp add: bit_iff_odd take_bit_eq_mod)
  qed
  finally have "bit (auxbits f + push_bit 30 1) 31 \<longleftrightarrow> odd ((q + 1) div 2)" by (simp only: 1)
  moreover have "bit (auxbits f) 31 \<longleftrightarrow> odd (q div 2)" "bit (auxbits f) 30 \<longleftrightarrow> odd q"
    using 1 by (simp_all add: bit_unat n_def q_def)
  moreover have "odd ((q + 1) div 2) \<longleftrightarrow> odd (q div 2) \<noteq> odd q"
  proof -
    have "q = 0 \<or> q = 1 \<or> q = 2 \<or> q = 3" using q by linarith
    then show ?thesis by (elim disjE) simp_all
  qed
  ultimately show ?thesis by (simp add: getB_OF_def lf_consts bit_simps)
qed

section \<open>Carries and borrows\<close>

text \<open>Bit \<open>i\<close> of the vector is the carry out of bit \<open>i\<close>.\<close>

lemma carry_bit:
  fixes A B c :: nat
  assumes "c \<le> 1"
  shows "(bit A i \<and> bit B i) \<or> ((bit A i \<or> bit B i) \<and> \<not> bit (A + B + c) i) \<longleftrightarrow>
    2 ^ Suc i \<le> A mod 2 ^ Suc i + B mod 2 ^ Suc i + c"
  using assms
proof (induction i arbitrary: A B c)
  case 0
  then show ?case by (auto simp: bit_0) presburger+
next
  case (Suc i)
  define c' where "c' = (A mod 2 + B mod 2 + c) div 2"
  have c': "c' \<le> 1" using Suc.prems by (simp add: c'_def)
  have s: "(A + B + c) div 2 = A div 2 + B div 2 + c'" unfolding c'_def by presburger
  have m: "x mod 2 ^ Suc (Suc i) = 2 * (x div 2 mod 2 ^ Suc i) + x mod 2" for x :: nat
    using mod_mult2_eq[of x 2 "2 ^ Suc i"] by simp
  have h: "2 * P \<le> (2 * X + a) + (2 * Y + b) + c \<longleftrightarrow> P \<le> X + Y + (a + b + c) div 2" for P X Y a b :: nat
    by presburger
  have r: "2 ^ Suc (Suc i) \<le> A mod 2 ^ Suc (Suc i) + B mod 2 ^ Suc (Suc i) + c \<longleftrightarrow>
      2 ^ Suc i \<le> (A div 2) mod 2 ^ Suc i + (B div 2) mod 2 ^ Suc i + c'"
    unfolding m unfolding c'_def power_Suc[of 2 "Suc i"] by (rule h)
  show ?case unfolding bit_Suc s r by (rule Suc.IH[OF c'])
qed

lemma borrow_bit:
  fixes A B c :: int
  assumes "c = 0 \<or> c = 1"
  shows "(\<not> bit A i \<and> bit B i) \<or> ((\<not> bit A i) \<noteq> bit B i \<and> bit (A - B - c) i) \<longleftrightarrow>
    A mod 2 ^ Suc i < B mod 2 ^ Suc i + c"
  using assms
proof (induction i arbitrary: A B c)
  case 0
  then show ?case by (auto simp: bit_0) presburger+
next
  case (Suc i)
  define c' where "c' = (if A mod 2 < B mod 2 + c then 1 else 0 :: int)"
  have c': "c' = 0 \<or> c' = 1" by (simp add: c'_def)
  have s: "(A - B - c) div 2 = A div 2 - B div 2 - c'" using Suc.prems unfolding c'_def
    by (auto split: if_splits) presburger+
  have m: "x mod 2 ^ Suc (Suc i) = 2 * (x div 2 mod 2 ^ Suc i) + x mod 2" for x :: int
    using zmod_zmult2_eq[of "2 ^ Suc i" x 2] by simp
  have r: "A mod 2 ^ Suc (Suc i) < B mod 2 ^ Suc (Suc i) + c \<longleftrightarrow>
      (A div 2) mod 2 ^ Suc i < (B div 2) mod 2 ^ Suc i + c'"
    using Suc.prems unfolding m c'_def by (auto split: if_splits)
  show ?case unfolding bit_Suc s r using Suc.IH[OF c', of "A div 2" "B div 2"] .
qed

lemma take_bit_nat_word: "unat (take_bit n w) = unat w mod 2 ^ n"
  by (simp only: unsigned_take_bit_eq take_bit_eq_mod[symmetric])

lemma take_bit_int_word: "uint (take_bit n w) = uint w mod 2 ^ n"
  by (simp only: unsigned_take_bit_eq take_bit_eq_mod[symmetric])

lemma add_cout_bit:
  assumes "i < 32"
  shows "bit (ADD_COUT_VEC a b (a + b + of_bool c)) i \<longleftrightarrow>
    2 ^ Suc i \<le> unat (take_bit (Suc i) a) + unat (take_bit (Suc i) b) + of_bool c"
proof -
  have s: "bit (a + b + of_bool c) i = bit (unat a + unat b + of_bool c) i"
  proof -
    have "unat (a + b + of_bool c) = take_bit 32 (unat a + unat b + of_bool c)"
      by (simp add: unat_word_ariths take_bit_eq_mod mod_simps)
    then show ?thesis using assms by (metis bit_take_bit_iff bit_unsigned_iff possible_bit_nat)
  qed
  have "bit a i = bit (unat a) i" "bit b i = bit (unat b) i" by (simp_all add: bit_unsigned_iff)
  then show ?thesis using carry_bit[of "of_bool c" "unat a" i "unat b"] assms s
    by (simp add: ADD_COUT_VEC_def bit_simps take_bit_nat_word)
qed

lemma sub_cout_bit:
  assumes "i < 32"
  shows "bit (SUB_COUT_VEC a b (a - b - of_bool c)) i \<longleftrightarrow>
    uint (take_bit (Suc i) a) < uint (take_bit (Suc i) b) + of_bool c"
proof -
  have s: "bit (a - b - of_bool c) i = bit (uint a - uint b - of_bool c) i"
  proof -
    have "uint (a - b - of_bool c) = take_bit 32 (uint a - uint b - of_bool c)"
      by (simp add: uint_word_ariths take_bit_eq_mod mod_simps)
    then show ?thesis using assms by (metis bit_take_bit_iff bit_unsigned_iff possible_bit_int)
  qed
  have "bit a i = bit (uint a) i" "bit b i = bit (uint b) i" by (simp_all add: bit_unsigned_iff)
  then show ?thesis using borrow_bit[of "of_bool c" "uint a" i "uint b"] assms s
    by (auto simp: SUB_COUT_VEC_def bit_simps take_bit_int_word)
qed

section \<open>The reference: flags from sums and differences\<close>

definition parity :: "int \<Rightarrow> bool" where
  "parity x \<longleftrightarrow> even (length (filter (bit x) [0..<8]))"

text \<open>The flags of the sum and the difference of two operands of \<open>n\<close> bits and a carry.\<close>

definition sum_oszapc :: "nat \<Rightarrow> DWord \<Rightarrow> DWord \<Rightarrow> bool \<Rightarrow> oszapc" where
  "sum_oszapc n a b c =
     (let A = uint (take_bit n a); B = uint (take_bit n b); S = A + B + of_bool c;
          T = signed_take_bit (n - 1) A + signed_take_bit (n - 1) B + of_bool c
      in \<lparr>vOF = T < - (2 ^ (n - 1)) \<or> 2 ^ (n - 1) \<le> T, vSF = bit S (n - 1), vZF = S mod 2 ^ n = 0,
          vAF = 16 \<le> A mod 16 + B mod 16 + of_bool c, vPF = parity S, vCF = 2 ^ n \<le> S\<rparr>)"

definition diff_oszapc :: "nat \<Rightarrow> DWord \<Rightarrow> DWord \<Rightarrow> bool \<Rightarrow> oszapc" where
  "diff_oszapc n a b c =
     (let A = uint (take_bit n a); B = uint (take_bit n b); D = A - B - of_bool c;
          T = signed_take_bit (n - 1) A - signed_take_bit (n - 1) B - of_bool c
      in \<lparr>vOF = T < - (2 ^ (n - 1)) \<or> 2 ^ (n - 1) \<le> T, vSF = bit D (n - 1), vZF = D mod 2 ^ n = 0,
          vAF = A mod 16 < B mod 16 + of_bool c, vPF = parity D, vCF = D < 0\<rparr>)"

definition operand_size :: "nat \<Rightarrow> bool" where
  "operand_size n \<longleftrightarrow> n = 8 \<or> n = 16 \<or> n = 32"

lemma parity_xor: "parity x \<longleftrightarrow>
    ((bit x 0 = bit x 1) = (bit x 2 = bit x 3)) = ((bit x 4 = bit x 5) = (bit x 6 = bit x 7))"
proof -
  have c: "even (length (filter P (k # ks))) = (P k = odd (length (filter P ks)))" for P and k :: nat and ks
    by auto
  have u: "[0..<8] = [0, 1, 2, 3, 4, 5, 6, 7 :: nat]" by (simp add: upt_rec)
  have o: "odd (length (filter P (k # ks))) = (P k \<noteq> odd (length (filter P ks)))" for P and k :: nat and ks
    by auto
  show ?thesis unfolding parity_def u c o filter.simps(1) list.size(3) by (simp only: even_zero) argo
qed

lemma parity_cong: "(\<And>i. i < 8 \<Longrightarrow> bit x i = bit y i) \<Longrightarrow> parity x = parity y"
  by (simp add: parity_xor)

text \<open>The table 0x9669 holds the parity of four bits.\<close>

lemma parity_table:
  assumes "unat x < 16"
  shows "bit (0x9669 :: DWord) (unat x) \<longleftrightarrow> (bit x 0 = bit x 1) = (bit x 2 = bit x 3)"
proof -
  have "unat x \<in> set [0..<16]" using assms by simp
  then consider "unat x = 0" | "unat x = 1" | "unat x = 2" | "unat x = 3" | "unat x = 4" | "unat x = 5"
    | "unat x = 6" | "unat x = 7" | "unat x = 8" | "unat x = 9" | "unat x = 10" | "unat x = 11"
    | "unat x = 12" | "unat x = 13" | "unat x = 14" | "unat x = 15"
    by (auto simp: upt_rec)
  then show ?thesis by cases (simp_all add: bit_unat bit_iff_odd)
qed

lemma getB_PF_parity: "getB_PF f = parity (uint (result f XOR drop_bit 8 (auxbits f)))"
proof -
  define t2 where "t2 = (255 AND result f) XOR (255 AND drop_bit 8 (auxbits f))"
  define t3 where "t3 = (t2 XOR drop_bit 4 t2) AND 0x0F"
  have m: "(0x0F :: DWord) = mask 4" "(255 :: DWord) = mask 8" by (simp_all add: mask_eq_exp_minus_1)
  have b: "bit t2 i \<longleftrightarrow> i < 8 \<and> bit (result f XOR drop_bit 8 (auxbits f)) i" for i
    by (auto simp: t2_def m bit_simps)
  have "t3 = take_bit 4 (t2 XOR drop_bit 4 t2)" by (simp add: t3_def m take_bit_eq_mask)
  then have lt: "unat t3 < 16" by (simp only: take_bit_nat_word) simp
  have b3: "bit t3 k \<longleftrightarrow> k < 4 \<and> bit t2 k \<noteq> bit t2 (4 + k)" for k
    by (auto simp: t3_def m bit_simps)
  have "getB_PF f \<longleftrightarrow> bit (drop_bit (unat t3) (0x9669 :: DWord)) 0"
    unfolding getB_PF_def Let_def t3_def t2_def LF_BIT_PDB_def ..
  then have "getB_PF f \<longleftrightarrow> (bit t3 0 = bit t3 1) = (bit t3 2 = bit t3 3)"
    using parity_table[OF lt] by (simp add: bit_drop_bit_eq)
  then show ?thesis by (auto simp: b3 b parity_xor bit_unsigned_iff)
qed

section \<open>The lazy flags agree with the reference\<close>

lemma lf_temp_bits:
  assumes "operand_size n"
  shows "bit (lf_temp n c) 31 = bit c (n - 1)" and "bit (lf_temp n c) 30 = bit c (n - 2)"
    and "bit (lf_temp n c) 3 = bit c 3" and "\<not> bit (lf_temp n c) 0"
    and "8 \<le> k \<Longrightarrow> k < 16 \<Longrightarrow> \<not> bit (lf_temp n c) k"
proof -
  have m: "(255 :: DWord) = mask 8" by (simp add: mask_eq_exp_minus_1)
  note [simp] = lf_temp_def lf_consts bit_simps m
  show "bit (lf_temp n c) 31 = bit c (n - 1)" "bit (lf_temp n c) 30 = bit c (n - 2)"
    "bit (lf_temp n c) 3 = bit c 3" "\<not> bit (lf_temp n c) 0"
    using assms by (auto simp: operand_size_def)
  show "\<not> bit (lf_temp n c) k" if "8 \<le> k" "k < 16"
    using assms that by (auto simp: operand_size_def)
qed

lemma parity_stored:
  assumes "operand_size n" and "\<And>k. 8 \<le> k \<Longrightarrow> k < 16 \<Longrightarrow> \<not> bit x k"
  shows "parity (uint (signed_take_bit (n - 1) res XOR drop_bit 8 x)) = parity (uint (res :: DWord))"
  by (rule parity_cong) (use assms in \<open>auto simp: operand_size_def bit_simps\<close>)

lemma zero_stored:
  "operand_size n \<Longrightarrow> signed_take_bit (n - 1) res = 0 \<longleftrightarrow> take_bit n (res :: DWord) = 0"
  using signed_take_bit_eq_iff_take_bit_eq[of "n - 1" res 0] by (auto simp: operand_size_def)

lemma read_SET_FLAGS_OSZAPC:
  assumes "operand_size n"
  shows "read_oszapc (SET_FLAGS_OSZAPC_SIZE n carries res f) =
    \<lparr>vOF = bit carries (n - 1) \<noteq> bit carries (n - 2), vSF = bit res (n - 1), vZF = take_bit n res = 0,
     vAF = bit carries 3, vPF = parity (uint res), vCF = bit carries (n - 1)\<rparr>"
  using assms
  by (simp add: read_oszapc_def getB_CF_bit getB_OF_bit getB_AF_bit getB_SF_bit getB_ZF_def getB_PF_parity
      SET_FLAGS_OSZAPC_SIZE_def lf_temp_bits parity_stored eq_commute[of 0] zero_stored del: One_nat_def)
    (auto simp: operand_size_def bit_simps)

lemma read_SET_FLAGS_OSZAP:
  assumes "operand_size n"
  shows "read_oszapc (SET_FLAGS_OSZAP_SIZE n carries res f) =
    \<lparr>vOF = bit carries (n - 1) \<noteq> bit carries (n - 2), vSF = bit res (n - 1), vZF = take_bit n res = 0,
     vAF = bit carries 3, vPF = parity (uint res), vCF = getB_CF f\<rparr>"
proof -
  define t where "t = lf_temp n carries"
  define d where "d = (auxbits f XOR t) AND push_bit 31 1"
  define x where "x = t XOR (d XOR drop_bit 1 d)"
  have x: "SET_FLAGS_OSZAP_SIZE n carries res f = f\<lparr>result := signed_take_bit (n - 1) res, auxbits := x\<rparr>"
    by (simp add: SET_FLAGS_OSZAP_SIZE_def Let_def t_def d_def x_def lf_consts)
  have d: "bit d k \<longleftrightarrow> k = 31 \<and> bit (auxbits f) 31 \<noteq> bit t 31" for k
    by (auto simp: d_def bit_simps bit_and_iff bit_xor_iff)
  have b: "bit x 31 = bit (auxbits f) 31" "bit x 30 \<longleftrightarrow> (bit t 30 \<noteq> bit t 31) = (\<not> bit (auxbits f) 31)"
    "k < 30 \<Longrightarrow> bit x k = bit t k" for k
    by (auto simp: x_def bit_simps d)
  show ?thesis using assms
    by (simp add: x read_oszapc_def getB_CF_bit getB_OF_bit getB_AF_bit getB_SF_bit getB_ZF_def
        getB_PF_parity b t_def lf_temp_bits parity_stored eq_commute[of 0] zero_stored del: One_nat_def)
      (auto simp: operand_size_def bit_simps)
qed

lemma signed_split:
  fixes x :: int
  assumes "0 \<le> x" "x < 2 ^ Suc m"
  shows "signed_take_bit m x = (if 2 ^ m \<le> x then x - 2 ^ Suc m else x) \<and>
    x mod 2 ^ m = (if 2 ^ m \<le> x then x - 2 ^ m else x)"
proof (cases "2 ^ m \<le> x")
  case True
  then have "x div 2 ^ m = 1" using assms by (simp add: int_div_pos_eq[of x "2 ^ m" 1 "x - 2 ^ m"])
  then show ?thesis using assms True
    by (simp add: signed_take_bit_eq_take_bit_minus take_bit_int_eq_self bit_iff_odd minus_div_mult_eq_mod[symmetric])
next
  case False
  then show ?thesis using assms
    by (simp add: signed_take_bit_eq_take_bit_minus take_bit_int_eq_self bit_iff_odd)
qed

lemma signed_sum_overflow:
  fixes A B c :: int
  assumes "0 \<le> A" "A < 2 ^ Suc m" "0 \<le> B" "B < 2 ^ Suc m" "c = 0 \<or> c = 1"
  defines "T \<equiv> signed_take_bit m A + signed_take_bit m B + c"
  shows "(2 ^ Suc m \<le> A + B + c) \<noteq> (2 ^ m \<le> A mod 2 ^ m + B mod 2 ^ m + c) \<longleftrightarrow>
    T < - (2 ^ m) \<or> 2 ^ m \<le> T"
  unfolding T_def using signed_split[OF assms(1,2)] signed_split[OF assms(3,4)] assms(5) assms(1-4)
  by (auto split: if_splits)

lemma signed_diff_overflow:
  fixes A B c :: int
  assumes "0 \<le> A" "A < 2 ^ Suc m" "0 \<le> B" "B < 2 ^ Suc m" "c = 0 \<or> c = 1"
  defines "T \<equiv> signed_take_bit m A - signed_take_bit m B - c"
  shows "(A < B + c) \<noteq> (A mod 2 ^ m < B mod 2 ^ m + c) \<longleftrightarrow> T < - (2 ^ m) \<or> 2 ^ m \<le> T"
  unfolding T_def using signed_split[OF assms(1,2)] signed_split[OF assms(3,4)] assms(5) assms(1-4)
  by (auto split: if_splits)

lemma uint_take_bit_bounds: "0 \<le> uint (take_bit n w)" "uint (take_bit n w) < 2 ^ n"
  by (simp_all add: take_bit_int_word)

lemma mod_pow_mod: "m \<le> n \<Longrightarrow> x mod 2 ^ n mod 2 ^ m = x mod (2 :: int) ^ m"
  by (simp add: mod_mod_cancel le_imp_power_dvd)

lemma take_bit_int_mod: "m \<le> n \<Longrightarrow> uint (take_bit n w) mod 2 ^ m = uint (take_bit m w)"
  by (simp add: take_bit_int_word mod_pow_mod)

text \<open>A sum of words and the sum of its operands agree on the bits of the operand size.\<close>

lemma sum_bits:
  fixes a b :: DWord
  assumes "n \<le> 32"
  shows "take_bit n (uint (a + b + of_bool c)) =
    take_bit n (uint (take_bit n a) + uint (take_bit n b) + of_bool c)"
proof -
  have "take_bit n (uint (a + b + of_bool c)) = take_bit n (uint a + uint b + of_bool c)"
    using assms by (simp add: uint_word_ariths take_bit_eq_mod mod_simps mod_pow_mod[of n 32, simplified])
  moreover have "(x mod N + y mod N + z) mod N = (x + y + z) mod N" for x y z N :: int
    by (metis mod_add_eq mod_add_left_eq)
  ultimately show ?thesis unfolding take_bit_int_word unfolding take_bit_eq_mod by simp
qed

lemma diff_bits:
  fixes a b :: DWord
  assumes "n \<le> 32"
  shows "take_bit n (uint (a - b - of_bool c)) =
    take_bit n (uint (take_bit n a) - uint (take_bit n b) - of_bool c)"
proof -
  have "take_bit n (uint (a - b - of_bool c)) = take_bit n (uint a - uint b - of_bool c)"
    using assms by (simp add: uint_word_ariths take_bit_eq_mod mod_simps mod_pow_mod[of n 32, simplified])
  moreover have "(x mod N - y mod N - z) mod N = (x - y - z) mod N" for x y z N :: int
    by (metis mod_diff_eq mod_diff_left_eq)
  ultimately show ?thesis unfolding take_bit_int_word unfolding take_bit_eq_mod by simp
qed

lemma bit_of_take_bit: "take_bit n x = take_bit n y \<Longrightarrow> k < n \<Longrightarrow> bit x k = bit y k"
  by (metis bit_take_bit_iff)

text \<open>What the stored result says of a value with the same low bits.\<close>

lemma result_bits:
  assumes "operand_size n" and "take_bit n (uint (res :: DWord)) = take_bit n S"
  shows "bit res (n - 1) = bit S (n - 1)" and "take_bit n res = 0 \<longleftrightarrow> S mod 2 ^ n = 0"
    and "parity (uint res) = parity S"
proof -
  have n: "0 < n" "8 \<le> n" "n \<le> 32" using assms(1) by (auto simp: operand_size_def)
  have b: "k < n \<Longrightarrow> bit (uint res) k = bit S k" for k by (rule bit_of_take_bit[OF assms(2)])
  show "bit res (n - 1) = bit S (n - 1)" using b[of "n - 1"] n by (simp add: bit_unsigned_iff)
  show "parity (uint res) = parity S" by (rule parity_cong) (use b n in auto)
  have "take_bit n res = 0 \<longleftrightarrow> uint (take_bit n res) = 0" by (simp only: unsigned_eq_0_iff)
  also have "\<dots> \<longleftrightarrow> take_bit n S = 0" by (simp only: unsigned_take_bit_eq assms(2))
  finally show "take_bit n res = 0 \<longleftrightarrow> S mod 2 ^ n = 0" by (simp add: take_bit_eq_mod)
qed

lemma add_carries:
  fixes a b :: DWord and c :: bool
  assumes "operand_size n"
  defines "A \<equiv> uint (take_bit n a)" and "B \<equiv> uint (take_bit n b)" and "v \<equiv> ADD_COUT_VEC a b (a + b + of_bool c)"
  shows "i < n \<Longrightarrow> bit v i \<longleftrightarrow> 2 ^ Suc i \<le> A mod 2 ^ Suc i + B mod 2 ^ Suc i + of_bool c"
proof -
  assume i: "i < n"
  have n: "n \<le> 32" using assms(1) by (auto simp: operand_size_def)
  have "bit v i \<longleftrightarrow> 2 ^ Suc i \<le> unat (take_bit (Suc i) a) + unat (take_bit (Suc i) b) + of_bool c"
    unfolding v_def using i n by (intro add_cout_bit) simp
  also have "\<dots> \<longleftrightarrow> int (2 ^ Suc i) \<le> int (unat (take_bit (Suc i) a) + unat (take_bit (Suc i) b) + of_bool c)"
    by (simp only: of_nat_le_iff)
  finally show ?thesis unfolding A_def B_def using i n by (simp add: take_bit_int_mod del: power_Suc)
qed

lemma sub_borrows:
  fixes a b :: DWord and c :: bool
  assumes "operand_size n"
  defines "A \<equiv> uint (take_bit n a)" and "B \<equiv> uint (take_bit n b)" and "v \<equiv> SUB_COUT_VEC a b (a - b - of_bool c)"
  shows "i < n \<Longrightarrow> bit v i \<longleftrightarrow> A mod 2 ^ Suc i < B mod 2 ^ Suc i + of_bool c"
proof -
  assume i: "i < n"
  have n: "n \<le> 32" using assms(1) by (auto simp: operand_size_def)
  have "bit v i \<longleftrightarrow> uint (take_bit (Suc i) a) < uint (take_bit (Suc i) b) + of_bool c"
    unfolding v_def using i n by (intro sub_cout_bit) simp
  then show ?thesis unfolding A_def B_def using i n by (simp add: take_bit_int_mod del: power_Suc)
qed

lemma read_ADD:
  assumes n: "operand_size n"
  shows "read_oszapc (SET_FLAGS_OSZAPC_ADD n a b (a + b + of_bool c) f) = sum_oszapc n a b c"
    and "read_oszapc (SET_FLAGS_OSZAP_ADD n a b (a + b + of_bool c) f) = sum_oszapc n a b c\<lparr>vCF := getB_CF f\<rparr>"
proof -
  obtain m where m: "n = Suc (Suc m)" and le: "4 \<le> n" "n \<le> 32" using n by (auto simp: operand_size_def)
  define A B where "A = uint (take_bit n a)" and "B = uint (take_bit n b)"
  note v = add_carries[OF n, of _ a b c, folded A_def B_def]
  have AB: "0 \<le> A" "A < 2 ^ n" "0 \<le> B" "B < 2 ^ n" unfolding A_def B_def by (rule uint_take_bit_bounds)+
  have hi: "bit (ADD_COUT_VEC a b (a + b + of_bool c)) (n - 1) \<longleftrightarrow> 2 ^ n \<le> A + B + of_bool c"
    using v[of "n - 1"] AB by (simp add: m)
  have of: "bit (ADD_COUT_VEC a b (a + b + of_bool c)) (n - 1) \<noteq> bit (ADD_COUT_VEC a b (a + b + of_bool c)) (n - 2) \<longleftrightarrow>
      signed_take_bit (n - 1) A + signed_take_bit (n - 1) B + of_bool c < - (2 ^ (n - 1)) \<or>
      2 ^ (n - 1) \<le> signed_take_bit (n - 1) A + signed_take_bit (n - 1) B + of_bool c"
    using hi v[of "n - 2"] signed_sum_overflow[of A "Suc m" B "of_bool c"] AB unfolding m by simp
  have af: "bit (ADD_COUT_VEC a b (a + b + of_bool c)) 3 \<longleftrightarrow> 16 \<le> A mod 16 + B mod 16 + of_bool c"
    using v[of 3] le by simp
  note r = result_bits[OF n sum_bits[OF le(2), of a b c, folded A_def B_def]]
  show "read_oszapc (SET_FLAGS_OSZAPC_ADD n a b (a + b + of_bool c) f) = sum_oszapc n a b c"
    "read_oszapc (SET_FLAGS_OSZAP_ADD n a b (a + b + of_bool c) f) = sum_oszapc n a b c\<lparr>vCF := getB_CF f\<rparr>"
    unfolding SET_FLAGS_OSZAPC_ADD_def SET_FLAGS_OSZAP_ADD_def read_SET_FLAGS_OSZAPC[OF n]
      read_SET_FLAGS_OSZAP[OF n] of af r sum_oszapc_def Let_def A_def[symmetric] B_def[symmetric]
    unfolding hi by simp_all
qed

lemma read_SUB:
  assumes n: "operand_size n"
  shows "read_oszapc (SET_FLAGS_OSZAPC_SUB n a b (a - b - of_bool c) f) = diff_oszapc n a b c"
    and "read_oszapc (SET_FLAGS_OSZAP_SUB n a b (a - b - of_bool c) f) = diff_oszapc n a b c\<lparr>vCF := getB_CF f\<rparr>"
proof -
  obtain m where m: "n = Suc (Suc m)" and le: "4 \<le> n" "n \<le> 32" using n by (auto simp: operand_size_def)
  define A B where "A = uint (take_bit n a)" and "B = uint (take_bit n b)"
  note v = sub_borrows[OF n, of _ a b c, folded A_def B_def]
  have AB: "0 \<le> A" "A < 2 ^ n" "0 \<le> B" "B < 2 ^ n" unfolding A_def B_def by (rule uint_take_bit_bounds)+
  have hi: "bit (SUB_COUT_VEC a b (a - b - of_bool c)) (n - 1) \<longleftrightarrow> A < B + of_bool c"
    using v[of "n - 1"] AB by (simp add: m)
  have of: "bit (SUB_COUT_VEC a b (a - b - of_bool c)) (n - 1) \<noteq> bit (SUB_COUT_VEC a b (a - b - of_bool c)) (n - 2) \<longleftrightarrow>
      signed_take_bit (n - 1) A - signed_take_bit (n - 1) B - of_bool c < - (2 ^ (n - 1)) \<or>
      2 ^ (n - 1) \<le> signed_take_bit (n - 1) A - signed_take_bit (n - 1) B - of_bool c"
    using hi v[of "n - 2"] signed_diff_overflow[of A "Suc m" B "of_bool c"] AB unfolding m by simp
  have af: "bit (SUB_COUT_VEC a b (a - b - of_bool c)) 3 \<longleftrightarrow> A mod 16 < B mod 16 + of_bool c"
    using v[of 3] le by simp
  note r = result_bits[OF n diff_bits[OF le(2), of a b c, folded A_def B_def]]
  show "read_oszapc (SET_FLAGS_OSZAPC_SUB n a b (a - b - of_bool c) f) = diff_oszapc n a b c"
    "read_oszapc (SET_FLAGS_OSZAP_SUB n a b (a - b - of_bool c) f) = diff_oszapc n a b c\<lparr>vCF := getB_CF f\<rparr>"
    unfolding SET_FLAGS_OSZAPC_SUB_def SET_FLAGS_OSZAP_SUB_def read_SET_FLAGS_OSZAPC[OF n]
      read_SET_FLAGS_OSZAP[OF n] of af r diff_oszapc_def Let_def A_def[symmetric] B_def[symmetric]
    unfolding hi by auto
qed

definition logic_oszapc :: "nat \<Rightarrow> DWord \<Rightarrow> oszapc" where
  "logic_oszapc n r = \<lparr>vOF = False, vSF = bit r (n - 1), vZF = take_bit n r = 0, vAF = False,
     vPF = parity (uint r), vCF = False\<rparr>"

lemma read_LOGIC:
  "operand_size n \<Longrightarrow> read_oszapc (SET_FLAGS_OSZAPC_LOGIC n r f) = logic_oszapc n r"
  by (simp add: SET_FLAGS_OSZAPC_LOGIC_def read_SET_FLAGS_OSZAPC logic_oszapc_def)

section \<open>Writing the flags\<close>

lemma read_OxxxxC: "read_oszapc (SET_FLAGS_OxxxxC x y f) = read_oszapc f\<lparr>vOF := x, vCF := y\<rparr>"
proof -
  have b: "bit (auxbits (SET_FLAGS_OxxxxC x y f)) k \<longleftrightarrow>
      (if k = 31 then y else if k = 30 then x \<noteq> y else bit (auxbits f) k)" if "k < 32" for k
    using that by (auto simp: SET_FLAGS_OxxxxC_def lf_consts bit_simps)
  have "parity (uint (result f XOR drop_bit 8 (auxbits (SET_FLAGS_OxxxxC x y f)))) =
      parity (uint (result f XOR drop_bit 8 (auxbits f)))"
    by (rule parity_cong) (auto simp: bit_simps b)
  moreover have "result (SET_FLAGS_OxxxxC x y f) = result f" by (simp add: SET_FLAGS_OxxxxC_def)
  ultimately show ?thesis
    by (auto simp: read_oszapc_def getB_CF_bit getB_OF_bit getB_AF_bit getB_SF_bit getB_ZF_def getB_PF_parity b)
qed

lemma read_set_CF [simp]: "read_oszapc (set_CF v f) = read_oszapc f\<lparr>vCF := v\<rparr>"
  by (simp add: set_CF_def read_OxxxxC) (simp add: read_oszapc_def)

lemma read_set_OF [simp]: "read_oszapc (set_OF v f) = read_oszapc f\<lparr>vOF := v\<rparr>"
  by (simp add: set_OF_def read_OxxxxC) (simp add: read_oszapc_def)

lemma read_set_AF [simp]: "read_oszapc (set_AF v f) = read_oszapc f\<lparr>vAF := v\<rparr>"
proof -
  have b: "bit (auxbits (set_AF v f)) k \<longleftrightarrow> (if k = 3 then v else bit (auxbits f) k)" if "k < 32" for k
    using that by (auto simp: set_AF_def lf_consts bit_simps)
  have "parity (uint (result f XOR drop_bit 8 (auxbits (set_AF v f)))) =
      parity (uint (result f XOR drop_bit 8 (auxbits f)))"
    by (rule parity_cong) (auto simp: bit_simps b)
  moreover have "result (set_AF v f) = result f" by (simp add: set_AF_def)
  ultimately show ?thesis
    by (auto simp: read_oszapc_def getB_CF_bit getB_OF_bit getB_AF_bit getB_SF_bit getB_ZF_def getB_PF_parity b)
qed

lemma read_set_SF [simp]: "read_oszapc (set_SF v f) = read_oszapc f\<lparr>vSF := v\<rparr>"
proof -
  have b: "bit (auxbits (set_SF v f)) k \<longleftrightarrow>
      (if k = 0 then bit (auxbits f) 0 \<noteq> (getB_SF f \<noteq> v) else bit (auxbits f) k)" if "k < 32" for k
    using that by (auto simp: set_SF_def lf_consts bit_simps)
  have "parity (uint (result f XOR drop_bit 8 (auxbits (set_SF v f)))) =
      parity (uint (result f XOR drop_bit 8 (auxbits f)))"
    by (rule parity_cong) (auto simp: bit_simps b)
  moreover have "result (set_SF v f) = result f" by (simp add: set_SF_def)
  ultimately show ?thesis
    by (auto simp: read_oszapc_def getB_CF_bit getB_OF_bit getB_AF_bit getB_SF_bit getB_ZF_def getB_PF_parity b)
qed

lemma read_set_PF [simp]: "read_oszapc (set_PF v f) = read_oszapc f\<lparr>vPF := v\<rparr>"
proof -
  have m: "(255 :: DWord) = mask 8" by (simp add: mask_eq_exp_minus_1)
  have b: "bit (auxbits (set_PF v f)) k \<longleftrightarrow>
      (if 8 \<le> k \<and> k < 16 then bit (result f) (k - 8) \<noteq> (k = 8 \<and> \<not> v) else bit (auxbits f) k)" if "k < 32" for k
    using that by (auto simp: set_PF_def lf_consts m bit_simps bit_1_iff)
  have "parity (uint (result f XOR drop_bit 8 (auxbits (set_PF v f)))) = v"
    by (auto simp: parity_xor bit_unsigned_iff bit_simps b)
  moreover have "result (set_PF v f) = result f" by (simp add: set_PF_def)
  ultimately show ?thesis
    by (auto simp: read_oszapc_def getB_CF_bit getB_OF_bit getB_AF_bit getB_SF_bit getB_ZF_def getB_PF_parity b)
qed

lemma read_set_ZF [simp]: "read_oszapc (set_ZF v f) = read_oszapc f\<lparr>vZF := v\<rparr>"
proof (cases v)
  case True
  have m: "(255 :: DWord) = mask 8" by (simp add: mask_eq_exp_minus_1)
  have b: "bit (auxbits (assert_ZF f)) k \<longleftrightarrow>
      (if k = 0 then bit (auxbits f) 0 \<noteq> bit (result f) 31
       else if 8 \<le> k \<and> k < 16 then bit (auxbits f) k \<noteq> bit (result f) (k - 8) else bit (auxbits f) k)" if "k < 32" for k
    using that by (auto simp: assert_ZF_def lf_consts m bit_simps Let_def bit_1_iff)
  have "parity (uint (drop_bit 8 (auxbits (assert_ZF f)))) = parity (uint (result f XOR drop_bit 8 (auxbits f)))"
    by (rule parity_cong) (auto simp: bit_simps b)
  moreover have "result (assert_ZF f) = 0" by (simp add: assert_ZF_def Let_def)
  ultimately show ?thesis using True
    by (auto simp: set_ZF_def read_oszapc_def getB_CF_bit getB_OF_bit getB_AF_bit getB_SF_bit getB_ZF_def getB_PF_parity b)
next
  case False
  have b: "bit (result (clear_ZF f)) k \<longleftrightarrow> k = 8 \<or> bit (result f) k" if "k < 32" for k
    using that by (auto simp: clear_ZF_def bit_simps)
  have "parity (uint (result (clear_ZF f) XOR drop_bit 8 (auxbits f))) = parity (uint (result f XOR drop_bit 8 (auxbits f)))"
    by (rule parity_cong) (auto simp: bit_simps b)
  moreover have "result (clear_ZF f) \<noteq> 0" by (rule notI) (use b[of 8] in simp)
  moreover have "auxbits (clear_ZF f) = auxbits f" by (simp add: clear_ZF_def)
  ultimately show ?thesis using False
    by (auto simp: set_ZF_def read_oszapc_def getB_CF_bit getB_OF_bit getB_AF_bit getB_SF_bit getB_ZF_def getB_PF_parity b)
qed

lemma read_setEFlagsOSZAPC:
  "read_oszapc (setEFlagsOSZAPC w f) = \<lparr>vOF = bit w 11, vSF = bit w 7, vZF = bit w 6, vAF = bit w 4,
     vPF = bit w 2, vCF = bit w 0\<rparr>"
  by (simp add: setEFlagsOSZAPC_def Let_def)

end
