(* ===== verification/Cpu.thy ===== *)
theory Cpu
  imports Flags
begin

text \<open>
  The state of the emulated CPU that the modelled instructions use, and the instructions on EFLAGS
  (\<open>bochs-2.6.7/cpu/cpu.h\<close>, \<open>flag_ctrl.cc\<close>, \<open>flag_ctrl_pro.cc\<close>, with the handlers of \<open>proc_ctrl.cc\<close> and the
  events of \<open>event.cc\<close>), for the configuration of \<open>config.h\<close>: level 6, no 64-bit mode, no VMX, no SVM.

  An instruction yields the state, or the vector and the error code of the exception that it raises.
  The value that POPF pops and the value that PUSHF pushes are an argument and a result, since the
  access to the stack is not part of this theory.
\<close>

unbundle bit_operations_syntax

section \<open>State\<close>

datatype cpu_mode = BX_MODE_IA32_REAL | BX_MODE_IA32_V8086 | BX_MODE_IA32_PROTECTED

record bx_cpu =
  gen_reg :: "nat \<Rightarrow> DWord"
  eflags :: DWord
  oszapc :: bx_lf_flags_entry
  CPL :: nat
  cs_d_b :: bool
  cs_p :: bool
  cs_segment :: bool
  cs_type :: nat
  cpu_mode :: cpu_mode
  cr0 :: DWord
  cr4 :: DWord
  sse_ok :: bool
  fetchModeMask :: DWord
  user_pl :: bool
  alignment_check_mask :: DWord
  eipPageWindowSize :: nat
  pending_event :: DWord
  event_mask :: DWord
  async_event :: bool
  inhibit_mask :: DWord
  inhibit_icount :: nat
  icount :: nat

type_synonym 'a instr = "(nat \<times> DWord) + 'a"

definition BX_DE_EXCEPTION :: nat where "BX_DE_EXCEPTION = 0"
definition BX_UD_EXCEPTION :: nat where "BX_UD_EXCEPTION = 6"
definition BX_GP_EXCEPTION :: nat where "BX_GP_EXCEPTION = 13"
definition BX_PF_EXCEPTION :: nat where "BX_PF_EXCEPTION = 14"

definition upd_lf :: "(bx_lf_flags_entry \<Rightarrow> bx_lf_flags_entry) \<Rightarrow> bx_cpu \<Rightarrow> bx_cpu" where
  "upd_lf g c = c\<lparr>oszapc := g (oszapc c)\<rparr>"

section \<open>General registers\<close>

text \<open>The 8-bit registers 4 to 7 are the high bytes of the registers 0 to 3.\<close>

definition BX_READ_8BIT_REG :: "nat \<Rightarrow> bx_cpu \<Rightarrow> DWord" where
  "BX_READ_8BIT_REG i c = (if bit i 2 then get_field 8 8 (gen_reg c (i - 4)) else get_field 0 8 (gen_reg c i))"

definition BX_READ_16BIT_REG :: "nat \<Rightarrow> bx_cpu \<Rightarrow> DWord" where
  "BX_READ_16BIT_REG i c = get_field 0 16 (gen_reg c i)"

definition BX_READ_32BIT_REG :: "nat \<Rightarrow> bx_cpu \<Rightarrow> DWord" where
  "BX_READ_32BIT_REG i c = gen_reg c i"

definition BX_WRITE_8BIT_REG :: "nat \<Rightarrow> DWord \<Rightarrow> bx_cpu \<Rightarrow> bx_cpu" where
  "BX_WRITE_8BIT_REG i v c =
     (if bit i 2 then c\<lparr>gen_reg := (gen_reg c)(i - 4 := put_field 8 8 v (gen_reg c (i - 4)))\<rparr>
      else c\<lparr>gen_reg := (gen_reg c)(i := put_field 0 8 v (gen_reg c i))\<rparr>)"

definition BX_WRITE_16BIT_REG :: "nat \<Rightarrow> DWord \<Rightarrow> bx_cpu \<Rightarrow> bx_cpu" where
  "BX_WRITE_16BIT_REG i v c = c\<lparr>gen_reg := (gen_reg c)(i := put_field 0 16 v (gen_reg c i))\<rparr>"

definition BX_WRITE_32BIT_REGZ :: "nat \<Rightarrow> DWord \<Rightarrow> bx_cpu \<Rightarrow> bx_cpu" where
  "BX_WRITE_32BIT_REGZ i v c = c\<lparr>gen_reg := (gen_reg c)(i := v)\<rparr>"

text \<open>The names of the registers: \<open>AL\<close> is 0, \<open>AH\<close> is 4; \<open>AX\<close> and \<open>EAX\<close> are 0, \<open>DX\<close> and \<open>EDX\<close> are 2.\<close>

definition AL :: nat where "AL = 0"
definition AH :: nat where "AH = 4"
definition AX :: nat where "AX = 0"
definition DX :: nat where "DX = 2"
definition EAX :: nat where "EAX = 0"
definition EDX :: nat where "EDX = 2"

lemmas reg_names = AL_def AH_def AX_def DX_def EAX_def EDX_def

section \<open>Events\<close>

definition BX_EVENT_VMX_INTERRUPT_WINDOW_EXITING :: DWord where "BX_EVENT_VMX_INTERRUPT_WINDOW_EXITING = push_bit 6 1"
definition BX_EVENT_SVM_VIRQ_PENDING :: DWord where "BX_EVENT_SVM_VIRQ_PENDING = push_bit 8 1"
definition BX_EVENT_PENDING_VMX_VIRTUAL_INTR :: DWord where "BX_EVENT_PENDING_VMX_VIRTUAL_INTR = push_bit 9 1"
definition BX_EVENT_PENDING_INTR :: DWord where "BX_EVENT_PENDING_INTR = push_bit 10 1"
definition BX_EVENT_PENDING_LAPIC_INTR :: DWord where "BX_EVENT_PENDING_LAPIC_INTR = push_bit 11 1"

lemmas event_defs = BX_EVENT_VMX_INTERRUPT_WINDOW_EXITING_def BX_EVENT_SVM_VIRQ_PENDING_def
  BX_EVENT_PENDING_VMX_VIRTUAL_INTR_def BX_EVENT_PENDING_INTR_def BX_EVENT_PENDING_LAPIC_INTR_def

definition is_masked_event :: "DWord \<Rightarrow> bx_cpu \<Rightarrow> bool" where
  "is_masked_event e c \<longleftrightarrow> event_mask c AND e \<noteq> 0"

definition is_pending :: "DWord \<Rightarrow> bx_cpu \<Rightarrow> bool" where
  "is_pending e c \<longleftrightarrow> pending_event c AND e \<noteq> 0"

definition is_unmasked_event_pending :: "DWord \<Rightarrow> bx_cpu \<Rightarrow> bool" where
  "is_unmasked_event_pending e c \<longleftrightarrow> pending_event c AND NOT (event_mask c) AND e \<noteq> 0"

definition signal_event :: "DWord \<Rightarrow> bx_cpu \<Rightarrow> bx_cpu" where
  "signal_event e c =
     (let c1 = c\<lparr>pending_event := pending_event c OR e\<rparr>
      in if \<not> is_masked_event e c1 then c1\<lparr>async_event := True\<rparr> else c1)"

definition clear_event :: "DWord \<Rightarrow> bx_cpu \<Rightarrow> bx_cpu" where
  "clear_event e c = c\<lparr>pending_event := pending_event c AND NOT e\<rparr>"

definition mask_event :: "DWord \<Rightarrow> bx_cpu \<Rightarrow> bx_cpu" where
  "mask_event e c = c\<lparr>event_mask := event_mask c OR e\<rparr>"

definition unmask_event :: "DWord \<Rightarrow> bx_cpu \<Rightarrow> bx_cpu" where
  "unmask_event e c =
     (let c1 = c\<lparr>event_mask := event_mask c AND NOT e\<rparr>
      in if is_pending e c1 then c1\<lparr>async_event := True\<rparr> else c1)"

definition raise_INTR :: "bx_cpu \<Rightarrow> bx_cpu" where
  "raise_INTR = signal_event BX_EVENT_PENDING_INTR"

definition clear_INTR :: "bx_cpu \<Rightarrow> bx_cpu" where
  "clear_INTR = clear_event BX_EVENT_PENDING_INTR"

definition BX_INHIBIT_INTERRUPTS :: DWord where "BX_INHIBIT_INTERRUPTS = 1"
definition BX_INHIBIT_DEBUG :: DWord where "BX_INHIBIT_DEBUG = 2"
definition BX_INHIBIT_INTERRUPTS_BY_MOVSS :: DWord where
  "BX_INHIBIT_INTERRUPTS_BY_MOVSS = BX_INHIBIT_INTERRUPTS OR BX_INHIBIT_DEBUG"

definition interrupts_inhibited :: "DWord \<Rightarrow> bx_cpu \<Rightarrow> bool" where
  "interrupts_inhibited m c \<longleftrightarrow> icount c \<le> inhibit_icount c \<and> inhibit_mask c AND m = m"

definition inhibit_interrupts :: "DWord \<Rightarrow> bx_cpu \<Rightarrow> bx_cpu" where
  "inhibit_interrupts m c =
     (if m \<noteq> BX_INHIBIT_INTERRUPTS_BY_MOVSS \<or> \<not> interrupts_inhibited BX_INHIBIT_INTERRUPTS_BY_MOVSS c
      then c\<lparr>inhibit_mask := m, inhibit_icount := icount c + 1\<rparr> else c)"

section \<open>EFLAGS\<close>

definition EFlagsIFMask :: DWord where "EFlagsIFMask = push_bit 9 1"
definition EFlagsTFMask :: DWord where "EFlagsTFMask = push_bit 8 1"
definition EFlagsDFMask :: DWord where "EFlagsDFMask = push_bit 10 1"
definition EFlagsIOPLMask :: DWord where "EFlagsIOPLMask = push_bit 12 3"
definition EFlagsNTMask :: DWord where "EFlagsNTMask = push_bit 14 1"
definition EFlagsRFMask :: DWord where "EFlagsRFMask = push_bit 16 1"
definition EFlagsVMMask :: DWord where "EFlagsVMMask = push_bit 17 1"
definition EFlagsACMask :: DWord where "EFlagsACMask = push_bit 18 1"
definition EFlagsVIFMask :: DWord where "EFlagsVIFMask = push_bit 19 1"
definition EFlagsVIPMask :: DWord where "EFlagsVIPMask = push_bit 20 1"
definition EFlagsIDMask :: DWord where "EFlagsIDMask = push_bit 21 1"
definition EFlagsOSZAPCMask :: DWord where
  "EFlagsOSZAPCMask = push_bit 0 1 OR push_bit 2 1 OR push_bit 4 1 OR push_bit 6 1 OR push_bit 7 1 OR push_bit 11 1"

lemmas eflags_masks = EFlagsIFMask_def EFlagsTFMask_def EFlagsDFMask_def EFlagsIOPLMask_def EFlagsNTMask_def
  EFlagsRFMask_def EFlagsVMMask_def EFlagsACMask_def EFlagsVIFMask_def EFlagsVIPMask_def EFlagsIDMask_def
  EFlagsOSZAPCMask_def

definition get_TF :: "bx_cpu \<Rightarrow> bool" where "get_TF c = bit (eflags c) 8"
definition get_IF :: "bx_cpu \<Rightarrow> bool" where "get_IF c = bit (eflags c) 9"
definition get_RF :: "bx_cpu \<Rightarrow> bool" where "get_RF c = bit (eflags c) 16"
definition get_VM :: "bx_cpu \<Rightarrow> bool" where "get_VM c = bit (eflags c) 17"
definition get_AC :: "bx_cpu \<Rightarrow> bool" where "get_AC c = bit (eflags c) 18"
definition get_VIF :: "bx_cpu \<Rightarrow> bool" where "get_VIF c = bit (eflags c) 19"
definition get_VIP :: "bx_cpu \<Rightarrow> bool" where "get_VIP c = bit (eflags c) 20"
definition get_IOPL :: "bx_cpu \<Rightarrow> nat" where "get_IOPL c = unat (3 AND drop_bit 12 (eflags c))"

lemmas eflag_gets = get_TF_def get_IF_def get_RF_def get_VM_def get_AC_def get_VIF_def get_VIP_def get_IOPL_def

definition get_PE :: "bx_cpu \<Rightarrow> bool" where "get_PE c = bit (cr0 c) 0"
definition get_WP :: "bx_cpu \<Rightarrow> bool" where "get_WP c = bit (cr0 c) 16"
definition get_AM :: "bx_cpu \<Rightarrow> bool" where "get_AM c = bit (cr0 c) 18"
definition get_PG :: "bx_cpu \<Rightarrow> bool" where "get_PG c = bit (cr0 c) 31"
definition get_VME :: "bx_cpu \<Rightarrow> bool" where "get_VME c = bit (cr4 c) 0"
definition get_PVI :: "bx_cpu \<Rightarrow> bool" where "get_PVI c = bit (cr4 c) 1"
definition get_PSE :: "bx_cpu \<Rightarrow> bool" where "get_PSE c = bit (cr4 c) 4"
definition get_PAE :: "bx_cpu \<Rightarrow> bool" where "get_PAE c = bit (cr4 c) 5"
definition get_PGE :: "bx_cpu \<Rightarrow> bool" where "get_PGE c = bit (cr4 c) 7"
definition get_SMEP :: "bx_cpu \<Rightarrow> bool" where "get_SMEP c = bit (cr4 c) 20"
definition get_SMAP :: "bx_cpu \<Rightarrow> bool" where "get_SMAP c = bit (cr4 c) 21"

definition protected_mode :: "bx_cpu \<Rightarrow> bool" where
  "protected_mode c \<longleftrightarrow> cpu_mode c = BX_MODE_IA32_PROTECTED"

definition v8086_mode :: "bx_cpu \<Rightarrow> bool" where
  "v8086_mode c \<longleftrightarrow> cpu_mode c = BX_MODE_IA32_V8086"

text \<open>Setting and clearing one bit of EFLAGS, for the flags without further effects.\<close>

definition assert_flag :: "nat \<Rightarrow> bx_cpu \<Rightarrow> bx_cpu" where
  "assert_flag b c = c\<lparr>eflags := eflags c OR push_bit b 1\<rparr>"

definition clear_flag :: "nat \<Rightarrow> bx_cpu \<Rightarrow> bx_cpu" where
  "clear_flag b c = c\<lparr>eflags := eflags c AND NOT (push_bit b 1)\<rparr>"

definition invalidate_prefetch_q :: "bx_cpu \<Rightarrow> bx_cpu" where
  "invalidate_prefetch_q c = c\<lparr>eipPageWindowSize := 0\<rparr>"

definition updateFetchModeMask :: "bx_cpu \<Rightarrow> bx_cpu" where
  "updateFetchModeMask c =
     c\<lparr>fetchModeMask := push_bit 2 (of_bool (sse_ok c)) OR of_bool (cs_d_b c), user_pl := CPL c = 3\<rparr>"

definition handleAlignmentCheck :: "bx_cpu \<Rightarrow> bx_cpu" where
  "handleAlignmentCheck c =
     (if CPL c = 3 \<and> get_AM c \<and> get_AC c then c\<lparr>alignment_check_mask := 0xF\<rparr>
      else c\<lparr>alignment_check_mask := 0\<rparr>)"

definition BX_DATA_READ_WRITE_ACCESSED :: nat where "BX_DATA_READ_WRITE_ACCESSED = 3"

definition handleCpuModeChange :: "bx_cpu \<Rightarrow> bx_cpu" where
  "handleCpuModeChange c =
     updateFetchModeMask
       (if get_PE c then
          (if get_VM c then c\<lparr>cpu_mode := BX_MODE_IA32_V8086, CPL := 3\<rparr>
           else c\<lparr>cpu_mode := BX_MODE_IA32_PROTECTED\<rparr>)
        else c\<lparr>cpu_mode := BX_MODE_IA32_REAL, cs_p := True, cs_segment := True,
               cs_type := BX_DATA_READ_WRITE_ACCESSED, CPL := 0\<rparr>)"

definition handleInterruptMaskChange :: "bx_cpu \<Rightarrow> bx_cpu" where
  "handleInterruptMaskChange c =
     (if get_IF c then
        unmask_event (BX_EVENT_VMX_INTERRUPT_WINDOW_EXITING OR BX_EVENT_PENDING_INTR OR
          BX_EVENT_PENDING_LAPIC_INTR OR BX_EVENT_PENDING_VMX_VIRTUAL_INTR) c
      else
        mask_event (BX_EVENT_VMX_INTERRUPT_WINDOW_EXITING OR BX_EVENT_PENDING_INTR OR
          BX_EVENT_PENDING_LAPIC_INTR OR BX_EVENT_PENDING_VMX_VIRTUAL_INTR OR BX_EVENT_SVM_VIRQ_PENDING) c)"

definition assert_IF :: "bx_cpu \<Rightarrow> bx_cpu" where
  "assert_IF c = handleInterruptMaskChange (assert_flag 9 c)"

definition clear_IF :: "bx_cpu \<Rightarrow> bx_cpu" where
  "clear_IF c = handleInterruptMaskChange (clear_flag 9 c)"

definition assert_AC :: "bx_cpu \<Rightarrow> bx_cpu" where
  "assert_AC c = handleAlignmentCheck (assert_flag 18 c)"

definition clear_AC :: "bx_cpu \<Rightarrow> bx_cpu" where
  "clear_AC c = handleAlignmentCheck (clear_flag 18 c)"

definition force_flags :: "bx_cpu \<Rightarrow> bx_cpu" where
  "force_flags c =
     (let f = oszapc c;
          newflags = of_bool (getB_CF f) OR push_bit 2 (of_bool (getB_PF f)) OR push_bit 4 (of_bool (getB_AF f)) OR
            push_bit 6 (of_bool (getB_ZF f)) OR push_bit 7 (of_bool (getB_SF f)) OR push_bit 11 (of_bool (getB_OF f))
      in c\<lparr>eflags := (eflags c AND NOT EFlagsOSZAPCMask) OR (newflags AND EFlagsOSZAPCMask)\<rparr>)"

definition setEFlags :: "DWord \<Rightarrow> bx_cpu \<Rightarrow> bx_cpu" where
  "setEFlags new_eflags c =
     (let old = eflags c;
          c1 = upd_lf (setEFlagsOSZAPC new_eflags) (c\<lparr>eflags := new_eflags\<rparr>);
          c2 = (if get_RF c1 then invalidate_prefetch_q c1 else c1);
          c3 = (if get_TF c2 then c2\<lparr>async_event := True\<rparr> else c2);
          c4 = (if (old XOR new_eflags) AND EFlagsIFMask \<noteq> 0 then handleInterruptMaskChange c3 else c3);
          c5 = handleAlignmentCheck c4
      in if (old XOR new_eflags) AND EFlagsVMMask \<noteq> 0 then handleCpuModeChange c5 else c5)"

definition supportMask :: DWord where
  "supportMask = 0x00037fd5 OR (EFlagsIDMask OR EFlagsACMask) OR (EFlagsVIPMask OR EFlagsVIFMask)"

definition writeEFlags :: "DWord \<Rightarrow> DWord \<Rightarrow> bx_cpu \<Rightarrow> bx_cpu" where
  "writeEFlags flags changeMask c =
     (let m = changeMask AND supportMask; c1 = force_flags c;
          newEFlags = (eflags c1 AND NOT m) OR (flags AND m)
      in setEFlags newEFlags c1)"

definition write_flags :: "Word16 \<Rightarrow> bool \<Rightarrow> bool \<Rightarrow> bx_cpu \<Rightarrow> bx_cpu" where
  "write_flags flags change_IOPL change_IF c =
     (let m0 = 0x0dd5 OR EFlagsNTMask;
          m1 = (if change_IOPL then m0 OR EFlagsIOPLMask else m0);
          m2 = (if change_IF then m1 OR EFlagsIFMask else m1)
      in writeEFlags (ucast flags) m2 c)"

section \<open>Instructions on EFLAGS\<close>

definition SAHF :: "bx_cpu \<Rightarrow> bx_cpu" where
  "SAHF c =
     (let a = BX_READ_8BIT_REG AH c;
          c1 = upd_lf (set_SF (bit a 7)) c; c2 = upd_lf (set_ZF (bit a 6)) c1; c3 = upd_lf (set_AF (bit a 4)) c2;
          c4 = upd_lf (set_CF (bit a 0)) c3
      in upd_lf (set_PF (bit a 2)) c4)"

definition LAHF :: "bx_cpu \<Rightarrow> bx_cpu" where
  "LAHF c = (let c1 = force_flags c in BX_WRITE_8BIT_REG AH (eflags c1 AND 0xFF) c1)"

definition CLC :: "bx_cpu \<Rightarrow> bx_cpu" where "CLC = upd_lf (set_CF False)"
definition STC :: "bx_cpu \<Rightarrow> bx_cpu" where "STC = upd_lf (set_CF True)"
definition CMC :: "bx_cpu \<Rightarrow> bx_cpu" where "CMC c = upd_lf (set_CF (\<not> getB_CF (oszapc c))) c"
definition CLD :: "bx_cpu \<Rightarrow> bx_cpu" where "CLD = clear_flag 10"
definition STD :: "bx_cpu \<Rightarrow> bx_cpu" where "STD = assert_flag 10"

definition CLI :: "bx_cpu \<Rightarrow> bx_cpu instr" where
  "CLI c =
     (let IOPL = get_IOPL c in
      if protected_mode c then
        (if get_PVI c \<and> CPL c = 3 then
           (if IOPL < 3 then Inr (clear_flag 19 c) else Inr (clear_IF c))
         else if IOPL < CPL c then Inl (BX_GP_EXCEPTION, 0)
         else Inr (clear_IF c))
      else if v8086_mode c then
        (if IOPL \<noteq> 3 then (if get_VME c then Inr (clear_flag 19 c) else Inl (BX_GP_EXCEPTION, 0))
         else Inr (clear_IF c))
      else Inr (clear_IF c))"

definition STI_enable :: "bx_cpu \<Rightarrow> bx_cpu" where
  "STI_enable c = (if \<not> get_IF c then inhibit_interrupts BX_INHIBIT_INTERRUPTS (assert_IF c) else c)"

definition STI :: "bx_cpu \<Rightarrow> bx_cpu instr" where
  "STI c =
     (let IOPL = get_IOPL c in
      if protected_mode c then
        (if get_PVI c \<and> CPL c = 3 \<and> IOPL < 3 then
           (if \<not> get_VIP c then Inr (assert_flag 19 c) else Inl (BX_GP_EXCEPTION, 0))
         else if CPL c > IOPL then Inl (BX_GP_EXCEPTION, 0)
         else Inr (STI_enable c))
      else if v8086_mode c then
        (if IOPL \<noteq> 3 then
           (if get_VME c \<and> \<not> get_VIP c then Inr (assert_flag 19 c) else Inl (BX_GP_EXCEPTION, 0))
         else Inr (STI_enable c))
      else Inr (STI_enable c))"

text \<open>The result is the word that is pushed.\<close>

definition PUSHF_Fw :: "bx_cpu \<Rightarrow> (DWord \<times> bx_cpu) instr" where
  "PUSHF_Fw c =
     (let c1 = force_flags c; flags = take_bit 16 (eflags c1) in
      if v8086_mode c1 \<and> get_IOPL c1 < 3 then
        (if get_VME c1 then
           (let f1 = flags OR EFlagsIOPLMask
            in Inr (if get_VIF c1 then f1 OR EFlagsIFMask else f1 AND NOT EFlagsIFMask, c1))
         else Inl (BX_GP_EXCEPTION, 0))
      else Inr (flags, c1))"

definition PUSHF_Fd :: "bx_cpu \<Rightarrow> (DWord \<times> bx_cpu) instr" where
  "PUSHF_Fd c =
     (if v8086_mode c \<and> get_IOPL c < 3 then Inl (BX_GP_EXCEPTION, 0)
      else (let c1 = force_flags c in Inr (eflags c1 AND 0x00fcffff, c1)))"

text \<open>The bits that protected mode adds to the mask of POPF.\<close>

definition POPF_protected_mask :: "DWord \<Rightarrow> bx_cpu \<Rightarrow> DWord" where
  "POPF_protected_mask m c =
     (let m1 = (if CPL c = 0 then m OR EFlagsIOPLMask else m)
      in if CPL c \<le> get_IOPL c then m1 OR EFlagsIFMask else m1)"

definition POPF_Fw :: "DWord \<Rightarrow> bx_cpu \<Rightarrow> bx_cpu instr" where
  "POPF_Fw popped c =
     (let m = EFlagsOSZAPCMask OR EFlagsTFMask OR EFlagsDFMask OR EFlagsNTMask;
          flags16 = take_bit 16 popped in
      if protected_mode c then Inr (writeEFlags flags16 (POPF_protected_mask m c) c)
      else if v8086_mode c then
        (if get_IOPL c < 3 then
           (if get_VME c then
              (if (flags16 AND EFlagsIFMask \<noteq> 0 \<and> get_VIP c) \<or> flags16 AND EFlagsTFMask \<noteq> 0
               then Inl (BX_GP_EXCEPTION, 0)
               else
                 (let flags32 = (if flags16 AND EFlagsIFMask \<noteq> 0 then flags16 OR EFlagsVIFMask else flags16)
                  in Inr (writeEFlags flags32 (m OR EFlagsVIFMask) c)))
            else Inl (BX_GP_EXCEPTION, 0))
         else Inr (writeEFlags flags16 (m OR EFlagsIFMask) c))
      else Inr (writeEFlags flags16 (m OR (EFlagsIOPLMask OR EFlagsIFMask)) c))"

definition POPF_Fd :: "DWord \<Rightarrow> bx_cpu \<Rightarrow> bx_cpu instr" where
  "POPF_Fd flags32 c =
     (let m = EFlagsOSZAPCMask OR EFlagsTFMask OR EFlagsDFMask OR EFlagsNTMask OR EFlagsRFMask OR
            (EFlagsIDMask OR EFlagsACMask) in
      if protected_mode c then Inr (writeEFlags flags32 (POPF_protected_mask m c) c)
      else if v8086_mode c then
        (if get_IOPL c < 3 then Inl (BX_GP_EXCEPTION, 0)
         else Inr (writeEFlags flags32 (m OR EFlagsIFMask) c))
      else Inr (writeEFlags flags32 (m OR (EFlagsIOPLMask OR EFlagsIFMask)) c))"

definition SALC :: "bx_cpu \<Rightarrow> bx_cpu" where
  "SALC c = (if getB_CF (oszapc c) then BX_WRITE_8BIT_REG AL 0xff c else BX_WRITE_8BIT_REG AL 0 c)"

definition STAC :: "bx_cpu \<Rightarrow> bx_cpu instr" where
  "STAC c = (if CPL c \<noteq> 0 then Inl (BX_UD_EXCEPTION, 0) else Inr (assert_AC c))"

definition CLAC :: "bx_cpu \<Rightarrow> bx_cpu instr" where
  "CLAC c = (if CPL c \<noteq> 0 then Inl (BX_UD_EXCEPTION, 0) else Inr (clear_AC c))"

section \<open>Any instruction on EFLAGS\<close>

datatype flag_instr = I_SAHF | I_LAHF | I_CLC | I_STC | I_CMC | I_CLD | I_STD | I_CLI | I_STI
  | I_PUSHF_Fw | I_PUSHF_Fd | I_POPF_Fw DWord | I_POPF_Fd DWord | I_SALC | I_STAC | I_CLAC

fun exec_flag :: "flag_instr \<Rightarrow> bx_cpu \<Rightarrow> bx_cpu instr" where
  "exec_flag I_SAHF c = Inr (SAHF c)"
| "exec_flag I_LAHF c = Inr (LAHF c)"
| "exec_flag I_CLC c = Inr (CLC c)"
| "exec_flag I_STC c = Inr (STC c)"
| "exec_flag I_CMC c = Inr (CMC c)"
| "exec_flag I_CLD c = Inr (CLD c)"
| "exec_flag I_STD c = Inr (STD c)"
| "exec_flag I_CLI c = CLI c"
| "exec_flag I_STI c = STI c"
| "exec_flag I_PUSHF_Fw c = map_sum id snd (PUSHF_Fw c)"
| "exec_flag I_PUSHF_Fd c = map_sum id snd (PUSHF_Fd c)"
| "exec_flag (I_POPF_Fw w) c = POPF_Fw w c"
| "exec_flag (I_POPF_Fd w) c = POPF_Fd w c"
| "exec_flag I_SALC c = Inr (SALC c)"
| "exec_flag I_STAC c = STAC c"
| "exec_flag I_CLAC c = CLAC c"

text \<open>A run; an exception ends it with the state before the instruction and the exception.\<close>

fun exec_flags :: "flag_instr list \<Rightarrow> bx_cpu \<Rightarrow> bx_cpu \<times> (nat \<times> DWord) option" where
  "exec_flags [] c = (c, None)"
| "exec_flags (i # is) c = (case exec_flag i c of Inl e \<Rightarrow> (c, Some e) | Inr c' \<Rightarrow> exec_flags is c')"

section \<open>What user code cannot change\<close>

text \<open>The part of the state that decides whether an interrupt gets through, and its privileges.\<close>

record intr_view =
  v_IF :: bool
  v_IOPL :: "bool \<times> bool"
  v_VM :: bool
  v_CPL :: nat
  v_mode :: cpu_mode
  v_masked :: DWord
  v_pending :: DWord
  v_cr0 :: DWord
  v_cr4 :: DWord

definition intr_of :: "bx_cpu \<Rightarrow> intr_view" where
  "intr_of c = \<lparr>v_IF = bit (eflags c) 9, v_IOPL = (bit (eflags c) 12, bit (eflags c) 13), v_VM = bit (eflags c) 17,
     v_CPL = CPL c, v_mode = cpu_mode c, v_masked = event_mask c, v_pending = pending_event c, v_cr0 = cr0 c, v_cr4 = cr4 c\<rparr>"

text \<open>The pending interrupts are masked exactly when IF is clear.\<close>

definition mask_ok :: "bx_cpu \<Rightarrow> bool" where
  "mask_ok c \<longleftrightarrow> is_masked_event BX_EVENT_PENDING_INTR c = (\<not> get_IF c)"

lemma and_mask_1: "(x :: DWord) AND push_bit b 1 = 0 \<longleftrightarrow> \<not> bit x b"
  unfolding push_bit_of_1 by (rule and_exp_eq_0_iff_not_bit)

lemmas and_masks = and_mask_1[of _ 9, folded EFlagsIFMask_def] and_mask_1[of _ 8, folded EFlagsTFMask_def]
  and_mask_1[of _ 17, folded EFlagsVMMask_def] and_mask_1[of _ 10, folded BX_EVENT_PENDING_INTR_def]

lemma bit_push_1: "b < 32 \<Longrightarrow> bit (push_bit b 1 :: DWord) k \<longleftrightarrow> k = b"
  by (auto simp: bit_simps)

lemma bit_OSZAPC: "bit EFlagsOSZAPCMask k \<longleftrightarrow> k = 0 \<or> k = 2 \<or> k = 4 \<or> k = 6 \<or> k = 7 \<or> k = 11"
proof -
  have b: "bit (push_bit b 1 :: DWord) k \<longleftrightarrow> k = b" if "b \<in> {0, 2, 4, 6, 7, 11}" for b
    using that by (intro bit_push_1) auto
  show ?thesis unfolding EFlagsOSZAPCMask_def bit_or_iff by (simp only: b insertI1 insertI2 disj_assoc)
qed

lemma bit_force_flags:
  "k \<notin> {0, 2, 4, 6, 7, 11} \<Longrightarrow> bit (eflags (force_flags c)) k = bit (eflags c) k"
  by (auto simp: force_flags_def Let_def bit_or_iff bit_and_iff bit_not_iff bit_OSZAPC dest: bit_imp_le_length)

lemma intr_force_flags [simp]: "intr_of (force_flags c) = intr_of c"
  by (simp add: intr_of_def bit_force_flags) (simp add: force_flags_def Let_def)

lemma intr_upd_lf [simp]: "intr_of (upd_lf f c) = intr_of c"
  by (simp add: intr_of_def upd_lf_def)

lemma intr_write_reg [simp]: "intr_of (BX_WRITE_8BIT_REG i v c) = intr_of c"
  by (simp add: intr_of_def BX_WRITE_8BIT_REG_def)

lemma intr_flags:
  "b \<notin> {9, 12, 13, 17} \<Longrightarrow> intr_of (assert_flag b c) = intr_of c \<and> intr_of (clear_flag b c) = intr_of c"
  by (auto simp: intr_of_def assert_flag_def clear_flag_def bit_simps)

text \<open>Writing EFLAGS with a mask that leaves IF, IOPL and VM out.\<close>

lemma intr_writeEFlags:
  assumes "\<not> bit m 9" "\<not> bit m 12" "\<not> bit m 13" "\<not> bit m 17"
  shows "intr_of (writeEFlags flags m c) = intr_of c"
proof -
  define c1 where "c1 = force_flags c"
  define new where "new = (eflags c1 AND NOT (m AND supportMask)) OR (flags AND (m AND supportMask))"
  have b: "bit new 9 = bit (eflags c) 9" "bit new 12 = bit (eflags c) 12" "bit new 13 = bit (eflags c) 13"
    "bit new 17 = bit (eflags c) 17"
    using assms by (auto simp: new_def c1_def bit_simps bit_force_flags)
  have "(eflags c1 XOR new) AND EFlagsIFMask = 0" "(eflags c1 XOR new) AND EFlagsVMMask = 0"
    by (simp_all add: and_masks bit_xor_iff b c1_def bit_force_flags)
  then have "intr_of (setEFlags new c1) = intr_of c"
    by (simp add: setEFlags_def Let_def intr_of_def upd_lf_def invalidate_prefetch_q_def handleAlignmentCheck_def b)
      (simp add: c1_def force_flags_def Let_def)
  then show ?thesis by (simp add: writeEFlags_def Let_def c1_def new_def)
qed

lemma get_IOPL_bits: "get_IOPL c = of_bool (bit (eflags c) 12) + 2 * of_bool (bit (eflags c) 13)"
proof -
  define w where "w = drop_bit 12 (eflags c)"
  have "3 AND w = of_bool (bit w 0) OR push_bit 1 (of_bool (bit w 1))"
    by (rule bit_word_eqI) (auto simp: bit_simps bit_numeral_rec less_Suc_eq numeral_eq_Suc)
  also have "unat \<dots> = of_bool (bit w 0) + 2 * of_bool (bit w 1)"
    by (cases "bit w 0"; cases "bit w 1") simp_all
  finally show ?thesis by (simp add: get_IOPL_def w_def bit_simps)
qed

lemma intr_of_gets:
  assumes "intr_of c' = intr_of c"
  shows "get_IF c' = get_IF c" "get_IOPL c' = get_IOPL c" "CPL c' = CPL c" "protected_mode c' = protected_mode c"
    "mask_ok c' = mask_ok c" "is_masked_event e c' = is_masked_event e c"
  using assms
  by (simp_all add: intr_of_def get_IOPL_bits get_IF_def protected_mode_def mask_ok_def is_masked_event_def)

lemma exec_flag_user:
  assumes "protected_mode c" and "get_IOPL c < CPL c" and "exec_flag i c = Inr c'"
  shows "intr_of c' = intr_of c"
proof -
  have v: "\<not> v8086_mode x" if "intr_of x = intr_of c" for x
    using assms(1) intr_of_gets(4)[OF that] by (simp add: protected_mode_def v8086_mode_def)
  note [simp] = intr_flags[THEN conjunct1] intr_flags[THEN conjunct2] v
  show ?thesis
  proof (cases i)
    case (I_POPF_Fw w)
    then show ?thesis using assms
      by (auto simp: POPF_Fw_def POPF_protected_mask_def Let_def eflags_masks intro!: intr_writeEFlags)
  next
    case (I_POPF_Fd w)
    then show ?thesis using assms
      by (auto simp: POPF_Fd_def POPF_protected_mask_def Let_def eflags_masks intro!: intr_writeEFlags)
  qed (use assms in \<open>auto simp: SAHF_def LAHF_def CLC_def STC_def CMC_def CLD_def STD_def SALC_def CLI_def STI_def
      STAC_def CLAC_def PUSHF_Fw_def PUSHF_Fd_def Let_def split: if_splits\<close>)
qed

lemma exec_flags_user:
  "protected_mode c \<Longrightarrow> get_IOPL c < CPL c \<Longrightarrow> intr_of (fst (exec_flags is c)) = intr_of c"
proof (induction "is" arbitrary: c)
  case (Cons i "is")
  show ?case
  proof (cases "exec_flag i c")
    case (Inr c')
    have v: "intr_of c' = intr_of c" by (rule exec_flag_user[OF Cons.prems Inr])
    then show ?thesis using Inr Cons.IH[of c'] Cons.prems intr_of_gets[OF v] by simp
  qed simp
qed simp

lemma raise_INTR_unmasked:
  assumes "\<not> is_masked_event BX_EVENT_PENDING_INTR c"
  shows "is_unmasked_event_pending BX_EVENT_PENDING_INTR (raise_INTR c) \<and> async_event (raise_INTR c)"
proof -
  have b: "\<not> bit (event_mask c) 10" using assms by (simp add: is_masked_event_def and_masks)
  have "raise_INTR c = c\<lparr>pending_event := pending_event c OR BX_EVENT_PENDING_INTR, async_event := True\<rparr>"
    using assms by (simp add: raise_INTR_def signal_event_def Let_def is_masked_event_def)
  moreover have "bit BX_EVENT_PENDING_INTR 10" by (simp add: event_defs)
  ultimately show ?thesis using b
    by (simp add: is_unmasked_event_pending_def and_masks bit_or_iff bit_and_iff bit_not_iff flip: and.assoc)
qed

text \<open>
  C35. Code above the I/O privilege has no say in interrupts. In protected mode at a level above IOPL, user code at level 3
  in particular, any run of the instructions on EFLAGS, ended by an exception or not, leaves IF, IOPL, VM, the level,
  the mode and the event mask as they are: IF, set or clear, stays what it was. So with interrupts enabled before the
  run, an interrupt that the controllers raise after it is pending, unmasked, and makes the CPU look for events;
  with interrupts disabled before it, the interrupt stays masked.
\<close>

theorem user_keeps_interrupts:
  assumes "protected_mode c" and "get_IOPL c < CPL c"
  shows "intr_of (fst (exec_flags is c)) = intr_of c \<and>
    (mask_ok c \<longrightarrow> (if get_IF c
       then is_unmasked_event_pending BX_EVENT_PENDING_INTR (raise_INTR (fst (exec_flags is c))) \<and>
         async_event (raise_INTR (fst (exec_flags is c)))
       else is_masked_event BX_EVENT_PENDING_INTR (fst (exec_flags is c))))"
proof -
  have v: "intr_of (fst (exec_flags is c)) = intr_of c" by (rule exec_flags_user[OF assms])
  have "is_masked_event BX_EVENT_PENDING_INTR (fst (exec_flags is c)) = (\<not> get_IF c)" if "mask_ok c"
    using that intr_of_gets(6)[OF v] by (simp add: mask_ok_def)
  then show ?thesis using v raise_INTR_unmasked[of "fst (exec_flags is c)"] by auto
qed

text \<open>
  A CPU that runs user code as \<open>return_gate\<close> of ZeOS starts it: protected mode with paging, level 3, EFLAGS 0x202
  (interrupts enabled, IOPL 0). It tries POPF with all bits clear, then CLI, which ends the run; with interrupts
  disabled, STI ends it.
\<close>

definition sample_cpu :: bx_cpu where
  "sample_cpu = \<lparr>gen_reg = \<lambda>_. 0, eflags = 0x202, oszapc = \<lparr>result = 1, auxbits = 0\<rparr>, CPL = 3, cs_d_b = True,
     cs_p = True, cs_segment = True, cs_type = 11, cpu_mode = BX_MODE_IA32_PROTECTED, cr0 = 0x80000001, cr4 = 0,
     sse_ok = False, fetchModeMask = 1, user_pl = True, alignment_check_mask = 0, eipPageWindowSize = 4096,
     pending_event = 0, event_mask = 0, async_event = False, inhibit_mask = 0, inhibit_icount = 0, icount = 1\<rparr>"

lemma sample_cpu_user:
  "protected_mode sample_cpu" "get_IOPL sample_cpu < CPL sample_cpu" "get_IF sample_cpu" "mask_ok sample_cpu"
  by (simp_all add: sample_cpu_def protected_mode_def get_IOPL_bits get_IF_def mask_ok_def is_masked_event_def)

lemma user_keeps_interrupts_witness:
  "snd (exec_flags [I_CLC, I_CLI, I_STD] sample_cpu) = Some (13, 0) \<and>
   intr_of (fst (exec_flags [I_POPF_Fd 0, I_CLI] sample_cpu)) = intr_of sample_cpu \<and>
   is_unmasked_event_pending BX_EVENT_PENDING_INTR (raise_INTR (fst (exec_flags [I_POPF_Fd 0, I_CLI] sample_cpu))) \<and>
   async_event (raise_INTR (fst (exec_flags [I_POPF_Fd 0, I_CLI] sample_cpu))) \<and>
   (let c = sample_cpu\<lparr>eflags := 0x1002, CPL := 2\<rparr> in \<not> get_IF (fst (exec_flags [I_POPF_Fd 0x200, I_STI] c)))"
proof -
  let ?c = "sample_cpu\<lparr>eflags := 0x1002, CPL := 2\<rparr>"
  have c: "protected_mode ?c" "get_IOPL ?c < CPL ?c" "\<not> get_IF ?c"
    by (simp_all add: sample_cpu_def protected_mode_def get_IOPL_bits get_IF_def bit_numeral_rec)
  have "intr_of (fst (exec_flags [I_POPF_Fd 0x200, I_STI] ?c)) = intr_of ?c"
    using user_keeps_interrupts[OF c(1,2)] by blast
  then have "\<not> get_IF (fst (exec_flags [I_POPF_Fd 0x200, I_STI] ?c))" using intr_of_gets(1) c(3) by blast
  moreover have "snd (exec_flags [I_CLC, I_CLI, I_STD] sample_cpu) = Some (13, 0)"
    by (simp add: CLC_def CLI_def upd_lf_def protected_mode_def get_IOPL_bits Let_def get_PVI_def sample_cpu_def
        BX_GP_EXCEPTION_def)
  ultimately show ?thesis
    using user_keeps_interrupts[OF sample_cpu_user(1,2), of "[I_POPF_Fd 0, I_CLI]"] sample_cpu_user(3,4) by (simp only: Let_def simp_thms if_True)
qed

end
