(* ===== verification/Arith.thy ===== *)
theory Arith
  imports Cpu
begin

text \<open>
  The integer instructions of the CPU with a register destination and a register or immediate source:
  \<open>bochs-2.6.7/cpu/arith8.cc\<close>, \<open>arith16.cc\<close>, \<open>arith32.cc\<close>, \<open>logical8.cc\<close>, \<open>logical16.cc\<close>, \<open>logical32.cc\<close>.
  The arguments are the register numbers \<open>i->dst()\<close> and \<open>i->src()\<close> and the immediate operand. As in the
  code, operands of 8 and 16 bits are computed with in 32 bits, the register write drops the rest.
  The reference gives value and flags from the sums and differences of the operands.
\<close>

unbundle bit_operations_syntax

section \<open>8-bit instructions\<close>

definition ADD_GbEbR :: "nat \<Rightarrow> nat \<Rightarrow> bx_cpu \<Rightarrow> bx_cpu" where
  "ADD_GbEbR d s c =
     (let op1 = BX_READ_8BIT_REG d c; op2 = BX_READ_8BIT_REG s c;
          res = op1 + op2;
          c1 = BX_WRITE_8BIT_REG d res c
      in upd_lf (SET_FLAGS_OSZAPC_ADD 8 op1 op2 res) c1)"

definition ADD_EbIbR :: "nat \<Rightarrow> DWord \<Rightarrow> bx_cpu \<Rightarrow> bx_cpu" where
  "ADD_EbIbR d imm c =
     (let op1 = BX_READ_8BIT_REG d c; op2 = imm;
          res = op1 + op2;
          c1 = BX_WRITE_8BIT_REG d res c
      in upd_lf (SET_FLAGS_OSZAPC_ADD 8 op1 op2 res) c1)"

definition ADC_GbEbR :: "nat \<Rightarrow> nat \<Rightarrow> bx_cpu \<Rightarrow> bx_cpu" where
  "ADC_GbEbR d s c =
     (let op1 = BX_READ_8BIT_REG d c; op2 = BX_READ_8BIT_REG s c;
          res = op1 + op2 + of_bool (getB_CF (oszapc c));
          c1 = BX_WRITE_8BIT_REG d res c
      in upd_lf (SET_FLAGS_OSZAPC_ADD 8 op1 op2 res) c1)"

definition ADC_EbIbR :: "nat \<Rightarrow> DWord \<Rightarrow> bx_cpu \<Rightarrow> bx_cpu" where
  "ADC_EbIbR d imm c =
     (let op1 = BX_READ_8BIT_REG d c; op2 = imm;
          res = op1 + op2 + of_bool (getB_CF (oszapc c));
          c1 = BX_WRITE_8BIT_REG d res c
      in upd_lf (SET_FLAGS_OSZAPC_ADD 8 op1 op2 res) c1)"

definition SBB_GbEbR :: "nat \<Rightarrow> nat \<Rightarrow> bx_cpu \<Rightarrow> bx_cpu" where
  "SBB_GbEbR d s c =
     (let op1 = BX_READ_8BIT_REG d c; op2 = BX_READ_8BIT_REG s c;
          res = op1 - (op2 + of_bool (getB_CF (oszapc c)));
          c1 = BX_WRITE_8BIT_REG d res c
      in upd_lf (SET_FLAGS_OSZAPC_SUB 8 op1 op2 res) c1)"

definition SBB_EbIbR :: "nat \<Rightarrow> DWord \<Rightarrow> bx_cpu \<Rightarrow> bx_cpu" where
  "SBB_EbIbR d imm c =
     (let op1 = BX_READ_8BIT_REG d c; op2 = imm;
          res = op1 - (op2 + of_bool (getB_CF (oszapc c)));
          c1 = BX_WRITE_8BIT_REG d res c
      in upd_lf (SET_FLAGS_OSZAPC_SUB 8 op1 op2 res) c1)"

definition SUB_GbEbR :: "nat \<Rightarrow> nat \<Rightarrow> bx_cpu \<Rightarrow> bx_cpu" where
  "SUB_GbEbR d s c =
     (let op1 = BX_READ_8BIT_REG d c; op2 = BX_READ_8BIT_REG s c;
          res = op1 - op2;
          c1 = BX_WRITE_8BIT_REG d res c
      in upd_lf (SET_FLAGS_OSZAPC_SUB 8 op1 op2 res) c1)"

definition SUB_EbIbR :: "nat \<Rightarrow> DWord \<Rightarrow> bx_cpu \<Rightarrow> bx_cpu" where
  "SUB_EbIbR d imm c =
     (let op1 = BX_READ_8BIT_REG d c; op2 = imm;
          res = op1 - op2;
          c1 = BX_WRITE_8BIT_REG d res c
      in upd_lf (SET_FLAGS_OSZAPC_SUB 8 op1 op2 res) c1)"

definition CMP_GbEbR :: "nat \<Rightarrow> nat \<Rightarrow> bx_cpu \<Rightarrow> bx_cpu" where
  "CMP_GbEbR d s c =
     (let op1 = BX_READ_8BIT_REG d c; op2 = BX_READ_8BIT_REG s c;
          res = op1 - op2
      in upd_lf (SET_FLAGS_OSZAPC_SUB 8 op1 op2 res) c)"

definition CMP_EbIbR :: "nat \<Rightarrow> DWord \<Rightarrow> bx_cpu \<Rightarrow> bx_cpu" where
  "CMP_EbIbR d imm c =
     (let op1 = BX_READ_8BIT_REG d c; op2 = imm;
          res = op1 - op2
      in upd_lf (SET_FLAGS_OSZAPC_SUB 8 op1 op2 res) c)"

definition NEG_EbR :: "nat \<Rightarrow> bx_cpu \<Rightarrow> bx_cpu" where
  "NEG_EbR d c =
     (let op1 = - signed_take_bit 7 (BX_READ_8BIT_REG d c);
          c1 = BX_WRITE_8BIT_REG d op1 c
      in upd_lf (SET_FLAGS_OSZAPC_SUB 8 0 (0 - op1) op1) c1)"

definition INC_EbR :: "nat \<Rightarrow> bx_cpu \<Rightarrow> bx_cpu" where
  "INC_EbR d c =
     (let op1 = BX_READ_8BIT_REG d c + 1;
          c1 = BX_WRITE_8BIT_REG d op1 c
      in upd_lf (SET_FLAGS_OSZAP_ADD 8 (op1 - 1) 0 op1) c1)"

definition DEC_EbR :: "nat \<Rightarrow> bx_cpu \<Rightarrow> bx_cpu" where
  "DEC_EbR d c =
     (let op1 = BX_READ_8BIT_REG d c - 1;
          c1 = BX_WRITE_8BIT_REG d op1 c
      in upd_lf (SET_FLAGS_OSZAP_SUB 8 (op1 + 1) 0 op1) c1)"

definition XADD_EbGbR :: "nat \<Rightarrow> nat \<Rightarrow> bx_cpu \<Rightarrow> bx_cpu" where
  "XADD_EbGbR d s c =
     (let op1 = BX_READ_8BIT_REG d c; op2 = BX_READ_8BIT_REG s c; res = op1 + op2;
          c1 = BX_WRITE_8BIT_REG s op1 c; c2 = BX_WRITE_8BIT_REG d res c1
      in upd_lf (SET_FLAGS_OSZAPC_ADD 8 op1 op2 res) c2)"

definition CMPXCHG_EbGbR :: "nat \<Rightarrow> nat \<Rightarrow> bx_cpu \<Rightarrow> bx_cpu" where
  "CMPXCHG_EbGbR d s c =
     (let op1 = BX_READ_8BIT_REG d c; diff = BX_READ_8BIT_REG AL c - op1;
          c1 = upd_lf (SET_FLAGS_OSZAPC_SUB 8 (BX_READ_8BIT_REG AL c) op1 diff) c
      in if diff = 0 then BX_WRITE_8BIT_REG d (BX_READ_8BIT_REG s c1) c1 else BX_WRITE_8BIT_REG AL op1 c1)"

definition AND_GbEbR :: "nat \<Rightarrow> nat \<Rightarrow> bx_cpu \<Rightarrow> bx_cpu" where
  "AND_GbEbR d s c =
     (let op1 = BX_READ_8BIT_REG d c; op2 = BX_READ_8BIT_REG s c; res = op1 AND op2; c1 = BX_WRITE_8BIT_REG d res c
      in upd_lf (SET_FLAGS_OSZAPC_LOGIC 8 res) c1)"

definition AND_EbIbR :: "nat \<Rightarrow> DWord \<Rightarrow> bx_cpu \<Rightarrow> bx_cpu" where
  "AND_EbIbR d imm c =
     (let op1 = BX_READ_8BIT_REG d c; op2 = imm; res = op1 AND op2; c1 = BX_WRITE_8BIT_REG d res c
      in upd_lf (SET_FLAGS_OSZAPC_LOGIC 8 res) c1)"

definition OR_GbEbR :: "nat \<Rightarrow> nat \<Rightarrow> bx_cpu \<Rightarrow> bx_cpu" where
  "OR_GbEbR d s c =
     (let op1 = BX_READ_8BIT_REG d c; op2 = BX_READ_8BIT_REG s c; res = op1 OR op2; c1 = BX_WRITE_8BIT_REG d res c
      in upd_lf (SET_FLAGS_OSZAPC_LOGIC 8 res) c1)"

definition OR_EbIbR :: "nat \<Rightarrow> DWord \<Rightarrow> bx_cpu \<Rightarrow> bx_cpu" where
  "OR_EbIbR d imm c =
     (let op1 = BX_READ_8BIT_REG d c; op2 = imm; res = op1 OR op2; c1 = BX_WRITE_8BIT_REG d res c
      in upd_lf (SET_FLAGS_OSZAPC_LOGIC 8 res) c1)"

definition XOR_GbEbR :: "nat \<Rightarrow> nat \<Rightarrow> bx_cpu \<Rightarrow> bx_cpu" where
  "XOR_GbEbR d s c =
     (let op1 = BX_READ_8BIT_REG d c; op2 = BX_READ_8BIT_REG s c; res = op1 XOR op2; c1 = BX_WRITE_8BIT_REG d res c
      in upd_lf (SET_FLAGS_OSZAPC_LOGIC 8 res) c1)"

definition XOR_EbIbR :: "nat \<Rightarrow> DWord \<Rightarrow> bx_cpu \<Rightarrow> bx_cpu" where
  "XOR_EbIbR d imm c =
     (let op1 = BX_READ_8BIT_REG d c; op2 = imm; res = op1 XOR op2; c1 = BX_WRITE_8BIT_REG d res c
      in upd_lf (SET_FLAGS_OSZAPC_LOGIC 8 res) c1)"

definition TEST_EbGbR :: "nat \<Rightarrow> nat \<Rightarrow> bx_cpu \<Rightarrow> bx_cpu" where
  "TEST_EbGbR d s c =
     (let op1 = BX_READ_8BIT_REG d c; op2 = BX_READ_8BIT_REG s c; res = op1 AND op2
      in upd_lf (SET_FLAGS_OSZAPC_LOGIC 8 res) c)"

definition TEST_EbIbR :: "nat \<Rightarrow> DWord \<Rightarrow> bx_cpu \<Rightarrow> bx_cpu" where
  "TEST_EbIbR d imm c =
     (let op1 = BX_READ_8BIT_REG d c; op2 = imm; res = op1 AND op2
      in upd_lf (SET_FLAGS_OSZAPC_LOGIC 8 res) c)"

definition NOT_EbR :: "nat \<Rightarrow> bx_cpu \<Rightarrow> bx_cpu" where
  "NOT_EbR d c =
     BX_WRITE_8BIT_REG d (NOT (BX_READ_8BIT_REG d c)) c"

section \<open>16-bit instructions\<close>

definition ADD_GwEwR :: "nat \<Rightarrow> nat \<Rightarrow> bx_cpu \<Rightarrow> bx_cpu" where
  "ADD_GwEwR d s c =
     (let op1 = BX_READ_16BIT_REG d c; op2 = BX_READ_16BIT_REG s c;
          res = op1 + op2;
          c1 = BX_WRITE_16BIT_REG d res c
      in upd_lf (SET_FLAGS_OSZAPC_ADD 16 op1 op2 res) c1)"

definition ADD_EwIwR :: "nat \<Rightarrow> DWord \<Rightarrow> bx_cpu \<Rightarrow> bx_cpu" where
  "ADD_EwIwR d imm c =
     (let op1 = BX_READ_16BIT_REG d c; op2 = imm;
          res = op1 + op2;
          c1 = BX_WRITE_16BIT_REG d res c
      in upd_lf (SET_FLAGS_OSZAPC_ADD 16 op1 op2 res) c1)"

definition ADC_GwEwR :: "nat \<Rightarrow> nat \<Rightarrow> bx_cpu \<Rightarrow> bx_cpu" where
  "ADC_GwEwR d s c =
     (let op1 = BX_READ_16BIT_REG d c; op2 = BX_READ_16BIT_REG s c;
          res = op1 + op2 + of_bool (getB_CF (oszapc c));
          c1 = BX_WRITE_16BIT_REG d res c
      in upd_lf (SET_FLAGS_OSZAPC_ADD 16 op1 op2 res) c1)"

definition ADC_EwIwR :: "nat \<Rightarrow> DWord \<Rightarrow> bx_cpu \<Rightarrow> bx_cpu" where
  "ADC_EwIwR d imm c =
     (let op1 = BX_READ_16BIT_REG d c; op2 = imm;
          res = op1 + op2 + of_bool (getB_CF (oszapc c));
          c1 = BX_WRITE_16BIT_REG d res c
      in upd_lf (SET_FLAGS_OSZAPC_ADD 16 op1 op2 res) c1)"

definition SBB_GwEwR :: "nat \<Rightarrow> nat \<Rightarrow> bx_cpu \<Rightarrow> bx_cpu" where
  "SBB_GwEwR d s c =
     (let op1 = BX_READ_16BIT_REG d c; op2 = BX_READ_16BIT_REG s c;
          res = op1 - (op2 + of_bool (getB_CF (oszapc c)));
          c1 = BX_WRITE_16BIT_REG d res c
      in upd_lf (SET_FLAGS_OSZAPC_SUB 16 op1 op2 res) c1)"

definition SBB_EwIwR :: "nat \<Rightarrow> DWord \<Rightarrow> bx_cpu \<Rightarrow> bx_cpu" where
  "SBB_EwIwR d imm c =
     (let op1 = BX_READ_16BIT_REG d c; op2 = imm;
          res = op1 - (op2 + of_bool (getB_CF (oszapc c)));
          c1 = BX_WRITE_16BIT_REG d res c
      in upd_lf (SET_FLAGS_OSZAPC_SUB 16 op1 op2 res) c1)"

definition SUB_GwEwR :: "nat \<Rightarrow> nat \<Rightarrow> bx_cpu \<Rightarrow> bx_cpu" where
  "SUB_GwEwR d s c =
     (let op1 = BX_READ_16BIT_REG d c; op2 = BX_READ_16BIT_REG s c;
          res = op1 - op2;
          c1 = BX_WRITE_16BIT_REG d res c
      in upd_lf (SET_FLAGS_OSZAPC_SUB 16 op1 op2 res) c1)"

definition SUB_EwIwR :: "nat \<Rightarrow> DWord \<Rightarrow> bx_cpu \<Rightarrow> bx_cpu" where
  "SUB_EwIwR d imm c =
     (let op1 = BX_READ_16BIT_REG d c; op2 = imm;
          res = op1 - op2;
          c1 = BX_WRITE_16BIT_REG d res c
      in upd_lf (SET_FLAGS_OSZAPC_SUB 16 op1 op2 res) c1)"

definition CMP_GwEwR :: "nat \<Rightarrow> nat \<Rightarrow> bx_cpu \<Rightarrow> bx_cpu" where
  "CMP_GwEwR d s c =
     (let op1 = BX_READ_16BIT_REG d c; op2 = BX_READ_16BIT_REG s c;
          res = op1 - op2
      in upd_lf (SET_FLAGS_OSZAPC_SUB 16 op1 op2 res) c)"

definition CMP_EwIwR :: "nat \<Rightarrow> DWord \<Rightarrow> bx_cpu \<Rightarrow> bx_cpu" where
  "CMP_EwIwR d imm c =
     (let op1 = BX_READ_16BIT_REG d c; op2 = imm;
          res = op1 - op2
      in upd_lf (SET_FLAGS_OSZAPC_SUB 16 op1 op2 res) c)"

definition NEG_EwR :: "nat \<Rightarrow> bx_cpu \<Rightarrow> bx_cpu" where
  "NEG_EwR d c =
     (let op1 = - signed_take_bit 15 (BX_READ_16BIT_REG d c);
          c1 = BX_WRITE_16BIT_REG d op1 c
      in upd_lf (SET_FLAGS_OSZAPC_SUB 16 0 (0 - op1) op1) c1)"

definition INC_EwR :: "nat \<Rightarrow> bx_cpu \<Rightarrow> bx_cpu" where
  "INC_EwR d c =
     (let c1 = BX_WRITE_16BIT_REG d (BX_READ_16BIT_REG d c + 1) c; r = BX_READ_16BIT_REG d c1
      in upd_lf (SET_FLAGS_OSZAP_ADD 16 (r - 1) 0 r) c1)"

definition DEC_EwR :: "nat \<Rightarrow> bx_cpu \<Rightarrow> bx_cpu" where
  "DEC_EwR d c =
     (let c1 = BX_WRITE_16BIT_REG d (BX_READ_16BIT_REG d c - 1) c; r = BX_READ_16BIT_REG d c1
      in upd_lf (SET_FLAGS_OSZAP_SUB 16 (r + 1) 0 r) c1)"

definition XADD_EwGwR :: "nat \<Rightarrow> nat \<Rightarrow> bx_cpu \<Rightarrow> bx_cpu" where
  "XADD_EwGwR d s c =
     (let op1 = BX_READ_16BIT_REG d c; op2 = BX_READ_16BIT_REG s c; res = op1 + op2;
          c1 = BX_WRITE_16BIT_REG s op1 c; c2 = BX_WRITE_16BIT_REG d res c1
      in upd_lf (SET_FLAGS_OSZAPC_ADD 16 op1 op2 res) c2)"

definition CMPXCHG_EwGwR :: "nat \<Rightarrow> nat \<Rightarrow> bx_cpu \<Rightarrow> bx_cpu" where
  "CMPXCHG_EwGwR d s c =
     (let op1 = BX_READ_16BIT_REG d c; diff = take_bit 16 (BX_READ_16BIT_REG AX c - op1);
          c1 = upd_lf (SET_FLAGS_OSZAPC_SUB 16 (BX_READ_16BIT_REG AX c) op1 diff) c
      in if diff = 0 then BX_WRITE_16BIT_REG d (BX_READ_16BIT_REG s c1) c1 else BX_WRITE_16BIT_REG AX op1 c1)"

definition CBW :: "bx_cpu \<Rightarrow> bx_cpu" where
  "CBW c =
     BX_WRITE_16BIT_REG AX (signed_take_bit 7 (BX_READ_8BIT_REG AL c)) c"

definition CWD :: "bx_cpu \<Rightarrow> bx_cpu" where
  "CWD c =
     (if BX_READ_16BIT_REG AX c AND 0x8000 \<noteq> 0 then BX_WRITE_16BIT_REG DX 0xFFFF c
      else BX_WRITE_16BIT_REG DX 0 c)"

definition AND_GwEwR :: "nat \<Rightarrow> nat \<Rightarrow> bx_cpu \<Rightarrow> bx_cpu" where
  "AND_GwEwR d s c =
     (let op1 = BX_READ_16BIT_REG d c; op2 = BX_READ_16BIT_REG s c; res = op1 AND op2; c1 = BX_WRITE_16BIT_REG d res c
      in upd_lf (SET_FLAGS_OSZAPC_LOGIC 16 res) c1)"

definition AND_EwIwR :: "nat \<Rightarrow> DWord \<Rightarrow> bx_cpu \<Rightarrow> bx_cpu" where
  "AND_EwIwR d imm c =
     (let op1 = BX_READ_16BIT_REG d c; op2 = imm; res = op1 AND op2; c1 = BX_WRITE_16BIT_REG d res c
      in upd_lf (SET_FLAGS_OSZAPC_LOGIC 16 res) c1)"

definition OR_GwEwR :: "nat \<Rightarrow> nat \<Rightarrow> bx_cpu \<Rightarrow> bx_cpu" where
  "OR_GwEwR d s c =
     (let op1 = BX_READ_16BIT_REG d c; op2 = BX_READ_16BIT_REG s c; res = op1 OR op2; c1 = BX_WRITE_16BIT_REG d res c
      in upd_lf (SET_FLAGS_OSZAPC_LOGIC 16 res) c1)"

definition OR_EwIwR :: "nat \<Rightarrow> DWord \<Rightarrow> bx_cpu \<Rightarrow> bx_cpu" where
  "OR_EwIwR d imm c =
     (let op1 = BX_READ_16BIT_REG d c; op2 = imm; res = op1 OR op2; c1 = BX_WRITE_16BIT_REG d res c
      in upd_lf (SET_FLAGS_OSZAPC_LOGIC 16 res) c1)"

definition XOR_GwEwR :: "nat \<Rightarrow> nat \<Rightarrow> bx_cpu \<Rightarrow> bx_cpu" where
  "XOR_GwEwR d s c =
     (let op1 = BX_READ_16BIT_REG d c; op2 = BX_READ_16BIT_REG s c; res = op1 XOR op2; c1 = BX_WRITE_16BIT_REG d res c
      in upd_lf (SET_FLAGS_OSZAPC_LOGIC 16 res) c1)"

definition XOR_EwIwR :: "nat \<Rightarrow> DWord \<Rightarrow> bx_cpu \<Rightarrow> bx_cpu" where
  "XOR_EwIwR d imm c =
     (let op1 = BX_READ_16BIT_REG d c; op2 = imm; res = op1 XOR op2; c1 = BX_WRITE_16BIT_REG d res c
      in upd_lf (SET_FLAGS_OSZAPC_LOGIC 16 res) c1)"

definition TEST_EwGwR :: "nat \<Rightarrow> nat \<Rightarrow> bx_cpu \<Rightarrow> bx_cpu" where
  "TEST_EwGwR d s c =
     (let op1 = BX_READ_16BIT_REG d c; op2 = BX_READ_16BIT_REG s c; res = op1 AND op2
      in upd_lf (SET_FLAGS_OSZAPC_LOGIC 16 res) c)"

definition TEST_EwIwR :: "nat \<Rightarrow> DWord \<Rightarrow> bx_cpu \<Rightarrow> bx_cpu" where
  "TEST_EwIwR d imm c =
     (let op1 = BX_READ_16BIT_REG d c; op2 = imm; res = op1 AND op2
      in upd_lf (SET_FLAGS_OSZAPC_LOGIC 16 res) c)"

definition NOT_EwR :: "nat \<Rightarrow> bx_cpu \<Rightarrow> bx_cpu" where
  "NOT_EwR d c =
     BX_WRITE_16BIT_REG d (NOT (BX_READ_16BIT_REG d c)) c"

section \<open>32-bit instructions\<close>

definition ADD_GdEdR :: "nat \<Rightarrow> nat \<Rightarrow> bx_cpu \<Rightarrow> bx_cpu" where
  "ADD_GdEdR d s c =
     (let op1 = BX_READ_32BIT_REG d c; op2 = BX_READ_32BIT_REG s c;
          res = op1 + op2;
          c1 = BX_WRITE_32BIT_REGZ d res c
      in upd_lf (SET_FLAGS_OSZAPC_ADD 32 op1 op2 res) c1)"

definition ADD_EdIdR :: "nat \<Rightarrow> DWord \<Rightarrow> bx_cpu \<Rightarrow> bx_cpu" where
  "ADD_EdIdR d imm c =
     (let op1 = BX_READ_32BIT_REG d c; op2 = imm;
          res = op1 + op2;
          c1 = BX_WRITE_32BIT_REGZ d res c
      in upd_lf (SET_FLAGS_OSZAPC_ADD 32 op1 op2 res) c1)"

definition ADC_GdEdR :: "nat \<Rightarrow> nat \<Rightarrow> bx_cpu \<Rightarrow> bx_cpu" where
  "ADC_GdEdR d s c =
     (let op1 = BX_READ_32BIT_REG d c; op2 = BX_READ_32BIT_REG s c;
          res = op1 + op2 + of_bool (getB_CF (oszapc c));
          c1 = BX_WRITE_32BIT_REGZ d res c
      in upd_lf (SET_FLAGS_OSZAPC_ADD 32 op1 op2 res) c1)"

definition ADC_EdIdR :: "nat \<Rightarrow> DWord \<Rightarrow> bx_cpu \<Rightarrow> bx_cpu" where
  "ADC_EdIdR d imm c =
     (let op1 = BX_READ_32BIT_REG d c; op2 = imm;
          res = op1 + op2 + of_bool (getB_CF (oszapc c));
          c1 = BX_WRITE_32BIT_REGZ d res c
      in upd_lf (SET_FLAGS_OSZAPC_ADD 32 op1 op2 res) c1)"

definition SBB_GdEdR :: "nat \<Rightarrow> nat \<Rightarrow> bx_cpu \<Rightarrow> bx_cpu" where
  "SBB_GdEdR d s c =
     (let op1 = BX_READ_32BIT_REG d c; op2 = BX_READ_32BIT_REG s c;
          res = op1 - (op2 + of_bool (getB_CF (oszapc c)));
          c1 = BX_WRITE_32BIT_REGZ d res c
      in upd_lf (SET_FLAGS_OSZAPC_SUB 32 op1 op2 res) c1)"

definition SBB_EdIdR :: "nat \<Rightarrow> DWord \<Rightarrow> bx_cpu \<Rightarrow> bx_cpu" where
  "SBB_EdIdR d imm c =
     (let op1 = BX_READ_32BIT_REG d c; op2 = imm;
          res = op1 - (op2 + of_bool (getB_CF (oszapc c)));
          c1 = BX_WRITE_32BIT_REGZ d res c
      in upd_lf (SET_FLAGS_OSZAPC_SUB 32 op1 op2 res) c1)"

definition SUB_GdEdR :: "nat \<Rightarrow> nat \<Rightarrow> bx_cpu \<Rightarrow> bx_cpu" where
  "SUB_GdEdR d s c =
     (let op1 = BX_READ_32BIT_REG d c; op2 = BX_READ_32BIT_REG s c;
          res = op1 - op2;
          c1 = BX_WRITE_32BIT_REGZ d res c
      in upd_lf (SET_FLAGS_OSZAPC_SUB 32 op1 op2 res) c1)"

definition SUB_EdIdR :: "nat \<Rightarrow> DWord \<Rightarrow> bx_cpu \<Rightarrow> bx_cpu" where
  "SUB_EdIdR d imm c =
     (let op1 = BX_READ_32BIT_REG d c; op2 = imm;
          res = op1 - op2;
          c1 = BX_WRITE_32BIT_REGZ d res c
      in upd_lf (SET_FLAGS_OSZAPC_SUB 32 op1 op2 res) c1)"

definition CMP_GdEdR :: "nat \<Rightarrow> nat \<Rightarrow> bx_cpu \<Rightarrow> bx_cpu" where
  "CMP_GdEdR d s c =
     (let op1 = BX_READ_32BIT_REG d c; op2 = BX_READ_32BIT_REG s c;
          res = op1 - op2
      in upd_lf (SET_FLAGS_OSZAPC_SUB 32 op1 op2 res) c)"

definition CMP_EdIdR :: "nat \<Rightarrow> DWord \<Rightarrow> bx_cpu \<Rightarrow> bx_cpu" where
  "CMP_EdIdR d imm c =
     (let op1 = BX_READ_32BIT_REG d c; op2 = imm;
          res = op1 - op2
      in upd_lf (SET_FLAGS_OSZAPC_SUB 32 op1 op2 res) c)"

definition NEG_EdR :: "nat \<Rightarrow> bx_cpu \<Rightarrow> bx_cpu" where
  "NEG_EdR d c =
     (let op1 = - BX_READ_32BIT_REG d c;
          c1 = BX_WRITE_32BIT_REGZ d op1 c
      in upd_lf (SET_FLAGS_OSZAPC_SUB 32 0 (0 - op1) op1) c1)"

definition INC_EdR :: "nat \<Rightarrow> bx_cpu \<Rightarrow> bx_cpu" where
  "INC_EdR d c =
     (let c1 = BX_WRITE_32BIT_REGZ d (BX_READ_32BIT_REG d c + 1) c; r = BX_READ_32BIT_REG d c1
      in upd_lf (SET_FLAGS_OSZAP_ADD 32 (r - 1) 0 r) c1)"

definition DEC_EdR :: "nat \<Rightarrow> bx_cpu \<Rightarrow> bx_cpu" where
  "DEC_EdR d c =
     (let c1 = BX_WRITE_32BIT_REGZ d (BX_READ_32BIT_REG d c - 1) c; r = BX_READ_32BIT_REG d c1
      in upd_lf (SET_FLAGS_OSZAP_SUB 32 (r + 1) 0 r) c1)"

definition XADD_EdGdR :: "nat \<Rightarrow> nat \<Rightarrow> bx_cpu \<Rightarrow> bx_cpu" where
  "XADD_EdGdR d s c =
     (let op1 = BX_READ_32BIT_REG d c; op2 = BX_READ_32BIT_REG s c; res = op1 + op2;
          c1 = BX_WRITE_32BIT_REGZ s op1 c; c2 = BX_WRITE_32BIT_REGZ d res c1
      in upd_lf (SET_FLAGS_OSZAPC_ADD 32 op1 op2 res) c2)"

definition CMPXCHG_EdGdR :: "nat \<Rightarrow> nat \<Rightarrow> bx_cpu \<Rightarrow> bx_cpu" where
  "CMPXCHG_EdGdR d s c =
     (let op1 = BX_READ_32BIT_REG d c; diff = BX_READ_32BIT_REG EAX c - op1;
          c1 = upd_lf (SET_FLAGS_OSZAPC_SUB 32 (BX_READ_32BIT_REG EAX c) op1 diff) c
      in if diff = 0 then BX_WRITE_32BIT_REGZ d (BX_READ_32BIT_REG s c1) c1 else BX_WRITE_32BIT_REGZ EAX op1 c1)"

definition CWDE :: "bx_cpu \<Rightarrow> bx_cpu" where
  "CWDE c =
     BX_WRITE_32BIT_REGZ EAX (signed_take_bit 15 (BX_READ_16BIT_REG AX c)) c"

definition CDQ :: "bx_cpu \<Rightarrow> bx_cpu" where
  "CDQ c =
     (if BX_READ_32BIT_REG EAX c AND 0x80000000 \<noteq> 0 then BX_WRITE_32BIT_REGZ EDX 0xFFFFFFFF c
      else BX_WRITE_32BIT_REGZ EDX 0 c)"

definition AND_GdEdR :: "nat \<Rightarrow> nat \<Rightarrow> bx_cpu \<Rightarrow> bx_cpu" where
  "AND_GdEdR d s c =
     (let op1 = BX_READ_32BIT_REG d c; op2 = BX_READ_32BIT_REG s c; res = op1 AND op2; c1 = BX_WRITE_32BIT_REGZ d res c
      in upd_lf (SET_FLAGS_OSZAPC_LOGIC 32 res) c1)"

definition AND_EdIdR :: "nat \<Rightarrow> DWord \<Rightarrow> bx_cpu \<Rightarrow> bx_cpu" where
  "AND_EdIdR d imm c =
     (let op1 = BX_READ_32BIT_REG d c; op2 = imm; res = op1 AND op2; c1 = BX_WRITE_32BIT_REGZ d res c
      in upd_lf (SET_FLAGS_OSZAPC_LOGIC 32 res) c1)"

definition OR_GdEdR :: "nat \<Rightarrow> nat \<Rightarrow> bx_cpu \<Rightarrow> bx_cpu" where
  "OR_GdEdR d s c =
     (let op1 = BX_READ_32BIT_REG d c; op2 = BX_READ_32BIT_REG s c; res = op1 OR op2; c1 = BX_WRITE_32BIT_REGZ d res c
      in upd_lf (SET_FLAGS_OSZAPC_LOGIC 32 res) c1)"

definition OR_EdIdR :: "nat \<Rightarrow> DWord \<Rightarrow> bx_cpu \<Rightarrow> bx_cpu" where
  "OR_EdIdR d imm c =
     (let op1 = BX_READ_32BIT_REG d c; op2 = imm; res = op1 OR op2; c1 = BX_WRITE_32BIT_REGZ d res c
      in upd_lf (SET_FLAGS_OSZAPC_LOGIC 32 res) c1)"

definition XOR_GdEdR :: "nat \<Rightarrow> nat \<Rightarrow> bx_cpu \<Rightarrow> bx_cpu" where
  "XOR_GdEdR d s c =
     (let op1 = BX_READ_32BIT_REG d c; op2 = BX_READ_32BIT_REG s c; res = op1 XOR op2; c1 = BX_WRITE_32BIT_REGZ d res c
      in upd_lf (SET_FLAGS_OSZAPC_LOGIC 32 res) c1)"

definition XOR_EdIdR :: "nat \<Rightarrow> DWord \<Rightarrow> bx_cpu \<Rightarrow> bx_cpu" where
  "XOR_EdIdR d imm c =
     (let op1 = BX_READ_32BIT_REG d c; op2 = imm; res = op1 XOR op2; c1 = BX_WRITE_32BIT_REGZ d res c
      in upd_lf (SET_FLAGS_OSZAPC_LOGIC 32 res) c1)"

definition TEST_EdGdR :: "nat \<Rightarrow> nat \<Rightarrow> bx_cpu \<Rightarrow> bx_cpu" where
  "TEST_EdGdR d s c =
     (let op1 = BX_READ_32BIT_REG d c; op2 = BX_READ_32BIT_REG s c; res = op1 AND op2
      in upd_lf (SET_FLAGS_OSZAPC_LOGIC 32 res) c)"

definition TEST_EdIdR :: "nat \<Rightarrow> DWord \<Rightarrow> bx_cpu \<Rightarrow> bx_cpu" where
  "TEST_EdIdR d imm c =
     (let op1 = BX_READ_32BIT_REG d c; op2 = imm; res = op1 AND op2
      in upd_lf (SET_FLAGS_OSZAPC_LOGIC 32 res) c)"

definition NOT_EdR :: "nat \<Rightarrow> bx_cpu \<Rightarrow> bx_cpu" where
  "NOT_EdR d c =
     BX_WRITE_32BIT_REGZ d (NOT (BX_READ_32BIT_REG d c)) c"

section \<open>Instructions as data\<close>

datatype width = W8 | W16 | W32
datatype alu_op = Op_ADD | Op_ADC | Op_SBB | Op_SUB | Op_CMP | Op_AND | Op_OR | Op_XOR | Op_TEST
datatype alu_op1 = Op_INC | Op_DEC | Op_NEG | Op_NOT
datatype operand = Reg nat | Imm DWord
datatype conversion = Op_CBW | Op_CWDE | Op_CWD | Op_CDQ
datatype alu_instr = Alu2 width alu_op nat operand | Alu1 width alu_op1 nat
  | Xadd width nat nat | Cmpxchg width nat nat | Convert conversion

fun exec_alu :: "alu_instr \<Rightarrow> bx_cpu \<Rightarrow> bx_cpu" where
  "exec_alu (Alu2 W8 Op_ADD d (Reg s)) = ADD_GbEbR d s"
| "exec_alu (Alu2 W8 Op_ADD d (Imm v)) = ADD_EbIbR d v"
| "exec_alu (Alu2 W8 Op_ADC d (Reg s)) = ADC_GbEbR d s"
| "exec_alu (Alu2 W8 Op_ADC d (Imm v)) = ADC_EbIbR d v"
| "exec_alu (Alu2 W8 Op_SBB d (Reg s)) = SBB_GbEbR d s"
| "exec_alu (Alu2 W8 Op_SBB d (Imm v)) = SBB_EbIbR d v"
| "exec_alu (Alu2 W8 Op_SUB d (Reg s)) = SUB_GbEbR d s"
| "exec_alu (Alu2 W8 Op_SUB d (Imm v)) = SUB_EbIbR d v"
| "exec_alu (Alu2 W8 Op_CMP d (Reg s)) = CMP_GbEbR d s"
| "exec_alu (Alu2 W8 Op_CMP d (Imm v)) = CMP_EbIbR d v"
| "exec_alu (Alu2 W8 Op_AND d (Reg s)) = AND_GbEbR d s"
| "exec_alu (Alu2 W8 Op_AND d (Imm v)) = AND_EbIbR d v"
| "exec_alu (Alu2 W8 Op_OR d (Reg s)) = OR_GbEbR d s"
| "exec_alu (Alu2 W8 Op_OR d (Imm v)) = OR_EbIbR d v"
| "exec_alu (Alu2 W8 Op_XOR d (Reg s)) = XOR_GbEbR d s"
| "exec_alu (Alu2 W8 Op_XOR d (Imm v)) = XOR_EbIbR d v"
| "exec_alu (Alu2 W8 Op_TEST d (Reg s)) = TEST_EbGbR d s"
| "exec_alu (Alu2 W8 Op_TEST d (Imm v)) = TEST_EbIbR d v"
| "exec_alu (Alu1 W8 Op_INC d) = INC_EbR d"
| "exec_alu (Alu1 W8 Op_DEC d) = DEC_EbR d"
| "exec_alu (Alu1 W8 Op_NEG d) = NEG_EbR d"
| "exec_alu (Alu1 W8 Op_NOT d) = NOT_EbR d"
| "exec_alu (Alu2 W16 Op_ADD d (Reg s)) = ADD_GwEwR d s"
| "exec_alu (Alu2 W16 Op_ADD d (Imm v)) = ADD_EwIwR d v"
| "exec_alu (Alu2 W16 Op_ADC d (Reg s)) = ADC_GwEwR d s"
| "exec_alu (Alu2 W16 Op_ADC d (Imm v)) = ADC_EwIwR d v"
| "exec_alu (Alu2 W16 Op_SBB d (Reg s)) = SBB_GwEwR d s"
| "exec_alu (Alu2 W16 Op_SBB d (Imm v)) = SBB_EwIwR d v"
| "exec_alu (Alu2 W16 Op_SUB d (Reg s)) = SUB_GwEwR d s"
| "exec_alu (Alu2 W16 Op_SUB d (Imm v)) = SUB_EwIwR d v"
| "exec_alu (Alu2 W16 Op_CMP d (Reg s)) = CMP_GwEwR d s"
| "exec_alu (Alu2 W16 Op_CMP d (Imm v)) = CMP_EwIwR d v"
| "exec_alu (Alu2 W16 Op_AND d (Reg s)) = AND_GwEwR d s"
| "exec_alu (Alu2 W16 Op_AND d (Imm v)) = AND_EwIwR d v"
| "exec_alu (Alu2 W16 Op_OR d (Reg s)) = OR_GwEwR d s"
| "exec_alu (Alu2 W16 Op_OR d (Imm v)) = OR_EwIwR d v"
| "exec_alu (Alu2 W16 Op_XOR d (Reg s)) = XOR_GwEwR d s"
| "exec_alu (Alu2 W16 Op_XOR d (Imm v)) = XOR_EwIwR d v"
| "exec_alu (Alu2 W16 Op_TEST d (Reg s)) = TEST_EwGwR d s"
| "exec_alu (Alu2 W16 Op_TEST d (Imm v)) = TEST_EwIwR d v"
| "exec_alu (Alu1 W16 Op_INC d) = INC_EwR d"
| "exec_alu (Alu1 W16 Op_DEC d) = DEC_EwR d"
| "exec_alu (Alu1 W16 Op_NEG d) = NEG_EwR d"
| "exec_alu (Alu1 W16 Op_NOT d) = NOT_EwR d"
| "exec_alu (Alu2 W32 Op_ADD d (Reg s)) = ADD_GdEdR d s"
| "exec_alu (Alu2 W32 Op_ADD d (Imm v)) = ADD_EdIdR d v"
| "exec_alu (Alu2 W32 Op_ADC d (Reg s)) = ADC_GdEdR d s"
| "exec_alu (Alu2 W32 Op_ADC d (Imm v)) = ADC_EdIdR d v"
| "exec_alu (Alu2 W32 Op_SBB d (Reg s)) = SBB_GdEdR d s"
| "exec_alu (Alu2 W32 Op_SBB d (Imm v)) = SBB_EdIdR d v"
| "exec_alu (Alu2 W32 Op_SUB d (Reg s)) = SUB_GdEdR d s"
| "exec_alu (Alu2 W32 Op_SUB d (Imm v)) = SUB_EdIdR d v"
| "exec_alu (Alu2 W32 Op_CMP d (Reg s)) = CMP_GdEdR d s"
| "exec_alu (Alu2 W32 Op_CMP d (Imm v)) = CMP_EdIdR d v"
| "exec_alu (Alu2 W32 Op_AND d (Reg s)) = AND_GdEdR d s"
| "exec_alu (Alu2 W32 Op_AND d (Imm v)) = AND_EdIdR d v"
| "exec_alu (Alu2 W32 Op_OR d (Reg s)) = OR_GdEdR d s"
| "exec_alu (Alu2 W32 Op_OR d (Imm v)) = OR_EdIdR d v"
| "exec_alu (Alu2 W32 Op_XOR d (Reg s)) = XOR_GdEdR d s"
| "exec_alu (Alu2 W32 Op_XOR d (Imm v)) = XOR_EdIdR d v"
| "exec_alu (Alu2 W32 Op_TEST d (Reg s)) = TEST_EdGdR d s"
| "exec_alu (Alu2 W32 Op_TEST d (Imm v)) = TEST_EdIdR d v"
| "exec_alu (Alu1 W32 Op_INC d) = INC_EdR d"
| "exec_alu (Alu1 W32 Op_DEC d) = DEC_EdR d"
| "exec_alu (Alu1 W32 Op_NEG d) = NEG_EdR d"
| "exec_alu (Alu1 W32 Op_NOT d) = NOT_EdR d"
| "exec_alu (Xadd W8 d s) = XADD_EbGbR d s"
| "exec_alu (Xadd W16 d s) = XADD_EwGwR d s"
| "exec_alu (Xadd W32 d s) = XADD_EdGdR d s"
| "exec_alu (Cmpxchg W8 d s) = CMPXCHG_EbGbR d s"
| "exec_alu (Cmpxchg W16 d s) = CMPXCHG_EwGwR d s"
| "exec_alu (Cmpxchg W32 d s) = CMPXCHG_EdGdR d s"
| "exec_alu (Convert Op_CBW) = CBW"
| "exec_alu (Convert Op_CWDE) = CWDE"
| "exec_alu (Convert Op_CWD) = CWD"
| "exec_alu (Convert Op_CDQ) = CDQ"

section \<open>The reference\<close>

primrec bits :: "width \<Rightarrow> nat" where
  "bits W8 = 8" | "bits W16 = 16" | "bits W32 = 32"

primrec reg_of :: "width \<Rightarrow> nat \<Rightarrow> bx_cpu \<Rightarrow> DWord" where
  "reg_of W8 k c = BX_READ_8BIT_REG k c"
| "reg_of W16 k c = BX_READ_16BIT_REG k c"
| "reg_of W32 k c = BX_READ_32BIT_REG k c"

primrec operand_value :: "width \<Rightarrow> operand \<Rightarrow> bx_cpu \<Rightarrow> DWord" where
  "operand_value w (Reg s) c = reg_of w s c"
| "operand_value w (Imm v) c = v"

text \<open>What the destination holds afterwards, before truncation; comparison and test keep it.\<close>

primrec ref_value :: "alu_op \<Rightarrow> bool \<Rightarrow> DWord \<Rightarrow> DWord \<Rightarrow> DWord" where
  "ref_value Op_ADD cf a b = a + b"
| "ref_value Op_ADC cf a b = a + b + of_bool cf"
| "ref_value Op_SBB cf a b = a - b - of_bool cf"
| "ref_value Op_SUB cf a b = a - b"
| "ref_value Op_CMP cf a b = a"
| "ref_value Op_AND cf a b = a AND b"
| "ref_value Op_OR cf a b = a OR b"
| "ref_value Op_XOR cf a b = a XOR b"
| "ref_value Op_TEST cf a b = a"

primrec ref_flags :: "alu_op \<Rightarrow> nat \<Rightarrow> bool \<Rightarrow> DWord \<Rightarrow> DWord \<Rightarrow> oszapc" where
  "ref_flags Op_ADD n cf a b = sum_oszapc n a b False"
| "ref_flags Op_ADC n cf a b = sum_oszapc n a b cf"
| "ref_flags Op_SBB n cf a b = diff_oszapc n a b cf"
| "ref_flags Op_SUB n cf a b = diff_oszapc n a b False"
| "ref_flags Op_CMP n cf a b = diff_oszapc n a b False"
| "ref_flags Op_AND n cf a b = logic_oszapc n (a AND b)"
| "ref_flags Op_OR n cf a b = logic_oszapc n (a OR b)"
| "ref_flags Op_XOR n cf a b = logic_oszapc n (a XOR b)"
| "ref_flags Op_TEST n cf a b = logic_oszapc n (a AND b)"

text \<open>INC and DEC keep the carry, NOT keeps all flags.\<close>

primrec ref_value1 :: "alu_op1 \<Rightarrow> DWord \<Rightarrow> DWord" where
  "ref_value1 Op_INC a = a + 1"
| "ref_value1 Op_DEC a = a - 1"
| "ref_value1 Op_NEG a = - a"
| "ref_value1 Op_NOT a = NOT a"

primrec ref_flags1 :: "alu_op1 \<Rightarrow> nat \<Rightarrow> oszapc \<Rightarrow> DWord \<Rightarrow> oszapc" where
  "ref_flags1 Op_INC n f a = (sum_oszapc n a 1 False)\<lparr>vCF := vCF f\<rparr>"
| "ref_flags1 Op_DEC n f a = (diff_oszapc n a 1 False)\<lparr>vCF := vCF f\<rparr>"
| "ref_flags1 Op_NEG n f a = diff_oszapc n 0 a False"
| "ref_flags1 Op_NOT n f a = f"

text \<open>
  The general registers after a write of \<open>v\<close> to register \<open>d\<close> of a width, bit by bit: the low 8, 16 or 32 bits of
  register \<open>d\<close>, or bits 8 to 15 of register \<open>d - 4\<close> for AH, CH, DH and BH, are those of \<open>v\<close>, all others what they were.
\<close>

primrec field_bit :: "width \<Rightarrow> nat \<Rightarrow> nat \<Rightarrow> nat \<Rightarrow> bool" where
  "field_bit W8 d r k = (if d < 4 then r = d \<and> k < 8 else r = d - 4 \<and> 8 \<le> k \<and> k < 16)"
| "field_bit W16 d r k = (r = d \<and> k < 16)"
| "field_bit W32 d r k = (r = d \<and> k < 32)"

definition field_start :: "width \<Rightarrow> nat \<Rightarrow> nat" where
  "field_start w d = (if w = W8 \<and> 4 \<le> d then 8 else 0)"

definition reg_written :: "width \<Rightarrow> nat \<Rightarrow> DWord \<Rightarrow> (nat \<Rightarrow> DWord) \<Rightarrow> (nat \<Rightarrow> DWord) \<Rightarrow> bool" where
  "reg_written w d v g g' \<longleftrightarrow>
     (\<forall>r k. bit (g' r) k = (if field_bit w d r k then bit v (k - field_start w d) else bit (g r) k))"

fun regs_written :: "(width \<times> nat \<times> DWord) list \<Rightarrow> (nat \<Rightarrow> DWord) \<Rightarrow> (nat \<Rightarrow> DWord) \<Rightarrow> bool" where
  "regs_written [] g g' \<longleftrightarrow> g' = g"
| "regs_written ((w, d, v) # ws) g g' \<longleftrightarrow> (\<exists>g1. reg_written w d v g g1 \<and> regs_written ws g1 g')"

text \<open>Nothing but the registers of the list and the flags changes.\<close>

definition alu_effect :: "(width \<times> nat \<times> DWord) list \<Rightarrow> oszapc \<Rightarrow> bx_cpu \<Rightarrow> bx_cpu \<Rightarrow> bool" where
  "alu_effect ws f c c' \<longleftrightarrow> regs_written ws (gen_reg c) (gen_reg c') \<and> read_oszapc (oszapc c') = f \<and>
     c' = c\<lparr>gen_reg := gen_reg c', oszapc := oszapc c'\<rparr>"

text \<open>What an instruction writes, in order, and the flags that it leaves.\<close>

fun ref_writes :: "alu_instr \<Rightarrow> bx_cpu \<Rightarrow> (width \<times> nat \<times> DWord) list" where
  "ref_writes (Alu2 w op d src) c = (if op = Op_CMP \<or> op = Op_TEST then []
     else [(w, d, ref_value op (getB_CF (oszapc c)) (reg_of w d c) (operand_value w src c))])"
| "ref_writes (Alu1 w op d) c = [(w, d, ref_value1 op (reg_of w d c))]"
| "ref_writes (Xadd w d s) c = [(w, s, reg_of w d c), (w, d, reg_of w d c + reg_of w s c)]"
| "ref_writes (Cmpxchg w d s) c =
     (if reg_of w 0 c = reg_of w d c then [(w, d, reg_of w s c)] else [(w, 0, reg_of w d c)])"
| "ref_writes (Convert Op_CBW) c = [(W16, 0, signed_take_bit 7 (gen_reg c 0))]"
| "ref_writes (Convert Op_CWDE) c = [(W32, 0, signed_take_bit 15 (gen_reg c 0))]"
| "ref_writes (Convert Op_CWD) c = [(W16, 2, if bit (gen_reg c 0) 15 then -1 else 0)]"
| "ref_writes (Convert Op_CDQ) c = [(W32, 2, if bit (gen_reg c 0) 31 then -1 else 0)]"

fun ref_oszapc :: "alu_instr \<Rightarrow> bx_cpu \<Rightarrow> oszapc" where
  "ref_oszapc (Alu2 w op d src) c =
     ref_flags op (bits w) (getB_CF (oszapc c)) (reg_of w d c) (operand_value w src c)"
| "ref_oszapc (Alu1 w op d) c = ref_flags1 op (bits w) (read_oszapc (oszapc c)) (reg_of w d c)"
| "ref_oszapc (Xadd w d s) c = sum_oszapc (bits w) (reg_of w d c) (reg_of w s c) False"
| "ref_oszapc (Cmpxchg w d s) c = diff_oszapc (bits w) (reg_of w 0 c) (reg_of w d c) False"
| "ref_oszapc (Convert v) c = read_oszapc (oszapc c)"

text \<open>The registers of an encoding are those from 0 to 7.\<close>

fun encodable :: "alu_instr \<Rightarrow> bool" where
  "encodable (Alu2 w op d src) \<longleftrightarrow> d < 8"
| "encodable (Alu1 w op d) \<longleftrightarrow> d < 8"
| "encodable (Xadd w d s) \<longleftrightarrow> d < 8 \<and> s < 8"
| "encodable (Cmpxchg w d s) \<longleftrightarrow> d < 8"
| "encodable (Convert v) \<longleftrightarrow> True"

lemma bit_2_reg: "k < 8 \<Longrightarrow> bit k 2 \<longleftrightarrow> 4 \<le> k" for k :: nat
  by (simp add: bit_iff_odd) presburger

lemma take_bit_32 [simp]: "take_bit 32 (x :: DWord) = x"
  by (rule take_bit_word_eq_self) simp

lemma read_write_8:
  "d < 8 \<Longrightarrow> k < 8 \<Longrightarrow> BX_READ_8BIT_REG k (BX_WRITE_8BIT_REG d v c) =
    (if k = d then take_bit 8 v else BX_READ_8BIT_REG k c)"
  by (auto simp: BX_READ_8BIT_REG_def BX_WRITE_8BIT_REG_def bit_2_reg get_put_field get_put_field_other)

lemma read_write_16:
  "BX_READ_16BIT_REG k (BX_WRITE_16BIT_REG d v c) = (if k = d then take_bit 16 v else BX_READ_16BIT_REG k c)"
  by (simp add: BX_READ_16BIT_REG_def BX_WRITE_16BIT_REG_def get_put_field)

lemma read_write_32:
  "BX_READ_32BIT_REG k (BX_WRITE_32BIT_REGZ d v c) = (if k = d then v else BX_READ_32BIT_REG k c)"
  by (simp add: BX_READ_32BIT_REG_def BX_WRITE_32BIT_REGZ_def)

lemma read_upd_lf [simp]:
  "BX_READ_8BIT_REG k (upd_lf f c) = BX_READ_8BIT_REG k c"
  "BX_READ_16BIT_REG k (upd_lf f c) = BX_READ_16BIT_REG k c"
  "BX_READ_32BIT_REG k (upd_lf f c) = BX_READ_32BIT_REG k c"
  "oszapc (upd_lf f c) = f (oszapc c)"
  by (simp_all add: BX_READ_8BIT_REG_def BX_READ_16BIT_REG_def BX_READ_32BIT_REG_def upd_lf_def)

lemma oszapc_write [simp]:
  "oszapc (BX_WRITE_8BIT_REG d v c) = oszapc c" "oszapc (BX_WRITE_16BIT_REG d v c) = oszapc c"
  "oszapc (BX_WRITE_32BIT_REGZ d v c) = oszapc c"
  by (simp_all add: BX_WRITE_8BIT_REG_def BX_WRITE_16BIT_REG_def BX_WRITE_32BIT_REGZ_def)

lemma take_bit_read [simp]:
  "take_bit 8 (BX_READ_8BIT_REG k c) = BX_READ_8BIT_REG k c"
  "take_bit 16 (BX_READ_16BIT_REG k c) = BX_READ_16BIT_REG k c"
  by (simp_all add: BX_READ_8BIT_REG_def BX_READ_16BIT_REG_def get_field_def)

text \<open>The shapes of the instructions: write and set flags, or only set flags.\<close>

primrec set_reg :: "width \<Rightarrow> nat \<Rightarrow> DWord \<Rightarrow> bx_cpu \<Rightarrow> bx_cpu" where
  "set_reg W8 d v c = BX_WRITE_8BIT_REG d v c"
| "set_reg W16 d v c = BX_WRITE_16BIT_REG d v c"
| "set_reg W32 d v c = BX_WRITE_32BIT_REGZ d v c"

lemma only_regs: "set_reg w d v c = c\<lparr>gen_reg := gen_reg (set_reg w d v c)\<rparr>"
  by (cases w) (simp_all add: BX_WRITE_8BIT_REG_def BX_WRITE_16BIT_REG_def BX_WRITE_32BIT_REGZ_def)

lemma set_reg_written:
  assumes "d < 8" and "take_bit (bits w) v = take_bit (bits w) v'"
  shows "reg_written w d v' (gen_reg c) (gen_reg (set_reg w d v c))"
proof -
  have b: "bit v k = bit v' k" if "k < bits w" for k using bit_of_take_bit[OF assms(2) that] .
  have hi: "bit (x :: DWord) k \<Longrightarrow> k < 32" for x k by (auto dest: bit_imp_le_length)
  show ?thesis
    unfolding reg_written_def
  proof (intro allI)
    fix r k
    show "bit (gen_reg (set_reg w d v c) r) k =
        (if field_bit w d r k then bit v' (k - field_start w d) else bit (gen_reg c r) k)"
      using b assms(1) by (cases w)
        (auto simp: BX_WRITE_8BIT_REG_def BX_WRITE_16BIT_REG_def BX_WRITE_32BIT_REGZ_def bit_put_field bit_2_reg
          field_start_def dest: hi)
  qed
qed

lemma oszapc_set_reg [simp]: "oszapc (set_reg w d v c) = oszapc c"
  by (cases w) simp_all

lemma effect_write:
  assumes "d < 8" and "take_bit (bits w) v = take_bit (bits w) v'" and "read_oszapc (g (oszapc c)) = f"
  shows "alu_effect [(w, d, v')] f c (upd_lf g (set_reg w d v c))"
proof -
  have "upd_lf g (set_reg w d v c) =
      c\<lparr>gen_reg := gen_reg (upd_lf g (set_reg w d v c)), oszapc := oszapc (upd_lf g (set_reg w d v c))\<rparr>"
    by (subst only_regs) (simp add: upd_lf_def)
  then show ?thesis using set_reg_written[OF assms(1,2), of c] assms(3)
    by (simp add: alu_effect_def) (simp add: upd_lf_def)
qed

lemma upd_lf_id: "upd_lf id c = c"
  by (simp add: upd_lf_def)

lemma effect_reg:
  assumes "d < 8" and "take_bit (bits w) v = take_bit (bits w) v'"
  shows "alu_effect [(w, d, v')] (read_oszapc (oszapc c)) c (set_reg w d v c)"
  using effect_write[where g = id and w = w and v = v and v' = v' and c = c and d = d, OF assms refl]
  by (simp add: upd_lf_id)

lemma effect_flags: "read_oszapc (g (oszapc c)) = f \<Longrightarrow> alu_effect [] f c (upd_lf g c)"
  by (simp add: alu_effect_def upd_lf_def)

lemma effect_two:
  assumes "d < 8" "s < 8" and "read_oszapc (g (oszapc c)) = f"
  shows "alu_effect [(w, s, v1), (w, d, v2)] f c (upd_lf g (set_reg w d v2 (set_reg w s v1 c)))"
proof -
  let ?c1 = "set_reg w s v1 c" and ?c2 = "set_reg w d v2 (set_reg w s v1 c)"
  have "upd_lf g ?c2 = c\<lparr>gen_reg := gen_reg (upd_lf g ?c2), oszapc := oszapc (upd_lf g ?c2)\<rparr>"
    by (subst only_regs, subst (2) only_regs) (simp add: upd_lf_def)
  then show ?thesis
    using set_reg_written[OF assms(2) refl, of w v1 c] set_reg_written[OF assms(1) refl, of w v2 ?c1] assms(3)
    by (auto simp: alu_effect_def) (auto simp: upd_lf_def)
qed

lemma sizes [simp]: "operand_size 8" "operand_size 16" "operand_size 32" "operand_size (bits w)"
  by (simp_all add: operand_size_def) (cases w; simp add: operand_size_def)

lemmas read_flags = read_ADD read_SUB read_LOGIC read_ADD(1)[where c = False, simplified]
  read_SUB(1)[where c = False, simplified]

lemma sum_trunc: "sum_oszapc n (take_bit n a) b c = sum_oszapc n a b c" "sum_oszapc n a (take_bit n b) c = sum_oszapc n a b c"
  by (simp_all add: sum_oszapc_def)

lemma diff_trunc: "diff_oszapc n (take_bit n a) b c = diff_oszapc n a b c" "diff_oszapc n a (take_bit n b) c = diff_oszapc n a b c"
  by (simp_all add: diff_oszapc_def)

primrec operand_ok :: "operand \<Rightarrow> bool" where
  "operand_ok (Reg s) \<longleftrightarrow> s < 8"
| "operand_ok (Imm v) \<longleftrightarrow> True"

lemmas defs_8 = ADD_GbEbR_def ADD_EbIbR_def ADC_GbEbR_def ADC_EbIbR_def SBB_GbEbR_def SBB_EbIbR_def
  SUB_GbEbR_def SUB_EbIbR_def CMP_GbEbR_def CMP_EbIbR_def AND_GbEbR_def AND_EbIbR_def OR_GbEbR_def
  OR_EbIbR_def XOR_GbEbR_def XOR_EbIbR_def TEST_EbGbR_def TEST_EbIbR_def
lemmas defs_16 = ADD_GwEwR_def ADD_EwIwR_def ADC_GwEwR_def ADC_EwIwR_def SBB_GwEwR_def SBB_EwIwR_def
  SUB_GwEwR_def SUB_EwIwR_def CMP_GwEwR_def CMP_EwIwR_def AND_GwEwR_def AND_EwIwR_def OR_GwEwR_def
  OR_EwIwR_def XOR_GwEwR_def XOR_EwIwR_def TEST_EwGwR_def TEST_EwIwR_def
lemmas defs_32 = ADD_GdEdR_def ADD_EdIdR_def ADC_GdEdR_def ADC_EdIdR_def SBB_GdEdR_def SBB_EdIdR_def
  SUB_GdEdR_def SUB_EdIdR_def CMP_GdEdR_def CMP_EdIdR_def AND_GdEdR_def AND_EdIdR_def OR_GdEdR_def
  OR_EdIdR_def XOR_GdEdR_def XOR_EdIdR_def TEST_EdGdR_def TEST_EdIdR_def

text \<open>Every instruction writes its value and sets its flags, or only sets them.\<close>

primrec alu_lf :: "alu_op \<Rightarrow> nat \<Rightarrow> bool \<Rightarrow> DWord \<Rightarrow> DWord \<Rightarrow> bx_lf_flags_entry \<Rightarrow> bx_lf_flags_entry" where
  "alu_lf Op_ADD n cf a b = SET_FLAGS_OSZAPC_ADD n a b (a + b)"
| "alu_lf Op_ADC n cf a b = SET_FLAGS_OSZAPC_ADD n a b (a + b + of_bool cf)"
| "alu_lf Op_SBB n cf a b = SET_FLAGS_OSZAPC_SUB n a b (a - b - of_bool cf)"
| "alu_lf Op_SUB n cf a b = SET_FLAGS_OSZAPC_SUB n a b (a - b)"
| "alu_lf Op_CMP n cf a b = SET_FLAGS_OSZAPC_SUB n a b (a - b)"
| "alu_lf Op_AND n cf a b = SET_FLAGS_OSZAPC_LOGIC n (a AND b)"
| "alu_lf Op_OR n cf a b = SET_FLAGS_OSZAPC_LOGIC n (a OR b)"
| "alu_lf Op_XOR n cf a b = SET_FLAGS_OSZAPC_LOGIC n (a XOR b)"
| "alu_lf Op_TEST n cf a b = SET_FLAGS_OSZAPC_LOGIC n (a AND b)"

lemma read_alu_lf: "operand_size n \<Longrightarrow> read_oszapc (alu_lf op n cf a b f) = ref_flags op n cf a b"
  by (cases op) (simp_all add: read_flags)

lemma exec_alu_shape:
  fixes w d src c
  defines "a \<equiv> reg_of w d c" and "b \<equiv> operand_value w src c" and "cf \<equiv> getB_CF (oszapc c)"
  shows "exec_alu (Alu2 w op d src) c =
    upd_lf (alu_lf op (bits w) cf a b) (if op = Op_CMP \<or> op = Op_TEST then c else set_reg w d (ref_value op cf a b) c)"
  unfolding a_def b_def cf_def
  by (cases w; cases op; cases src)
    (simp_all add: defs_8 defs_16 defs_32 Let_def diff_diff_eq[symmetric])

lemma alu2_effect:
  assumes "d < 8"
  shows "alu_effect (ref_writes (Alu2 w op d src) c) (ref_oszapc (Alu2 w op d src) c) c (exec_alu (Alu2 w op d src) c)"
proof -
  let ?cf = "getB_CF (oszapc c)" and ?a = "reg_of w d c" and ?b = "operand_value w src c"
  have f: "read_oszapc (alu_lf op (bits w) ?cf ?a ?b (oszapc c)) = ref_flags op (bits w) ?cf ?a ?b"
    by (rule read_alu_lf) simp
  show ?thesis
    using effect_flags[where g = "alu_lf op (bits w) ?cf ?a ?b", OF f]
      effect_write[where g = "alu_lf op (bits w) ?cf ?a ?b" and w = w, OF assms refl f]
    by (simp add: exec_alu_shape)
qed

lemma sum_0_1: "operand_size n \<Longrightarrow> sum_oszapc n a 0 True = sum_oszapc n a 1 False"
  by (auto simp: operand_size_def sum_oszapc_def Let_def)

lemma diff_0_1: "operand_size n \<Longrightarrow> diff_oszapc n a 0 True = diff_oszapc n a 1 False"
  by (auto simp: operand_size_def diff_oszapc_def Let_def)

lemma sum_cong: "take_bit n a = take_bit n a' \<Longrightarrow> sum_oszapc n a b c = sum_oszapc n a' b c"
  by (simp add: sum_oszapc_def)

lemma diff_cong: "take_bit n a = take_bit n a' \<Longrightarrow> take_bit n b = take_bit n b' \<Longrightarrow>
    diff_oszapc n a b c = diff_oszapc n a' b' c"
  by (simp add: diff_oszapc_def)

lemma take_bit_eq_iff: "take_bit n a = take_bit n b \<longleftrightarrow> uint a mod 2 ^ n = uint b mod 2 ^ n"
  by (simp only: word_uint_eq_iff take_bit_int_word)

lemma trunc_cong:
  fixes a a' b :: DWord
  assumes "operand_size n" and "take_bit n a = take_bit n a'"
  shows "take_bit n (a + b) = take_bit n (a' + b)" and "take_bit n (a - b) = take_bit n (a' - b)"
    and "take_bit n (- a) = take_bit n (- a')"
proof -
  have n: "n \<le> 32" using assms(1) by (auto simp: operand_size_def)
  have m: "x mod 4294967296 mod 2 ^ n = x mod 2 ^ n" for x :: int
    using mod_pow_mod[OF n, of x] by simp
  have a: "uint a mod 2 ^ n = uint a' mod 2 ^ n" using assms(2) by (simp only: take_bit_eq_iff)
  show "take_bit n (a + b) = take_bit n (a' + b)"
    unfolding take_bit_eq_iff uint_word_ariths using mod_add_cong[OF a refl, of "uint b"] by (simp add: m)
  show "take_bit n (a - b) = take_bit n (a' - b)"
    unfolding take_bit_eq_iff uint_word_ariths using mod_diff_cong[OF a refl, of "uint b"] by (simp add: m)
  show "take_bit n (- a) = take_bit n (- a')"
    unfolding take_bit_eq_iff uint_word_ariths using mod_diff_cong[OF refl a, of 0] by (simp add: m)
qed

lemma read_INC:
  assumes "operand_size n" and "take_bit n r = take_bit n (a + 1)"
  shows "read_oszapc (SET_FLAGS_OSZAP_ADD n (r - 1) 0 r f) = (sum_oszapc n a 1 False)\<lparr>vCF := getB_CF f\<rparr>"
proof -
  have "take_bit n (r - 1) = take_bit n a"
    using trunc_cong(2)[OF assms, of 1] by simp
  then have "sum_oszapc n (r - 1) 0 True = sum_oszapc n a 1 False"
    using sum_0_1[OF assms(1)] sum_cong by metis
  then show ?thesis using read_ADD(2)[OF assms(1), of "r - 1" 0 True f] by simp
qed

lemma read_DEC:
  assumes "operand_size n" and "take_bit n r = take_bit n (a - 1)"
  shows "read_oszapc (SET_FLAGS_OSZAP_SUB n (r + 1) 0 r f) = (diff_oszapc n a 1 False)\<lparr>vCF := getB_CF f\<rparr>"
proof -
  have "take_bit n (r + 1) = take_bit n a"
    using trunc_cong(1)[OF assms, of 1] by simp
  then have "diff_oszapc n (r + 1) 0 True = diff_oszapc n a 1 False"
    using diff_0_1[OF assms(1)] diff_cong by metis
  then show ?thesis using read_SUB(2)[OF assms(1), of "r + 1" 0 True f] by simp
qed

lemmas read_INC_DEC = read_INC read_DEC
  read_INC[of n "a + 1" a for n a, OF _ refl, simplified] read_DEC[of n "a - 1" a for n a, OF _ refl, simplified]

lemma read_NEG:
  assumes "operand_size n" and "take_bit n b = take_bit n a"
  shows "read_oszapc (SET_FLAGS_OSZAPC_SUB n 0 b (- b) f) = diff_oszapc n 0 a False"
  using read_SUB(1)[OF assms(1), of 0 b False f] diff_cong[OF refl assms(2)] by simp

lemma take_bit_neg_sext:
  fixes x :: DWord
  assumes "operand_size n"
  shows "take_bit n (- signed_take_bit (n - 1) x) = take_bit n (- x)"
  by (rule trunc_cong(3)[OF assms]) (use assms in \<open>auto simp: take_bit_signed_take_bit operand_size_def\<close>)

lemma alu1_effect:
  fixes w d c
  assumes "d < 8"
  defines "a \<equiv> reg_of w d c"
  shows "alu_effect [(w, d, ref_value1 op a)] (ref_flags1 op (bits w) (read_oszapc (oszapc c)) a) c
    (exec_alu (Alu1 w op d) c)"
proof -
  have cf: "vCF (read_oszapc f) = getB_CF f" for f by (simp add: read_oszapc_def)
  note e = effect_write[OF assms(1)] and [simp] = read_write_8[OF assms(1) assms(1)] read_write_16 read_write_32 cf
  note neg = take_bit_neg_sext[of 8, simplified] take_bit_neg_sext[of 16, simplified] take_bit_signed_take_bit
  show ?thesis
  proof (cases op)
    case Op_INC
    then show ?thesis unfolding a_def
      by (cases w) (auto simp: INC_EbR_def INC_EwR_def INC_EdR_def Let_def intro!: e[where w = W8, simplified]
        e[where w = W16, simplified] e[where w = W32, simplified] read_INC_DEC)
  next
    case Op_DEC
    then show ?thesis unfolding a_def
      by (cases w) (auto simp: DEC_EbR_def DEC_EwR_def DEC_EdR_def Let_def intro!: e[where w = W8, simplified]
        e[where w = W16, simplified] e[where w = W32, simplified] read_INC_DEC)
  next
    case Op_NEG
    then show ?thesis unfolding a_def
      by (cases w) (auto simp: NEG_EbR_def NEG_EwR_def NEG_EdR_def Let_def neg intro!: e[where w = W8, simplified]
        e[where w = W16, simplified] e[where w = W32, simplified] read_NEG)
  next
    case Op_NOT
    then show ?thesis unfolding a_def
      using effect_reg[OF assms(1) refl, of w "NOT (reg_of w d c)" c]
      by (cases w) (simp_all add: NOT_EbR_def NOT_EwR_def NOT_EdR_def)
  qed
qed

text \<open>The 16-bit CMPXCHG hands the flags a difference that is already truncated.\<close>

lemma read_SUB_trunc:
  "read_oszapc (SET_FLAGS_OSZAPC_SUB 16 a b (take_bit 16 (a - b)) f) = diff_oszapc 16 a b False"
proof -
  have "push_bit 16 (SUB_COUT_VEC a b (take_bit 16 x)) = push_bit 16 (SUB_COUT_VEC a b x)" for x
    by (rule bit_word_eqI) (auto simp: SUB_COUT_VEC_def bit_simps)
  moreover have "SUB_COUT_VEC a b (take_bit 16 x) AND LF_MASK_AF = SUB_COUT_VEC a b x AND LF_MASK_AF" for x
    by (rule bit_word_eqI) (auto simp: SUB_COUT_VEC_def lf_consts bit_simps)
  ultimately have "SET_FLAGS_OSZAPC_SUB 16 a b (take_bit 16 x) f = SET_FLAGS_OSZAPC_SUB 16 a b x f" for x
    by (simp add: SET_FLAGS_OSZAPC_SUB_def SET_FLAGS_OSZAPC_SIZE_def lf_temp_def signed_take_bit_take_bit)
  then show ?thesis using read_SUB(1)[of 16 a b False f] by simp
qed

lemma xadd_effect:
  assumes "d < 8" "s < 8"
  shows "alu_effect (ref_writes (Xadd w d s) c) (ref_oszapc (Xadd w d s) c) c (exec_alu (Xadd w d s) c)"
proof -
  let ?g = "SET_FLAGS_OSZAPC_ADD (bits w) (reg_of w d c) (reg_of w s c) (reg_of w d c + reg_of w s c)"
  have "read_oszapc (?g (oszapc c)) = sum_oszapc (bits w) (reg_of w d c) (reg_of w s c) False"
    using read_flags by simp
  from effect_two[where g = ?g and c = c, OF assms this, of w "reg_of w d c" "reg_of w d c + reg_of w s c"] show ?thesis
    by (cases w) (simp_all add: XADD_EbGbR_def XADD_EwGwR_def XADD_EdGdR_def Let_def)
qed

lemma small_eq:
  assumes "operand_size n" "take_bit n a = a" "take_bit n b = b"
  shows "take_bit n (a - b) = 0 \<longleftrightarrow> a = (b :: DWord)"
proof
  assume "take_bit n (a - b) = 0"
  then show "a = b" using trunc_cong(1)[OF assms(1), of "a - b" 0 b] assms(2,3) by simp
qed simp

lemma cmpxchg_effect:
  assumes "d < 8"
  shows "alu_effect (ref_writes (Cmpxchg w d s) c) (ref_oszapc (Cmpxchg w d s) c) c (exec_alu (Cmpxchg w d s) c)"
proof -
  let ?a = "reg_of w 0 c" and ?b = "reg_of w d c"
  let ?x = "if w = W16 then take_bit 16 (?a - ?b) else ?a - ?b"
  define g where "g = SET_FLAGS_OSZAPC_SUB (bits w) ?a ?b ?x"
  have f: "read_oszapc (g (oszapc c)) = diff_oszapc (bits w) ?a ?b False"
  proof -
    show ?thesis
      using read_SUB(1)[of "bits w" ?a ?b False "oszapc c"] read_SUB_trunc[of ?a ?b "oszapc c"] by (cases w) (simp_all add: g_def)
  qed
  have x: "?x = 0 \<longleftrightarrow> ?a = ?b" using small_eq[of 16 "BX_READ_16BIT_REG 0 c" "BX_READ_16BIT_REG d c"] by (cases w) simp_all
  have z: "(0 :: nat) < 8" by simp
  have shape: "exec_alu (Cmpxchg w d s) c =
      (if ?x = 0 then set_reg w d (reg_of w s c) (upd_lf g c) else set_reg w 0 ?b (upd_lf g c))"
    by (cases w) (simp_all add: CMPXCHG_EbGbR_def CMPXCHG_EwGwR_def CMPXCHG_EdGdR_def Let_def reg_names g_def)
  have swap: "set_reg w k v (upd_lf g c) = upd_lf g (set_reg w k v c)" for k v
    by (cases w) (simp_all add: upd_lf_def BX_WRITE_8BIT_REG_def BX_WRITE_16BIT_REG_def BX_WRITE_32BIT_REGZ_def)
  show ?thesis
  proof (cases "?a = ?b")
    case True
    then show ?thesis
      using effect_write[where g = g and w = w, OF assms refl f, of "reg_of w s c"] by (simp add: shape swap x)
  next
    case False
    then show ?thesis
      using effect_write[where g = g and w = w, OF z refl f, of ?b] by (simp add: shape swap x)
  qed
qed

lemma convert_effect:
  "alu_effect (ref_writes (Convert v) c) (ref_oszapc (Convert v) c) c (exec_alu (Convert v) c)"
proof -
  have e: "alu_effect [(w, d, v')] (read_oszapc (oszapc c)) c (set_reg w d v c)"
    if "d < 8" "take_bit (bits w) v = take_bit (bits w) v'" for w d v v'
    using effect_reg[OF that] .
  have m: "x AND 0x8000 \<noteq> 0 \<longleftrightarrow> bit x 15" "x AND 0x80000000 \<noteq> 0 \<longleftrightarrow> bit x 31" for x :: DWord
    using and_exp_eq_0_iff_not_bit[of x 15] and_exp_eq_0_iff_not_bit[of x 31] by simp_all
  have ax: "bit (BX_READ_16BIT_REG 0 c) 15 = bit (gen_reg c 0) 15" by (simp add: BX_READ_16BIT_REG_def bit_get_field)
  have one: "take_bit 16 0xFFFF = take_bit 16 (-1 :: DWord)" "(0xFFFFFFFF :: DWord) = -1"
    by (simp_all add: take_bit_minus_one_eq_mask mask_eq_exp_minus_1)
  have s: "signed_take_bit 7 (BX_READ_8BIT_REG 0 c) = signed_take_bit 7 (gen_reg c 0)"
    "signed_take_bit 15 (BX_READ_16BIT_REG 0 c) = signed_take_bit 15 (gen_reg c 0)"
    by (rule bit_word_eqI; simp add: bit_signed_take_bit_iff min_less_iff_disj BX_READ_8BIT_REG_def BX_READ_16BIT_REG_def bit_get_field)+
  show ?thesis
  proof (cases v)
    case Op_CBW
    then show ?thesis using e[of 0 W16 "signed_take_bit 7 (gen_reg c 0)"] by (simp add: CBW_def reg_names s)
  next
    case Op_CWDE
    then show ?thesis using e[of 0 W32 "signed_take_bit 15 (gen_reg c 0)"] by (simp add: CWDE_def reg_names s)
  next
    case Op_CWD
    then show ?thesis using e[of 2 W16 "0xFFFF" "-1"] e[of 2 W16 0] one by (simp add: CWD_def reg_names m ax)
  next
    case Op_CDQ
    have "alu_effect [(W32, 2, -1)] (read_oszapc (oszapc c)) c (set_reg W32 2 0xFFFFFFFF c)"
      by (rule e) (simp, simp only: one(2))
    then show ?thesis using Op_CDQ e[of 2 W32 0]
      by (simp add: CDQ_def reg_names m BX_READ_32BIT_REG_def)
  qed
qed

text \<open>
  C36. The integer and logical instructions on registers and immediates, of all three widths, agree with a reference
  on values: ADD, ADC, SBB, SUB, CMP, AND, OR, XOR, TEST, INC, DEC, NEG, NOT, XADD, CMPXCHG, CBW, CWDE, CWD and CDQ.
  Every bit of the destination register of the width gets the bit of the value, every other bit of every general
  register, the upper halves included, and every other part of the state but the flags stays as it is; and the lazily
  computed flags are those of the sum, difference or logical result, carry in included. INC and DEC keep the carry,
  NOT and the conversions all flags; CMP and TEST write no register.
\<close>

theorem alu_reference:
  assumes "encodable i"
  shows "alu_effect (ref_writes i c) (ref_oszapc i c) c (exec_alu i c)"
  using assms alu2_effect alu1_effect xadd_effect cmpxchg_effect convert_effect
  by (cases i) (simp_all del: ref_writes.simps(1) add: ref_writes.simps(2))

text \<open>AH holds 0xFF; adding 1 gives zero, a carry, an auxiliary carry and even parity; AL and the upper half stay.\<close>

lemma alu_reference_witness:
  "let c = sample_cpu\<lparr>gen_reg := \<lambda>_. 0x1234FF7F\<rparr>; c' = ADD_EbIbR 4 1 c
   in gen_reg c' 0 = 0x1234007F \<and> gen_reg c' 1 = 0x1234FF7F \<and>
      read_oszapc (oszapc c') = \<lparr>vOF = False, vSF = False, vZF = True, vAF = True, vPF = True, vCF = True\<rparr>"
proof -
  define c where "c = sample_cpu\<lparr>gen_reg := \<lambda>_. 0x1234FF7F\<rparr>"
  have r: "BX_READ_8BIT_REG 4 c = 0xFF"
    by (simp add: c_def BX_READ_8BIT_REG_def get_field_def bit_2_reg) (simp only: bit_0 One_nat_def[symmetric] odd_one simp_thms)
  have g: "gen_reg c = (\<lambda>_. 0x1234FF7F)" by (simp add: c_def)
  have "alu_effect [(W8, 4, BX_READ_8BIT_REG 4 c + 1)] (sum_oszapc 8 (BX_READ_8BIT_REG 4 c) 1 False) c (ADD_EbIbR 4 1 c)"
    using alu_reference[of "Alu2 W8 Op_ADD 4 (Imm 1)" c] by simp
  then have w: "reg_written W8 4 0x100 (\<lambda>_. 0x1234FF7F) (gen_reg (ADD_EbIbR 4 1 c))"
    and f: "read_oszapc (oszapc (ADD_EbIbR 4 1 c)) = sum_oszapc 8 0xFF 1 False"
    by (simp_all add: alu_effect_def r g)
  have b: "bit (gen_reg (ADD_EbIbR 4 1 c) r) k =
      (if r = 0 \<and> 8 \<le> k \<and> k < 16 then bit (0x100 :: DWord) (k - 8) else bit (0x1234FF7F :: DWord) k)" for r k
    using w by (simp add: reg_written_def field_start_def)
  have "gen_reg (ADD_EbIbR 4 1 c) 0 = put_field 8 8 0x100 0x1234FF7F" "gen_reg (ADD_EbIbR 4 1 c) 1 = 0x1234FF7F"
    by (rule bit_word_eqI; simp add: b bit_put_field)+
  moreover have "put_field 8 8 0x100 0x1234FF7F = (0x1234007F :: DWord)" by (simp add: put_field_def take_bit_eq_mask mask_eq_exp_minus_1)
  ultimately show ?thesis
    using f by (simp add: c_def[symmetric] Let_def sum_oszapc_def parity_xor bit_numeral_rec bit_Suc_0_iff)
qed

end
