(* ===== verification/Muldiv.thy ===== *)
theory Muldiv
  imports Arith Utils
begin

text \<open>
  Multiplication and division by a register: \<open>bochs-2.6.7/cpu/mult8.cc\<close>, \<open>mult16.cc\<close>, \<open>mult32.cc\<close>. Signed C
  values are integers; C's division truncates (\<open>cdiv\<close>, \<open>cmod\<close>). The reference is the arithmetic of the
  unsigned or signed values of the registers; the last section shows that the \<open>divl\<close> that ZeOS uses to turn the
  time stamp counter into ticks is what the CPU does for \<open>DIV\<close>.
\<close>

unbundle bit_operations_syntax

section \<open>8-bit operands\<close>

definition s8 :: "DWord \<Rightarrow> int" where "s8 w = signed_take_bit 7 (uint w)"
definition s16 :: "DWord \<Rightarrow> int" where "s16 w = signed_take_bit 15 (uint w)"

definition ASSERT_FLAGS_OxxxxC :: "bx_cpu \<Rightarrow> bx_cpu" where
  "ASSERT_FLAGS_OxxxxC = upd_lf (SET_FLAGS_OxxxxC True True)"

definition MUL_ALEbR :: "nat \<Rightarrow> bx_cpu \<Rightarrow> bx_cpu" where
  "MUL_ALEbR s c =
     (let op1 = BX_READ_8BIT_REG AL c; op2 = BX_READ_8BIT_REG s c; product_16 = op1 * op2;
          product_8l = product_16 AND 0xFF; product_8h = take_bit 8 (drop_bit 8 product_16);
          c1 = upd_lf (SET_FLAGS_OSZAPC_LOGIC 8 product_8l) (BX_WRITE_16BIT_REG AX product_16 c)
      in if product_8h \<noteq> 0 then ASSERT_FLAGS_OxxxxC c1 else c1)"

definition IMUL_ALEbR :: "nat \<Rightarrow> bx_cpu \<Rightarrow> bx_cpu" where
  "IMUL_ALEbR s c =
     (let op1 = s8 (BX_READ_8BIT_REG AL c); op2 = s8 (BX_READ_8BIT_REG s c); product_16 = op1 * op2;
          product_8 = word_of_int product_16 AND 0xFF;
          c1 = upd_lf (SET_FLAGS_OSZAPC_LOGIC 8 product_8) (BX_WRITE_16BIT_REG AX (word_of_int product_16) c)
      in if product_16 \<noteq> signed_take_bit 7 product_16 then ASSERT_FLAGS_OxxxxC c1 else c1)"

definition DIV_ALEbR :: "nat \<Rightarrow> bx_cpu \<Rightarrow> bx_cpu instr" where
  "DIV_ALEbR s c =
     (let op2 = BX_READ_8BIT_REG s c in
      if op2 = 0 then Inl (BX_DE_EXCEPTION, 0)
      else
        (let op1 = BX_READ_16BIT_REG AX c; quotient_16 = op1 div op2; remainder_8 = op1 mod op2;
             quotient_8l = quotient_16 AND 0xFF
         in if quotient_16 \<noteq> quotient_8l then Inl (BX_DE_EXCEPTION, 0)
            else Inr (BX_WRITE_8BIT_REG AH remainder_8 (BX_WRITE_8BIT_REG AL quotient_8l c))))"

definition IDIV_ALEbR :: "nat \<Rightarrow> bx_cpu \<Rightarrow> bx_cpu instr" where
  "IDIV_ALEbR s c =
     (let op1 = s16 (BX_READ_16BIT_REG AX c) in
      if op1 = - 0x8000 then Inl (BX_DE_EXCEPTION, 0)
      else
        (let op2 = s8 (BX_READ_8BIT_REG s c) in
         if op2 = 0 then Inl (BX_DE_EXCEPTION, 0)
         else
           (let quotient_16 = cdiv op1 op2; remainder_8 = cmod op1 op2;
                quotient_8l = signed_take_bit 7 quotient_16
            in if quotient_16 \<noteq> quotient_8l then Inl (BX_DE_EXCEPTION, 0)
               else Inr (BX_WRITE_8BIT_REG AH (word_of_int remainder_8)
                          (BX_WRITE_8BIT_REG AL (word_of_int quotient_8l) c)))))"

section \<open>16-bit operands\<close>

definition MUL_AXEwR :: "nat \<Rightarrow> bx_cpu \<Rightarrow> bx_cpu" where
  "MUL_AXEwR s c =
     (let op1 = BX_READ_16BIT_REG AX c; op2 = BX_READ_16BIT_REG s c; product_32 = op1 * op2;
          product_16l = product_32 AND 0xFFFF; product_16h = take_bit 16 (drop_bit 16 product_32);
          c1 = BX_WRITE_16BIT_REG DX product_16h (BX_WRITE_16BIT_REG AX product_16l c);
          c2 = upd_lf (SET_FLAGS_OSZAPC_LOGIC 16 product_16l) c1
      in if product_16h \<noteq> 0 then ASSERT_FLAGS_OxxxxC c2 else c2)"

definition IMUL_AXEwR :: "nat \<Rightarrow> bx_cpu \<Rightarrow> bx_cpu" where
  "IMUL_AXEwR s c =
     (let op1 = s16 (BX_READ_16BIT_REG AX c); op2 = s16 (BX_READ_16BIT_REG s c); product_32 = op1 * op2;
          product_16l = word_of_int product_32 AND 0xFFFF; product_16h = word_of_int (drop_bit 16 product_32);
          c1 = BX_WRITE_16BIT_REG DX product_16h (BX_WRITE_16BIT_REG AX product_16l c);
          c2 = upd_lf (SET_FLAGS_OSZAPC_LOGIC 16 product_16l) c1
      in if product_32 \<noteq> signed_take_bit 15 product_32 then ASSERT_FLAGS_OxxxxC c2 else c2)"

definition DIV_AXEwR :: "nat \<Rightarrow> bx_cpu \<Rightarrow> bx_cpu instr" where
  "DIV_AXEwR s c =
     (let op2 = BX_READ_16BIT_REG s c in
      if op2 = 0 then Inl (BX_DE_EXCEPTION, 0)
      else
        (let op1 = push_bit 16 (BX_READ_16BIT_REG DX c) OR BX_READ_16BIT_REG AX c;
             quotient_32 = op1 div op2; remainder_16 = op1 mod op2; quotient_16l = quotient_32 AND 0xFFFF
         in if quotient_32 \<noteq> quotient_16l then Inl (BX_DE_EXCEPTION, 0)
            else Inr (BX_WRITE_16BIT_REG DX remainder_16 (BX_WRITE_16BIT_REG AX quotient_16l c))))"

definition IDIV_AXEwR :: "nat \<Rightarrow> bx_cpu \<Rightarrow> bx_cpu instr" where
  "IDIV_AXEwR s c =
     (let op1 = sint (push_bit 16 (BX_READ_16BIT_REG DX c) OR BX_READ_16BIT_REG AX c) in
      if op1 = - 0x80000000 then Inl (BX_DE_EXCEPTION, 0)
      else
        (let op2 = s16 (BX_READ_16BIT_REG s c) in
         if op2 = 0 then Inl (BX_DE_EXCEPTION, 0)
         else
           (let quotient_32 = cdiv op1 op2; remainder_16 = cmod op1 op2;
                quotient_16l = signed_take_bit 15 quotient_32
            in if quotient_32 \<noteq> quotient_16l then Inl (BX_DE_EXCEPTION, 0)
               else Inr (BX_WRITE_16BIT_REG DX (word_of_int remainder_16)
                          (BX_WRITE_16BIT_REG AX (word_of_int quotient_16l) c)))))"

definition IMUL_16 :: "nat \<Rightarrow> int \<Rightarrow> int \<Rightarrow> bx_cpu \<Rightarrow> bx_cpu" where
  "IMUL_16 d op2 op3 c =
     (let product_32 = op2 * op3; product_16 = word_of_int product_32 AND 0xFFFF;
          c1 = upd_lf (SET_FLAGS_OSZAPC_LOGIC 16 product_16) (BX_WRITE_16BIT_REG d product_16 c)
      in if product_32 \<noteq> signed_take_bit 15 product_32 then ASSERT_FLAGS_OxxxxC c1 else c1)"

definition IMUL_GwEwIwR :: "nat \<Rightarrow> nat \<Rightarrow> DWord \<Rightarrow> bx_cpu \<Rightarrow> bx_cpu" where
  "IMUL_GwEwIwR d s imm c = IMUL_16 d (s16 (BX_READ_16BIT_REG s c)) (s16 imm) c"

definition IMUL_GwEwR :: "nat \<Rightarrow> nat \<Rightarrow> bx_cpu \<Rightarrow> bx_cpu" where
  "IMUL_GwEwR d s c = IMUL_16 d (s16 (BX_READ_16BIT_REG d c)) (s16 (BX_READ_16BIT_REG s c)) c"

section \<open>32-bit operands\<close>

definition MUL_EAXEdR :: "nat \<Rightarrow> bx_cpu \<Rightarrow> bx_cpu" where
  "MUL_EAXEdR s c =
     (let op1 = BX_READ_32BIT_REG EAX c; op2 = BX_READ_32BIT_REG s c;
          product_64 = (ucast op1 :: QWord) * ucast op2;
          product_32l = ucast product_64; product_32h = ucast (drop_bit 32 product_64);
          c1 = BX_WRITE_32BIT_REGZ EDX product_32h (BX_WRITE_32BIT_REGZ EAX product_32l c);
          c2 = upd_lf (SET_FLAGS_OSZAPC_LOGIC 32 product_32l) c1
      in if product_32h \<noteq> 0 then ASSERT_FLAGS_OxxxxC c2 else c2)"

definition IMUL_EAXEdR :: "nat \<Rightarrow> bx_cpu \<Rightarrow> bx_cpu" where
  "IMUL_EAXEdR s c =
     (let op1 = sint (BX_READ_32BIT_REG EAX c); op2 = sint (BX_READ_32BIT_REG s c); product_64 = op1 * op2;
          product_32l = word_of_int product_64; product_32h = word_of_int (drop_bit 32 product_64);
          c1 = BX_WRITE_32BIT_REGZ EDX product_32h (BX_WRITE_32BIT_REGZ EAX product_32l c);
          c2 = upd_lf (SET_FLAGS_OSZAPC_LOGIC 32 product_32l) c1
      in if product_64 \<noteq> signed_take_bit 31 product_64 then ASSERT_FLAGS_OxxxxC c2 else c2)"

definition DIV_EAXEdR :: "nat \<Rightarrow> bx_cpu \<Rightarrow> bx_cpu instr" where
  "DIV_EAXEdR s c =
     (let op2 = BX_READ_32BIT_REG s c in
      if op2 = 0 then Inl (BX_DE_EXCEPTION, 0)
      else
        (let op1 = push_bit 32 (ucast (BX_READ_32BIT_REG EDX c) :: QWord) + ucast (BX_READ_32BIT_REG EAX c);
             quotient_64 = op1 div ucast op2; remainder_32 = ucast (op1 mod ucast op2);
             quotient_32l = ucast (quotient_64 AND 0xFFFFFFFF) :: DWord
         in if quotient_64 \<noteq> ucast quotient_32l then Inl (BX_DE_EXCEPTION, 0)
            else Inr (BX_WRITE_32BIT_REGZ EDX remainder_32 (BX_WRITE_32BIT_REGZ EAX quotient_32l c))))"

definition IDIV_EAXEdR :: "nat \<Rightarrow> bx_cpu \<Rightarrow> bx_cpu instr" where
  "IDIV_EAXEdR s c =
     (let op1 = sint (push_bit 32 (ucast (BX_READ_32BIT_REG EDX c) :: QWord) OR ucast (BX_READ_32BIT_REG EAX c)) in
      if op1 = - 0x8000000000000000 then Inl (BX_DE_EXCEPTION, 0)
      else
        (let op2 = sint (BX_READ_32BIT_REG s c) in
         if op2 = 0 then Inl (BX_DE_EXCEPTION, 0)
         else
           (let quotient_64 = cdiv op1 op2; remainder_32 = cmod op1 op2;
                quotient_32l = signed_take_bit 31 quotient_64
            in if quotient_64 \<noteq> quotient_32l then Inl (BX_DE_EXCEPTION, 0)
               else Inr (BX_WRITE_32BIT_REGZ EDX (word_of_int remainder_32)
                          (BX_WRITE_32BIT_REGZ EAX (word_of_int quotient_32l) c)))))"

definition IMUL_32 :: "nat \<Rightarrow> int \<Rightarrow> int \<Rightarrow> bx_cpu \<Rightarrow> bx_cpu" where
  "IMUL_32 d op2 op3 c =
     (let product_64 = op2 * op3; product_32 = word_of_int product_64;
          c1 = upd_lf (SET_FLAGS_OSZAPC_LOGIC 32 product_32) (BX_WRITE_32BIT_REGZ d product_32 c)
      in if product_64 \<noteq> signed_take_bit 31 product_64 then ASSERT_FLAGS_OxxxxC c1 else c1)"

definition IMUL_GdEdIdR :: "nat \<Rightarrow> nat \<Rightarrow> DWord \<Rightarrow> bx_cpu \<Rightarrow> bx_cpu" where
  "IMUL_GdEdIdR d s imm c = IMUL_32 d (sint (BX_READ_32BIT_REG s c)) (sint imm) c"

definition IMUL_GdEdR :: "nat \<Rightarrow> nat \<Rightarrow> bx_cpu \<Rightarrow> bx_cpu" where
  "IMUL_GdEdR d s c = IMUL_32 d (sint (BX_READ_32BIT_REG d c)) (sint (BX_READ_32BIT_REG s c)) c"

section \<open>The reference\<close>

primrec hi_reg :: "width \<Rightarrow> nat" where
  "hi_reg W8 = AH" | "hi_reg W16 = DX" | "hi_reg W32 = EDX"

definition lo_reg :: nat where "lo_reg = 0"

text \<open>The double-width operand in the register pair, unsigned and signed.\<close>

definition dividend :: "width \<Rightarrow> bx_cpu \<Rightarrow> int" where
  "dividend w c = uint (reg_of w (hi_reg w) c) * 2 ^ bits w + uint (reg_of w lo_reg c)"

definition sdividend :: "width \<Rightarrow> bx_cpu \<Rightarrow> int" where
  "sdividend w c = signed_take_bit (2 * bits w - 1) (dividend w c)"

definition sreg_of :: "width \<Rightarrow> nat \<Rightarrow> bx_cpu \<Rightarrow> int" where
  "sreg_of w k c = signed_take_bit (bits w - 1) (uint (reg_of w k c))"

definition set_pair :: "width \<Rightarrow> int \<Rightarrow> int \<Rightarrow> bx_cpu \<Rightarrow> bx_cpu" where
  "set_pair w hi lo c = set_reg w (hi_reg w) (word_of_int hi) (set_reg w lo_reg (word_of_int lo) c)"

primrec exec_div :: "width \<Rightarrow> nat \<Rightarrow> bx_cpu \<Rightarrow> bx_cpu instr" where
  "exec_div W8 s c = DIV_ALEbR s c" | "exec_div W16 s c = DIV_AXEwR s c" | "exec_div W32 s c = DIV_EAXEdR s c"

primrec exec_idiv :: "width \<Rightarrow> nat \<Rightarrow> bx_cpu \<Rightarrow> bx_cpu instr" where
  "exec_idiv W8 s c = IDIV_ALEbR s c" | "exec_idiv W16 s c = IDIV_AXEwR s c" | "exec_idiv W32 s c = IDIV_EAXEdR s c"

primrec exec_mul :: "width \<Rightarrow> nat \<Rightarrow> bx_cpu \<Rightarrow> bx_cpu" where
  "exec_mul W8 s c = MUL_ALEbR s c" | "exec_mul W16 s c = MUL_AXEwR s c" | "exec_mul W32 s c = MUL_EAXEdR s c"

primrec exec_imul :: "width \<Rightarrow> nat \<Rightarrow> bx_cpu \<Rightarrow> bx_cpu" where
  "exec_imul W8 s c = IMUL_ALEbR s c" | "exec_imul W16 s c = IMUL_AXEwR s c" | "exec_imul W32 s c = IMUL_EAXEdR s c"

section \<open>Unsigned division\<close>

lemma mask_words:
  "(0xFF :: DWord) = mask 8" "(0xFFFF :: DWord) = mask 16" "(0xFFFFFFFF :: QWord) = mask 32"
  by (simp_all add: mask_eq_exp_minus_1)

lemma take_bit_self: "take_bit n w = w \<longleftrightarrow> uint w < 2 ^ n"
proof -
  have "take_bit n w = w \<longleftrightarrow> uint w mod 2 ^ n = uint w" by (simp only: word_uint_eq_iff take_bit_int_word)
  also have "\<dots> \<longleftrightarrow> uint w < 2 ^ n"
    by (metis mod_pos_pos_trivial pos_mod_bound uint_ge_0 zero_less_numeral zero_less_power)
  finally show ?thesis .
qed

lemma reg_bound: "uint (reg_of w k c) < 2 ^ bits w"
proof -
  have "take_bit (bits w) (reg_of w k c) = reg_of w k c" by (cases w) simp_all
  then show ?thesis by (simp only: take_bit_self)
qed

lemma AX_halves: "uint (BX_READ_16BIT_REG AX c) = uint (BX_READ_8BIT_REG AH c) * 2 ^ 8 + uint (BX_READ_8BIT_REG AL c)"
proof -
  define h l where "h = BX_READ_8BIT_REG AH c" and "l = BX_READ_8BIT_REG AL c"
  have "BX_READ_16BIT_REG AX c = push_bit 8 h OR l"
    by (rule bit_word_eqI) (auto simp: h_def l_def BX_READ_16BIT_REG_def BX_READ_8BIT_REG_def reg_names bit_2_reg
      get_field_def bit_simps)
  also have "\<dots> = push_bit 8 h + l"
    by (rule disjunctive_add[symmetric]) (auto simp: l_def BX_READ_8BIT_REG_def reg_names bit_2_reg get_field_def bit_simps)
  finally have "BX_READ_16BIT_REG AX c = push_bit 8 h + l" .
  moreover have "uint h < 2 ^ 8" "uint l < 2 ^ 8"
    using reg_bound[of W8 AH c] reg_bound[of W8 AL c] by (simp_all add: h_def l_def)
  ultimately show ?thesis unfolding h_def[symmetric] l_def[symmetric]
    by (simp add: push_bit_eq_mult uint_word_ariths)
qed

lemma DX_AX: "uint (push_bit 16 (BX_READ_16BIT_REG DX c) OR BX_READ_16BIT_REG AX c) = dividend W16 c"
proof -
  define h l where "h = BX_READ_16BIT_REG DX c" and "l = BX_READ_16BIT_REG AX c"
  have "push_bit 16 h OR l = push_bit 16 h + l"
    by (rule disjunctive_add[symmetric]) (auto simp: l_def BX_READ_16BIT_REG_def get_field_def bit_simps)
  moreover have "uint h < 2 ^ 16" "uint l < 2 ^ 16"
    using reg_bound[of W16 DX c] reg_bound[of W16 AX c] by (simp_all add: h_def l_def)
  ultimately show ?thesis
    by (simp add: push_bit_eq_mult uint_word_ariths dividend_def lo_reg_def h_def l_def reg_names)
qed

lemma EDX_EAX: "uint (push_bit 32 (ucast (BX_READ_32BIT_REG EDX c) :: QWord) OR ucast (BX_READ_32BIT_REG EAX c)) = dividend W32 c"
  by (simp only: uint_join) (simp add: dividend_def lo_reg_def reg_names)

lemma word_div_mod: "a div b = word_of_int (uint a div uint b)" "a mod b = word_of_int (uint a mod uint b)"
  by (simp_all add: uint_div_distrib[symmetric] uint_mod_distrib[symmetric] flip: word_uint_eq_iff)

lemma quotient_fits:
  "(q :: DWord) \<noteq> q AND 0xFF \<longleftrightarrow> 2 ^ 8 \<le> uint q" "q \<noteq> q AND 0xFFFF \<longleftrightarrow> 2 ^ 16 \<le> uint q"
  using take_bit_self[of 8 q] take_bit_self[of 16 q] by (auto simp: mask_words take_bit_eq_mask)

lemma quotient_fits_64: "(q :: QWord) \<noteq> ucast (ucast (q AND 0xFFFFFFFF) :: DWord) \<longleftrightarrow> 2 ^ 32 \<le> uint q"
proof -
  have "ucast (ucast (q AND 0xFFFFFFFF) :: DWord) = take_bit 32 q"
    by (rule bit_word_eqI) (auto simp: mask_words bit_simps)
  then show ?thesis using take_bit_self[of 32 q] by auto
qed

lemma div_reference:
  "exec_div w s c =
    (let N = dividend w c; M = uint (reg_of w s c)
     in if M = 0 \<or> 2 ^ bits w \<le> N div M then Inl (BX_DE_EXCEPTION, 0) else Inr (set_pair w (N mod M) (N div M) c))"
proof (cases w)
  case W8
  define op1 op2 where "op1 = BX_READ_16BIT_REG AX c" and "op2 = BX_READ_8BIT_REG s c"
  have N: "uint op1 = dividend W8 c" using AX_halves[of c] by (simp add: op1_def dividend_def lo_reg_def AL_def)
  have "exec_div W8 s c = (if op2 = 0 then Inl (BX_DE_EXCEPTION, 0)
      else if op1 div op2 \<noteq> op1 div op2 AND 0xFF then Inl (BX_DE_EXCEPTION, 0)
      else Inr (BX_WRITE_8BIT_REG AH (op1 mod op2) (BX_WRITE_8BIT_REG AL (op1 div op2) c)))"
    by (auto simp: DIV_ALEbR_def Let_def op1_def op2_def)
  then show ?thesis unfolding W8 quotient_fits
    by (simp add: Let_def N[symmetric] op2_def[symmetric] set_pair_def lo_reg_def AL_def uint_div_distrib
        word_div_mod[of op1 op2, symmetric] uint_0_iff)
next
  case W16
  define op1 op2 where "op1 = push_bit 16 (BX_READ_16BIT_REG DX c) OR BX_READ_16BIT_REG AX c"
    and "op2 = BX_READ_16BIT_REG s c"
  have N: "uint op1 = dividend W16 c" using DX_AX[of c] by (simp add: op1_def)
  have "exec_div W16 s c = (if op2 = 0 then Inl (BX_DE_EXCEPTION, 0)
      else if op1 div op2 \<noteq> op1 div op2 AND 0xFFFF then Inl (BX_DE_EXCEPTION, 0)
      else Inr (BX_WRITE_16BIT_REG DX (op1 mod op2) (BX_WRITE_16BIT_REG AX (op1 div op2) c)))"
    by (auto simp: DIV_AXEwR_def Let_def op1_def op2_def)
  then show ?thesis unfolding W16 quotient_fits
    by (simp add: Let_def N[symmetric] op2_def[symmetric] set_pair_def lo_reg_def AX_def uint_div_distrib
        word_div_mod[of op1 op2, symmetric] uint_0_iff)
next
  case W32
  define op1 op2 where "op1 = push_bit 32 (ucast (BX_READ_32BIT_REG EDX c) :: QWord) + ucast (BX_READ_32BIT_REG EAX c)"
    and "op2 = BX_READ_32BIT_REG s c"
  have "op1 = push_bit 32 (ucast (BX_READ_32BIT_REG EDX c) :: QWord) OR ucast (BX_READ_32BIT_REG EAX c)"
    unfolding op1_def by (rule disjunctive_add) (auto simp: bit_simps dest: bit_imp_le_length)
  then have N: "uint op1 = dividend W32 c" using EDX_EAX[of c] by simp
  have M: "uint (ucast op2 :: QWord) = uint op2" using uint_lt2p[of op2] by (simp add: unsigned_ucast_eq take_bit_int_eq_self)
  define q where "q = op1 div (ucast op2 :: QWord)"
  have e: "exec_div W32 s c = (if op2 = 0 then Inl (BX_DE_EXCEPTION, 0)
      else if q \<noteq> ucast (ucast (q AND 0xFFFFFFFF) :: DWord) then Inl (BX_DE_EXCEPTION, 0)
      else Inr (BX_WRITE_32BIT_REGZ EDX (ucast (op1 mod ucast op2)) (BX_WRITE_32BIT_REGZ EAX (ucast (q AND 0xFFFFFFFF)) c)))"
    by (simp add: DIV_EAXEdR_def Let_def op1_def op2_def q_def)
  have uq: "uint q = dividend W32 c div uint op2" by (simp add: q_def uint_div_distrib M N)
  have l: "ucast (q AND 0xFFFFFFFF) = (word_of_int (dividend W32 c div uint op2) :: DWord)"
  proof -
    have "ucast (q AND 0xFFFFFFFF) = (ucast q :: DWord)"
      by (rule bit_word_eqI) (auto simp: mask_words bit_simps)
    then show ?thesis by (simp add: uq[symmetric])
  qed
  have r: "ucast (op1 mod ucast op2) = (word_of_int (dividend W32 c mod uint op2) :: DWord)"
  proof -
    have "ucast (op1 mod ucast op2) = (word_of_int (uint (op1 mod ucast op2)) :: DWord)" by simp
    then show ?thesis by (simp add: uint_mod_distrib M N del: word_of_int_uint)
  qed
  show ?thesis unfolding W32 e unfolding quotient_fits_64 unfolding uq l r
    by (simp add: Let_def op2_def[symmetric] set_pair_def lo_reg_def EAX_def uint_0_iff)
qed

section \<open>Signed division\<close>

definition in_range :: "nat \<Rightarrow> int \<Rightarrow> bool" where
  "in_range n x \<longleftrightarrow> - (2 ^ (n - 1)) \<le> x \<and> x < 2 ^ (n - 1)"

text \<open>The test for the smallest dividend only anticipates the overflow that the quotient would have.\<close>

lemma min_overflows:
  fixes M P :: int
  assumes "M \<noteq> 0" "- P \<le> M" "M < P" "0 < P"
  shows "cdiv (- (2 * P * P)) M < - P \<or> P \<le> cdiv (- (2 * P * P)) M"
proof -
  have "2 * P * P div P \<le> 2 * P * P div \<bar>M\<bar>" using assms by (intro zdiv_mono2) auto
  moreover have "2 * P * P div P = 2 * P" using assms(4) by simp
  ultimately have "2 * P \<le> \<bar>2 * P * P\<bar> div \<bar>M\<bar>" using assms(4) by (simp add: abs_mult)
  then have "P < \<bar>- (2 * P * P)\<bar> div \<bar>M\<bar>" using assms(4) by simp
  moreover have "cdiv (- (2 * P * P)) M = sgn (- (2 * P * P)) * sgn M * (\<bar>- (2 * P * P)\<bar> div \<bar>M\<bar>)"
    by (simp add: cdiv_def signed_divide_int_def)
  moreover have "sgn (- (2 * P * P)) = - 1" using assms(4) by (simp add: sgn_mult)
  moreover have "sgn M = 1 \<or> sgn M = - 1" using assms(1) by (auto simp: sgn_if)
  ultimately show ?thesis by auto
qed

lemma signed_range: "signed_take_bit (n - 1) x = x \<longleftrightarrow> in_range n x" for x :: int
  by (simp add: in_range_def signed_take_bit_int_eq_self_iff)

lemma sreg_range: "in_range (bits w) (sreg_of w k c)"
  unfolding signed_range[symmetric] sreg_of_def by simp

text \<open>The code of all widths: the first test, the second test, the third test.\<close>

lemma idiv_shape:
  assumes "in_range n M" and "0 < n" and k: "k = - (2 ^ (2 * n - 1))" and m: "m = n - 1"
  shows "(if N = k then Inl e
      else if M = 0 then Inl e
      else if cdiv N M \<noteq> signed_take_bit m (cdiv N M) then Inl e
      else Inr (g (signed_take_bit m (cdiv N M)))) =
    (if M = 0 \<or> \<not> in_range n (cdiv N M) then Inl e else Inr (g (cdiv N M)))"
proof -
  have r: "signed_take_bit m (cdiv N M) = cdiv N M \<longleftrightarrow> in_range n (cdiv N M)"
    unfolding m by (rule signed_range)
  have "\<not> in_range n (cdiv N M)" if "N = k" "M \<noteq> 0"
  proof -
    obtain j where j: "n = Suc j" using assms(2) by (cases n) simp_all
    have "2 * n - 1 = Suc (j + j)" by (simp add: j)
    then have p: "k = - (2 * 2 ^ j * 2 ^ j)" unfolding k by (simp add: power_add)
    have "- (2 ^ j) \<le> M" "M < 2 ^ j" using assms(1) by (simp_all add: in_range_def j)
    with that(2) have "cdiv k M < - (2 ^ j) \<or> 2 ^ j \<le> cdiv k M" unfolding p by (intro min_overflows) simp_all
    then show ?thesis using that(1) by (auto simp: in_range_def j)
  qed
  then show ?thesis using r by (cases "N = k"; cases "M = 0"; cases "in_range n (cdiv N M)") simp_all
qed

lemma idiv_reference:
  "exec_idiv w s c =
    (let N = sdividend w c; M = sreg_of w s c
     in if M = 0 \<or> \<not> in_range (bits w) (cdiv N M) then Inl (BX_DE_EXCEPTION, 0)
        else Inr (set_pair w (cmod N M) (cdiv N M) c))"
proof (cases w)
  case W8
  have N: "s16 (BX_READ_16BIT_REG AX c) = sdividend W8 c"
    using AX_halves[of c] by (simp add: s16_def sdividend_def dividend_def lo_reg_def AL_def)
  have M: "s8 (BX_READ_8BIT_REG s c) = sreg_of W8 s c" by (simp add: s8_def sreg_of_def)
  show ?thesis unfolding W8 exec_idiv.simps IDIV_ALEbR_def Let_def N M
    by (subst idiv_shape[OF sreg_range[of W8 s c], where k = "- 0x8000" and m = 7 and e = "(BX_DE_EXCEPTION, 0)" and N = "sdividend W8 c" and
        g = "\<lambda>q. BX_WRITE_8BIT_REG AH (word_of_int (cmod (sdividend W8 c) (sreg_of W8 s c))) (BX_WRITE_8BIT_REG AL (word_of_int q) c)"])
      (simp_all add: set_pair_def lo_reg_def AL_def)
next
  case W16
  have N: "sint (push_bit 16 (BX_READ_16BIT_REG DX c) OR BX_READ_16BIT_REG AX c) = sdividend W16 c"
    using DX_AX[of c] by (simp add: sint_uint sdividend_def)
  have M: "s16 (BX_READ_16BIT_REG s c) = sreg_of W16 s c" by (simp add: s16_def sreg_of_def)
  show ?thesis unfolding W16 exec_idiv.simps IDIV_AXEwR_def Let_def N M
    by (subst idiv_shape[OF sreg_range[of W16 s c], where k = "- 0x80000000" and m = 15 and e = "(BX_DE_EXCEPTION, 0)" and N = "sdividend W16 c" and
        g = "\<lambda>q. BX_WRITE_16BIT_REG DX (word_of_int (cmod (sdividend W16 c) (sreg_of W16 s c))) (BX_WRITE_16BIT_REG AX (word_of_int q) c)"])
      (simp_all add: set_pair_def lo_reg_def AX_def)
next
  case W32
  have N: "sint (push_bit 32 (ucast (BX_READ_32BIT_REG EDX c) :: QWord) OR ucast (BX_READ_32BIT_REG EAX c)) = sdividend W32 c"
    using EDX_EAX[of c] by (simp add: sint_uint sdividend_def)
  have M: "sint (BX_READ_32BIT_REG s c) = sreg_of W32 s c" by (simp add: sint_uint sreg_of_def)
  show ?thesis unfolding W32 exec_idiv.simps IDIV_EAXEdR_def Let_def N M
    by (subst idiv_shape[OF sreg_range[of W32 s c], where k = "- 0x8000000000000000" and m = 31 and e = "(BX_DE_EXCEPTION, 0)" and N = "sdividend W32 c" and
        g = "\<lambda>q. BX_WRITE_32BIT_REGZ EDX (word_of_int (cmod (sdividend W32 c) (sreg_of W32 s c))) (BX_WRITE_32BIT_REGZ EAX (word_of_int q) c)"])
      (simp_all add: set_pair_def lo_reg_def EAX_def)
qed

section \<open>Multiplication\<close>

text \<open>The product goes to the register pair; overflow and carry say that its low half alone does not hold it.\<close>

definition mul_lf :: "nat \<Rightarrow> DWord \<Rightarrow> bool \<Rightarrow> bx_lf_flags_entry \<Rightarrow> bx_lf_flags_entry" where
  "mul_lf n low ov f =
     (let f1 = SET_FLAGS_OSZAPC_LOGIC n low f in if ov then SET_FLAGS_OxxxxC True True f1 else f1)"

lemma read_mul_lf:
  "operand_size n \<Longrightarrow> read_oszapc (mul_lf n low ov f) = (logic_oszapc n low)\<lparr>vOF := ov, vCF := ov\<rparr>"
  by (simp add: mul_lf_def Let_def read_LOGIC read_OxxxxC) (simp add: logic_oszapc_def)

lemma upd_mul_lf:
  "(if ov then ASSERT_FLAGS_OxxxxC (upd_lf (SET_FLAGS_OSZAPC_LOGIC n low) c) else upd_lf (SET_FLAGS_OSZAPC_LOGIC n low) c) =
    upd_lf (mul_lf n low ov) c"
  by (simp add: upd_lf_def mul_lf_def ASSERT_FLAGS_OxxxxC_def)

definition mul_effect :: "width \<Rightarrow> int \<Rightarrow> bool \<Rightarrow> bx_cpu \<Rightarrow> bx_cpu \<Rightarrow> bool" where
  "mul_effect w P ov c c' \<longleftrightarrow>
     gen_reg c' = gen_reg (set_pair w (P div 2 ^ bits w) P c) \<and>
     read_oszapc (oszapc c') = (logic_oszapc (bits w) (take_bit (bits w) (word_of_int P)))\<lparr>vOF := ov, vCF := ov\<rparr> \<and>
     c' = c\<lparr>gen_reg := gen_reg c', oszapc := oszapc c'\<rparr>"

lemma mul_effectI:
  assumes "c' = upd_lf (mul_lf (bits w) (take_bit (bits w) (word_of_int P)) ov) (set_pair w (P div 2 ^ bits w) P c)"
  shows "mul_effect w P ov c c'"
proof -
  have o: "oszapc (set_pair w a b c) = oszapc c" for a b
    by (cases w) (simp_all add: set_pair_def)
  have "set_pair w a b c = c\<lparr>gen_reg := gen_reg (set_pair w a b c)\<rparr>" for a b
    by (cases w) (simp_all add: set_pair_def BX_WRITE_8BIT_REG_def BX_WRITE_16BIT_REG_def BX_WRITE_32BIT_REGZ_def)
  then have "c' = c\<lparr>gen_reg := gen_reg c', oszapc := oszapc c'\<rparr>"
    unfolding assms by (simp add: upd_lf_def)
  then show ?thesis unfolding mul_effect_def by (simp add: assms upd_lf_def o read_mul_lf)
qed

text \<open>The stores of the code write the two halves of the product.\<close>

lemma set_reg_trunc: "take_bit (bits w) v = take_bit (bits w) v' \<Longrightarrow> set_reg w d v c = set_reg w d v' c"
  by (cases w) (simp_all add: BX_WRITE_8BIT_REG_def BX_WRITE_16BIT_REG_def put_field_def)

lemma set_reg_take [simp]: "set_reg w d (take_bit (bits w) v) c = set_reg w d v c"
  by (rule set_reg_trunc) simp

lemma AX_pair: "BX_WRITE_16BIT_REG AX (word_of_int p) c = set_pair W8 (p div 2 ^ 8) p c"
proof -
  have "put_field 0 16 (word_of_int p) e =
      put_field 8 8 (word_of_int (drop_bit 8 p)) (put_field 0 8 (word_of_int p) e)" for e :: DWord
    by (rule bit_word_eqI) (auto simp: bit_put_field bit_simps)
  then show ?thesis
    by (simp add: set_pair_def BX_WRITE_16BIT_REG_def BX_WRITE_8BIT_REG_def reg_names bit_0 lo_reg_def drop_bit_eq_div)
qed

lemma uint_drop: "uint (drop_bit n x) = uint x div 2 ^ n"
proof -
  have "uint (drop_bit n x) = drop_bit n (uint x)" by (rule bit_eqI) (simp add: bit_unsigned_iff bit_drop_bit_eq)
  then show ?thesis by (simp only: drop_bit_eq_div)
qed

lemma high_half:
  fixes x :: "'a::len word"
  assumes "uint x < 2 ^ (n + m)"
  shows "uint (take_bit m (drop_bit n x)) = uint x div 2 ^ n" and "take_bit m (drop_bit n x) \<noteq> 0 \<longleftrightarrow> 2 ^ n \<le> uint x"
proof -
  have "uint x div 2 ^ n * 2 ^ n \<le> uint x" by (simp add: minus_mod_eq_div_mult[symmetric])
  also have "\<dots> < 2 ^ m * 2 ^ n" using assms by (simp add: power_add mult.commute)
  finally have lt: "uint x div 2 ^ n < 2 ^ m" by simp
  have "uint (take_bit m (drop_bit n x)) = take_bit m (uint x div 2 ^ n)"
    by (simp only: take_bit_int_word uint_drop) (simp only: take_bit_eq_mod)
  also have "\<dots> = uint x div 2 ^ n" using lt by (simp add: take_bit_int_eq_self pos_imp_zdiv_nonneg_iff)
  finally show e: "uint (take_bit m (drop_bit n x)) = uint x div 2 ^ n" .
  have "uint x div 2 ^ n = 0 \<longleftrightarrow> uint x < 2 ^ n" using zero_le_power[of "2 :: int" n] by (auto simp: zdiv_eq_0_iff)
  then show "take_bit m (drop_bit n x) \<noteq> 0 \<longleftrightarrow> 2 ^ n \<le> uint x" by (simp add: uint_0_iff[symmetric] e) linarith
qed

lemma product_bound: "uint (reg_of w j c) * uint (reg_of w k c) < 2 ^ (bits w + bits w)"
  unfolding power_add by (rule mult_strict_mono') (use reg_bound in auto)

lemma mul_reference:
  "mul_effect w (uint (reg_of w lo_reg c) * uint (reg_of w s c))
     (2 ^ bits w \<le> uint (reg_of w lo_reg c) * uint (reg_of w s c)) c (exec_mul w s c)"
proof (cases w)
  case W8
  define p where "p = BX_READ_8BIT_REG AL c * BX_READ_8BIT_REG s c"
  have b: "uint (BX_READ_8BIT_REG AL c) * uint (BX_READ_8BIT_REG s c) < 2 ^ (8 + 8)"
    using product_bound[of W8 AL c s] by simp
  then have up: "uint p = uint (BX_READ_8BIT_REG AL c) * uint (BX_READ_8BIT_REG s c)"
    by (simp add: p_def uint_word_ariths)
  have "exec_mul W8 s c = upd_lf (mul_lf 8 (take_bit 8 p) (2 ^ 8 \<le> uint p)) (BX_WRITE_16BIT_REG AX p c)"
    by (simp only: exec_mul.simps MUL_ALEbR_def Let_def p_def[symmetric] upd_mul_lf mask_words take_bit_eq_mask[symmetric]
      high_half(2)[OF b[folded up]])
  also have "BX_WRITE_16BIT_REG AX p c = set_pair W8 (uint p div 2 ^ 8) (uint p) c" using AX_pair[of "uint p"] by simp
  finally have "mul_effect W8 (uint p) (2 ^ 8 \<le> uint p) c (exec_mul W8 s c)" by (intro mul_effectI) simp
  then show ?thesis unfolding up by (simp add: W8 lo_reg_def AL_def)
next
  case W16
  define p where "p = BX_READ_16BIT_REG AX c * BX_READ_16BIT_REG s c"
  have b: "uint (BX_READ_16BIT_REG AX c) * uint (BX_READ_16BIT_REG s c) < 2 ^ (16 + 16)"
    using product_bound[of W16 AX c s] by simp
  then have up: "uint p = uint (BX_READ_16BIT_REG AX c) * uint (BX_READ_16BIT_REG s c)"
    by (simp add: p_def uint_word_ariths)
  have "exec_mul W16 s c = upd_lf (mul_lf 16 (take_bit 16 p) (2 ^ 16 \<le> uint p))
      (BX_WRITE_16BIT_REG DX (take_bit 16 (drop_bit 16 p)) (BX_WRITE_16BIT_REG AX (take_bit 16 p) c))"
    by (simp only: exec_mul.simps MUL_AXEwR_def Let_def p_def[symmetric] upd_mul_lf mask_words take_bit_eq_mask[symmetric]
      high_half(2)[OF b[folded up]])
  also have "take_bit 16 (drop_bit 16 p) = word_of_int (uint p div 2 ^ 16)"
    by (simp only: high_half(1)[OF b[folded up], symmetric] word_of_int_uint)
  also have "BX_WRITE_16BIT_REG AX (take_bit 16 p) c = set_reg W16 0 p c"
    using set_reg_take[of W16 0 p c] by (simp add: AX_def)
  finally have "mul_effect W16 (uint p) (2 ^ 16 \<le> uint p) c (exec_mul W16 s c)"
    by (intro mul_effectI) (simp add: set_pair_def lo_reg_def)
  then show ?thesis unfolding up by (simp add: W16 lo_reg_def AX_def)
next
  case W32
  define p where "p = (ucast (BX_READ_32BIT_REG EAX c) :: QWord) * ucast (BX_READ_32BIT_REG s c)"
  have b: "uint (BX_READ_32BIT_REG EAX c) * uint (BX_READ_32BIT_REG s c) < 2 ^ (32 + 32)"
    using product_bound[of W32 EAX c s] by simp
  have z: "uint (ucast a :: QWord) = uint a" for a :: DWord
    using uint_lt2p[of a] by (simp add: unsigned_ucast_eq take_bit_int_eq_self)
  have up: "uint p = uint (BX_READ_32BIT_REG EAX c) * uint (BX_READ_32BIT_REG s c)"
    using b by (simp add: p_def uint_word_ariths z)
  have h: "ucast (drop_bit 32 p) = (word_of_int (uint p div 2 ^ 32) :: DWord)"
    by (simp only: uint_drop[symmetric] of_int_uint)
  have "uint p div 2 ^ 32 < 2 ^ 32" using uint_lt2p[of p] by simp
  then have "uint (ucast (drop_bit 32 p) :: DWord) = uint p div 2 ^ 32" unfolding h
    by (simp add: uint_word_of_int pos_imp_zdiv_nonneg_iff)
  then have nz: "(ucast (drop_bit 32 p) :: DWord) \<noteq> 0 \<longleftrightarrow> 2 ^ 32 \<le> uint p"
    by (simp add: uint_0_iff[symmetric] zdiv_eq_0_iff) linarith
  note nz' = nz[unfolded h]
  have "exec_mul W32 s c = upd_lf (mul_lf 32 (word_of_int (uint p)) (2 ^ 32 \<le> uint p))
      (set_pair W32 (uint p div 2 ^ 32) (uint p) c)"
    by (simp only: exec_mul.simps MUL_EAXEdR_def Let_def p_def[symmetric] h upd_mul_lf nz' of_int_uint)
      (simp only: set_pair_def hi_reg.simps set_reg.simps lo_reg_def EAX_def of_int_uint)
  then have "mul_effect W32 (uint p) (2 ^ 32 \<le> uint p) c (exec_mul W32 s c)"
    by (intro mul_effectI) (simp only: bits.simps take_bit_32)
  then show ?thesis unfolding up by (simp add: W32 lo_reg_def EAX_def)
qed

text \<open>The signed product, in one register pair or in one register.\<close>

lemma of_int_low: "word_of_int p AND mask n = take_bit n (word_of_int p)"
  by (simp add: take_bit_eq_mask)

lemma imul_overflow: "0 < n \<Longrightarrow> m = n - 1 \<Longrightarrow> p \<noteq> signed_take_bit m p \<longleftrightarrow> \<not> in_range n p" for p :: int
  using signed_range[of n p] by auto

lemma sreg_simps: "s8 (BX_READ_8BIT_REG k c) = sreg_of W8 k c" "s16 (BX_READ_16BIT_REG k c) = sreg_of W16 k c"
  "sint (BX_READ_32BIT_REG k c) = sreg_of W32 k c"
  by (simp_all add: s8_def s16_def sint_uint sreg_of_def)

lemma imul_reference:
  "mul_effect w (sreg_of w lo_reg c * sreg_of w s c) (\<not> in_range (bits w) (sreg_of w lo_reg c * sreg_of w s c)) c
     (exec_imul w s c)"
proof (rule mul_effectI, cases w)
  case W8
  show "exec_imul w s c = upd_lf (mul_lf (bits w) (take_bit (bits w) (word_of_int (sreg_of w lo_reg c * sreg_of w s c)))
      (\<not> in_range (bits w) (sreg_of w lo_reg c * sreg_of w s c)))
      (set_pair w (sreg_of w lo_reg c * sreg_of w s c div 2 ^ bits w) (sreg_of w lo_reg c * sreg_of w s c) c)"
    unfolding W8 exec_imul.simps IMUL_ALEbR_def Let_def sreg_simps mask_words of_int_low upd_mul_lf AX_pair
    using imul_overflow[of 8 7] by (simp add: lo_reg_def AL_def)
next
  case W16
  show "exec_imul w s c = upd_lf (mul_lf (bits w) (take_bit (bits w) (word_of_int (sreg_of w lo_reg c * sreg_of w s c)))
      (\<not> in_range (bits w) (sreg_of w lo_reg c * sreg_of w s c)))
      (set_pair w (sreg_of w lo_reg c * sreg_of w s c div 2 ^ bits w) (sreg_of w lo_reg c * sreg_of w s c) c)"
    unfolding W16 exec_imul.simps IMUL_AXEwR_def Let_def sreg_simps mask_words of_int_low upd_mul_lf
    using imul_overflow[of 16 15] set_reg_take[of W16] by (simp add: lo_reg_def AX_def set_pair_def drop_bit_eq_div)
next
  case W32
  show "exec_imul w s c = upd_lf (mul_lf (bits w) (take_bit (bits w) (word_of_int (sreg_of w lo_reg c * sreg_of w s c)))
      (\<not> in_range (bits w) (sreg_of w lo_reg c * sreg_of w s c)))
      (set_pair w (sreg_of w lo_reg c * sreg_of w s c div 2 ^ bits w) (sreg_of w lo_reg c * sreg_of w s c) c)"
    unfolding W32 exec_imul.simps IMUL_EAXEdR_def Let_def sreg_simps upd_mul_lf
    using imul_overflow[of 32 31] by (simp add: lo_reg_def EAX_def set_pair_def drop_bit_eq_div)
qed

datatype imul_instr = Imul16_RR nat nat | Imul16_RRI nat nat DWord | Imul32_RR nat nat | Imul32_RRI nat nat DWord

fun exec_imul2 :: "imul_instr \<Rightarrow> bx_cpu \<Rightarrow> bx_cpu" where
  "exec_imul2 (Imul16_RR d s) c = IMUL_GwEwR d s c"
| "exec_imul2 (Imul16_RRI d s imm) c = IMUL_GwEwIwR d s imm c"
| "exec_imul2 (Imul32_RR d s) c = IMUL_GdEdR d s c"
| "exec_imul2 (Imul32_RRI d s imm) c = IMUL_GdEdIdR d s imm c"

fun imul_dest :: "imul_instr \<Rightarrow> width \<times> nat" where
  "imul_dest (Imul16_RR d s) = (W16, d)"
| "imul_dest (Imul16_RRI d s imm) = (W16, d)"
| "imul_dest (Imul32_RR d s) = (W32, d)"
| "imul_dest (Imul32_RRI d s imm) = (W32, d)"

fun imul_product :: "imul_instr \<Rightarrow> bx_cpu \<Rightarrow> int" where
  "imul_product (Imul16_RR d s) c = sreg_of W16 d c * sreg_of W16 s c"
| "imul_product (Imul16_RRI d s imm) c = sreg_of W16 s c * s16 imm"
| "imul_product (Imul32_RR d s) c = sreg_of W32 d c * sreg_of W32 s c"
| "imul_product (Imul32_RRI d s imm) c = sreg_of W32 s c * sint imm"

lemma imul2_shape:
  "exec_imul2 i c = (let (w, d) = imul_dest i; P = imul_product i c
     in upd_lf (mul_lf (bits w) (take_bit (bits w) (word_of_int P)) (\<not> in_range (bits w) P)) (set_reg w d (word_of_int P) c))"
  using imul_overflow[of 16 15] imul_overflow[of 32 31] set_reg_take[of W16]
  by (cases i) (simp_all add: IMUL_GwEwR_def IMUL_GwEwIwR_def IMUL_GdEdR_def IMUL_GdEdIdR_def IMUL_16_def IMUL_32_def
    Let_def sreg_simps mask_words of_int_low upd_mul_lf)

lemma imul2_reference:
  assumes "imul_dest i = (w, d)" "d < 8"
  shows "alu_effect [(w, d, word_of_int (imul_product i c))]
    ((logic_oszapc (bits w) (take_bit (bits w) (word_of_int (imul_product i c))))
       \<lparr>vOF := \<not> in_range (bits w) (imul_product i c), vCF := \<not> in_range (bits w) (imul_product i c)\<rparr>) c (exec_imul2 i c)"
  unfolding imul2_shape using assms by (simp add: Let_def) (intro effect_write; simp add: read_mul_lf)

section \<open>The \<open>divl\<close> of ZeOS\<close>

text \<open>
  C37. Multiplication and division by a register of any width follow the arithmetic of the values: \<open>DIV\<close> and \<open>IDIV\<close>
  raise \<open>#DE\<close> on a zero divisor or a quotient that the low register cannot hold, and otherwise leave quotient and
  remainder (the signed ones truncated towards zero) in the register pair; \<open>MUL\<close> and \<open>IMUL\<close> leave the product in the
  pair, and set \<open>OF\<close> and \<open>CF\<close> exactly when its low half is not the product.
\<close>

theorem muldiv_reference:
  "exec_div w s c =
      (let N = dividend w c; M = uint (reg_of w s c)
       in if M = 0 \<or> 2 ^ bits w \<le> N div M then Inl (BX_DE_EXCEPTION, 0) else Inr (set_pair w (N mod M) (N div M) c)) \<and>
   exec_idiv w s c =
      (let N = sdividend w c; M = sreg_of w s c
       in if M = 0 \<or> \<not> in_range (bits w) (cdiv N M) then Inl (BX_DE_EXCEPTION, 0)
          else Inr (set_pair w (cmod N M) (cdiv N M) c)) \<and>
   (let P = uint (reg_of w lo_reg c) * uint (reg_of w s c) in mul_effect w P (2 ^ bits w \<le> P) c (exec_mul w s c)) \<and>
   (let P = sreg_of w lo_reg c * sreg_of w s c in mul_effect w P (\<not> in_range (bits w) P) c (exec_imul w s c))"
  using div_reference[of w s c] idiv_reference[of w s c] mul_reference[of w c s] imul_reference[of w c s]
  by (simp only: Let_def simp_thms)

lemma muldiv_reference_witness:
  "\<exists>c'. exec_div W8 1 (sample_cpu\<lparr>gen_reg := (\<lambda>_. 0)(0 := 200, 1 := 7)\<rparr>) = Inr c' \<and>
     dividend W8 c' = (200 mod 7) * 2 ^ 8 + 200 div 7"
  using muldiv_reference[THEN conjunct1, of W8 1 "sample_cpu\<lparr>gen_reg := (\<lambda>_. 0)(0 := 200, 1 := 7)\<rparr>"]
  by (simp add: Let_def dividend_def lo_reg_def reg_names set_pair_def read_write_8 BX_READ_8BIT_REG_def
    BX_WRITE_8BIT_REG_def get_field_def put_field_def mask_eq_exp_minus_1 bit_0)

text \<open>
  C40. The \<open>divl\<close> with which the kernel's \<open>do_div\<close> computes its ticks is the \<open>DIV\<close> of the CPU on \<open>EDX:EAX\<close>: it
  traps exactly when \<open>DIV\<close> raises an exception, and its results are the registers that \<open>DIV\<close> leaves.
\<close>

theorem divl_by_DIV:
  "divl (BX_READ_32BIT_REG EDX c) (BX_READ_32BIT_REG EAX c) (BX_READ_32BIT_REG s c) =
    (case DIV_EAXEdR s c of Inl e \<Rightarrow> None
     | Inr c' \<Rightarrow> Some (BX_READ_32BIT_REG EAX c', BX_READ_32BIT_REG EDX c'))"
  using div_reference[of W32 s c]
  by (simp add: divl_def Let_def set_pair_def dividend_def lo_reg_def reg_names read_write_32 uint_0_iff)

end
