(* ===== verification/Phys.thy ===== *)
theory Phys
  imports Cpu
begin

text \<open>
  The physical memory as the page walks of the emulated CPU access it: \<open>access_read_physical\<close> and
  \<open>access_write_physical\<close> of \<open>bochs-2.6.7/cpu/paging.cc\<close> over \<open>readPhysicalPage\<close> and \<open>writePhysicalPage\<close> of
  \<open>memory/memory.cc\<close>, for the aligned accesses of 4 and 8 bytes that a walk makes.

  Modelled is the memory itself, little endian and behind the A20 gate. The addresses that the local APIC or a
  memory handler of a device claims, the ROMs and the shadow memory from \<open>0xc0000\<close> to \<open>0xfffff\<close> are parameters of
  the state: \<open>device_read\<close> is what they answer, and a write to them leaves the memory as it is (shadow memory and the BIOS are taken as read-only). The write stamps of
  the instruction cache and the monitor of \<open>MWAIT\<close> are not modelled.
\<close>

unbundle bit_operations_syntax

section \<open>State\<close>

record bx_mem =
  ram :: "QWord \<Rightarrow> Byte"
  mem_len :: QWord
  a20_mask :: QWord
  lapic_selected :: "QWord \<Rightarrow> bool"
  handler_at :: "QWord \<Rightarrow> bool"
  device_read :: "QWord \<Rightarrow> nat \<Rightarrow> QWord"
  host_mem :: "QWord \<Rightarrow> nat \<Rightarrow> nat"

definition A20ADDR :: "QWord \<Rightarrow> bx_mem \<Rightarrow> QWord" where
  "A20ADDR x m = x AND a20_mask m"

definition set_enable_a20 :: "bool \<Rightarrow> bx_mem \<Rightarrow> bx_mem" where
  "set_enable_a20 value m =
     (if value then m\<lparr>a20_mask := 0xffffffffffffffff\<rparr> else m\<lparr>a20_mask := 0xffffffffffefffff\<rparr>)"

text \<open>\<open>BIOS_MASK\<close> has 32 bits, the BIOS ends at 4 GB.\<close>

definition is_bios :: "QWord \<Rightarrow> bool" where
  "is_bios a \<longleftrightarrow> 0xffe00000 \<le> a \<and> \<not> 0xffffffff < a"

definition is_ram :: "QWord \<Rightarrow> bx_mem \<Rightarrow> bool" where
  "is_ram a m \<longleftrightarrow> \<not> handler_at m a \<and> a < mem_len m \<and> \<not> is_bios a \<and> (a < 0x000c0000 \<or> 0x00100000 \<le> a)"

section \<open>Accesses of 4 bytes\<close>

definition get_dword :: "QWord \<Rightarrow> (QWord \<Rightarrow> Byte) \<Rightarrow> DWord" where
  "get_dword a r = ucast (r a) OR push_bit 8 (ucast (r (a + 1))) OR push_bit 16 (ucast (r (a + 2))) OR
     push_bit 24 (ucast (r (a + 3)))"

definition put_dword :: "QWord \<Rightarrow> DWord \<Rightarrow> (QWord \<Rightarrow> Byte) \<Rightarrow> QWord \<Rightarrow> Byte" where
  "put_dword a v r = r(a := ucast v, a + 1 := ucast (drop_bit 8 v), a + 2 := ucast (drop_bit 16 v),
     a + 3 := ucast (drop_bit 24 v))"

definition readPhysicalPage_4 :: "QWord \<Rightarrow> bx_mem \<Rightarrow> DWord" where
  "readPhysicalPage_4 addr m =
     (let a20addr = A20ADDR addr m
      in if is_ram a20addr m then get_dword a20addr (ram m) else ucast (device_read m a20addr 4))"

definition writePhysicalPage_4 :: "QWord \<Rightarrow> DWord \<Rightarrow> bx_mem \<Rightarrow> bx_mem" where
  "writePhysicalPage_4 addr v m =
     (let a20addr = A20ADDR addr m
      in if is_ram a20addr m then m\<lparr>ram := put_dword a20addr v (ram m)\<rparr> else m)"

definition access_read_physical_4 :: "QWord \<Rightarrow> bx_mem \<Rightarrow> DWord" where
  "access_read_physical_4 paddr m =
     (if lapic_selected m paddr then ucast (device_read m paddr 4) else readPhysicalPage_4 paddr m)"

definition access_write_physical_4 :: "QWord \<Rightarrow> DWord \<Rightarrow> bx_mem \<Rightarrow> bx_mem" where
  "access_write_physical_4 paddr v m = (if lapic_selected m paddr then m else writePhysicalPage_4 paddr v m)"

section \<open>Accesses of 8 bytes\<close>

definition get_qword :: "QWord \<Rightarrow> (QWord \<Rightarrow> Byte) \<Rightarrow> QWord" where
  "get_qword a r = ucast (get_dword a r) OR push_bit 32 (ucast (get_dword (a + 4) r))"

definition put_qword :: "QWord \<Rightarrow> QWord \<Rightarrow> (QWord \<Rightarrow> Byte) \<Rightarrow> QWord \<Rightarrow> Byte" where
  "put_qword a v r = put_dword (a + 4) (ucast (drop_bit 32 v)) (put_dword a (ucast v) r)"

definition readPhysicalPage_8 :: "QWord \<Rightarrow> bx_mem \<Rightarrow> QWord" where
  "readPhysicalPage_8 addr m =
     (let a20addr = A20ADDR addr m
      in if is_ram a20addr m then get_qword a20addr (ram m) else device_read m a20addr 8)"

definition writePhysicalPage_8 :: "QWord \<Rightarrow> QWord \<Rightarrow> bx_mem \<Rightarrow> bx_mem" where
  "writePhysicalPage_8 addr v m =
     (let a20addr = A20ADDR addr m
      in if is_ram a20addr m then m\<lparr>ram := put_qword a20addr v (ram m)\<rparr> else m)"

definition access_read_physical_8 :: "QWord \<Rightarrow> bx_mem \<Rightarrow> QWord" where
  "access_read_physical_8 paddr m =
     (if lapic_selected m paddr then device_read m paddr 8 else readPhysicalPage_8 paddr m)"

definition access_write_physical_8 :: "QWord \<Rightarrow> QWord \<Rightarrow> bx_mem \<Rightarrow> bx_mem" where
  "access_write_physical_8 paddr v m = (if lapic_selected m paddr then m else writePhysicalPage_8 paddr v m)"

section \<open>Laws of aligned accesses\<close>

definition writable :: "QWord \<Rightarrow> bx_mem \<Rightarrow> bool" where
  "writable p m \<longleftrightarrow> \<not> lapic_selected m p \<and> is_ram (A20ADDR p m) m"

lemma aligned_bit: "take_bit n (a :: QWord) = 0 \<Longrightarrow> k < n \<Longrightarrow> \<not> bit a k"
  by (metis bit_0_eq bit_take_bit_iff bot_apply bot_bool_def)

lemma aligned_or: "take_bit n (a :: QWord) = 0 \<Longrightarrow> take_bit n i = i \<Longrightarrow> a + i = a OR i"
  by (rule disjunctive_add) (metis aligned_bit bit_take_bit_iff)

lemma aligned_plus:
  fixes a b i j :: QWord
  assumes "take_bit n a = 0" "take_bit n b = 0" "take_bit n i = i" "take_bit n j = j"
  shows "a + i = b + j \<longleftrightarrow> a = b \<and> i = j"
proof -
  have bits: "\<not> bit a k" "\<not> bit b k" if "k < n" for k
    using assms(1,2) that by (simp_all add: aligned_bit)
  have small: "\<not> bit i k" "\<not> bit j k" if "n \<le> k" for k
    using assms(3,4) that by (metis bit_take_bit_iff not_le)+
  have "a + i = a OR i" "b + j = b OR j"
    using assms by (simp_all add: aligned_or)
  moreover have "a = b \<and> i = j" if "a OR i = b OR j"
  proof -
    have "bit a k = bit b k \<and> bit i k = bit j k" for k
    proof -
      have "bit (a OR i) k = bit (b OR j) k" using that by simp
      then show ?thesis using bits[of k] small[of k] by (cases "k < n") (auto simp: bit_or_iff not_less)
    qed
    then show ?thesis by (simp add: bit_eq_iff)
  qed
  ultimately show ?thesis by auto
qed

lemma aligned_4:
  fixes a b :: QWord
  assumes "take_bit 2 a = 0" "take_bit 2 b = 0"
  shows "a + 1 \<noteq> b" "a + 2 \<noteq> b" "a + 3 \<noteq> b" "a + 1 = b + 1 \<longleftrightarrow> a = b" "a + 1 \<noteq> b + 2" "a + 1 \<noteq> b + 3"
    "a + 2 \<noteq> b + 1" "a + 2 = b + 2 \<longleftrightarrow> a = b" "a + 2 \<noteq> b + 3" "a + 3 \<noteq> b + 1" "a + 3 \<noteq> b + 2"
    "a + 3 = b + 3 \<longleftrightarrow> a = b"
  using aligned_plus[OF assms, of _ 0] aligned_plus[OF assms] by (simp_all add: take_bit_eq_mask mask_eq_exp_minus_1)

lemma get_put_dword:
  assumes "take_bit 2 a = 0" "take_bit 2 b = 0"
  shows "get_dword b (put_dword a v r) = (if a = b then v else get_dword b r)"
proof -
  have j: "ucast (ucast v :: Byte) OR push_bit 8 (ucast (ucast (drop_bit 8 v) :: Byte)) OR
      push_bit 16 (ucast (ucast (drop_bit 16 v) :: Byte)) OR push_bit 24 (ucast (ucast (drop_bit 24 v) :: Byte)) = v"
    by (rule bit_word_eqI, subgoal_tac "n < 8 \<or> 8 \<le> n \<and> n < 16 \<or> 16 \<le> n \<and> n < 24 \<or> 24 \<le> n")
      (auto simp: bit_simps)
  show ?thesis
    using aligned_4[OF assms] aligned_4[OF assms(2,1)] by (auto simp: get_dword_def put_dword_def j)
qed

lemma put_get_dword: "put_dword a (get_dword a r) r = r"
proof -
  have "ucast (get_dword a r) = r a" "ucast (drop_bit 8 (get_dword a r)) = r (a + 1)"
    "ucast (drop_bit 16 (get_dword a r)) = r (a + 2)" "ucast (drop_bit 24 (get_dword a r)) = r (a + 3)"
    by (rule bit_word_eqI; auto simp: get_dword_def bit_simps dest: bit_imp_le_length)+
  then show ?thesis by (simp add: put_dword_def)
qed

lemma aligned_8: "take_bit 3 a = 0 \<Longrightarrow> take_bit 2 a = 0 \<and> take_bit 2 (a + 4) = 0" for a :: QWord
proof -
  assume a: "take_bit 3 a = 0"
  then have "take_bit 2 (take_bit 3 a) = 0" by simp
  then have "take_bit 2 a = 0" by simp
  moreover have "a + 4 = a OR 4" by (rule aligned_or[OF a]) (simp add: take_bit_eq_mask mask_eq_exp_minus_1)
  ultimately show ?thesis by (simp add: take_bit_or)
qed

lemma get_put_qword:
  assumes "take_bit 3 a = 0" "take_bit 3 b = 0"
  shows "get_qword b (put_qword a v r) = (if a = b then v else get_qword b r)"
proof -
  have j: "ucast (ucast v :: DWord) OR push_bit 32 (ucast (ucast (drop_bit 32 v) :: DWord)) = v"
    by (rule bit_word_eqI, subgoal_tac "n < 32 \<or> 32 \<le> n") (auto simp: bit_simps)
  have d: "a + 4 \<noteq> b" "b + 4 \<noteq> a" "a + 4 = b + 4 \<longleftrightarrow> a = b"
    using aligned_plus[OF assms, of 4 0] aligned_plus[OF assms(2,1), of 4 0]
    by (simp_all add: take_bit_eq_mask mask_eq_exp_minus_1)
  show ?thesis
    using d aligned_8[OF assms(1)] aligned_8[OF assms(2)]
    by (auto simp: get_qword_def put_qword_def get_put_dword j)
qed

section \<open>Accessed and dirty bits\<close>

text \<open>
  The entries of a page table change during translation only by getting their accessed (5) and dirty (6) bits.
  \<open>ad_later\<close> relates a memory to the later ones; \<open>sticky\<close> says that a bit of an entry is set, or that the entry
  is not in writable memory, so that no further update changes anything.
\<close>

definition more_ad :: "'e::len word \<Rightarrow> 'e word \<Rightarrow> bool" where
  "more_ad e e' \<longleftrightarrow> (\<forall>k. k \<noteq> 5 \<and> k \<noteq> 6 \<longrightarrow> bit e' k = bit e k) \<and> (bit e 5 \<longrightarrow> bit e' 5) \<and> (bit e 6 \<longrightarrow> bit e' 6)"

definition ad_later :: "(QWord \<Rightarrow> bx_mem \<Rightarrow> 'e::len word) \<Rightarrow> (QWord \<Rightarrow> bool) \<Rightarrow> bx_mem \<Rightarrow> bx_mem \<Rightarrow> bool" where
  "ad_later rd al m m' \<longleftrightarrow> (\<exists>r. m' = m\<lparr>ram := r\<rparr>) \<and> (\<forall>p. al p \<longrightarrow> more_ad (rd p m) (rd p m'))"

definition sticky :: "(QWord \<Rightarrow> bx_mem \<Rightarrow> 'e::len word) \<Rightarrow> nat \<Rightarrow> QWord \<Rightarrow> bx_mem \<Rightarrow> bool" where
  "sticky rd b p m \<longleftrightarrow> bit (rd p m) b \<or> \<not> writable p m"

definition ad_update :: "(QWord \<Rightarrow> 'e::len word \<Rightarrow> bx_mem \<Rightarrow> bx_mem) \<Rightarrow> (nat \<Rightarrow> QWord) \<Rightarrow> (nat \<Rightarrow> 'e word) \<Rightarrow> nat \<Rightarrow>
    bool \<Rightarrow> bx_mem \<Rightarrow> bx_mem" where
  "ad_update wr addr entry leaf write m =
     (let m1 = (if leaf = 0 \<and> \<not> bit (entry 1) 5 then wr (addr 1) (entry 1 OR 0x20) m else m)
      in if \<not> bit (entry leaf) 5 \<or> write \<and> \<not> bit (entry leaf) 6
         then wr (addr leaf) (entry leaf OR (0x20 OR push_bit 6 (of_bool write))) m1 else m1)"

lemma more_ad_refl [simp]: "more_ad e e" by (simp add: more_ad_def)

lemma more_ad_trans: "more_ad a b \<Longrightarrow> more_ad b c \<Longrightarrow> more_ad a c" by (simp add: more_ad_def)

lemma writable_ram [simp]: "writable p (m\<lparr>ram := r\<rparr>) = writable p m" "A20ADDR p (m\<lparr>ram := r\<rparr>) = A20ADDR p m"
  by (simp_all add: writable_def is_ram_def A20ADDR_def)

lemma ad_later_refl [simp]: "ad_later rd al m m"
  unfolding ad_later_def by (auto intro: exI[of _ "ram m"])

lemma ad_later_trans: "ad_later rd al m m' \<Longrightarrow> ad_later rd al m' m'' \<Longrightarrow> ad_later rd al m m''"
  unfolding ad_later_def by (auto intro: more_ad_trans)

lemma ad_later_config: "ad_later rd al m m' \<Longrightarrow> writable p m' = writable p m \<and> A20ADDR p m' = A20ADDR p m"
  unfolding ad_later_def by auto

lemma sticky_later: "ad_later rd al m m' \<Longrightarrow> al p \<Longrightarrow> sticky rd b p m \<Longrightarrow> sticky rd b p m'"
  unfolding sticky_def ad_later_def more_ad_def by auto (metis)+

locale entry_memory =
  fixes rd :: "QWord \<Rightarrow> bx_mem \<Rightarrow> 'e::len word" and wr :: "QWord \<Rightarrow> 'e word \<Rightarrow> bx_mem \<Rightarrow> bx_mem"
    and al :: "QWord \<Rightarrow> bool"
  assumes rd_wr: "al p \<Longrightarrow> al q \<Longrightarrow> rd q (wr p v m) =
      (if writable p m \<and> writable q m \<and> A20ADDR p m = A20ADDR q m then v else rd q m)"
    and wr_ram: "\<exists>r. wr p v m = m\<lparr>ram := r\<rparr>"
    and wr_unwritable: "\<not> writable p m \<Longrightarrow> wr p v m = m"
    and rd_alias: "writable p m \<Longrightarrow> writable q m \<Longrightarrow> A20ADDR p m = A20ADDR q m \<Longrightarrow> rd p m = rd q m"
    and wide: "6 < LENGTH('e)"
begin

lemma bit_96: "bit (96 :: int) k \<longleftrightarrow> k = 5 \<or> k = 6"
proof -
  have "(96 :: int) = push_bit 5 (mask 2)" by (simp add: mask_eq_exp_minus_1)
  then show ?thesis by (simp only: bit_push_bit_iff bit_mask_iff) auto
qed

lemmas bit_ad_masks = bit_pow_int[of 5, simplified] bit_pow_int[of 6, simplified] bit_96

lemma bit_a: "bit (e OR 0x20 :: 'e word) k \<longleftrightarrow> k = 5 \<or> bit e k"
  using wide by (auto simp: bit_or_iff bit_ad_masks)

lemma bit_ad: "bit (e OR (0x20 OR push_bit 6 (of_bool b)) :: 'e word) k \<longleftrightarrow> k = 5 \<or> k = 6 \<and> b \<or> bit e k"
  using wide by (cases b) (auto simp: bit_or_iff bit_ad_masks)

lemma later_wr:
  assumes "al p" "more_ad (rd p m) v"
  shows "ad_later rd al m (wr p v m)"
proof -
  have "more_ad (rd q m) (rd q (wr p v m))" if "al q" for q
    using rd_wr[OF assms(1) that] assms(2) rd_alias[of p m q] by (cases "writable p m \<and> writable q m \<and> A20ADDR p m = A20ADDR q m") auto
  then show ?thesis unfolding ad_later_def using wr_ram[of p v m] by blast
qed

lemma more_ad_a: "more_ad e (e OR 0x20 :: 'e word)"
  by (simp only: more_ad_def bit_a) auto

lemma more_ad_ad: "more_ad e (e OR (0x20 OR push_bit 6 (of_bool b)) :: 'e word)"
  by (simp only: more_ad_def bit_ad) auto

lemma more_ad_a_ad: "more_ad (e OR 0x20) (e OR (0x20 OR push_bit 6 (of_bool b)) :: 'e word)"
  by (simp only: more_ad_def bit_ad bit_a) auto

text \<open>The update writes at most the word of the directory and the word of the leaf, which may be the same.\<close>

lemma later_ad_update:
  assumes al: "al (addr 1)" "al (addr leaf)" and e: "entry 1 = rd (addr 1) m" "entry leaf = rd (addr leaf) m"
  shows "ad_later rd al m (ad_update wr addr entry leaf write m)"
proof -
  define m1 where "m1 = (if leaf = 0 \<and> \<not> bit (entry 1) 5 then wr (addr 1) (entry 1 OR 0x20) m else m)"
  have l1: "ad_later rd al m m1" unfolding m1_def using al(1) e(1) by (auto intro: later_wr more_ad_a)
  define m2 where "m2 = wr (addr leaf) (entry leaf OR (0x20 OR push_bit 6 (of_bool write))) m1"
  have "rd (addr leaf) m1 = entry leaf \<or> rd (addr leaf) m1 = entry leaf OR 0x20"
    unfolding m1_def using rd_wr[OF al] e rd_alias[of "addr 1" m "addr leaf"] by auto
  then have "more_ad (rd (addr leaf) m1) (entry leaf OR (0x20 OR push_bit 6 (of_bool write)))"
    using more_ad_ad more_ad_a_ad by metis
  then have "ad_later rd al m1 m2" unfolding m2_def using al(2) by (rule later_wr[rotated])
  then have "ad_later rd al m m2" using l1 by (rule ad_later_trans[rotated])
  then show ?thesis using l1 unfolding ad_update_def m1_def[symmetric] Let_def m2_def[symmetric]
    by (simp split: if_split)
qed

lemma ad_update_sticky:
  fixes addr :: "nat \<Rightarrow> QWord" and leaf :: nat and is_wr :: bool and m :: bx_mem
  assumes al: "al (addr 1)" "al (addr leaf)" and e: "entry 1 = rd (addr 1) m" "entry leaf = rd (addr leaf) m"
    and leaf: "leaf \<le> 1"
  defines "m' \<equiv> ad_update wr addr entry leaf is_wr m"
  shows "sticky rd 5 (addr 1) m'" "sticky rd 5 (addr leaf) m'" "is_wr \<Longrightarrow> sticky rd 6 (addr leaf) m'"
proof -
  define m1 where "m1 = (if leaf = 0 \<and> \<not> bit (entry 1) 5 then wr (addr 1) (entry 1 OR 0x20) m else m)"
  define v where "v = entry leaf OR (0x20 OR push_bit 6 (of_bool is_wr))"
  define m2 where "m2 = (if \<not> bit (entry leaf) 5 \<or> is_wr \<and> \<not> bit (entry leaf) 6 then wr (addr leaf) v m1 else m1)"
  have m': "m' = m2" by (simp only: m'_def ad_update_def m2_def m1_def v_def Let_def)
  have w1: "writable p m1 = writable p m" "A20ADDR p m1 = A20ADDR p m" for p
    using wr_ram[of "addr 1" "entry 1 OR 0x20" m] by (auto simp: m1_def)
  have w2: "writable p m2 = writable p m" for p
    using wr_ram[of "addr leaf" v m1] by (auto simp: m2_def w1)
  have vb: "bit v 5" "is_wr \<Longrightarrow> bit v 6" by (simp_all only: v_def bit_ad) simp_all
  have r: "rd (addr leaf) m2 = (if (\<not> bit (entry leaf) 5 \<or> is_wr \<and> \<not> bit (entry leaf) 6) \<and> writable (addr leaf) m then v
      else rd (addr leaf) m1)"
    using rd_wr[OF al(2) al(2), of v m1] unfolding m2_def w1 by (auto split: if_splits)
  have l1: "ad_later rd al m m1" unfolding m1_def using al(1) e(1) by (auto intro: later_wr more_ad_a)
  have "rd (addr leaf) m1 = entry leaf \<or> rd (addr leaf) m1 = entry leaf OR 0x20"
    unfolding m1_def using rd_wr[OF al] e rd_alias[of "addr 1" m "addr leaf"] by auto
  then have "more_ad (rd (addr leaf) m1) v" using more_ad_ad more_ad_a_ad unfolding v_def by metis
  then have l2: "ad_later rd al m1 m2" unfolding m2_def using al(2) by (simp add: later_wr)
  have keep: "bit (rd (addr leaf) m2) k" if "bit (entry leaf) k" "k = 5 \<or> k = 6" for k
    using that e(2) l1 l2 al(2) unfolding ad_later_def more_ad_def by metis
  show "sticky rd 5 (addr leaf) m'"
    using keep[of 5] r vb(1) unfolding m' sticky_def w2 by (auto split: if_splits)
  show "is_wr \<Longrightarrow> sticky rd 6 (addr leaf) m'"
    using keep[of 6] r vb(2) unfolding m' sticky_def w2 by (auto split: if_splits)
  show "sticky rd 5 (addr 1) m'"
  proof (cases "leaf = 0")
    case True
    have "bit (rd (addr 1) (wr (addr 1) (entry 1 OR 0x20) m)) 5" if "writable (addr 1) m"
      using rd_wr[OF al(1) al(1)] that by (simp add: bit_a del: One_nat_def)
    then have "sticky rd 5 (addr 1) m1" using True e(1) unfolding sticky_def w1(1) unfolding m1_def by auto
    then show ?thesis unfolding m' using l2 al(1) by (rule sticky_later[rotated 2])
  next
    case False
    then have "leaf = 1" using leaf by simp
    then show ?thesis using \<open>sticky rd 5 (addr leaf) m'\<close> by simp
  qed
qed

text \<open>Once the bits are set, or cannot be, an update changes nothing.\<close>

lemma ad_update_idle:
  assumes "entry 1 = rd (addr 1) m" "entry leaf = rd (addr leaf) m"
    and "sticky rd 5 (addr 1) m" "sticky rd 5 (addr leaf) m" "write \<Longrightarrow> sticky rd 6 (addr leaf) m"
  shows "ad_update wr addr entry leaf write m = m"
  using assms wr_unwritable[of "addr 1" m] wr_unwritable[of "addr leaf" m]
  unfolding ad_update_def sticky_def Let_def by (auto simp del: One_nat_def)

end

text \<open>
  The entries of 4 bytes of the legacy mode and those of 8 bytes of the PAE mode, at the addresses \<open>T\<close> that the
  page tables occupy.
\<close>

interpretation m4: entry_memory access_read_physical_4 access_write_physical_4 "\<lambda>p. take_bit 2 p = 0 \<and> p \<in> T" for T
proof (unfold_locales, goal_cases)
  case (1 p q v m)
  then have "take_bit 2 (A20ADDR p m) = 0" "take_bit 2 (A20ADDR q m) = 0"
    by (simp_all add: A20ADDR_def take_bit_and)
  then show ?case
    by (auto simp: access_read_physical_4_def readPhysicalPage_4_def access_write_physical_4_def writePhysicalPage_4_def writable_def Let_def get_put_dword A20ADDR_def is_ram_def)
next
  case (2 p v m)
  show ?case by (auto simp: access_write_physical_4_def writePhysicalPage_4_def Let_def intro: exI[of _ "ram m"])
next
  case (3 p m v)
  then show ?case by (auto simp: access_write_physical_4_def writePhysicalPage_4_def writable_def Let_def)
next
  case (4 p m q)
  then show ?case by (simp add: access_read_physical_4_def readPhysicalPage_4_def writable_def)
next
  case 5
  show ?case by simp
qed

interpretation m8: entry_memory access_read_physical_8 access_write_physical_8 "\<lambda>p. take_bit 3 p = 0 \<and> p \<in> T" for T
proof (unfold_locales, goal_cases)
  case (1 p q v m)
  then have "take_bit 3 (A20ADDR p m) = 0" "take_bit 3 (A20ADDR q m) = 0"
    by (simp_all add: A20ADDR_def take_bit_and)
  then show ?case
    by (auto simp: access_read_physical_8_def readPhysicalPage_8_def access_write_physical_8_def writePhysicalPage_8_def writable_def Let_def get_put_qword A20ADDR_def is_ram_def)
next
  case (2 p v m)
  show ?case by (auto simp: access_write_physical_8_def writePhysicalPage_8_def Let_def intro: exI[of _ "ram m"])
next
  case (3 p m v)
  then show ?case by (auto simp: access_write_physical_8_def writePhysicalPage_8_def writable_def Let_def)
next
  case (4 p m q)
  then show ?case by (simp add: access_read_physical_8_def readPhysicalPage_8_def writable_def)
next
  case 5
  show ?case by simp
qed

end
