(* ===== verification/Paging.thy ===== *)
theory Paging
  imports Phys
begin

text \<open>
  The paging unit of the emulated CPU: \<open>bochs-2.6.7/cpu/paging.cc\<close> with the control registers of \<open>crregs.cc\<close>, for the
  configuration of \<open>config.h\<close> (level 6, 32-bit linear and 40-bit physical addresses, no 64-bit mode, no VMX, no SVM).
  A walk yields the physical address, or the page fault with the state in which it is raised.

  Modelled are the walks of the legacy and the PAE mode with their accessed and dirty bits, the TLB that caches them,
  the flushes, \<open>INVLPG\<close> and the loads of \<open>CR0\<close>, \<open>CR3\<close> and \<open>CR4\<close>.
\<close>

unbundle bit_operations_syntax

section \<open>State\<close>

record bx_TLB_entry =
  lpf :: DWord
  ppf :: QWord
  hostPageAddr :: nat
  accessBits :: DWord
  tlb_lpf_mask :: DWord

record bx_mmu =
  core :: bx_cpu
  cr2 :: DWord
  cr3 :: QWord
  efer_NXE :: bool
  cr4_suppmask :: DWord
  PDPTR_CACHE :: "nat \<Rightarrow> QWord"
  TLB_entry :: "nat \<Rightarrow> bx_TLB_entry"
  split_large :: bool
  espPageWindowSize :: nat
  monitor_armed :: bool
  phys :: bx_mem

type_synonym fault = "(nat \<times> DWord) \<times> bx_mmu"

definition upd_phys :: "(bx_mem \<Rightarrow> bx_mem) \<Rightarrow> bx_mmu \<Rightarrow> bx_mmu" where
  "upd_phys f s = s\<lparr>phys := f (phys s)\<rparr>"

section \<open>Constants\<close>

definition BX_READ :: nat where "BX_READ = 0"
definition BX_WRITE :: nat where "BX_WRITE = 1"
definition BX_EXECUTE :: nat where "BX_EXECUTE = 2"
definition BX_RW :: nat where "BX_RW = 3"

definition BX_TLB_SIZE :: nat where "BX_TLB_SIZE = 1024"
definition BX_INVALID_TLB_ENTRY :: DWord where "BX_INVALID_TLB_ENTRY = 0xffffffff"
definition TLB_NoHostPtr :: DWord where "TLB_NoHostPtr = 0x800"
definition TLB_GlobalPage :: DWord where "TLB_GlobalPage = 0x80000000"
definition TLB_SysReadOK :: DWord where "TLB_SysReadOK = 0x01"
definition TLB_UserReadOK :: DWord where "TLB_UserReadOK = 0x02"
definition TLB_SysWriteOK :: DWord where "TLB_SysWriteOK = 0x04"
definition TLB_UserWriteOK :: DWord where "TLB_UserWriteOK = 0x08"
definition TLB_SysExecuteOK :: DWord where "TLB_SysExecuteOK = 0x10"
definition TLB_UserExecuteOK :: DWord where "TLB_UserExecuteOK = 0x20"

lemmas tlb_consts = BX_INVALID_TLB_ENTRY_def TLB_NoHostPtr_def TLB_GlobalPage_def TLB_SysReadOK_def TLB_UserReadOK_def
  TLB_SysWriteOK_def TLB_UserWriteOK_def TLB_SysExecuteOK_def TLB_UserExecuteOK_def

definition ERROR_NOT_PRESENT :: DWord where "ERROR_NOT_PRESENT = 0"
definition ERROR_PROTECTION :: DWord where "ERROR_PROTECTION = 1"
definition ERROR_RESERVED :: DWord where "ERROR_RESERVED = 8"
definition ERROR_CODE_ACCESS :: DWord where "ERROR_CODE_ACCESS = 0x10"

text \<open>Page frames: \<open>LPFOf\<close>, \<open>PPFOf\<close>, \<open>PAGE_OFFSET\<close>, \<open>TLB_LPFOf\<close>, \<open>BX_TLB_INDEX_OF\<close>.\<close>

definition LPFOf :: "DWord \<Rightarrow> DWord" where "LPFOf laddr = laddr AND 0xfffff000"
definition PPFOf :: "QWord \<Rightarrow> QWord" where "PPFOf paddr = paddr AND 0xfffffffffffff000"
definition PAGE_OFFSET :: "DWord \<Rightarrow> DWord" where "PAGE_OFFSET laddr = laddr AND 0xfff"
definition TLB_LPFOf :: "DWord \<Rightarrow> DWord" where "TLB_LPFOf laddr = laddr AND (0xfffff000 OR 0x7ff)"

definition BX_TLB_INDEX_OF :: "DWord \<Rightarrow> DWord \<Rightarrow> nat" where
  "BX_TLB_INDEX_OF a len = unat (drop_bit 12 ((a + len) AND push_bit 12 (of_nat (BX_TLB_SIZE - 1))))"

text \<open>The permission table: write protection, user access, the entries' U/S and R/W, write access.\<close>

definition priv_check :: "nat list" where
  "priv_check =
     [1, 1, 1, 1, 1, 1, 1, 1, 0, 0, 0, 0, 1, 0, 1, 1,
      1, 0, 1, 1, 1, 0, 1, 1, 0, 0, 0, 0, 1, 0, 1, 1]"

definition isWrite :: "nat \<Rightarrow> bool" where "isWrite rw \<longleftrightarrow> bit rw 0"

definition priv_index :: "bx_cpu \<Rightarrow> bool \<Rightarrow> DWord \<Rightarrow> nat \<Rightarrow> nat" where
  "priv_index c user combined_access rw =
     unat ((push_bit 4 (of_bool (get_WP c)) :: DWord) OR push_bit 3 (of_bool user) OR
       (combined_access OR of_bool (isWrite rw)))"

section \<open>Flushing the TLB\<close>

definition flush_entry :: "bx_TLB_entry \<Rightarrow> bx_TLB_entry" where
  "flush_entry e = e\<lparr>lpf := BX_INVALID_TLB_ENTRY, accessBits := 0\<rparr>"

definition invalidate_caches :: "bx_mmu \<Rightarrow> bx_mmu" where
  "invalidate_caches s = s\<lparr>core := invalidate_prefetch_q (core s), espPageWindowSize := 0\<rparr>"

definition TLB_flush :: "bx_mmu \<Rightarrow> bx_mmu" where
  "TLB_flush s =
     (invalidate_caches s)\<lparr>
       TLB_entry := fold (\<lambda>n t. t(n := flush_entry (t n))) [0..<BX_TLB_SIZE] (TLB_entry s),
       split_large := False, monitor_armed := False\<rparr>"

definition flush_nonglobal_step :: "nat \<Rightarrow> (nat \<Rightarrow> bx_TLB_entry) \<times> DWord \<Rightarrow> (nat \<Rightarrow> bx_TLB_entry) \<times> DWord" where
  "flush_nonglobal_step n st =
     (let (t, lpf_mask) = st
      in if accessBits (t n) AND TLB_GlobalPage = 0 then (t(n := flush_entry (t n)), lpf_mask)
         else (t, lpf_mask OR tlb_lpf_mask (t n)))"

definition TLB_flushNonGlobal :: "bx_mmu \<Rightarrow> bx_mmu" where
  "TLB_flushNonGlobal s =
     (let (t, lpf_mask) = fold flush_nonglobal_step [0..<BX_TLB_SIZE] (TLB_entry s, 0)
      in (invalidate_caches s)\<lparr>TLB_entry := t, split_large := 0xfff < lpf_mask, monitor_armed := False\<rparr>)"

definition invlpg_step :: "DWord \<Rightarrow> nat \<Rightarrow> (nat \<Rightarrow> bx_TLB_entry) \<times> DWord \<Rightarrow> (nat \<Rightarrow> bx_TLB_entry) \<times> DWord" where
  "invlpg_step laddr n st =
     (let (t, lpf_mask) = st; entry_lpf_mask = tlb_lpf_mask (t n)
      in if laddr AND NOT entry_lpf_mask = lpf (t n) AND NOT entry_lpf_mask
         then (t(n := flush_entry (t n)), lpf_mask)
         else (t, lpf_mask OR entry_lpf_mask))"

definition TLB_invlpg :: "DWord \<Rightarrow> bx_mmu \<Rightarrow> bx_mmu" where
  "TLB_invlpg laddr s =
     (let s1 = invalidate_caches s;
          s2 = (if split_large s1 then
                  (let (t, lpf_mask) = fold (invlpg_step laddr) [0..<BX_TLB_SIZE] (TLB_entry s1, 0)
                   in s1\<lparr>TLB_entry := t, split_large := 0xfff < lpf_mask\<rparr>)
                else
                  (let TLB_index = BX_TLB_INDEX_OF laddr 0; e = TLB_entry s1 TLB_index
                   in if TLB_LPFOf (lpf e) = LPFOf laddr
                      then s1\<lparr>TLB_entry := (TLB_entry s1)(TLB_index := flush_entry e)\<rparr> else s1))
      in s2\<lparr>monitor_armed := False\<rparr>)"

section \<open>Page faults\<close>

definition page_fault :: "DWord \<Rightarrow> DWord \<Rightarrow> bool \<Rightarrow> nat \<Rightarrow> bx_mmu \<Rightarrow> fault" where
  "page_fault fault laddr user rw s =
     (let error_code = fault OR push_bit 2 (of_bool user) OR push_bit 1 (of_bool (isWrite rw));
          e1 = (if rw = BX_EXECUTE \<and> get_SMEP (core s) then error_code OR ERROR_CODE_ACCESS else error_code);
          e2 = (if rw = BX_EXECUTE \<and> get_PAE (core s) \<and> efer_NXE s then e1 OR ERROR_CODE_ACCESS else e1)
      in ((BX_PF_EXCEPTION, e2), s\<lparr>cr2 := laddr\<rparr>))"

section \<open>The walk of the legacy mode\<close>

text \<open>
  What a walk has found: the level of its last entry, the addresses and values of the entries by level (0 the
  page table, 1 the page directory), the frame, the mask of the page and the combined U/S and R/W bits.
\<close>

record 'e walk =
  w_leaf :: nat
  w_addr :: "nat \<Rightarrow> QWord"
  w_entry :: "nat \<Rightarrow> 'e"
  w_ppf :: QWord
  w_mask :: DWord
  w_access :: DWord

definition PAGING_PDE4M_RESERVED_BITS :: DWord where "PAGING_PDE4M_RESERVED_BITS = 0x200000"
definition BX_CR3_PAGING_MASK :: QWord where "BX_CR3_PAGING_MASK = 0x000ffffffffff000"

fun legacy_loop :: "nat \<Rightarrow> DWord \<Rightarrow> bool \<Rightarrow> nat \<Rightarrow> DWord walk \<Rightarrow> bx_mmu \<Rightarrow> fault + DWord walk" where
  "legacy_loop leaf laddr user rw w s =
     (let a = w_ppf w + ucast (drop_bit (10 + 10 * leaf) laddr AND 0xffc);
          curr_entry = access_read_physical_4 a (phys s);
          w1 = w\<lparr>w_leaf := leaf, w_addr := (w_addr w)(leaf := a), w_entry := (w_entry w)(leaf := curr_entry)\<rparr>
      in if \<not> bit curr_entry 0 then Inl (page_fault ERROR_NOT_PRESENT laddr user rw s)
         else
           (let w2 = w1\<lparr>w_access := w_access w AND curr_entry, w_ppf := ucast (curr_entry AND 0xfffff000)\<rparr>
            in if leaf = 0 then Inr w2
               else if curr_entry AND 0x80 \<noteq> 0 \<and> get_PSE (core s) then
                 (if curr_entry AND PAGING_PDE4M_RESERVED_BITS \<noteq> 0
                  then Inl (page_fault (ERROR_RESERVED OR ERROR_PROTECTION) laddr user rw s)
                  else Inr (w2\<lparr>w_ppf := ucast (curr_entry AND 0xffc00000) OR
                         push_bit 19 (ucast (curr_entry AND 0x003fe000)), w_mask := 0x3fffff\<rparr>))
               else legacy_loop (leaf - 1) laddr user rw w2 s))"

declare legacy_loop.simps [simp del]

definition update_access_dirty :: "(nat \<Rightarrow> QWord) \<Rightarrow> (nat \<Rightarrow> DWord) \<Rightarrow> nat \<Rightarrow> bool \<Rightarrow> bx_mem \<Rightarrow> bx_mem" where
  "update_access_dirty entry_addr entry leaf write m =
     (let (entry1, m1) =
            (if leaf = 0 \<and> \<not> bit (entry 1) 5
             then (entry(1 := entry 1 OR 0x20), access_write_physical_4 (entry_addr 1) (entry 1 OR 0x20) m)
             else (entry, m))
      in if \<not> bit (entry1 leaf) 5 \<or> write \<and> \<not> bit (entry1 leaf) 6
         then access_write_physical_4 (entry_addr leaf) (entry1 leaf OR (0x20 OR push_bit 6 (of_bool write))) m1
         else m1)"

text \<open>The checks after the walk, the same in both modes.\<close>

definition protected :: "bx_mmu \<Rightarrow> bool \<Rightarrow> nat \<Rightarrow> DWord \<Rightarrow> bool" where
  "protected s user rw combined_access \<longleftrightarrow>
     get_SMEP (core s) \<and> rw = BX_EXECUTE \<and> \<not> user \<and> combined_access AND 4 \<noteq> 0 \<or>
     get_SMAP (core s) \<and> \<not> get_AC (core s) \<and> rw \<noteq> BX_EXECUTE \<and> \<not> user \<and> combined_access AND 4 \<noteq> 0"

type_synonym translation = "QWord \<times> DWord \<times> DWord \<times> bx_mmu"

definition translate_linear_legacy :: "DWord \<Rightarrow> bool \<Rightarrow> nat \<Rightarrow> bx_mmu \<Rightarrow> fault + translation" where
  "translate_linear_legacy laddr user rw s =
     (case legacy_loop 1 laddr user rw
        \<lparr>w_leaf = 1, w_addr = \<lambda>_. 0, w_entry = \<lambda>_. 0,
         w_ppf = ucast (ucast (cr3 s) :: DWord) AND BX_CR3_PAGING_MASK, w_mask = 0xfff, w_access = 6\<rparr> s of
        Inl f \<Rightarrow> Inl f
      | Inr w \<Rightarrow>
          if priv_check ! priv_index (core s) user (w_access w) rw = 0
          then Inl (page_fault ERROR_PROTECTION laddr user rw s)
          else if protected s user rw (w_access w) then Inl (page_fault ERROR_PROTECTION laddr user rw s)
          else
            (let combined_access =
                   (if get_PGE (core s) then w_access w OR (w_entry w (w_leaf w) AND 0x100) else w_access w);
                 s1 = upd_phys (update_access_dirty (w_addr w) (w_entry w) (w_leaf w) (isWrite rw)) s
             in Inr (w_ppf w OR ucast (laddr AND w_mask w), w_mask w, combined_access, s1)))"

section \<open>The walk of the PAE mode\<close>

definition BX_PAGING_PHY_ADDRESS_RESERVED_BITS :: QWord where
  "BX_PAGING_PHY_ADDRESS_RESERVED_BITS = NOT (mask 40) AND 0xfffffffffffff"

definition PAGE_DIRECTORY_NX_BIT :: QWord where "PAGE_DIRECTORY_NX_BIT = 0x8000000000000000"

definition PAGING_LEGACY_PAE_RESERVED_BITS :: QWord where
  "PAGING_LEGACY_PAE_RESERVED_BITS = BX_PAGING_PHY_ADDRESS_RESERVED_BITS OR 0x7ff0000000000000"

definition PAGING_PAE_PDE2M_RESERVED_BITS :: QWord where
  "PAGING_PAE_PDE2M_RESERVED_BITS = BX_PAGING_PHY_ADDRESS_RESERVED_BITS OR 0x001FE000"

definition PAGING_PAE_PDPTE_RESERVED_BITS :: QWord where
  "PAGING_PAE_PDPTE_RESERVED_BITS = BX_PAGING_PHY_ADDRESS_RESERVED_BITS OR 0xFFF00000000001E6"

definition translate_linear_load_PDPTR :: "DWord \<Rightarrow> bool \<Rightarrow> nat \<Rightarrow> bx_mmu \<Rightarrow> fault + QWord" where
  "translate_linear_load_PDPTR laddr user rw s =
     (let index = unat (drop_bit 30 laddr AND 0x3); pdptr = PDPTR_CACHE s index
      in if \<not> bit pdptr 0 then Inl (page_fault ERROR_NOT_PRESENT laddr user rw s) else Inr pdptr)"

text \<open>The fault of an entry, if any, and whether the entry forbids the execution that is asked for.\<close>

definition check_entry_PAE :: "QWord \<Rightarrow> QWord \<Rightarrow> nat \<Rightarrow> DWord option \<times> bool" where
  "check_entry_PAE entry reserved rw =
     (if \<not> bit entry 0 then (Some ERROR_NOT_PRESENT, False)
      else if entry AND reserved \<noteq> 0 then (Some (ERROR_RESERVED OR ERROR_PROTECTION), False)
      else (None, entry AND PAGE_DIRECTORY_NX_BIT \<noteq> 0 \<and> rw = BX_EXECUTE))"

fun pae_loop :: "nat \<Rightarrow> DWord \<Rightarrow> bool \<Rightarrow> nat \<Rightarrow> QWord \<Rightarrow> bool \<Rightarrow> QWord walk \<Rightarrow> bx_mmu \<Rightarrow> fault + QWord walk \<times> bool" where
  "pae_loop leaf laddr user rw reserved nx_fault w s =
     (let a = w_ppf w + ucast (drop_bit (9 + 9 * leaf) laddr AND 0xff8);
          curr_entry = access_read_physical_8 a (phys s);
          w1 = w\<lparr>w_leaf := leaf, w_addr := (w_addr w)(leaf := a), w_entry := (w_entry w)(leaf := curr_entry)\<rparr>;
          (fault, nx) = check_entry_PAE curr_entry reserved rw;
          nx_fault1 = (nx_fault \<or> nx)
      in case fault of
           Some f \<Rightarrow> Inl (page_fault f laddr user rw s)
         | None \<Rightarrow>
           (let w2 = w1\<lparr>w_access := w_access w AND ucast curr_entry,
                        w_ppf := curr_entry AND 0x000ffffffffff000\<rparr>
            in if leaf = 0 then Inr (w2, nx_fault1)
               else if curr_entry AND 0x80 \<noteq> 0 then
                 (if curr_entry AND PAGING_PAE_PDE2M_RESERVED_BITS \<noteq> 0
                  then Inl (page_fault (ERROR_RESERVED OR ERROR_PROTECTION) laddr user rw s)
                  else Inr (w2\<lparr>w_ppf := curr_entry AND 0x000fffffffe00000, w_mask := 0x1fffff\<rparr>, nx_fault1))
               else pae_loop (leaf - 1) laddr user rw reserved nx_fault1 w2 s))"

declare pae_loop.simps [simp del]

text \<open>The accessed bits of the levels above the leaf, from the highest down.\<close>

fun accessed_loop :: "nat \<Rightarrow> nat \<Rightarrow> (nat \<Rightarrow> QWord) \<Rightarrow> (nat \<Rightarrow> QWord) \<Rightarrow> bx_mem \<Rightarrow> bx_mem" where
  "accessed_loop level leaf entry_addr entry m =
     (if level \<le> leaf then m
      else accessed_loop (level - 1) leaf entry_addr entry
             (if \<not> bit (entry level) 5 then access_write_physical_8 (entry_addr level) (entry level OR 0x20) m else m))"

declare accessed_loop.simps [simp del]

definition update_access_dirty_PAE ::
  "(nat \<Rightarrow> QWord) \<Rightarrow> (nat \<Rightarrow> QWord) \<Rightarrow> nat \<Rightarrow> nat \<Rightarrow> bool \<Rightarrow> bx_mem \<Rightarrow> bx_mem" where
  "update_access_dirty_PAE entry_addr entry max_level leaf write m =
     (let m1 = accessed_loop max_level leaf entry_addr entry m
      in if \<not> bit (entry leaf) 5 \<or> write \<and> \<not> bit (entry leaf) 6
         then access_write_physical_8 (entry_addr leaf) (entry leaf OR (0x20 OR push_bit 6 (of_bool write))) m1
         else m1)"

definition translate_linear_PAE :: "DWord \<Rightarrow> bool \<Rightarrow> nat \<Rightarrow> bx_mmu \<Rightarrow> fault + translation" where
  "translate_linear_PAE laddr user rw s =
     (let reserved = (if efer_NXE s then PAGING_LEGACY_PAE_RESERVED_BITS
                      else PAGING_LEGACY_PAE_RESERVED_BITS OR PAGE_DIRECTORY_NX_BIT)
      in case translate_linear_load_PDPTR laddr user rw s of
        Inl f \<Rightarrow> Inl f
      | Inr pdpte \<Rightarrow>
       (case pae_loop 1 laddr user rw reserved False
          \<lparr>w_leaf = 1, w_addr = \<lambda>_. 0, w_entry = \<lambda>_. 0, w_ppf = pdpte AND 0x000ffffffffff000,
           w_mask = 0xfff, w_access = 6\<rparr> s of
          Inl f \<Rightarrow> Inl f
        | Inr (w, nx_fault) \<Rightarrow>
            if priv_check ! priv_index (core s) user (w_access w) rw = 0 \<or> nx_fault
            then Inl (page_fault ERROR_PROTECTION laddr user rw s)
            else if protected s user rw (w_access w) then Inl (page_fault ERROR_PROTECTION laddr user rw s)
            else
              (let combined_access =
                     (if get_PGE (core s) then w_access w OR (ucast (w_entry w (w_leaf w)) AND 0x100) else w_access w);
                   s1 = upd_phys (update_access_dirty_PAE (w_addr w) (w_entry w) 1 (w_leaf w) (isWrite rw)) s
               in Inr (w_ppf w OR ucast (laddr AND w_mask w), w_mask w, combined_access, s1))))"

section \<open>Translation through the TLB\<close>

text \<open>The walk that a miss makes, by the mode; without paging the address is its own translation.\<close>

definition page_walk :: "DWord \<Rightarrow> bool \<Rightarrow> nat \<Rightarrow> bx_mmu \<Rightarrow> fault + translation" where
  "page_walk laddr user rw s =
     (if get_PG (core s) then
        (case (if get_PAE (core s) then translate_linear_PAE laddr user rw s
               else translate_linear_legacy laddr user rw s) of
           Inl f \<Rightarrow> Inl f
         | Inr (paddress, lpf_mask, combined_access, s1) \<Rightarrow>
             Inr (paddress, lpf_mask, combined_access,
               if 0xfff < lpf_mask then s1\<lparr>split_large := True\<rparr> else s1))
      else Inr (ucast laddr, 0xfff, 6, s))"

definition tlb_access_bits :: "bool \<Rightarrow> nat \<Rightarrow> DWord \<Rightarrow> bx_mmu \<Rightarrow> DWord" where
  "tlb_access_bits user rw combined_access s =
     (let execute = (rw = BX_EXECUTE);
          b0 = TLB_SysReadOK;
          b1 = (if isWrite rw then b0 OR TLB_SysWriteOK else b0);
          b2 = (if execute then b1 OR TLB_SysExecuteOK else b1);
          b3 = (if \<not> get_PG (core s) then b2 OR (TLB_UserReadOK OR TLB_UserWriteOK OR TLB_UserExecuteOK)
                else if combined_access AND 4 \<noteq> 0 then
                  (let u1 = (if user then
                               (let v1 = b2 OR TLB_UserReadOK;
                                    v2 = (if isWrite rw then v1 OR TLB_UserWriteOK else v1)
                                in if execute then v2 OR TLB_UserExecuteOK else v2)
                             else b2);
                       u2 = (if get_SMEP (core s) then u1 AND NOT TLB_SysExecuteOK else u1)
                   in if get_SMAP (core s) then u2 AND NOT (TLB_SysReadOK OR TLB_SysWriteOK) else u2)
                else b2)
      in if combined_access AND 0x100 \<noteq> 0 then b3 OR TLB_GlobalPage else b3)"

definition getHostMemAddr :: "QWord \<Rightarrow> nat \<Rightarrow> bx_mem \<Rightarrow> nat" where
  "getHostMemAddr paddr rw m = (if lapic_selected m paddr then 0 else host_mem m paddr rw)"

definition translate_linear :: "nat \<Rightarrow> DWord \<Rightarrow> bool \<Rightarrow> nat \<Rightarrow> bx_mmu \<Rightarrow> fault + QWord \<times> bx_mmu" where
  "translate_linear n laddr user rw s =
     (let tlbEntry = TLB_entry s n; poffset = ucast (PAGE_OFFSET laddr); page = LPFOf laddr
      in if rw \<noteq> BX_EXECUTE \<and> TLB_LPFOf (lpf tlbEntry) = page \<and>
            bit (accessBits tlbEntry) (2 * of_bool (isWrite rw) + of_bool user)
         then Inr (ppf tlbEntry OR poffset, s)
         else (case page_walk laddr user rw s of
             Inl f \<Rightarrow> Inl f
           | Inr (paddress0, lpf_mask, combined_access, s1) \<Rightarrow>
               (let paddress = A20ADDR paddress0 (phys s1); frame = PPFOf paddress;
                    host = getHostMemAddr frame rw (phys s1);
                    e = \<lparr>lpf = (if host = 0 then page OR TLB_NoHostPtr else page), ppf = frame, hostPageAddr = host,
                         accessBits = tlb_access_bits user rw combined_access s1, tlb_lpf_mask = lpf_mask\<rparr>
                in Inr (paddress, s1\<lparr>TLB_entry := (TLB_entry s1)(n := e)\<rparr>))))"

section \<open>Loading the control registers\<close>

definition upd_core :: "(bx_cpu \<Rightarrow> bx_cpu) \<Rightarrow> bx_mmu \<Rightarrow> bx_mmu" where
  "upd_core f s = s\<lparr>core := f (core s)\<rparr>"

definition CheckPDPTR :: "QWord \<Rightarrow> bx_mmu \<Rightarrow> bool \<times> bx_mmu" where
  "CheckPDPTR cr3_val s =
     (let a = cr3_val AND 0xffffffe0;
          pdptr = (\<lambda>n. access_read_physical_8 (a OR push_bit 3 (of_nat n)) (phys s))
      in if list_ex (\<lambda>n. bit (pdptr n) 0 \<and> pdptr n AND PAGING_PAE_PDPTE_RESERVED_BITS \<noteq> 0) [0..<4] then (False, s)
         else (True, s\<lparr>PDPTR_CACHE := fold (\<lambda>n t. t(n := pdptr n)) [0..<4] (PDPTR_CACHE s)\<rparr>))"

definition check_CR0 :: "DWord \<Rightarrow> bool" where
  "check_CR0 val \<longleftrightarrow> \<not> (bit val 31 \<and> \<not> bit val 0) \<and> \<not> (bit val 29 \<and> \<not> bit val 30)"

definition handleSseModeChange :: "bx_cpu \<Rightarrow> bx_cpu" where
  "handleSseModeChange c =
     updateFetchModeMask (c\<lparr>sse_ok := \<not> bit (cr0 c) 3 \<and> \<not> (bit (cr0 c) 2 \<or> \<not> bit (cr4 c) 9)\<rparr>)"

definition SetCR0 :: "DWord \<Rightarrow> bx_mmu \<Rightarrow> bool \<times> bx_mmu" where
  "SetCR0 val s =
     (if \<not> check_CR0 val then (False, s)
      else
        (let pg = bit val 31; val_32 = (val OR 0x00000010) AND 0xe005003f; oldCR0 = cr0 (core s);
             (ok, s1) = (if pg \<and> get_PAE (core s) then CheckPDPTR (cr3 s) s else (True, s))
         in if \<not> ok then (False, s1)
            else
              (let s2 = upd_core (\<lambda>c. handleSseModeChange (handleCpuModeChange (handleAlignmentCheck
                          (c\<lparr>cr0 := val_32 OR 0x10\<rparr>)))) s1
               in if oldCR0 AND 0x80010001 \<noteq> val_32 AND 0x80010001 then (True, TLB_flush s2) else (True, s2))))"

definition SetCR3 :: "DWord \<Rightarrow> bx_mmu \<Rightarrow> bx_mmu" where
  "SetCR3 val s =
     (let s1 = s\<lparr>cr3 := ucast val\<rparr> in if get_PGE (core s1) then TLB_flushNonGlobal s1 else TLB_flush s1)"

definition BX_CR4_FLUSH_TLB_MASK :: DWord where
  "BX_CR4_FLUSH_TLB_MASK =
     push_bit 4 1 OR push_bit 5 1 OR push_bit 7 1 OR push_bit 17 1 OR push_bit 20 1 OR push_bit 21 1"

definition check_CR4 :: "DWord \<Rightarrow> bx_mmu \<Rightarrow> bool" where
  "check_CR4 val s \<longleftrightarrow> val AND NOT (cr4_suppmask s) = 0"

definition SetCR4 :: "DWord \<Rightarrow> bx_mmu \<Rightarrow> bool \<times> bx_mmu" where
  "SetCR4 val s =
     (if \<not> check_CR4 val s then (False, s)
      else
        (let (ok, s1) =
               (if val AND BX_CR4_FLUSH_TLB_MASK \<noteq> cr4 (core s) AND BX_CR4_FLUSH_TLB_MASK then
                  (let (ok, s1) = (if get_PG (core s) \<and> bit val 5 then CheckPDPTR (cr3 s) s else (True, s))
                   in if ok then (True, TLB_flush s1) else (False, s1))
                else (True, s))
         in if \<not> ok then (False, s1) else (True, upd_core (\<lambda>c. handleSseModeChange (c\<lparr>cr4 := val\<rparr>)) s1)))"

text \<open>The instructions: only code of privilege level 0 may load a control register or flush a page.\<close>

definition MOV_CR0Rd :: "nat \<Rightarrow> bx_mmu \<Rightarrow> fault + bx_mmu" where
  "MOV_CR0Rd src s =
     (if CPL (core s) \<noteq> 0 then Inl ((BX_GP_EXCEPTION, 0), s)
      else
        (let s1 = upd_core invalidate_prefetch_q s; (ok, s2) = SetCR0 (BX_READ_32BIT_REG src (core s1)) s1
         in if ok then Inr s2 else Inl ((BX_GP_EXCEPTION, 0), s2)))"

definition MOV_CR3Rd :: "nat \<Rightarrow> bx_mmu \<Rightarrow> fault + bx_mmu" where
  "MOV_CR3Rd src s =
     (if CPL (core s) \<noteq> 0 then Inl ((BX_GP_EXCEPTION, 0), s)
      else
        (let s1 = upd_core invalidate_prefetch_q s; val_32 = BX_READ_32BIT_REG src (core s1);
             (ok, s2) = (if get_PG (core s1) \<and> get_PAE (core s1) then CheckPDPTR (ucast val_32) s1 else (True, s1))
         in if ok then Inr (SetCR3 val_32 s2) else Inl ((BX_GP_EXCEPTION, 0), s2)))"

definition MOV_CR4Rd :: "nat \<Rightarrow> bx_mmu \<Rightarrow> fault + bx_mmu" where
  "MOV_CR4Rd src s =
     (if CPL (core s) \<noteq> 0 then Inl ((BX_GP_EXCEPTION, 0), s)
      else
        (let s1 = upd_core invalidate_prefetch_q s; (ok, s2) = SetCR4 (BX_READ_32BIT_REG src (core s1)) s1
         in if ok then Inr s2 else Inl ((BX_GP_EXCEPTION, 0), s2)))"

definition INVLPG :: "DWord \<Rightarrow> bx_mmu \<Rightarrow> fault + bx_mmu" where
  "INVLPG laddr s =
     (if CPL (core s) \<noteq> 0 then Inl ((BX_GP_EXCEPTION, 0), s) else Inr (TLB_invlpg laddr s))"

section \<open>Reading the control registers, the machine status word\<close>

definition read_CR0 :: "bx_cpu \<Rightarrow> DWord" where "read_CR0 c = cr0 c"
definition read_CR4 :: "bx_cpu \<Rightarrow> DWord" where "read_CR4 c = cr4 c"

definition MOV_CR2Rd :: "nat \<Rightarrow> bx_mmu \<Rightarrow> fault + bx_mmu" where
  "MOV_CR2Rd src s =
     (if CPL (core s) \<noteq> 0 then Inl ((BX_GP_EXCEPTION, 0), s) else Inr (s\<lparr>cr2 := BX_READ_32BIT_REG src (core s)\<rparr>))"

text \<open>What the reads put into a register, the value apart.\<close>

definition read_control :: "nat \<Rightarrow> DWord \<Rightarrow> bx_mmu \<Rightarrow> fault + bx_mmu" where
  "read_control dst v s =
     (if CPL (core s) \<noteq> 0 then Inl ((BX_GP_EXCEPTION, 0), s) else Inr (upd_core (BX_WRITE_32BIT_REGZ dst v) s))"

definition MOV_RdCR0 :: "nat \<Rightarrow> bx_mmu \<Rightarrow> fault + bx_mmu" where
  "MOV_RdCR0 dst s = read_control dst (read_CR0 (core s)) s"

definition MOV_RdCR2 :: "nat \<Rightarrow> bx_mmu \<Rightarrow> fault + bx_mmu" where
  "MOV_RdCR2 dst s = read_control dst (cr2 s) s"

definition MOV_RdCR3 :: "nat \<Rightarrow> bx_mmu \<Rightarrow> fault + bx_mmu" where
  "MOV_RdCR3 dst s = read_control dst (ucast (cr3 s)) s"

definition MOV_RdCR4 :: "nat \<Rightarrow> bx_mmu \<Rightarrow> fault + bx_mmu" where
  "MOV_RdCR4 dst s = read_control dst (read_CR4 (core s)) s"

text \<open>The operand of \<open>LMSW\<close>, a register or a word in memory, is an argument.\<close>

definition LMSW_Ew :: "16 word \<Rightarrow> bx_mmu \<Rightarrow> fault + bx_mmu" where
  "LMSW_Ew operand s =
     (if CPL (core s) \<noteq> 0 then Inl ((BX_GP_EXCEPTION, 0), s)
      else
        (let msw = (if get_PE (core s) then operand OR 1 else operand) AND 0xf;
             (ok, s1) = SetCR0 ((cr0 (core s) AND 0xfffffff0) OR ucast msw) s
         in if ok then Inr s1 else Inl ((BX_GP_EXCEPTION, 0), s1)))"

definition SMSW_EwR :: "bool \<Rightarrow> nat \<Rightarrow> bx_mmu \<Rightarrow> bx_mmu" where
  "SMSW_EwR os32 dst s =
     (let msw = read_CR0 (core s)
      in if os32 then upd_core (BX_WRITE_32BIT_REGZ dst msw) s else upd_core (BX_WRITE_16BIT_REG dst (msw AND 0xffff)) s)"

definition CLTS :: "bx_mmu \<Rightarrow> fault + bx_mmu" where
  "CLTS s =
     (if CPL (core s) \<noteq> 0 then Inl ((BX_GP_EXCEPTION, 0), s)
      else Inr (upd_core (\<lambda>c. handleSseModeChange (c\<lparr>cr0 := cr0 c AND NOT 8\<rparr>)) s))"

end
