(* ===== verification/Walk.thy ===== *)
theory Walk
  imports Paging
begin

text \<open>
  What the page walks compute: a search for the entries of an address and the checks and updates that end it, the
  same for the legacy and the PAE mode. The reference of the permission table is the rule of the manuals. A search depends
  on the entries only up to their accessed and dirty bits, so a walk that is repeated for no more than it was made
  for succeeds again and leaves the memory as it is.
\<close>

unbundle bit_operations_syntax

section \<open>The masks\<close>

text \<open>Bits of a mask of consecutive ones.\<close>

lemma bit_field: "x = push_bit a (mask (b - a)) \<Longrightarrow> a \<le> b \<Longrightarrow> bit (x :: int) k \<longleftrightarrow> a \<le> k \<and> k < b"
  by (auto simp: bit_simps)

lemma bit_6: "bit (6 :: int) k \<longleftrightarrow> k = 1 \<or> k = 2"
  using bit_field[of 6 1 3 k] by (auto simp: mask_eq_exp_minus_1)

lemma long_masks:
  "bit (4095 :: int) k \<longleftrightarrow> 0 \<le> k \<and> k < 12"
  "bit (4092 :: int) k \<longleftrightarrow> 2 \<le> k \<and> k < 12"
  "bit (4088 :: int) k \<longleftrightarrow> 3 \<le> k \<and> k < 12"
  "bit (4294963200 :: int) k \<longleftrightarrow> 12 \<le> k \<and> k < 32"
  "bit (4290772992 :: int) k \<longleftrightarrow> 22 \<le> k \<and> k < 32"
  "bit (4194303 :: int) k \<longleftrightarrow> 0 \<le> k \<and> k < 22"
  "bit (2097151 :: int) k \<longleftrightarrow> 0 \<le> k \<and> k < 21"
  "bit (4503599627366400 :: int) k \<longleftrightarrow> 12 \<le> k \<and> k < 52"
  "bit (4503599625273344 :: int) k \<longleftrightarrow> 21 \<le> k \<and> k < 52"
  "bit (4186112 :: int) k \<longleftrightarrow> 13 \<le> k \<and> k < 22"
  "bit (18446744073709547520 :: int) k \<longleftrightarrow> 12 \<le> k \<and> k < 64"
  "bit (2047 :: int) k \<longleftrightarrow> 0 \<le> k \<and> k < 11"
  by (rule bit_field; simp add: mask_eq_exp_minus_1)+

lemmas page_masks = long_masks bit_6 bit_pow_int[of 1, simplified] bit_pow_int[of 2, simplified] bit_pow_int[of 7, simplified]
  bit_pow_int[of 8, simplified] bit_pow_int[of 11, simplified] bit_pow_int[of 21, simplified]

section \<open>The permission table\<close>

definition allowed :: "bool \<Rightarrow> bool \<Rightarrow> bool \<Rightarrow> DWord \<Rightarrow> bool" where
  "allowed wp user wrt access \<longleftrightarrow> (user \<longrightarrow> bit access 2) \<and> (wrt \<and> (user \<or> wp) \<longrightarrow> bit access 1)"

lemma priv_check_allowed:
  "priv_check ! priv_index c user (6 AND x) rw = 0 \<longleftrightarrow> \<not> allowed (get_WP c) user (isWrite rw) (6 AND x)"
proof -
  have six: "6 AND x = (if bit x 1 then 2 else 0) + (if bit x 2 then 4 else 0)" for x :: DWord
    by (rule bit_word_eqI) (auto simp: bit_simps page_masks)
  show ?thesis
    by (cases "get_WP c"; cases user; cases "isWrite rw"; cases "bit x 1"; cases "bit x 2")
      (simp_all add: priv_check_def priv_index_def allowed_def six)
qed

section \<open>The walk of the legacy mode\<close>

text \<open>Entries that differ in their accessed and dirty bits only are the same for the walk.\<close>

lemma more_ad_bit: "more_ad e e' \<Longrightarrow> k \<noteq> 5 \<Longrightarrow> k \<noteq> 6 \<Longrightarrow> bit e' k = bit e k"
  by (simp add: more_ad_def)

lemma more_ad_and:
  assumes "more_ad e e'" "\<not> bit x 5" "\<not> bit x 6"
  shows "e' AND x = e AND x" "x AND e' = x AND e"
proof -
  have "bit e' k = bit e k \<or> \<not> bit x k" for k
    using assms by (cases "k = 5 \<or> k = 6") (auto simp: more_ad_bit)
  then show "e' AND x = e AND x" "x AND e' = x AND e"
    by (intro bit_word_eqI; simp only: bit_and_iff; blast)+
qed

lemma page_bits: "LPFOf a = LPFOf b \<Longrightarrow> 12 \<le> k \<Longrightarrow> bit a k = bit b k"
proof -
  assume e: "LPFOf a = LPFOf b" and k: "12 \<le> k"
  have "bit (LPFOf a) k = bit (LPFOf b) k" using e by simp
  then show "bit a k = bit b k" using k by (cases "k < 32") (auto simp: LPFOf_def bit_simps page_masks dest: bit_imp_le_length)
qed

definition legacy_find :: "DWord \<Rightarrow> bool \<Rightarrow> nat \<Rightarrow> bx_mmu \<Rightarrow> fault + DWord walk" where
  "legacy_find laddr user rw s = legacy_loop 1 laddr user rw
     \<lparr>w_leaf = 1, w_addr = \<lambda>_. 0, w_entry = \<lambda>_. 0,
      w_ppf = ucast (ucast (cr3 s) :: DWord) AND BX_CR3_PAGING_MASK, w_mask = 0xfff, w_access = 6\<rparr> s"

text \<open>The addresses of the two entries.\<close>

definition pde_addr :: "bx_mmu \<Rightarrow> DWord \<Rightarrow> QWord" where
  "pde_addr s l = (ucast (ucast (cr3 s) :: DWord) AND BX_CR3_PAGING_MASK) + ucast (drop_bit 20 l AND (0xffc :: DWord))"

definition pte_addr :: "DWord \<Rightarrow> DWord \<Rightarrow> QWord" where
  "pte_addr e l = ucast (e AND 0xfffff000) + ucast (drop_bit 10 l AND (0xffc :: DWord))"

definition frame_4M :: "DWord \<Rightarrow> QWord" where
  "frame_4M e = ucast (e AND 0xffc00000) OR push_bit 19 (ucast (e AND 0x003fe000))"

definition frame_4K :: "DWord \<Rightarrow> QWord" where
  "frame_4K e = ucast (e AND 0xfffff000)"

lemma legacy_find_eq:
  "legacy_find laddr user rw s =
    (let a1 = pde_addr s laddr; e1 = access_read_physical_4 a1 (phys s)
     in if \<not> bit e1 0 then Inl (page_fault ERROR_NOT_PRESENT laddr user rw s)
        else if e1 AND 0x80 \<noteq> 0 \<and> get_PSE (core s) then
          (if e1 AND PAGING_PDE4M_RESERVED_BITS \<noteq> 0
           then Inl (page_fault (ERROR_RESERVED OR ERROR_PROTECTION) laddr user rw s)
           else Inr \<lparr>w_leaf = 1, w_addr = (\<lambda>_. 0)(1 := a1), w_entry = (\<lambda>_. 0)(1 := e1),
                  w_ppf = frame_4M e1,
                  w_mask = 0x3fffff, w_access = 6 AND e1\<rparr>)
        else
          (let a0 = pte_addr e1 laddr; e0 = access_read_physical_4 a0 (phys s)
           in if \<not> bit e0 0 then Inl (page_fault ERROR_NOT_PRESENT laddr user rw s)
              else Inr \<lparr>w_leaf = 0, w_addr = (\<lambda>_. 0)(1 := a1, 0 := a0), w_entry = (\<lambda>_. 0)(1 := e1, 0 := e0),
                     w_ppf = frame_4K e0, w_mask = 0xfff, w_access = 6 AND (e1 AND e0)\<rparr>))"
  unfolding legacy_find_def
  by (subst legacy_loop.simps, subst legacy_loop.simps) (simp add: Let_def and.assoc pde_addr_def pte_addr_def frame_4M_def frame_4K_def)

text \<open>What a successful search yields, for entries read by \<open>rd\<close> at addresses aligned by \<open>al\<close>.\<close>

definition found :: "(QWord \<Rightarrow> bx_mem \<Rightarrow> 'e::len word) \<Rightarrow> (QWord \<Rightarrow> bool) \<Rightarrow> bx_mem \<Rightarrow> 'e word walk \<Rightarrow> bool" where
  "found rd al m w \<longleftrightarrow> w_leaf w \<le> 1 \<and> al (w_addr w 1) \<and> al (w_addr w (w_leaf w)) \<and>
     w_entry w 1 = rd (w_addr w 1) m \<and> w_entry w (w_leaf w) = rd (w_addr w (w_leaf w)) m \<and>
     take_bit 12 (w_ppf w) = 0 \<and> take_bit 12 (w_mask w) = 0xfff \<and> 6 AND w_access w = w_access w"

text \<open>The same search in another memory: the same but for the accessed and dirty bits of the entries.\<close>

definition same_walk :: "'e::len word walk \<Rightarrow> 'e word walk \<Rightarrow> bool" where
  "same_walk w w' \<longleftrightarrow> w_leaf w' = w_leaf w \<and> w_ppf w' = w_ppf w \<and> w_mask w' = w_mask w \<and> w_access w' = w_access w \<and>
     w_addr w' 1 = w_addr w 1 \<and> w_addr w' (w_leaf w) = w_addr w (w_leaf w) \<and>
     more_ad (w_entry w (w_leaf w)) (w_entry w' (w_leaf w))"

lemma aligned_sum:
  fixes a b :: QWord
  assumes "take_bit n a = 0" "take_bit n b = 0"
  shows "take_bit n (a + b) = 0"
proof -
  have "2 ^ n dvd a" "2 ^ n dvd b" using assms by (simp_all add: take_bit_eq_0_iff)
  then show ?thesis by (simp add: take_bit_eq_0_iff)
qed

lemma take_bit_zeroI: "(\<And>k. k < n \<Longrightarrow> \<not> bit a k) \<Longrightarrow> take_bit n a = 0" for a :: "'a::len word"
  by (rule bit_word_eqI) (simp add: bit_take_bit_iff)

lemma legacy_aligned: "take_bit 2 (pde_addr s l) = 0" "take_bit 2 (pte_addr e l) = 0"
  unfolding pde_addr_def pte_addr_def
  by (intro aligned_sum take_bit_zeroI; simp add: bit_simps BX_CR3_PAGING_MASK_def page_masks)+

lemma legacy_frame_aligned: "take_bit 12 (frame_4K e) = 0" "take_bit 12 (frame_4M e) = 0"
  unfolding frame_4K_def frame_4M_def by (intro take_bit_zeroI; auto simp: bit_simps page_masks)+

text \<open>The addresses that the walks of the legacy mode read lie in \<open>T\<close>.\<close>

definition legacy_tables :: "QWord set \<Rightarrow> bx_mmu \<Rightarrow> bool" where
  "legacy_tables T s \<longleftrightarrow> (\<forall>l. pde_addr s l \<in> T \<and>
     (let e = access_read_physical_4 (pde_addr s l) (phys s)
      in bit e 0 \<and> \<not> (e AND 0x80 \<noteq> 0 \<and> get_PSE (core s)) \<longrightarrow> pte_addr e l \<in> T))"

lemma legacy_find_found:
  "legacy_find l u rw s = Inr w \<Longrightarrow> legacy_tables T s \<Longrightarrow>
   found access_read_physical_4 (\<lambda>p. take_bit 2 p = 0 \<and> p \<in> T) (phys s) w"
  unfolding legacy_find_eq Let_def found_def legacy_tables_def
  by (auto split: if_splits simp: legacy_aligned legacy_frame_aligned and.assoc[symmetric])

lemma legacy_find_leaf: "legacy_find l u rw s = Inr w \<Longrightarrow> w_leaf w \<le> 1 \<and> 6 AND w_access w = w_access w"
  unfolding legacy_find_eq Let_def by (auto split: if_splits simp: and.assoc[symmetric])

text \<open>A later state: in the tables only accessed and dirty bits set, everything else that a walk depends on unchanged.\<close>

definition same_control :: "bx_mmu \<Rightarrow> bx_mmu \<Rightarrow> bool" where
  "same_control s s1 \<longleftrightarrow> cr3 s1 = cr3 s \<and> efer_NXE s1 = efer_NXE s \<and> PDPTR_CACHE s1 = PDPTR_CACHE s \<and>
     get_PG (core s1) = get_PG (core s) \<and> get_WP (core s1) = get_WP (core s) \<and> get_PSE (core s1) = get_PSE (core s) \<and>
     get_PAE (core s1) = get_PAE (core s) \<and> get_PGE (core s1) = get_PGE (core s) \<and>
     get_SMEP (core s1) = get_SMEP (core s) \<and> get_SMAP (core s1) = get_SMAP (core s)"

definition mmu_later :: "QWord set \<Rightarrow> bx_mmu \<Rightarrow> bx_mmu \<Rightarrow> bool" where
  "mmu_later T s s1 \<longleftrightarrow> same_control s s1 \<and>
     (if get_PAE (core s) then ad_later access_read_physical_8 (\<lambda>p. take_bit 3 p = 0 \<and> p \<in> T) (phys s) (phys s1)
      else ad_later access_read_physical_4 (\<lambda>p. take_bit 2 p = 0 \<and> p \<in> T) (phys s) (phys s1))"

lemma mmu_later_refl [simp]: "mmu_later T s s"
  by (simp add: mmu_later_def same_control_def)

lemma mmu_later_trans: "mmu_later T s s1 \<Longrightarrow> mmu_later T s1 s2 \<Longrightarrow> mmu_later T s s2"
  unfolding mmu_later_def same_control_def by (auto intro: ad_later_trans)

lemma later_entry: "ad_later rd al m m1 \<Longrightarrow> al p \<Longrightarrow> more_ad (rd p m) (rd p m1)"
  by (simp add: ad_later_def)

lemma same_addr:
  assumes "LPFOf l' = LPFOf l"
  shows "pde_addr s l' = pde_addr s l" "pte_addr e l' = pte_addr e l"
proof -
  have "drop_bit n l' AND (0xffc :: DWord) = drop_bit n l AND 0xffc" if "10 \<le> n" for n
    using page_bits[OF assms] that by (intro bit_word_eqI) (auto simp: bit_simps page_masks)
  then show "pde_addr s l' = pde_addr s l" "pte_addr e l' = pte_addr e l" by (simp_all add: pde_addr_def pte_addr_def)
qed

lemma more_ad_legacy:
  assumes "more_ad e e'"
  shows "bit e' 0 = bit e 0" "e' AND 0x80 = e AND 0x80" "e' AND PAGING_PDE4M_RESERVED_BITS = e AND PAGING_PDE4M_RESERVED_BITS"
    "e' AND 0xffc00000 = e AND 0xffc00000" "e' AND 0x003fe000 = e AND 0x003fe000" "e' AND 0xfffff000 = e AND 0xfffff000"
    "6 AND e' = 6 AND e" "e' AND 0x100 = e AND 0x100"
  by (rule more_ad_bit[OF assms] more_ad_and[OF assms]; simp add: PAGING_PDE4M_RESERVED_BITS_def page_masks)+

lemma more_ad_frames:
  assumes "more_ad e e'"
  shows "frame_4M e' = frame_4M e" "frame_4K e' = frame_4K e" "pte_addr e' l = pte_addr e l"
  unfolding frame_4M_def frame_4K_def pte_addr_def more_ad_legacy[OF assms] by (rule refl)+

lemma and_six: "6 AND (a AND b) = (6 AND a) AND (6 AND b)" for a b :: DWord
  by (rule bit_word_eqI) (simp only: bit_and_iff, blast)

lemma legacy_find_again:
  assumes f: "legacy_find l u rw s = Inr w" and later: "mmu_later T s s1" and pae: "\<not> get_PAE (core s)"
    and page: "LPFOf l' = LPFOf l" and tables: "legacy_tables T s"
  shows "\<exists>w'. legacy_find l' u' rw' s1 = Inr w' \<and> same_walk w w'"
proof -
  have ad: "ad_later access_read_physical_4 (\<lambda>p. take_bit 2 p = 0 \<and> p \<in> T) (phys s) (phys s1)"
    and c: "cr3 s1 = cr3 s" "get_PSE (core s1) = get_PSE (core s)"
    using later pae by (auto simp: mmu_later_def same_control_def)
  define a1 e1 e1' where "a1 = pde_addr s l" and "e1 = access_read_physical_4 a1 (phys s)"
    and "e1' = access_read_physical_4 a1 (phys s1)"
  define a0 e0 e0' where "a0 = pte_addr e1 l" and "e0 = access_read_physical_4 a0 (phys s)"
    and "e0' = access_read_physical_4 a0 (phys s1)"
  have T: "a1 \<in> T" "bit e1 0 \<Longrightarrow> \<not> (e1 AND 0x80 \<noteq> 0 \<and> get_PSE (core s)) \<Longrightarrow> a0 \<in> T"
    using tables by (auto simp: legacy_tables_def Let_def a1_def e1_def a0_def)
  have m1: "more_ad e1 e1'" and m0: "a0 \<in> T \<Longrightarrow> more_ad e0 e0'"
    unfolding e1_def e1'_def e0_def e0'_def using T(1) by (auto intro!: later_entry[OF ad] simp: a1_def a0_def legacy_aligned)
  have a1': "pde_addr s1 l' = a1" using same_addr[OF page] c by (simp add: a1_def pde_addr_def)
  have a0': "pte_addr e1' l' = a0" unfolding a0_def more_ad_frames(3)[OF m1] by (rule same_addr(2)[OF page])
  have acc: "6 AND (e1' AND e0') = 6 AND (e1 AND e0)" if "a0 \<in> T"
    unfolding and_six[of e1'] and_six[of e1] more_ad_legacy(7)[OF m1] more_ad_legacy(7)[OF m0[OF that]] by (rule refl)
  have s0: "legacy_find l u rw s =
    (if \<not> bit e1 0 then Inl (page_fault ERROR_NOT_PRESENT l u rw s)
     else if e1 AND 0x80 \<noteq> 0 \<and> get_PSE (core s) then
       (if e1 AND PAGING_PDE4M_RESERVED_BITS \<noteq> 0 then Inl (page_fault (ERROR_RESERVED OR ERROR_PROTECTION) l u rw s)
        else Inr \<lparr>w_leaf = 1, w_addr = (\<lambda>_. 0)(1 := a1), w_entry = (\<lambda>_. 0)(1 := e1), w_ppf = frame_4M e1,
               w_mask = 0x3fffff, w_access = 6 AND e1\<rparr>)
     else if \<not> bit e0 0 then Inl (page_fault ERROR_NOT_PRESENT l u rw s)
     else Inr \<lparr>w_leaf = 0, w_addr = (\<lambda>_. 0)(1 := a1, 0 := a0), w_entry = (\<lambda>_. 0)(1 := e1, 0 := e0),
            w_ppf = frame_4K e0, w_mask = 0xfff, w_access = 6 AND (e1 AND e0)\<rparr>)"
    unfolding legacy_find_eq Let_def a1_def a0_def e1_def e0_def by (rule refl)
  have s1: "legacy_find l' u' rw' s1 =
    (if \<not> bit e1 0 then Inl (page_fault ERROR_NOT_PRESENT l' u' rw' s1)
     else if e1 AND 0x80 \<noteq> 0 \<and> get_PSE (core s) then
       (if e1 AND PAGING_PDE4M_RESERVED_BITS \<noteq> 0 then Inl (page_fault (ERROR_RESERVED OR ERROR_PROTECTION) l' u' rw' s1)
        else Inr \<lparr>w_leaf = 1, w_addr = (\<lambda>_. 0)(1 := a1), w_entry = (\<lambda>_. 0)(1 := e1'), w_ppf = frame_4M e1,
               w_mask = 0x3fffff, w_access = 6 AND e1\<rparr>)
     else if \<not> bit e0' 0 then Inl (page_fault ERROR_NOT_PRESENT l' u' rw' s1)
     else Inr \<lparr>w_leaf = 0, w_addr = (\<lambda>_. 0)(1 := a1, 0 := a0), w_entry = (\<lambda>_. 0)(1 := e1', 0 := e0'),
            w_ppf = frame_4K e0', w_mask = 0xfff, w_access = 6 AND (e1' AND e0')\<rparr>)"
    unfolding legacy_find_eq Let_def a1' e1'_def[symmetric] a0' e0'_def[symmetric] c
      more_ad_legacy(1-3,7)[OF m1] more_ad_frames(1)[OF m1] by (rule refl)
  show ?thesis
  proof (cases "e1 AND 0x80 \<noteq> 0 \<and> get_PSE (core s)")
    case True
    then show ?thesis using f m1 unfolding s0 s1 same_walk_def
      by (simp del: One_nat_def split: if_split_asm) (drule sym, simp)
  next
    case False
    then have a0: "a0 \<in> T" using T(2) f unfolding s0 by (auto split: if_split_asm)
    show ?thesis using False f m0[OF a0] unfolding s0 s1 same_walk_def acc[OF a0] more_ad_legacy(1)[OF m0[OF a0]]
      more_ad_frames(2)[OF m0[OF a0]] by (simp del: One_nat_def split: if_split_asm) (drule sym, simp)
  qed
qed

section \<open>The end of a walk\<close>

text \<open>The checks and updates that both modes make on what the search has found.\<close>

definition finish :: "(QWord \<Rightarrow> 'e::len word \<Rightarrow> bx_mem \<Rightarrow> bx_mem) \<Rightarrow> DWord \<Rightarrow> bool \<Rightarrow> nat \<Rightarrow> bool \<Rightarrow> 'e word walk \<Rightarrow> bx_mmu \<Rightarrow>
    fault + translation" where
  "finish wr laddr user rw nx w s =
     (if \<not> allowed (get_WP (core s)) user (isWrite rw) (w_access w) \<or> nx \<or> protected s user rw (w_access w)
      then Inl (page_fault ERROR_PROTECTION laddr user rw s)
      else Inr (w_ppf w OR ucast (laddr AND w_mask w), w_mask w,
        if get_PGE (core s) then w_access w OR (ucast (w_entry w (w_leaf w)) AND 0x100) else w_access w,
        upd_phys (ad_update wr (w_addr w) (w_entry w) (w_leaf w) (isWrite rw)) s))"

lemma update_access_dirty_ad:
  "leaf \<le> 1 \<Longrightarrow> update_access_dirty addr entry leaf write m = ad_update access_write_physical_4 addr entry leaf write m"
  by (cases "leaf = 0") (auto simp: update_access_dirty_def ad_update_def Let_def)

lemma update_access_dirty_PAE_ad:
  "leaf \<le> 1 \<Longrightarrow> update_access_dirty_PAE addr entry 1 leaf write m = ad_update access_write_physical_8 addr entry leaf write m"
  by (cases "leaf = 0") (auto simp: update_access_dirty_PAE_def ad_update_def Let_def accessed_loop.simps)

lemma translate_linear_legacy_finish:
  "translate_linear_legacy l u rw s =
     (case legacy_find l u rw s of Inl f \<Rightarrow> Inl f | Inr w \<Rightarrow> finish access_write_physical_4 l u rw False w s)"
proof (cases "legacy_find l u rw s")
  case (Inl f)
  then show ?thesis by (simp add: translate_linear_legacy_def legacy_find_def)
next
  case (Inr w)
  then have "w_leaf w \<le> 1" "6 AND w_access w = w_access w" using legacy_find_leaf by auto
  then have "priv_check ! priv_index (core s) u (w_access w) rw = 0 \<longleftrightarrow> \<not> allowed (get_WP (core s)) u (isWrite rw) (w_access w)"
    using priv_check_allowed[of "core s" u "w_access w" rw] by simp
  moreover have "update_access_dirty (w_addr w) (w_entry w) (w_leaf w) (isWrite rw) =
      ad_update access_write_physical_4 (w_addr w) (w_entry w) (w_leaf w) (isWrite rw)"
    using \<open>w_leaf w \<le> 1\<close> by (intro ext update_access_dirty_ad)
  ultimately show ?thesis using Inr
    unfolding translate_linear_legacy_def legacy_find_def finish_def by simp
qed

section \<open>The walk of the PAE mode\<close>

definition pae_reserved :: "bx_mmu \<Rightarrow> QWord" where
  "pae_reserved s = (if efer_NXE s then PAGING_LEGACY_PAE_RESERVED_BITS
     else PAGING_LEGACY_PAE_RESERVED_BITS OR PAGE_DIRECTORY_NX_BIT)"

definition pae_find :: "DWord \<Rightarrow> bool \<Rightarrow> nat \<Rightarrow> bx_mmu \<Rightarrow> fault + QWord walk \<times> bool" where
  "pae_find laddr user rw s =
     (case translate_linear_load_PDPTR laddr user rw s of
        Inl f \<Rightarrow> Inl f
      | Inr pdpte \<Rightarrow> pae_loop 1 laddr user rw (pae_reserved s) False
          \<lparr>w_leaf = 1, w_addr = \<lambda>_. 0, w_entry = \<lambda>_. 0, w_ppf = pdpte AND 0x000ffffffffff000,
           w_mask = 0xfff, w_access = 6\<rparr> s)"

text \<open>The addresses of the entries, and what forbids an entry.\<close>

definition pdpte_of :: "bx_mmu \<Rightarrow> DWord \<Rightarrow> QWord" where
  "pdpte_of s l = PDPTR_CACHE s (unat (drop_bit 30 l AND 0x3))"

definition pae_addr :: "nat \<Rightarrow> QWord \<Rightarrow> DWord \<Rightarrow> QWord" where
  "pae_addr n e l = (e AND 0x000ffffffffff000) + ucast (drop_bit n l AND (0xff8 :: DWord))"

definition pae_fault :: "QWord \<Rightarrow> QWord \<Rightarrow> DWord option" where
  "pae_fault e reserved = (if \<not> bit e 0 then Some ERROR_NOT_PRESENT
     else if e AND reserved \<noteq> 0 then Some (ERROR_RESERVED OR ERROR_PROTECTION) else None)"

definition pae_nx :: "QWord \<Rightarrow> nat \<Rightarrow> bool" where
  "pae_nx e rw \<longleftrightarrow> e AND PAGE_DIRECTORY_NX_BIT \<noteq> 0 \<and> rw = BX_EXECUTE"

lemma check_entry_PAE_eq:
  "check_entry_PAE e reserved rw = (pae_fault e reserved, pae_fault e reserved = None \<and> pae_nx e rw)"
  by (simp add: check_entry_PAE_def pae_fault_def pae_nx_def)

lemma pae_find_eq:
  "pae_find l u rw s =
    (let a1 = pae_addr 18 (pdpte_of s l) l; e1 = access_read_physical_8 a1 (phys s)
     in if \<not> bit (pdpte_of s l) 0 then Inl (page_fault ERROR_NOT_PRESENT l u rw s)
        else (case pae_fault e1 (pae_reserved s) of
          Some f \<Rightarrow> Inl (page_fault f l u rw s)
        | None \<Rightarrow>
          if e1 AND 0x80 \<noteq> 0 then
            (if e1 AND PAGING_PAE_PDE2M_RESERVED_BITS \<noteq> 0
             then Inl (page_fault (ERROR_RESERVED OR ERROR_PROTECTION) l u rw s)
             else Inr (\<lparr>w_leaf = 1, w_addr = (\<lambda>_. 0)(1 := a1), w_entry = (\<lambda>_. 0)(1 := e1),
                    w_ppf = e1 AND 0x000fffffffe00000, w_mask = 0x1fffff, w_access = 6 AND ucast e1\<rparr>, pae_nx e1 rw))
          else
            (let a0 = pae_addr 9 e1 l; e0 = access_read_physical_8 a0 (phys s)
             in case pae_fault e0 (pae_reserved s) of
               Some f \<Rightarrow> Inl (page_fault f l u rw s)
             | None \<Rightarrow> Inr (\<lparr>w_leaf = 0, w_addr = (\<lambda>_. 0)(1 := a1, 0 := a0), w_entry = (\<lambda>_. 0)(1 := e1, 0 := e0),
                        w_ppf = e0 AND 0x000ffffffffff000, w_mask = 0xfff,
                        w_access = 6 AND (ucast e1 AND ucast e0)\<rparr>, pae_nx e1 rw \<or> pae_nx e0 rw))))"
proof -
  have load: "translate_linear_load_PDPTR l u rw s =
      (if \<not> bit (pdpte_of s l) 0 then Inl (page_fault ERROR_NOT_PRESENT l u rw s) else Inr (pdpte_of s l))"
    by (simp add: translate_linear_load_PDPTR_def pdpte_of_def Let_def)
  show ?thesis
    unfolding pae_find_def load
    by (subst pae_loop.simps, subst pae_loop.simps)
      (simp add: Let_def and.assoc check_entry_PAE_eq pae_addr_def cong: if_cong option.case_cong split: option.split)
qed

lemma pae_aligned: "take_bit 3 (pae_addr n e l) = 0"
  unfolding pae_addr_def by (intro aligned_sum take_bit_zeroI; simp add: bit_simps page_masks)+

lemma pae_frame_aligned: "take_bit 12 (e AND 0x000ffffffffff000 :: QWord) = 0" "take_bit 12 (e AND 0x000fffffffe00000 :: QWord) = 0"
  by (intro take_bit_zeroI; auto simp: bit_simps page_masks)+

definition pae_tables :: "QWord set \<Rightarrow> bx_mmu \<Rightarrow> bool" where
  "pae_tables T s \<longleftrightarrow> (\<forall>l. pae_addr 18 (pdpte_of s l) l \<in> T \<and>
     (let e = access_read_physical_8 (pae_addr 18 (pdpte_of s l) l) (phys s)
      in bit e 0 \<and> e AND 0x80 = 0 \<longrightarrow> pae_addr 9 e l \<in> T))"

lemma pae_fault_present: "pae_fault e r = None \<Longrightarrow> bit e 0"
  by (simp add: pae_fault_def split: if_splits)

lemma pae_find_leaf: "pae_find l u rw s = Inr (w, nx) \<Longrightarrow> w_leaf w \<le> 1 \<and> 6 AND w_access w = w_access w"
  unfolding pae_find_eq Let_def by (auto split: if_splits option.splits simp: and.assoc[symmetric])

lemma pae_find_found:
  "pae_find l u rw s = Inr (w, nx) \<Longrightarrow> pae_tables T s \<Longrightarrow> found access_read_physical_8 (\<lambda>p. take_bit 3 p = 0 \<and> p \<in> T) (phys s) w"
  unfolding pae_find_eq Let_def found_def pae_tables_def
  by (auto split: if_splits option.splits dest: pae_fault_present simp: pae_aligned pae_frame_aligned and.assoc[symmetric])

lemma pae_find_nx: "pae_find l u rw s = Inr (w, nx) \<Longrightarrow> rw \<noteq> BX_EXECUTE \<Longrightarrow> \<not> nx"
  unfolding pae_find_eq Let_def by (auto split: if_splits option.splits simp: pae_nx_def)

lemma translate_linear_PAE_finish:
  "translate_linear_PAE l u rw s =
     (case pae_find l u rw s of Inl f \<Rightarrow> Inl f | Inr (w, nx) \<Rightarrow> finish access_write_physical_8 l u rw nx w s)"
proof (cases "pae_find l u rw s")
  case (Inl f)
  then show ?thesis
    unfolding translate_linear_PAE_def pae_find_def pae_reserved_def[symmetric] Let_def by (auto split: sum.splits)
next
  case (Inr r)
  obtain w nx where r: "r = (w, nx)" by fastforce
  then have "w_leaf w \<le> 1" "6 AND w_access w = w_access w" using pae_find_leaf Inr by auto
  then have "priv_check ! priv_index (core s) u (w_access w) rw = 0 \<longleftrightarrow> \<not> allowed (get_WP (core s)) u (isWrite rw) (w_access w)"
    using priv_check_allowed[of "core s" u "w_access w" rw] by simp
  moreover have "update_access_dirty_PAE (w_addr w) (w_entry w) 1 (w_leaf w) (isWrite rw) =
      ad_update access_write_physical_8 (w_addr w) (w_entry w) (w_leaf w) (isWrite rw)"
    using \<open>w_leaf w \<le> 1\<close> by (intro ext update_access_dirty_PAE_ad)
  ultimately show ?thesis using Inr r
    unfolding translate_linear_PAE_def pae_find_def finish_def pae_reserved_def[symmetric] Let_def by (auto split: sum.splits)
qed

lemma more_ad_pae:
  assumes "more_ad e e'"
  shows "bit e' 0 = bit e 0" "e' AND 0x80 = e AND 0x80" "e' AND PAGING_PAE_PDE2M_RESERVED_BITS = e AND PAGING_PAE_PDE2M_RESERVED_BITS"
    "e' AND pae_reserved s = e AND pae_reserved s" "e' AND 0x000ffffffffff000 = e AND 0x000ffffffffff000"
    "e' AND 0x000fffffffe00000 = e AND 0x000fffffffe00000"
  by (rule more_ad_bit[OF assms] more_ad_and[OF assms];
      simp add: PAGING_PAE_PDE2M_RESERVED_BITS_def pae_reserved_def PAGING_LEGACY_PAE_RESERVED_BITS_def
        BX_PAGING_PHY_ADDRESS_RESERVED_BITS_def PAGE_DIRECTORY_NX_BIT_def mask_eq_exp_minus_1)+

lemma more_ad_six: "more_ad e e' \<Longrightarrow> 6 AND ucast e' = (6 AND ucast e :: DWord)" for e :: QWord
  by (rule bit_word_eqI) (auto simp: bit_simps page_masks more_ad_def)

lemma pae_same_addr:
  assumes "LPFOf l' = LPFOf l"
  shows "pdpte_of s l' = pdpte_of s l" "9 \<le> n \<Longrightarrow> pae_addr n e l' = pae_addr n e l"
proof -
  have "drop_bit 30 l' AND (3 :: DWord) = drop_bit 30 l AND 3"
    using page_bits[OF assms] by (intro bit_word_eqI) (simp add: bit_simps)
  then show "pdpte_of s l' = pdpte_of s l" by (simp add: pdpte_of_def)
  have "drop_bit n l' AND (0xff8 :: DWord) = drop_bit n l AND 0xff8" if "9 \<le> n"
    using page_bits[OF assms] that by (intro bit_word_eqI) (auto simp: bit_simps page_masks)
  then show "9 \<le> n \<Longrightarrow> pae_addr n e l' = pae_addr n e l" by (simp add: pae_addr_def)
qed

lemma pae_find_again:
  assumes f: "pae_find l u rw s = Inr (w, nx)" and later: "mmu_later T s s1" and pae: "get_PAE (core s)"
    and page: "LPFOf l' = LPFOf l" and tables: "pae_tables T s"
  shows "\<exists>w' nx'. pae_find l' u' rw' s1 = Inr (w', nx') \<and> same_walk w w'"
proof -
  have ad: "ad_later access_read_physical_8 (\<lambda>p. take_bit 3 p = 0 \<and> p \<in> T) (phys s) (phys s1)"
    and c: "PDPTR_CACHE s1 = PDPTR_CACHE s" "pae_reserved s1 = pae_reserved s"
    using later pae by (auto simp: mmu_later_def same_control_def pae_reserved_def)
  define d where "d = pdpte_of s l"
  define a1 e1 e1' where "a1 = pae_addr 18 d l" and "e1 = access_read_physical_8 a1 (phys s)"
    and "e1' = access_read_physical_8 a1 (phys s1)"
  define a0 e0 e0' where "a0 = pae_addr 9 e1 l" and "e0 = access_read_physical_8 a0 (phys s)"
    and "e0' = access_read_physical_8 a0 (phys s1)"
  have T: "a1 \<in> T" "bit e1 0 \<Longrightarrow> e1 AND 0x80 = 0 \<Longrightarrow> a0 \<in> T"
    using tables by (auto simp: pae_tables_def Let_def a1_def e1_def a0_def d_def)
  have m1: "more_ad e1 e1'" and m0: "a0 \<in> T \<Longrightarrow> more_ad e0 e0'"
    unfolding e1_def e1'_def e0_def e0'_def using T(1) by (auto intro!: later_entry[OF ad] simp: a1_def a0_def pae_aligned)
  have d': "pdpte_of s1 l' = d" using pae_same_addr(1)[OF page] c by (simp add: d_def pdpte_of_def)
  have a1': "pae_addr 18 d l' = a1" unfolding a1_def by (rule pae_same_addr(2)[OF page]) simp
  have a0': "pae_addr 9 e1' l' = a0"
    unfolding a0_def pae_same_addr(2)[OF page, of 9, simplified] unfolding pae_addr_def more_ad_pae[OF m1] by (rule refl)
  have acc: "6 AND (ucast e1' AND ucast e0') = (6 AND (ucast e1 AND ucast e0) :: DWord)" if "a0 \<in> T"
    unfolding and_six[of "ucast e1'"] and_six[of "ucast e1"] more_ad_six[OF m1] more_ad_six[OF m0[OF that]] by (rule refl)
  have fault: "pae_fault e1' (pae_reserved s) = pae_fault e1 (pae_reserved s)"
    "a0 \<in> T \<Longrightarrow> pae_fault e0' (pae_reserved s) = pae_fault e0 (pae_reserved s)"
    unfolding pae_fault_def using more_ad_pae[OF m1] more_ad_pae[OF m0] by simp_all
  have s0: "pae_find l u rw s = Inr (w, nx) \<longleftrightarrow>
     bit d 0 \<and> pae_fault e1 (pae_reserved s) = None \<and>
     (if e1 AND 0x80 \<noteq> 0 then e1 AND PAGING_PAE_PDE2M_RESERVED_BITS = 0 \<and>
          \<lparr>w_leaf = 1, w_addr = (\<lambda>_. 0)(1 := a1), w_entry = (\<lambda>_. 0)(1 := e1),
           w_ppf = e1 AND 0x000fffffffe00000, w_mask = 0x1fffff, w_access = 6 AND ucast e1\<rparr> = w \<and> pae_nx e1 rw = nx
      else pae_fault e0 (pae_reserved s) = None \<and>
          \<lparr>w_leaf = 0, w_addr = (\<lambda>_. 0)(1 := a1, 0 := a0), w_entry = (\<lambda>_. 0)(1 := e1, 0 := e0),
           w_ppf = e0 AND 0x000ffffffffff000, w_mask = 0xfff, w_access = 6 AND (ucast e1 AND ucast e0)\<rparr> = w \<and>
          (pae_nx e1 rw \<or> pae_nx e0 rw) = nx)"
    unfolding pae_find_eq Let_def d_def[symmetric] a1_def[symmetric] e1_def[symmetric] a0_def[symmetric] e0_def[symmetric]
    by (simp del: One_nat_def split: option.split)
  have s1: "pae_find l' u' rw' s1 = Inr (w', nx') \<longleftrightarrow>
     bit d 0 \<and> pae_fault e1 (pae_reserved s) = None \<and>
     (if e1 AND 0x80 \<noteq> 0 then e1 AND PAGING_PAE_PDE2M_RESERVED_BITS = 0 \<and>
          \<lparr>w_leaf = 1, w_addr = (\<lambda>_. 0)(1 := a1), w_entry = (\<lambda>_. 0)(1 := e1'),
           w_ppf = e1 AND 0x000fffffffe00000, w_mask = 0x1fffff, w_access = 6 AND ucast e1\<rparr> = w' \<and> pae_nx e1' rw' = nx'
      else pae_fault e0' (pae_reserved s) = None \<and>
          \<lparr>w_leaf = 0, w_addr = (\<lambda>_. 0)(1 := a1, 0 := a0), w_entry = (\<lambda>_. 0)(1 := e1', 0 := e0'),
           w_ppf = e0' AND 0x000ffffffffff000, w_mask = 0xfff, w_access = 6 AND (ucast e1' AND ucast e0')\<rparr> = w' \<and>
          (pae_nx e1' rw' \<or> pae_nx e0' rw') = nx')" for w' nx'
    unfolding pae_find_eq Let_def d' a1' e1'_def[symmetric] a0' e0'_def[symmetric] c(2) fault(1)
      more_ad_pae(1-3,5,6)[OF m1] more_ad_six[OF m1]
    by (simp del: One_nat_def split: option.split)
  show ?thesis
  proof (cases "e1 AND 0x80 \<noteq> 0")
    case True
    then show ?thesis using f m1 unfolding s0 s1 same_walk_def by (auto simp del: One_nat_def)
  next
    case False
    then have a0: "a0 \<in> T" using T(2) f pae_fault_present unfolding s0 by (auto split: if_split_asm)
    show ?thesis using False f m0[OF a0]
      unfolding s0 s1 same_walk_def acc[OF a0] fault(2)[OF a0] more_ad_pae(5)[OF m0[OF a0]] by (auto simp del: One_nat_def)
  qed
qed

section \<open>A walk repeated\<close>

text \<open>An access that asks for no more than an earlier one.\<close>

definition weaker :: "bx_mmu \<Rightarrow> bool \<Rightarrow> nat \<Rightarrow> DWord \<Rightarrow> bool \<Rightarrow> nat \<Rightarrow> bool" where
  "weaker s user rw access user' rw' \<longleftrightarrow> (user' \<longrightarrow> user) \<and> (isWrite rw' \<longrightarrow> isWrite rw) \<and> rw' \<noteq> BX_EXECUTE \<and>
     (get_SMAP (core s) \<and> \<not> user' \<longrightarrow> \<not> bit access 2)"

lemma and_four: "x AND 4 = 0 \<longleftrightarrow> \<not> bit x 2" for x :: DWord
  by (simp add: and_exp_eq_0_iff_not_bit[of x 2, simplified])

lemma weaker_passes:
  assumes "allowed (get_WP (core s)) user (isWrite rw) a" "weaker s user rw a user' rw'"
    and "get_WP (core s1) = get_WP (core s)" "get_SMAP (core s1) = get_SMAP (core s)"
  shows "allowed (get_WP (core s1)) user' (isWrite rw') a" "\<not> protected s1 user' rw' a"
  using assms by (auto simp: allowed_def weaker_def protected_def and_four)

lemma frame_or_cancel:
  fixes f :: QWord
  assumes f: "take_bit 12 f = 0" and m: "take_bit 12 m = (0xfff :: DWord)" and l: "LPFOf l' = LPFOf l"
    and a20: "take_bit 12 (a20_mask M) = 0xfff"
  shows "A20ADDR (f OR ucast (l' AND m)) M = PPFOf (A20ADDR (f OR ucast (l AND m)) M) OR ucast (PAGE_OFFSET l')"
proof (rule bit_word_eqI)
  fix k assume k: "k < LENGTH(64)"
  show "bit (A20ADDR (f OR ucast (l' AND m)) M) k =
      bit (PPFOf (A20ADDR (f OR ucast (l AND m)) M) OR ucast (PAGE_OFFSET l')) k"
  proof (cases "k < 12")
    case True
    have "bit (take_bit 12 f) k = bit (0 :: QWord) k" "bit (take_bit 12 m) k = bit (0xfff :: DWord) k"
      "bit (take_bit 12 (a20_mask M)) k = bit (0xfff :: QWord) k" using f m a20 by simp_all
    then show ?thesis using True by (simp add: A20ADDR_def PPFOf_def PAGE_OFFSET_def bit_simps page_masks)
  next
    case False
    then have "bit l' k = bit l k" using page_bits[OF l, of k] by simp
    then show ?thesis using False k by (simp add: A20ADDR_def PPFOf_def PAGE_OFFSET_def bit_simps page_masks)
  qed
qed

text \<open>The global bit of an entry.\<close>

lemma more_ad_global: "more_ad e e' \<Longrightarrow> ucast e' AND 0x100 = (ucast e AND 0x100 :: DWord)" for e :: "'e::len word"
  by (rule bit_word_eqI) (auto simp: bit_simps page_masks more_ad_def)

context entry_memory
begin

lemma finish_again:
  assumes first: "finish wr l u rw nx w s = Inr (p, m, ca, s1)"
    and w: "found rd al (phys s) w"
    and later: "same_control s s2" "ad_later rd al (phys s1) (phys s2)"
    and w': "found rd al (phys s2) w'" "same_walk w w'"
    and weak: "weaker s u rw (w_access w) u' rw'"
  shows "finish wr l' u' rw' False w' s2 = Inr (w_ppf w OR ucast (l' AND w_mask w), w_mask w, ca, s2)"
proof -
  have ok: "allowed (get_WP (core s)) u (isWrite rw) (w_access w)"
    and s1: "s1 = upd_phys (ad_update wr (w_addr w) (w_entry w) (w_leaf w) (isWrite rw)) s"
    and ca: "ca = (if get_PGE (core s) then w_access w OR (ucast (w_entry w (w_leaf w)) AND 0x100) else w_access w)"
    using first by (auto simp: finish_def split: if_split_asm)
  have c: "get_WP (core s2) = get_WP (core s)" "get_SMAP (core s2) = get_SMAP (core s)" "get_PGE (core s2) = get_PGE (core s)"
    using later(1) by (auto simp: same_control_def)
  note pass = weaker_passes[OF ok weak c(1,2)]
  have al: "al (w_addr w 1)" "al (w_addr w (w_leaf w))" and leaf: "w_leaf w \<le> 1"
    and e: "w_entry w 1 = rd (w_addr w 1) (phys s)" "w_entry w (w_leaf w) = rd (w_addr w (w_leaf w)) (phys s)"
    using w by (auto simp: found_def)
  have sw: "w_leaf w' = w_leaf w" "w_ppf w' = w_ppf w" "w_mask w' = w_mask w" "w_access w' = w_access w"
      "w_addr w' 1 = w_addr w 1" "w_addr w' (w_leaf w) = w_addr w (w_leaf w)"
      "more_ad (w_entry w (w_leaf w)) (w_entry w' (w_leaf w))"
    using w'(2) by (auto simp: same_walk_def)
  have "phys s1 = ad_update wr (w_addr w) (w_entry w) (w_leaf w) (isWrite rw) (phys s)"
    by (simp add: s1 upd_phys_def)
  then have st: "sticky rd 5 (w_addr w 1) (phys s1)" "sticky rd 5 (w_addr w (w_leaf w)) (phys s1)"
    "isWrite rw \<Longrightarrow> sticky rd 6 (w_addr w (w_leaf w)) (phys s1)"
    using ad_update_sticky[where addr = "w_addr w" and entry = "w_entry w" and m = "phys s" and is_wr = "isWrite rw", OF al e leaf]
    by simp_all
  have "ad_update wr (w_addr w') (w_entry w') (w_leaf w') (isWrite rw') (phys s2) = phys s2"
  proof (rule ad_update_idle)
    show "w_entry w' 1 = rd (w_addr w' 1) (phys s2)" "w_entry w' (w_leaf w') = rd (w_addr w' (w_leaf w')) (phys s2)"
      using w'(1) by (simp_all add: found_def)
    show "sticky rd 5 (w_addr w' 1) (phys s2)" "sticky rd 5 (w_addr w' (w_leaf w')) (phys s2)"
      using sticky_later[OF later(2) al(1) st(1)] sticky_later[OF later(2) al(2) st(2)] by (simp_all only: sw(1-6))
    show "sticky rd 6 (w_addr w' (w_leaf w')) (phys s2)" if "isWrite rw'"
      using sticky_later[OF later(2) al(2) st(3)] weak that by (simp only: sw(1-6) weaker_def)
  qed
  then have "upd_phys (ad_update wr (w_addr w') (w_entry w') (w_leaf w') (isWrite rw')) s2 = s2"
    by (simp add: upd_phys_def)
  then show ?thesis using pass c(3) more_ad_global[OF sw(7)] by (simp add: finish_def ca sw(1-6))
qed

end

end
