(* ===== verification/Tlb.thy ===== *)
theory Tlb
  imports Walk
begin

text \<open>
  The TLB is transparent: the entry that a miss makes promises what a walk would give in every later state, and
  a translation through the TLB gives what the walk of the page tables gives.
\<close>

unbundle bit_operations_syntax

section \<open>Walks in later states\<close>

lemma upd_phys_control [simp]: "same_control s (upd_phys f s)" "same_control s (s\<lparr>split_large := b\<rparr>)"
    "same_control s (s\<lparr>TLB_entry := t\<rparr>)" "same_control s (s\<lparr>cr2 := l\<rparr>)"
  by (simp_all add: same_control_def upd_phys_def)

lemma finish_later:
  assumes "finish wr l u rw nx w s = Inr (p, m, ca, s1)"
  shows "core s1 = core s" "TLB_entry s1 = TLB_entry s" "split_large s1 = split_large s" "same_control s s1"
    "phys s1 = ad_update wr (w_addr w) (w_entry w) (w_leaf w) (isWrite rw) (phys s)"
  using assms by (auto simp: finish_def upd_phys_def same_control_def split: if_splits)

lemma legacy_later:
  assumes "translate_linear_legacy l u rw s = Inr (p, m, ca, s1)" "\<not> get_PAE (core s)" "legacy_tables T s"
  shows "mmu_later T s s1" "core s1 = core s" "TLB_entry s1 = TLB_entry s"
proof -
  obtain w where w: "legacy_find l u rw s = Inr w" and f: "finish access_write_physical_4 l u rw False w s = Inr (p, m, ca, s1)"
    using assms(1) by (auto simp: translate_linear_legacy_finish split: sum.splits)
  note found = legacy_find_found[OF w assms(3)]
  have "ad_later access_read_physical_4 (\<lambda>p. take_bit 2 p = 0 \<and> p \<in> T) (phys s) (phys s1)"
    unfolding finish_later(5)[OF f] using found by (intro m4.later_ad_update) (simp_all add: found_def)
  then show "mmu_later T s s1" using assms(2) finish_later(4)[OF f] by (simp add: mmu_later_def)
  show "core s1 = core s" "TLB_entry s1 = TLB_entry s" using finish_later[OF f] by auto
qed

lemma pae_later:
  assumes "translate_linear_PAE l u rw s = Inr (p, m, ca, s1)" "get_PAE (core s)" "pae_tables T s"
  shows "mmu_later T s s1" "core s1 = core s" "TLB_entry s1 = TLB_entry s"
proof -
  obtain w nx where w: "pae_find l u rw s = Inr (w, nx)" and f: "finish access_write_physical_8 l u rw nx w s = Inr (p, m, ca, s1)"
    using assms(1) by (auto simp: translate_linear_PAE_finish split: sum.splits)
  note found = pae_find_found[OF w assms(3)]
  have "ad_later access_read_physical_8 (\<lambda>p. take_bit 3 p = 0 \<and> p \<in> T) (phys s) (phys s1)"
    unfolding finish_later(5)[OF f] using found by (intro m8.later_ad_update) (simp_all add: found_def)
  then show "mmu_later T s s1" using assms(2) finish_later(4)[OF f] by (simp add: mmu_later_def)
  show "core s1 = core s" "TLB_entry s1 = TLB_entry s" using finish_later[OF f] by auto
qed

lemma later_split [simp]: "mmu_later T s (s1\<lparr>split_large := b\<rparr>) = mmu_later T s s1" "mmu_later T s (s1\<lparr>TLB_entry := t\<rparr>) = mmu_later T s s1"
    "mmu_later T s (s1\<lparr>cr2 := a\<rparr>) = mmu_later T s s1" "mmu_later T (s\<lparr>split_large := b\<rparr>) s1 = mmu_later T s s1"
    "mmu_later T (s\<lparr>TLB_entry := t\<rparr>) s1 = mmu_later T s s1" "mmu_later T (s\<lparr>cr2 := a\<rparr>) s1 = mmu_later T s s1"
  by (simp_all add: mmu_later_def same_control_def)

text \<open>The walk of the mode in use.\<close>

definition walk_paging :: "DWord \<Rightarrow> bool \<Rightarrow> nat \<Rightarrow> bx_mmu \<Rightarrow> fault + translation" where
  "walk_paging l u rw s = (if get_PAE (core s) then translate_linear_PAE l u rw s else translate_linear_legacy l u rw s)"

text \<open>The tables of the mode in use lie in \<open>T\<close>, and go on lying there.\<close>

definition tables_in :: "QWord set \<Rightarrow> bx_mmu \<Rightarrow> bool" where
  "tables_in T s \<longleftrightarrow> get_PG (core s) \<longrightarrow> (if get_PAE (core s) then pae_tables T s else legacy_tables T s)"

lemma legacy_tables_later:
  assumes "legacy_tables T s" "mmu_later T s s1" "\<not> get_PAE (core s)"
  shows "legacy_tables T s1"
proof -
  have ad: "ad_later access_read_physical_4 (\<lambda>p. take_bit 2 p = 0 \<and> p \<in> T) (phys s) (phys s1)"
    and c: "\<And>l. pde_addr s1 l = pde_addr s l" "get_PSE (core s1) = get_PSE (core s)"
    using assms(2,3) by (auto simp: mmu_later_def same_control_def pde_addr_def)
  define e where "e l x = access_read_physical_4 (pde_addr s l) x" for l x
  have m: "more_ad (e l (phys s)) (e l (phys s1))" for l
    unfolding e_def using assms(1) by (intro later_entry[OF ad]) (simp add: legacy_aligned legacy_tables_def)
  show ?thesis
    using assms(1) more_ad_legacy(1,2)[OF m] more_ad_frames(3)[OF m] unfolding legacy_tables_def Let_def c e_def[symmetric] by simp
qed

lemma pae_tables_later:
  assumes "pae_tables T s" "mmu_later T s s1" "get_PAE (core s)"
  shows "pae_tables T s1"
proof -
  have ad: "ad_later access_read_physical_8 (\<lambda>p. take_bit 3 p = 0 \<and> p \<in> T) (phys s) (phys s1)"
    and c: "\<And>l. pdpte_of s1 l = pdpte_of s l"
    using assms(2,3) by (auto simp: mmu_later_def same_control_def pdpte_of_def)
  define e where "e l x = access_read_physical_8 (pae_addr 18 (pdpte_of s l) l) x" for l x
  have m: "more_ad (e l (phys s)) (e l (phys s1))" for l
    unfolding e_def using assms(1) by (intro later_entry[OF ad]) (simp add: pae_aligned pae_tables_def)
  have "pae_addr 9 (e l (phys s1)) l = pae_addr 9 (e l (phys s)) l" for l
    unfolding pae_addr_def more_ad_pae(5)[OF m] by (rule refl)
  then show ?thesis
    using assms(1) more_ad_pae(1,2)[OF m] unfolding pae_tables_def Let_def c e_def[symmetric] by simp
qed

lemma tables_in_later: "tables_in T s \<Longrightarrow> mmu_later T s s1 \<Longrightarrow> tables_in T s1"
proof -
  assume a: "tables_in T s" "mmu_later T s s1"
  then have "get_PG (core s1) = get_PG (core s)" "get_PAE (core s1) = get_PAE (core s)"
    by (simp_all add: mmu_later_def same_control_def)
  then show "tables_in T s1"
    using a(1) legacy_tables_later[OF _ a(2)] pae_tables_later[OF _ a(2)] by (simp add: tables_in_def split: if_splits)
qed

lemma tables_in_fields [simp]: "tables_in T (s\<lparr>split_large := b\<rparr>) = tables_in T s" "tables_in T (s\<lparr>TLB_entry := t\<rparr>) = tables_in T s"
    "tables_in T (s\<lparr>cr2 := a\<rparr>) = tables_in T s"
  by (simp_all add: tables_in_def pae_tables_def legacy_tables_def pde_addr_def pdpte_of_def)

lemma walk_paging_later:
  "walk_paging l u rw s = Inr (p, m, ca, s1) \<Longrightarrow> tables_in T s \<Longrightarrow> get_PG (core s) \<Longrightarrow>
   mmu_later T s s1 \<and> core s1 = core s \<and> TLB_entry s1 = TLB_entry s"
  by (cases "get_PAE (core s)") (auto simp: walk_paging_def tables_in_def dest: legacy_later pae_later)

lemma same_control_sym: "same_control s s1 \<Longrightarrow> same_control s1 s"
  by (simp add: same_control_def)

lemma walk_paging_again:
  assumes first: "walk_paging l u rw s = Inr (p, m, ca, s1)" and later: "mmu_later T s1 s2" and page: "LPFOf l' = LPFOf l"
    and weak: "weaker s u rw ca u' rw'" and tables: "tables_in T s" and pg: "get_PG (core s)"
  shows "\<exists>f. take_bit 12 f = 0 \<and> take_bit 12 m = 0xfff \<and> p = f OR ucast (l AND m) \<and>
     walk_paging l' u' rw' s2 = Inr (f OR ucast (l' AND m), m, ca, s2)"
proof -
  have l12: "mmu_later T s s2" using walk_paging_later[OF first tables pg] later mmu_later_trans by blast
  then have sc: "same_control s s2" by (simp add: mmu_later_def)
  have t2: "tables_in T s2" by (rule tables_in_later[OF tables l12])
  show ?thesis
  proof (cases "get_PAE (core s)")
    case True
    then have t: "pae_tables T s" "pae_tables T s2" using tables t2 pg sc by (auto simp: tables_in_def same_control_def)
    obtain w nx where w: "pae_find l u rw s = Inr (w, nx)"
      and f: "finish access_write_physical_8 l u rw nx w s = Inr (p, m, ca, s1)"
      using first True by (auto simp: walk_paging_def translate_linear_PAE_finish split: sum.splits)
    obtain w' nx' where w': "pae_find l' u' rw' s2 = Inr (w', nx')" "same_walk w w'"
      using pae_find_again[OF w l12 True page t(1)] by blast
    have nx': "\<not> nx'" using pae_find_nx[OF w'(1)] weak by (simp add: weaker_def)
    have "get_PAE (core s1)" using walk_paging_later[OF first tables pg] True by simp
    then have ad: "ad_later access_read_physical_8 (\<lambda>p. take_bit 3 p = 0 \<and> p \<in> T) (phys s1) (phys s2)"
      using later by (simp add: mmu_later_def)
    have "weaker s u rw (w_access w) u' rw'"
      using weak f by (auto simp: finish_def weaker_def bit_simps split: if_splits)
    then have "finish access_write_physical_8 l' u' rw' False w' s2 =
        Inr (w_ppf w OR ucast (l' AND w_mask w), w_mask w, ca, s2)"
      using m8.finish_again[OF f pae_find_found[OF w t(1)] sc ad pae_find_found[OF w'(1) t(2)] w'(2)] by blast
    moreover have "get_PAE (core s2)" using sc True by (simp add: same_control_def)
    moreover have "p = w_ppf w OR ucast (l AND w_mask w)" "m = w_mask w" using f by (auto simp: finish_def split: if_splits)
    ultimately show ?thesis using pae_find_found[OF w t(1)] w'(1) nx'
      by (intro exI[of _ "w_ppf w"]) (simp add: walk_paging_def translate_linear_PAE_finish found_def)
  next
    case False
    then have t: "legacy_tables T s" "legacy_tables T s2" using tables t2 pg sc by (auto simp: tables_in_def same_control_def)
    obtain w where w: "legacy_find l u rw s = Inr w"
      and f: "finish access_write_physical_4 l u rw False w s = Inr (p, m, ca, s1)"
      using first False by (auto simp: walk_paging_def translate_linear_legacy_finish split: sum.splits)
    obtain w' where w': "legacy_find l' u' rw' s2 = Inr w'" "same_walk w w'"
      using legacy_find_again[OF w l12 False page t(1)] by blast
    have "\<not> get_PAE (core s1)" using walk_paging_later[OF first tables pg] False by simp
    then have ad: "ad_later access_read_physical_4 (\<lambda>p. take_bit 2 p = 0 \<and> p \<in> T) (phys s1) (phys s2)"
      using later by (simp add: mmu_later_def)
    have "weaker s u rw (w_access w) u' rw'"
      using weak f by (auto simp: finish_def weaker_def bit_simps split: if_splits)
    then have "finish access_write_physical_4 l' u' rw' False w' s2 =
        Inr (w_ppf w OR ucast (l' AND w_mask w), w_mask w, ca, s2)"
      using m4.finish_again[OF f legacy_find_found[OF w t(1)] sc ad legacy_find_found[OF w'(1) t(2)] w'(2)] by blast
    moreover have "\<not> get_PAE (core s2)" using sc False by (simp add: same_control_def)
    moreover have "p = w_ppf w OR ucast (l AND w_mask w)" "m = w_mask w" using f by (auto simp: finish_def split: if_splits)
    ultimately show ?thesis using legacy_find_found[OF w t(1)] w'(1)
      by (intro exI[of _ "w_ppf w"]) (simp add: walk_paging_def translate_linear_legacy_finish found_def)
  qed
qed

lemma page_walk_eq:
  "page_walk l u rw s = (if get_PG (core s) then
     (case walk_paging l u rw s of Inl f \<Rightarrow> Inl f
      | Inr (p, m, ca, s1) \<Rightarrow> Inr (p, m, ca, if 0xfff < m then s1\<lparr>split_large := True\<rparr> else s1))
   else Inr (ucast l, 0xfff, 6, s))"
  by (simp add: page_walk_def walk_paging_def)

lemma page_walk_later:
  "page_walk l u rw s = Inr (p, m, ca, s1) \<Longrightarrow> tables_in T s \<Longrightarrow> mmu_later T s s1 \<and> core s1 = core s \<and> TLB_entry s1 = TLB_entry s"
  by (auto simp: page_walk_eq dest!: walk_paging_later[where T = T] split: if_splits sum.splits)

lemma walk_fault:
  "legacy_find l u rw s = Inl (e, s') \<Longrightarrow> s' = s\<lparr>cr2 := l\<rparr>" "pae_find l u rw s = Inl (e, s') \<Longrightarrow> s' = s\<lparr>cr2 := l\<rparr>"
  "finish wr l u rw nx w s = Inl (e, s') \<Longrightarrow> s' = s\<lparr>cr2 := l\<rparr>"
  by (auto simp: legacy_find_eq pae_find_eq finish_def page_fault_def Let_def split: if_splits option.splits)

lemma page_walk_fault: "page_walk l u rw s = Inl (e, s') \<Longrightarrow> s' = s\<lparr>cr2 := l\<rparr>"
  unfolding page_walk_eq walk_paging_def translate_linear_legacy_finish translate_linear_PAE_finish
  by (auto split: if_splits sum.splits prod.splits dest: walk_fault)

section \<open>The TLB\<close>

text \<open>The access bits that a lookup tests.\<close>

definition access_index :: "bool \<Rightarrow> nat \<Rightarrow> nat" where
  "access_index user rw = 2 * of_bool (isWrite rw) + of_bool user"

definition tlb_hit :: "bx_TLB_entry \<Rightarrow> DWord \<Rightarrow> bool \<Rightarrow> nat \<Rightarrow> bool" where
  "tlb_hit e l user rw \<longleftrightarrow> rw \<noteq> BX_EXECUTE \<and> TLB_LPFOf (lpf e) = LPFOf l \<and> bit (accessBits e) (access_index user rw)"

lemma tlb_access_bits_weaker:
  assumes "bit (tlb_access_bits u rw ca s) (access_index u' rw')" "rw' \<noteq> BX_EXECUTE" "get_PG (core s)"
  shows "weaker s u rw ca u' rw'"
proof -
  have c: "bit (1 :: DWord) k = (k = 0)" "bit (4 :: DWord) k = (k = 2)" "bit (16 :: DWord) k = (k = 4)"
    "bit (2 :: DWord) k = (k = 1)" "bit (8 :: DWord) k = (k = 3)" "bit (32 :: DWord) k = (k = 5)"
    "bit (0x80000000 :: DWord) k = (k = 31)" if "k < 4" for k
    using that by (auto simp: less_Suc_eq numeral_eq_Suc)
  have i: "access_index u' rw' < 4" by (simp add: access_index_def)
  show ?thesis
    using assms unfolding tlb_access_bits_def Let_def tlb_consts weaker_def and_four
    by (cases u'; cases "isWrite rw'")
      (auto simp: bit_or_iff bit_and_iff bit_not_iff c access_index_def split: if_splits)
qed

lemma bit_tlb_mask: "bit (4294965247 :: int) k \<longleftrightarrow> 12 \<le> k \<and> k < 32 \<or> k < 11"
proof -
  have "(4294965247 :: int) = 4294963200 OR 2047" by simp
  then show ?thesis by (auto simp only: bit_or_iff page_masks)
qed

lemma page_tag: "x = 0 \<or> x = TLB_NoHostPtr \<Longrightarrow> TLB_LPFOf (LPFOf l OR x) = LPFOf l"
  by (intro bit_word_eqI) (auto simp: TLB_LPFOf_def LPFOf_def TLB_NoHostPtr_def bit_simps page_masks bit_tlb_mask)

lemma hit_page: "TLB_LPFOf (lpf e) = LPFOf l' \<Longrightarrow> lpf e = LPFOf l OR x \<Longrightarrow> x = 0 \<or> x = TLB_NoHostPtr \<Longrightarrow> LPFOf l' = LPFOf l"
  using page_tag[of x l] by simp

definition a20_ok :: "bx_mmu \<Rightarrow> bool" where
  "a20_ok s \<longleftrightarrow> take_bit 12 (a20_mask (phys s)) = 0xfff"

text \<open>
  A valid entry promises: in this state and in every later one the walk for any access that hits it succeeds, with the
  address of the entry, and leaves the memory as it is; if the entry is global, so is the page.
\<close>

definition global_entry :: "bx_TLB_entry \<Rightarrow> bool" where
  "global_entry e \<longleftrightarrow> bit (accessBits e) 31"

definition entry_ok :: "QWord set \<Rightarrow> bx_mmu \<Rightarrow> bx_TLB_entry \<Rightarrow> bool" where
  "entry_ok T s e \<longleftrightarrow> (\<forall>l u rw s1. mmu_later T s s1 \<longrightarrow> tlb_hit e l u rw \<longrightarrow>
     (\<exists>p m ca s2. page_walk l u rw s1 = Inr (p, m, ca, s2) \<and> phys s2 = phys s1 \<and>
        A20ADDR p (phys s1) = ppf e OR ucast (PAGE_OFFSET l) \<and>
        (global_entry e \<longrightarrow> bit ca 8) \<and> (get_PG (core s1) \<longrightarrow> weaker s1 u rw ca u rw)))"

definition tlb_ok :: "QWord set \<Rightarrow> bx_mmu \<Rightarrow> bool" where
  "tlb_ok T s \<longleftrightarrow> a20_ok s \<and> tables_in T s \<and> (\<forall>n < BX_TLB_SIZE. entry_ok T s (TLB_entry s n))"

lemma entry_ok_later: "entry_ok T s e \<Longrightarrow> mmu_later T s s1 \<Longrightarrow> entry_ok T s1 e"
  unfolding entry_ok_def using mmu_later_trans by blast

lemma a20_later: "mmu_later T s s1 \<Longrightarrow> a20_mask (phys s1) = a20_mask (phys s)"
  unfolding mmu_later_def ad_later_def by (auto split: if_splits)

lemma tlb_ok_later: "tlb_ok T s \<Longrightarrow> mmu_later T s s1 \<Longrightarrow> TLB_entry s1 = TLB_entry s \<Longrightarrow> tlb_ok T s1"
  by (auto simp: tlb_ok_def a20_ok_def a20_later intro: entry_ok_later tables_in_later)

lemma page_walk_weaker:
  assumes first: "page_walk l u rw s = Inr (p, m, ca, s1)" and later: "mmu_later T s1 s2" and page: "LPFOf l' = LPFOf l"
    and weak: "weaker s u rw ca u' rw'" and pg: "get_PG (core s)" and a20: "a20_ok s1" and tables: "tables_in T s"
  shows "\<exists>p' s3. page_walk l' u' rw' s2 = Inr (p', m, ca, s3) \<and> phys s3 = phys s2 \<and>
     A20ADDR p' (phys s2) = PPFOf (A20ADDR p (phys s1)) OR ucast (PAGE_OFFSET l') \<and> weaker s2 u' rw' ca u' rw' \<and>
     (l' = l \<longrightarrow> p' = p)"
proof -
  have a20': "A20ADDR x (phys s2) = A20ADDR x (phys s1)" for x
    using a20_later[OF later] by (simp add: A20ADDR_def)
  have c: "core s1 = core s" using page_walk_later[OF first tables] by simp
  then have pg2: "get_PG (core s2)" using later pg by (auto simp: mmu_later_def same_control_def)
  obtain s1' where w: "walk_paging l u rw s = Inr (p, m, ca, s1')" and s1: "s1 = s1' \<or> s1 = s1'\<lparr>split_large := True\<rparr>"
    using first pg by (auto simp: page_walk_eq split: sum.splits if_splits)
  have "mmu_later T s1' s2" using later s1 by auto
  from walk_paging_again[OF w this page weak tables pg] obtain f where
    f: "take_bit 12 f = 0" "take_bit 12 m = 0xfff" "p = f OR ucast (l AND m)"
      "walk_paging l' u' rw' s2 = Inr (f OR ucast (l' AND m), m, ca, s2)" by blast
  have "get_SMAP (core s2) = get_SMAP (core s)" using later c by (auto simp: mmu_later_def same_control_def)
  then have "weaker s2 u' rw' ca u' rw'" using weak by (simp add: weaker_def)
  with f show ?thesis
    using frame_or_cancel[OF f(1,2) page, of "phys s1"] a20 pg2 unfolding a20' a20_ok_def by (auto simp: page_walk_eq)
qed

lemma page_walk_again:
  assumes first: "page_walk l u rw s = Inr (p, m, ca, s1)" and later: "mmu_later T s1 s2" and page: "LPFOf l' = LPFOf l"
    and hit: "bit (tlb_access_bits u rw ca s1) (access_index u' rw')" "rw' \<noteq> BX_EXECUTE" and a20: "a20_ok s1" and tables: "tables_in T s"
  shows "\<exists>p' s3. page_walk l' u' rw' s2 = Inr (p', m, ca, s3) \<and> phys s3 = phys s2 \<and>
     A20ADDR p' (phys s2) = PPFOf (A20ADDR p (phys s1)) OR ucast (PAGE_OFFSET l') \<and>
     (get_PG (core s2) \<longrightarrow> weaker s2 u' rw' ca u' rw')"
proof (cases "get_PG (core s)")
  case False
  have c: "core s1 = core s" using page_walk_later[OF first tables] by simp
  have pg: "\<not> get_PG (core s2)" using False later c by (auto simp: mmu_later_def same_control_def)
  have a20': "A20ADDR x (phys s2) = A20ADDR x (phys s1)" for x
    using a20_later[OF later] by (simp add: A20ADDR_def)
  have "p = 0 OR ucast (l AND (-1))" using first False by (simp add: page_walk_eq)
  moreover have "page_walk l' u' rw' s2 = Inr (0 OR ucast (l' AND (-1)), m, ca, s2)"
    using False pg first by (simp add: page_walk_eq)
  moreover have "take_bit 12 (-1 :: DWord) = 0xfff" by (simp add: take_bit_minus_one_eq_mask mask_eq_exp_minus_1)
  ultimately show ?thesis
    using frame_or_cancel[of 0 "-1" l' l "phys s1"] page a20 pg unfolding a20' a20_ok_def by auto
next
  case True
  have "core s1 = core s" using page_walk_later[OF first tables] by simp
  then have "weaker s u rw ca u' rw'" using tlb_access_bits_weaker[OF hit] True by (simp add: weaker_def)
  then show ?thesis using page_walk_weaker[OF first later page _ True a20 tables] by blast
qed

text \<open>The entry that a miss makes keeps the promise.\<close>

lemma access_bits_global: "bit (tlb_access_bits u rw ca s) 31 \<longleftrightarrow> bit ca 8"
proof -
  have "ca AND 0x100 = 0 \<longleftrightarrow> \<not> bit ca 8" by (simp add: and_exp_eq_0_iff_not_bit[of ca 8, simplified])
  moreover have "\<not> bit (1 :: DWord) 31" "\<not> bit (4 :: DWord) 31" "\<not> bit (16 :: DWord) 31" "\<not> bit (2 :: DWord) 31"
    "\<not> bit (8 :: DWord) 31" "\<not> bit (32 :: DWord) 31" "bit (0x80000000 :: DWord) 31" by simp_all
  ultimately show ?thesis
    unfolding tlb_access_bits_def Let_def tlb_consts by (simp add: bit_or_iff bit_and_iff)
qed

lemma new_entry_ok:
  assumes "page_walk l u rw s = Inr (p, m, ca, s1)" "a20_ok s1" "tables_in T s" "x = 0 \<or> x = TLB_NoHostPtr"
  shows "entry_ok T s1 \<lparr>lpf = LPFOf l OR x, ppf = PPFOf (A20ADDR p (phys s1)), hostPageAddr = h,
      accessBits = tlb_access_bits u rw ca s1, tlb_lpf_mask = k\<rparr>"
    (is "entry_ok T s1 ?e")
  unfolding entry_ok_def
proof (intro allI impI)
  fix l' u' rw' s2 assume later: "mmu_later T s1 s2" and hit: "tlb_hit ?e l' u' rw'"
  have "LPFOf l' = LPFOf l" using hit hit_page[of ?e l' l x] assms(4) by (simp add: tlb_hit_def)
  moreover have "bit (tlb_access_bits u rw ca s1) (access_index u' rw')" "rw' \<noteq> BX_EXECUTE"
    using hit by (simp_all add: tlb_hit_def)
  ultimately obtain p' s3 where "page_walk l' u' rw' s2 = Inr (p', m, ca, s3)" "phys s3 = phys s2"
      "A20ADDR p' (phys s2) = PPFOf (A20ADDR p (phys s1)) OR ucast (PAGE_OFFSET l')"
      "get_PG (core s2) \<longrightarrow> weaker s2 u' rw' ca u' rw'"
    using page_walk_again[OF assms(1) later _ _ _ assms(2,3)] by blast
  then show "\<exists>p' m' ca' s3. page_walk l' u' rw' s2 = Inr (p', m', ca', s3) \<and> phys s3 = phys s2 \<and>
      A20ADDR p' (phys s2) = ppf ?e OR ucast (PAGE_OFFSET l') \<and> (global_entry ?e \<longrightarrow> bit ca' 8) \<and>
      (get_PG (core s2) \<longrightarrow> weaker s2 u' rw' ca' u' rw')"
    by (simp add: global_entry_def access_bits_global)
qed

lemma translate_linear_eq:
  "translate_linear n l u rw s =
     (if tlb_hit (TLB_entry s n) l u rw then Inr (ppf (TLB_entry s n) OR ucast (PAGE_OFFSET l), s)
      else (case page_walk l u rw s of
          Inl f \<Rightarrow> Inl f
        | Inr (p, m, ca, s1) \<Rightarrow> Inr (A20ADDR p (phys s1), s1\<lparr>TLB_entry := (TLB_entry s1)(n :=
            \<lparr>lpf = LPFOf l OR (if getHostMemAddr (PPFOf (A20ADDR p (phys s1))) rw (phys s1) = 0 then TLB_NoHostPtr else 0),
             ppf = PPFOf (A20ADDR p (phys s1)), hostPageAddr = getHostMemAddr (PPFOf (A20ADDR p (phys s1))) rw (phys s1),
             accessBits = tlb_access_bits u rw ca s1, tlb_lpf_mask = m\<rparr>)\<rparr>)))"
  by (simp add: translate_linear_def tlb_hit_def access_index_def Let_def split: sum.split cong: if_cong)

text \<open>A user access that has been translated hits the next time.\<close>

lemma walk_user_bit: "page_walk l True rw s = Inr (p, m, ca, s1) \<Longrightarrow> get_PG (core s) \<Longrightarrow> bit ca 2"
  unfolding page_walk_eq walk_paging_def translate_linear_legacy_finish translate_linear_PAE_finish
  by (auto simp: finish_def allowed_def bit_simps split: if_split_asm sum.splits prod.splits)

lemma access_bits_user:
  assumes "get_PG (core s) \<Longrightarrow> bit ca 2"
  shows "bit (tlb_access_bits True rw ca s) (access_index True rw)"
proof -
  have c: "bit (1 :: DWord) k = (k = 0)" "bit (4 :: DWord) k = (k = 2)" "bit (16 :: DWord) k = (k = 4)"
    "bit (2 :: DWord) k = (k = 1)" "bit (8 :: DWord) k = (k = 3)" "bit (32 :: DWord) k = (k = 5)"
    "bit (0x80000000 :: DWord) k = (k = 31)" if "k < 4" for k
    using that by (auto simp: less_Suc_eq numeral_eq_Suc)
  show ?thesis
    using assms unfolding tlb_access_bits_def Let_def tlb_consts and_four
    by (cases "isWrite rw") (auto simp: bit_or_iff bit_and_iff bit_not_iff c access_index_def)
qed

lemma translated_hit:
  assumes "translate_linear n l True rw s = Inr (a, s1)" "rw \<noteq> BX_EXECUTE" "tables_in T s"
  shows "tlb_hit (TLB_entry s1 n) l True rw"
proof (cases "tlb_hit (TLB_entry s n) l True rw")
  case True
  then show ?thesis using assms(1) by (simp add: translate_linear_eq)
next
  case False
  then obtain p m ca s2 where w: "page_walk l True rw s = Inr (p, m, ca, s2)" and s1: "s1 = s2\<lparr>TLB_entry := (TLB_entry s2)(n :=
            \<lparr>lpf = LPFOf l OR (if getHostMemAddr (PPFOf (A20ADDR p (phys s2))) rw (phys s2) = 0 then TLB_NoHostPtr else 0),
             ppf = PPFOf (A20ADDR p (phys s2)), hostPageAddr = getHostMemAddr (PPFOf (A20ADDR p (phys s2))) rw (phys s2),
             accessBits = tlb_access_bits True rw ca s2, tlb_lpf_mask = m\<rparr>)\<rparr>"
    using assms(1) by (auto simp: translate_linear_eq split: sum.splits prod.splits)
  have "core s2 = core s" using page_walk_later[OF w assms(3)] by simp
  then have "bit (tlb_access_bits True rw ca s2) (access_index True rw)"
    by (intro access_bits_user) (simp add: walk_user_bit[OF w])
  then show ?thesis using assms(2) page_tag by (simp add: s1 tlb_hit_def)
qed

lemma translate_linear_ok:
  assumes ok: "tlb_ok T s" and n: "n < BX_TLB_SIZE"
  shows "case translate_linear n l u rw s of
      Inl f \<Rightarrow> page_walk l u rw s = Inl f \<and> tlb_ok T (snd f)
    | Inr (a, s1) \<Rightarrow> (\<exists>p m ca s2. page_walk l u rw s = Inr (p, m, ca, s2) \<and> a = A20ADDR p (phys s) \<and> phys s1 = phys s2) \<and>
        tlb_ok T s1"
proof (cases "tlb_hit (TLB_entry s n) l u rw")
  case True
  have "entry_ok T s (TLB_entry s n)" using ok n by (simp add: tlb_ok_def)
  then obtain p m ca s2 where "page_walk l u rw s = Inr (p, m, ca, s2)" "phys s2 = phys s"
      "A20ADDR p (phys s) = ppf (TLB_entry s n) OR ucast (PAGE_OFFSET l)"
    using True mmu_later_refl unfolding entry_ok_def by blast
  moreover have "translate_linear n l u rw s = Inr (ppf (TLB_entry s n) OR ucast (PAGE_OFFSET l), s)"
    using True by (simp add: translate_linear_eq)
  ultimately show ?thesis using ok by simp
next
  case miss: False
  show ?thesis
  proof (cases "page_walk l u rw s")
    case (Inl f)
    obtain e s' where f: "f = (e, s')" by fastforce
    have "s' = s\<lparr>cr2 := l\<rparr>" using page_walk_fault Inl f by simp
    then have "tlb_ok T s'" using tlb_ok_later[OF ok, of s'] by simp
    then show ?thesis using miss Inl f by (simp add: translate_linear_eq)
  next
    case (Inr r)
    obtain p m ca s1 where r: "r = (p, m, ca, s1)" by (metis prod_cases4)
    note w = Inr[unfolded r]
    have tables: "tables_in T s" using ok by (simp add: tlb_ok_def)
    have later: "mmu_later T s s1" "TLB_entry s1 = TLB_entry s" using page_walk_later[OF w tables] by auto
    have a20: "a20_ok s1" using ok a20_later[OF later(1)] by (simp add: tlb_ok_def a20_ok_def)
    have a: "A20ADDR p (phys s1) = A20ADDR p (phys s)" using a20_later[OF later(1)] by (simp add: A20ADDR_def)
    have ok1: "tlb_ok T s1" using tlb_ok_later[OF ok later] .
    have "tlb_ok T (s1\<lparr>TLB_entry := (TLB_entry s1)(n := e)\<rparr>)" if "entry_ok T s1 e" for e
      using ok1 that unfolding tlb_ok_def a20_ok_def entry_ok_def by auto
    then show ?thesis
      using miss w new_entry_ok[OF w a20 tables] by (auto simp: translate_linear_eq a)
  qed
qed

end
