(* ===== verification/Mmu.thy ===== *)
theory Mmu
  imports Tlb
begin

text \<open>
  The life of the TLB: what a flush, \<open>INVLPG\<close> and the loads of the control registers do to the entries, and the states
  that the paging unit reaches from a load of \<open>CR3\<close> by translations and these instructions. In each of them a
  translation gives what the walk gives.
\<close>

unbundle bit_operations_syntax

section \<open>Flushes\<close>

lemma fold_entries:
  "fold (\<lambda>n t. t(n := f (t n))) [0..<k] t = (\<lambda>n. if n < k then f (t n) else t n)" for t :: "nat \<Rightarrow> 'a"
  by (induction k) auto

lemma fold_stores: "fold (\<lambda>n t. t(n := f n)) [0..<k] t = (\<lambda>n. if n < k then f n else t n)" for t :: "nat \<Rightarrow> 'a"
  by (induction k) auto

lemma flushed_misses [simp]: "\<not> tlb_hit (flush_entry e) l u rw"
  by (simp add: tlb_hit_def flush_entry_def)

lemma flushed_ok [simp]: "entry_ok T s (flush_entry e)"
  by (simp add: entry_ok_def)

lemma invalidate_fields [simp]:
  "phys (invalidate_caches s) = phys s" "TLB_entry (invalidate_caches s) = TLB_entry s"
  "same_control s1 (invalidate_caches s) = same_control s1 s"
  by (simp_all add: invalidate_caches_def invalidate_prefetch_q_def same_control_def get_PG_def get_WP_def get_PSE_def
      get_PAE_def get_PGE_def get_SMEP_def get_SMAP_def)

lemma same_tables:
  assumes "same_control s s1" "phys s1 = phys s" "tables_in T s"
  shows "tables_in T s1"
  by (rule tables_in_later[OF assms(3)]) (simp add: mmu_later_def assms)

lemma TLB_flush_ok:
  assumes "a20_ok s" "tables_in T s"
  shows "tlb_ok T (TLB_flush s)"
proof -
  have "tables_in T (TLB_flush s)"
    by (rule same_tables[OF _ _ assms(2)]) (simp_all add: TLB_flush_def same_control_def invalidate_caches_def
        invalidate_prefetch_q_def get_PG_def get_WP_def get_PSE_def get_PAE_def get_PGE_def get_SMEP_def get_SMAP_def)
  then show ?thesis using assms(1) by (simp add: tlb_ok_def a20_ok_def TLB_flush_def fold_entries)
qed

lemma flushed_tlb_ok: "a20_ok s \<Longrightarrow> tables_in T (TLB_flush s) \<Longrightarrow> tlb_ok T (TLB_flush s)"
  by (simp add: tlb_ok_def a20_ok_def TLB_flush_def fold_entries)

text \<open>States that agree on what a walk depends on, with entries that are the same or flushed.\<close>

definition entries_from :: "(nat \<Rightarrow> bx_TLB_entry) \<Rightarrow> (nat \<Rightarrow> bx_TLB_entry) \<Rightarrow> bool" where
  "entries_from t t' \<longleftrightarrow> (\<forall>n. t' n = t n \<or> t' n = flush_entry (t n))"

lemma flush_entry_idem [simp]: "flush_entry (flush_entry e) = flush_entry e"
  by (simp add: flush_entry_def)

lemma same_walks_ok:
  assumes "tlb_ok T s" "same_control s s1" "phys s1 = phys s" "entries_from (TLB_entry s) (TLB_entry s1)"
  shows "tlb_ok T s1"
proof -
  have "mmu_later T s s1" using assms(2,3) by (simp add: mmu_later_def)
  then have "entry_ok T s1 (TLB_entry s n)" if "n < BX_TLB_SIZE" for n
    using assms(1) that by (auto simp: tlb_ok_def intro: entry_ok_later)
  then have "entry_ok T s1 (TLB_entry s1 n)" if "n < BX_TLB_SIZE" for n
    using assms(4) that unfolding entries_from_def by (metis flushed_ok)
  moreover have "tables_in T s1" using assms(1-3) same_tables by (simp add: tlb_ok_def)
  ultimately show ?thesis using assms(1,3) by (simp add: tlb_ok_def a20_ok_def)
qed

lemma entries_from_refl [simp]: "entries_from t t"
  by (simp add: entries_from_def)

lemma entries_from_flush: "entries_from t t1 \<Longrightarrow> entries_from t (t1(n := flush_entry (t1 n)))"
  unfolding entries_from_def by (metis flush_entry_idem fun_upd_apply)

lemma invlpg_entries: "entries_from t (fst (fold (invlpg_step l) ns (t1, k)))" if "entries_from t t1"
  using that
proof (induction ns arbitrary: t1 k)
  case (Cons n ns)
  then show ?case
    by (cases "invlpg_step l n (t1, k)") (auto simp: invlpg_step_def Let_def entries_from_flush split: if_splits)
qed simp

lemma TLB_invlpg_ok: "tlb_ok T s \<Longrightarrow> tlb_ok T (TLB_invlpg l s)"
proof (rule same_walks_ok)
  show "same_control s (TLB_invlpg l s)"
    by (simp add: TLB_invlpg_def Let_def split_beta) (simp add: same_control_def invalidate_caches_def invalidate_prefetch_q_def
      get_PG_def get_WP_def get_PSE_def get_PAE_def get_PGE_def get_SMEP_def get_SMAP_def)
  show "phys (TLB_invlpg l s) = phys s" by (simp add: TLB_invlpg_def Let_def split_beta)
  show "entries_from (TLB_entry s) (TLB_entry (TLB_invlpg l s))"
    using invlpg_entries[OF entries_from_refl, where l = l] by (simp add: TLB_invlpg_def Let_def split_beta entries_from_flush)
qed

section \<open>Loads of the control registers\<close>

text \<open>
  What the flush that keeps the global pages leaves, and what a load of \<open>CR3\<close> asks of the new tables: that they map the
  global pages as the old ones do, with the accessed and dirty bits that the entries have seen set.
\<close>

definition global_kept :: "bx_mmu \<Rightarrow> bx_mmu \<Rightarrow> bool" where
  "global_kept s s' \<longleftrightarrow> (\<forall>l u rw p m ca s1. rw \<noteq> BX_EXECUTE \<longrightarrow> page_walk l u rw s = Inr (p, m, ca, s1) \<longrightarrow>
     phys s1 = phys s \<longrightarrow> bit ca 8 \<longrightarrow> (\<exists>s2. page_walk l u rw s' = Inr (p, m, ca, s2) \<and> phys s2 = phys s'))"

lemma global_page: "accessBits e AND TLB_GlobalPage = 0 \<longleftrightarrow> \<not> global_entry e"
  by (simp add: global_entry_def TLB_GlobalPage_def and_exp_eq_0_iff_not_bit[of _ 31, simplified])

lemma nonglobal_entries:
  "fst (fold flush_nonglobal_step [0..<k] (t, m)) = (\<lambda>n. if n < k \<and> \<not> global_entry (t n) then flush_entry (t n) else t n)"
proof (induction k)
  case (Suc k)
  then show ?case
    by (cases "fold flush_nonglobal_step [0..<k] (t, m)")
      (simp add: flush_nonglobal_step_def[of k] global_page fun_eq_iff less_Suc_eq)
qed simp

lemma global_entry_ok:
  assumes ok: "entry_ok T s e" and g: "global_entry e" and kept: "global_kept s s'"
    and same: "phys s' = phys s" "get_PG (core s') = get_PG (core s)" "get_SMAP (core s') = get_SMAP (core s)"
      "a20_ok s" "tables_in T s'"
  shows "entry_ok T s' e"
  unfolding entry_ok_def
proof (intro allI impI)
  fix l u rw s1 assume later: "mmu_later T s' s1" and hit: "tlb_hit e l u rw"
  obtain p m ca s2 where w: "page_walk l u rw s = Inr (p, m, ca, s2)" "phys s2 = phys s"
      "A20ADDR p (phys s) = ppf e OR ucast (PAGE_OFFSET l)" "bit ca 8" "get_PG (core s) \<Longrightarrow> weaker s u rw ca u rw"
    using ok hit g mmu_later_refl unfolding entry_ok_def by blast
  have pg: "get_PG (core s)" using w(1,4) by (auto simp: page_walk_eq page_masks split: if_splits)
  have rw: "rw \<noteq> BX_EXECUTE" using hit by (simp add: tlb_hit_def)
  obtain s3 where w': "page_walk l u rw s' = Inr (p, m, ca, s3)" "phys s3 = phys s'"
    using kept rw w(1,2,4) unfolding global_kept_def by blast
  have "same_control s' s3" using page_walk_later[OF w'(1) same(5)] by (simp add: mmu_later_def)
  then have later': "mmu_later T s3 s1" using later w'(2) by (simp add: mmu_later_def same_control_def)
  have "weaker s' u rw ca u rw" using w(5)[OF pg] same(3) by (simp add: weaker_def)
  moreover have "a20_ok s3" using same(1,4) w'(2) by (simp add: a20_ok_def)
  ultimately obtain s4 where w4: "page_walk l u rw s1 = Inr (p, m, ca, s4)" "phys s4 = phys s1" "weaker s1 u rw ca u rw"
    using page_walk_weaker[OF w'(1) later' refl, of u rw] pg same(2,5) by auto
  have "A20ADDR p (phys s1) = ppf e OR ucast (PAGE_OFFSET l)" using w(3) a20_later[OF later] same(1) by (simp add: A20ADDR_def)
  with w4 show "\<exists>p m ca s2. page_walk l u rw s1 = Inr (p, m, ca, s2) \<and> phys s2 = phys s1 \<and>
      A20ADDR p (phys s1) = ppf e OR ucast (PAGE_OFFSET l) \<and> (global_entry e \<longrightarrow> bit ca 8) \<and>
      (get_PG (core s1) \<longrightarrow> weaker s1 u rw ca u rw)"
    using w(4) by simp
qed

lemma TLB_flushNonGlobal_fields:
  "phys (TLB_flushNonGlobal s) = phys s" "core (TLB_flushNonGlobal s) = invalidate_prefetch_q (core s)"
  "TLB_entry (TLB_flushNonGlobal s) =
     (\<lambda>n. if n < BX_TLB_SIZE \<and> \<not> global_entry (TLB_entry s n) then flush_entry (TLB_entry s n) else TLB_entry s n)"
  using nonglobal_entries[of BX_TLB_SIZE "TLB_entry s" 0]
  by (auto simp: TLB_flushNonGlobal_def Let_def invalidate_caches_def split: prod.splits)

lemmas control_defs = get_PG_def get_WP_def get_PSE_def get_PAE_def get_PGE_def get_SMEP_def get_SMAP_def

text \<open>The changes that the loads make to the rest of the CPU leave the control registers as they are.\<close>

lemma mode_change_registers [simp]:
  "cr0 (handleSseModeChange c) = cr0 c" "cr4 (handleSseModeChange c) = cr4 c"
  "cr0 (handleCpuModeChange c) = cr0 c" "cr4 (handleCpuModeChange c) = cr4 c"
  "cr0 (handleAlignmentCheck c) = cr0 c" "cr4 (handleAlignmentCheck c) = cr4 c"
  "cr0 (invalidate_prefetch_q c) = cr0 c" "cr4 (invalidate_prefetch_q c) = cr4 c"
  by (simp_all add: handleSseModeChange_def handleCpuModeChange_def handleAlignmentCheck_def updateFetchModeMask_def
      invalidate_prefetch_q_def Let_def)

definition with_control :: "DWord \<Rightarrow> DWord \<Rightarrow> bx_mmu \<Rightarrow> bx_mmu \<Rightarrow> bool" where
  "with_control v0 v4 s s1 \<longleftrightarrow> cr3 s1 = cr3 s \<and> efer_NXE s1 = efer_NXE s \<and> PDPTR_CACHE s1 = PDPTR_CACHE s \<and>
     cr0 (core s1) = v0 \<and> cr4 (core s1) = v4"

lemma with_same_control:
  assumes "with_control v0 v4 s s1" "v0 AND 0x80010001 = cr0 (core s) AND 0x80010001"
    "v4 AND BX_CR4_FLUSH_TLB_MASK = cr4 (core s) AND BX_CR4_FLUSH_TLB_MASK"
  shows "same_control s s1"
proof -
  have "bit (v0 AND 0x80010001) k = bit (cr0 (core s) AND 0x80010001) k" for k using assms(2) by simp
  from this[of 31] this[of 16] have 1: "bit v0 31 = bit (cr0 (core s)) 31" "bit v0 16 = bit (cr0 (core s)) 16"
    by (simp_all add: bit_simps)
  have "bit (v4 AND BX_CR4_FLUSH_TLB_MASK) k = bit (cr4 (core s) AND BX_CR4_FLUSH_TLB_MASK) k" for k using assms(3) by simp
  from this[of 4] this[of 5] this[of 7] this[of 20] this[of 21]
  have "bit v4 4 = bit (cr4 (core s)) 4" "bit v4 5 = bit (cr4 (core s)) 5" "bit v4 7 = bit (cr4 (core s)) 7"
    "bit v4 20 = bit (cr4 (core s)) 20" "bit v4 21 = bit (cr4 (core s)) 21"
    by (simp_all add: bit_simps BX_CR4_FLUSH_TLB_MASK_def)
  with 1 assms(1) show ?thesis by (simp add: same_control_def control_defs with_control_def)
qed

text \<open>The state behind an instruction, whether it raises an exception or not.\<close>

definition state_after :: "fault + bx_mmu \<Rightarrow> bx_mmu" where
  "state_after r = (case r of Inl (e, s) \<Rightarrow> s | Inr s \<Rightarrow> s)"

lemma state_after_simps [simp]: "state_after (Inl (e, s)) = s" "state_after (Inr s) = s"
  by (simp_all add: state_after_def)

lemma upd_core_fields [simp]: "phys (upd_core f s) = phys s" "TLB_entry (upd_core f s) = TLB_entry s" "cr3 (upd_core f s) = cr3 s"
    "efer_NXE (upd_core f s) = efer_NXE s" "PDPTR_CACHE (upd_core f s) = PDPTR_CACHE s" "core (upd_core f s) = f (core s)"
    "cr4_suppmask (upd_core f s) = cr4_suppmask s"
  by (simp_all add: upd_core_def)

lemma CheckPDPTR_fields:
  "CheckPDPTR v s = (ok, s1) \<Longrightarrow> phys s1 = phys s \<and> TLB_entry s1 = TLB_entry s \<and> core s1 = core s \<and> (\<not> ok \<longrightarrow> s1 = s)"
  by (auto simp: CheckPDPTR_def Let_def split: if_splits)

lemma prefetch_ok: "tlb_ok T s \<Longrightarrow> tlb_ok T (upd_core invalidate_prefetch_q s)"
  by (erule same_walks_ok) (simp_all add: same_control_def control_defs)

text \<open>
  With PAE paging in use every load of \<open>CR0\<close> reads the four page-directory pointers again: the walks stay the same only
  if the memory still holds what the last load of \<open>CR3\<close> read.
\<close>

definition pdptes_in_memory :: "bx_mmu \<Rightarrow> bool" where
  "pdptes_in_memory s \<longleftrightarrow> (get_PG (core s) \<and> get_PAE (core s) \<longrightarrow>
     (\<forall>n < 4. access_read_physical_8 ((cr3 s AND 0xffffffe0) OR push_bit 3 (of_nat n)) (phys s) = PDPTR_CACHE s n))"

lemma CheckPDPTR_same:
  assumes "CheckPDPTR (cr3 s) s = (True, s1)" "\<forall>n < 4. access_read_physical_8 ((cr3 s AND 0xffffffe0) OR push_bit 3 (of_nat n)) (phys s) = PDPTR_CACHE s n"
  shows "s1 = s"
proof -
  let ?f = "\<lambda>n. access_read_physical_8 ((cr3 s AND 0xffffffe0) OR push_bit 3 (of_nat n)) (phys s)"
  have s1: "s1 = s\<lparr>PDPTR_CACHE := fold (\<lambda>n t. t(n := ?f n)) [0..<4] (PDPTR_CACHE s)\<rparr>"
    using assms(1) unfolding CheckPDPTR_def Let_def by (auto simp only: Pair_inject split: if_split_asm)
  have "fold (\<lambda>n t. t(n := ?f n)) [0..<4] (PDPTR_CACHE s) = PDPTR_CACHE s"
    unfolding fold_stores using assms(2) by auto
  then show ?thesis unfolding s1 by simp
qed

lemma SetCR0_ok:
  assumes ok: "tlb_ok T s" and pae: "pdptes_in_memory s" and tables: "tables_in T (snd (SetCR0 v s))"
  shows "tlb_ok T (snd (SetCR0 v s))"
proof (cases "fst (SetCR0 v s)")
  case True
  define v1 :: DWord where "v1 = (v OR 0x10) AND 0xe005003f"
  obtain s1 where s1: "(if bit v 31 \<and> get_PAE (core s) then CheckPDPTR (cr3 s) s else (True, s)) = (True, s1)"
    using True by (auto simp: SetCR0_def Let_def split: prod.splits if_splits)
  define s2 where "s2 = upd_core (\<lambda>c. handleSseModeChange (handleCpuModeChange (handleAlignmentCheck (c\<lparr>cr0 := v1 OR 0x10\<rparr>)))) s1"
  have r: "SetCR0 v s = (True, if cr0 (core s) AND 0x80010001 \<noteq> v1 AND 0x80010001 then TLB_flush s2 else s2)"
    using True s1 unfolding SetCR0_def by (auto simp add: Let_def s2_def v1_def split: if_splits)
  have phys: "phys s1 = phys s" using s1 by (auto dest: CheckPDPTR_fields split: if_splits)
  show ?thesis
  proof (cases "cr0 (core s) AND 0x80010001 = v1 AND 0x80010001")
    case same: True
    have v: "(v1 OR 0x10) AND 0x80010001 = v1 AND 0x80010001"
      by (rule bit_word_eqI) (auto simp: bit_and_iff bit_or_iff bit_pow_int[of 4, simplified] intro: ccontr)
    have "bit (cr0 (core s) AND 0x80010001) 31 = bit (v1 AND 0x80010001) 31" using same by simp
    then have "bit v 31 = get_PG (core s)" by (simp add: v1_def get_PG_def bit_simps)
    then have "s1 = s" using s1 pae CheckPDPTR_same[of s s1] by (auto simp: pdptes_in_memory_def split: if_splits)
    moreover from this have "same_control s s2"
      using same v by (intro with_same_control[where ?v0.0 = "v1 OR 0x10" and ?v4.0 = "cr4 (core s)"])
        (simp_all add: with_control_def s2_def)
    ultimately show ?thesis using same same_walks_ok[OF ok, of s2] by (simp add: r) (simp add: s2_def)
  next
    case False
    then have "tables_in T (TLB_flush s2)" using tables by (simp add: r)
    moreover have "a20_ok s2" using ok by (simp add: tlb_ok_def a20_ok_def s2_def phys)
    ultimately show ?thesis using False by (simp add: r flushed_tlb_ok)
  qed
next
  case False
  then have "snd (SetCR0 v s) = s"
    by (auto simp: SetCR0_def Let_def split: prod.splits if_splits dest: CheckPDPTR_fields)
  then show ?thesis using ok by simp
qed

lemma SetCR4_ok:
  assumes ok: "tlb_ok T s" and tables: "tables_in T (snd (SetCR4 v s))"
  shows "tlb_ok T (snd (SetCR4 v s))"
proof (cases "check_CR4 v s \<and> v AND BX_CR4_FLUSH_TLB_MASK = cr4 (core s) AND BX_CR4_FLUSH_TLB_MASK")
  case True
  define s2 where "s2 = upd_core (\<lambda>c. handleSseModeChange (c\<lparr>cr4 := v\<rparr>)) s"
  have "same_control s s2"
    using True by (intro with_same_control[where ?v0.0 = "cr0 (core s)" and ?v4.0 = v]) (simp_all add: with_control_def s2_def)
  then have "tlb_ok T s2" using same_walks_ok[OF ok, of s2] by (simp add: s2_def)
  then show ?thesis using True by (simp add: SetCR4_def s2_def)
next
  case flush: False
  obtain p s1 where p: "(if get_PG (core s) \<and> bit v 5 then CheckPDPTR (cr3 s) s else (True, s)) = (p, s1)" by fastforce
  then have s1: "phys s1 = phys s" "\<not> p \<Longrightarrow> s1 = s" by (auto dest: CheckPDPTR_fields split: if_splits)
  have "tlb_ok T (upd_core g (TLB_flush s1))" if "tables_in T (upd_core g (TLB_flush s1))" for g
    using that ok s1(1) by (simp add: tlb_ok_def a20_ok_def TLB_flush_def fold_entries)
  then show ?thesis using flush ok s1(2) tables by (auto simp: SetCR4_def p)
qed

lemma SetCR3_ok:
  assumes "a20_ok s" "\<not> get_PGE (core s)" "tables_in T (SetCR3 v s)"
  shows "tlb_ok T (SetCR3 v s)"
  using assms flushed_tlb_ok[of "s\<lparr>cr3 := ucast v\<rparr>" T] by (simp add: SetCR3_def Let_def a20_ok_def)

section \<open>The states of the paging unit\<close>

text \<open>
  From a flush or a load of \<open>CR3\<close> with \<open>CR4.PGE\<close> clear, in whatever state the memory and the TLB were, by translations
  that succeed or fault, loads of the control registers, \<open>INVLPG\<close>, and anything else that leaves the words at \<open>T\<close>,
  where the tables are, and the control bits as they are: other instructions and stores to other addresses. Two
  loads have a condition, because the code keeps entries that they may make stale: a load of \<open>CR3\<close> with \<open>CR4.PGE\<close> set
  keeps the global entries, so the new tables must map the global pages as the old ones do (\<open>global_kept\<close>); and a load
  of \<open>CR0\<close> in PAE mode reads the page-directory pointers without a flush, so memory must still hold those that are
  loaded (\<open>pdptes_in_memory\<close>).
\<close>

inductive mmu_reach :: "QWord set \<Rightarrow> bx_mmu \<Rightarrow> bool" for T where
  reach_flush: "a20_ok s \<Longrightarrow> tables_in T s \<Longrightarrow> mmu_reach T (TLB_flush s)"
| reach_CR3: "a20_ok s \<Longrightarrow> \<not> get_PGE (core s) \<Longrightarrow> MOV_CR3Rd src s = Inr s' \<Longrightarrow> tables_in T s' \<Longrightarrow> mmu_reach T s'"
| reach_translate: "mmu_reach T s \<Longrightarrow> n < BX_TLB_SIZE \<Longrightarrow> translate_linear n l user rw s = Inr (a, s') \<Longrightarrow> mmu_reach T s'"
| reach_fault: "mmu_reach T s \<Longrightarrow> n < BX_TLB_SIZE \<Longrightarrow> translate_linear n l user rw s = Inl (e, s') \<Longrightarrow> mmu_reach T s'"
| reach_CR3_global: "mmu_reach T s \<Longrightarrow> get_PGE (core s) \<Longrightarrow> MOV_CR3Rd src s = Inr s' \<Longrightarrow> tables_in T s' \<Longrightarrow> global_kept s s' \<Longrightarrow>
    mmu_reach T s'"
| reach_CR0: "mmu_reach T s \<Longrightarrow> pdptes_in_memory s \<Longrightarrow> tables_in T (state_after (MOV_CR0Rd src s)) \<Longrightarrow>
    mmu_reach T (state_after (MOV_CR0Rd src s))"
| reach_CR4: "mmu_reach T s \<Longrightarrow> tables_in T (state_after (MOV_CR4Rd src s)) \<Longrightarrow> mmu_reach T (state_after (MOV_CR4Rd src s))"
| reach_LMSW: "mmu_reach T s \<Longrightarrow> pdptes_in_memory s \<Longrightarrow> tables_in T (state_after (LMSW_Ew msw s)) \<Longrightarrow>
    mmu_reach T (state_after (LMSW_Ew msw s))"
| reach_CLTS: "mmu_reach T s \<Longrightarrow> mmu_reach T (state_after (CLTS s))"
| reach_INVLPG: "mmu_reach T s \<Longrightarrow> mmu_reach T (state_after (INVLPG l s))"
| reach_other: "mmu_reach T s \<Longrightarrow> mmu_later T s s' \<Longrightarrow> TLB_entry s' = TLB_entry s \<Longrightarrow> mmu_reach T s'"

lemma MOV_CR0Rd_ok:
  assumes "tlb_ok T s" "pdptes_in_memory s" "tables_in T (state_after (MOV_CR0Rd src s))"
  shows "tlb_ok T (state_after (MOV_CR0Rd src s))"
proof -
  let ?s = "upd_core invalidate_prefetch_q s"
  have "tlb_ok T ?s" "pdptes_in_memory ?s" using assms(1,2) prefetch_ok
    by (simp_all add: pdptes_in_memory_def get_PAE_def get_PG_def)
  from SetCR0_ok[OF this] show ?thesis using assms(1,3)
    by (auto simp: MOV_CR0Rd_def Let_def split: prod.splits if_splits) (metis snd_conv)+
qed

lemma LMSW_Ew_ok:
  assumes "tlb_ok T s" "pdptes_in_memory s" "tables_in T (state_after (LMSW_Ew msw s))"
  shows "tlb_ok T (state_after (LMSW_Ew msw s))"
  using SetCR0_ok[OF assms(1,2)] assms(1,3)
  by (auto simp: LMSW_Ew_def Let_def split: prod.splits if_splits) (metis snd_conv)+

lemma CLTS_ok: "tlb_ok T s \<Longrightarrow> tlb_ok T (state_after (CLTS s))"
proof -
  assume ok: "tlb_ok T s"
  let ?s = "upd_core (\<lambda>c. handleSseModeChange (c\<lparr>cr0 := cr0 c AND NOT 8\<rparr>)) s"
  have "same_control s ?s" by (simp add: same_control_def control_defs bit_simps)
  then have "tlb_ok T ?s" using same_walks_ok[OF ok, of ?s] by simp
  then show "tlb_ok T (state_after (CLTS s))" using ok by (simp add: CLTS_def)
qed

lemma MOV_CR4Rd_ok:
  assumes "tlb_ok T s" "tables_in T (state_after (MOV_CR4Rd src s))"
  shows "tlb_ok T (state_after (MOV_CR4Rd src s))"
proof -
  have "tlb_ok T (upd_core invalidate_prefetch_q s)" using assms(1) by (rule prefetch_ok)
  from SetCR4_ok[OF this] show ?thesis using assms
    by (auto simp: MOV_CR4Rd_def Let_def split: prod.splits if_splits) (metis snd_conv)+
qed

lemma MOV_CR3Rd_ok:
  assumes "a20_ok s" "\<not> get_PGE (core s)" "MOV_CR3Rd src s = Inr s'" "tables_in T s'"
  shows "tlb_ok T s'"
proof -
  let ?s = "upd_core invalidate_prefetch_q s" and ?v = "BX_READ_32BIT_REG src (core (upd_core invalidate_prefetch_q s))"
  obtain ok s2 where p: "(if get_PG (core ?s) \<and> get_PAE (core ?s) then CheckPDPTR (ucast ?v) ?s else (True, ?s)) = (ok, s2)" by fastforce
  then have "a20_ok s2" "\<not> get_PGE (core s2)" using assms(1,2)
    by (auto dest: CheckPDPTR_fields split: if_splits simp: a20_ok_def get_PGE_def)
  moreover have "s' = SetCR3 ?v s2" using assms(3) p by (auto simp: MOV_CR3Rd_def Let_def split: if_splits)
  ultimately show ?thesis using SetCR3_ok assms(4) by simp
qed

lemma MOV_CR3Rd_global_ok:
  assumes ok: "tlb_ok T s" and g: "get_PGE (core s)" and s': "MOV_CR3Rd src s = Inr s'" and t: "tables_in T s'" and kept: "global_kept s s'"
  shows "tlb_ok T s'"
proof -
  let ?s = "upd_core invalidate_prefetch_q s" and ?v = "BX_READ_32BIT_REG src (core (upd_core invalidate_prefetch_q s))"
  obtain b s2 where p: "(if get_PG (core ?s) \<and> get_PAE (core ?s) then CheckPDPTR (ucast ?v) ?s else (True, ?s)) = (b, s2)" by fastforce
  then have s2: "phys s2 = phys s" "TLB_entry s2 = TLB_entry s" "core s2 = invalidate_prefetch_q (core s)"
    by (auto dest: CheckPDPTR_fields split: if_splits)
  have "s' = SetCR3 ?v s2" using s' p by (auto simp: MOV_CR3Rd_def Let_def split: if_splits)
  then have r: "s' = TLB_flushNonGlobal (s2\<lparr>cr3 := ucast ?v\<rparr>)"
    using g s2(3) by (simp add: SetCR3_def Let_def get_PGE_def)
  note f = TLB_flushNonGlobal_fields[of "s2\<lparr>cr3 := ucast ?v\<rparr>", folded r, simplified, unfolded s2]
  have "entry_ok T s' (TLB_entry s' n)" if "n < BX_TLB_SIZE" for n
  proof (cases "global_entry (TLB_entry s n)")
    case True
    have "entry_ok T s (TLB_entry s n)" using ok that by (simp add: tlb_ok_def)
    then show ?thesis
      using global_entry_ok[OF _ True kept] ok t f(3) True by (simp add: f(1,2) control_defs tlb_ok_def s2(2))
  qed (simp add: f(3) that)
  then show ?thesis using ok t by (simp add: tlb_ok_def a20_ok_def f(1))
qed

lemma reach_tlb_ok: "mmu_reach T s \<Longrightarrow> tlb_ok T s"
proof (induction rule: mmu_reach.induct)
  case (reach_translate s n l user rw a s')
  then show ?case using translate_linear_ok[of T s n l user rw] by simp
next
  case (reach_fault s n l user rw e s')
  then show ?case using translate_linear_ok[of T s n l user rw] by simp
next
  case (reach_INVLPG s l)
  then show ?case by (simp add: INVLPG_def TLB_invlpg_ok)
qed (auto intro: TLB_flush_ok MOV_CR3Rd_ok MOV_CR3Rd_global_ok MOV_CR0Rd_ok MOV_CR4Rd_ok LMSW_Ew_ok CLTS_ok tlb_ok_later)

text \<open>
  C39. In every state of the paging unit that flushes, loads of the control registers, translations, other instructions
  and stores outside the tables reach, a translation through the TLB faults exactly when the walk of the page
  tables in memory faults, with the same fault, and otherwise gives the walk's address behind the A20 gate and
  the memory, accessed and dirty bits included, that the walk leaves. A load of \<open>CR3\<close> with \<open>CR4.PGE\<close> set keeps the global
  entries; it is among these steps if the new tables map the global pages as the old ones do. A load of \<open>CR0\<close> in PAE mode
  is, if memory still holds the page-directory pointers that are loaded. Stores into the tables without a flush are not.
\<close>

theorem tlb_transparent:
  assumes "mmu_reach T s" "n < BX_TLB_SIZE"
  shows "case translate_linear n l user rw s of
      Inl f \<Rightarrow> page_walk l user rw s = Inl f
    | Inr (a, s1) \<Rightarrow> (\<exists>p m ca s2. page_walk l user rw s = Inr (p, m, ca, s2) \<and> a = A20ADDR p (phys s) \<and> phys s1 = phys s2)"
  using translate_linear_ok[OF reach_tlb_ok[OF assms(1)] assms(2), of l user rw] by (auto split: sum.splits)

section \<open>A machine with one page\<close>

text \<open>A directory at \<open>0x1000\<close> whose table at \<open>0x2000\<close> maps page 5 to frame 9.\<close>

definition sample_memory :: "DWord \<Rightarrow> DWord \<Rightarrow> bx_mem" where
  "sample_memory d e = \<lparr>ram = put_dword 0x2014 e (put_dword 0x1000 d (\<lambda>_. 0)), mem_len = 0x100000,
     a20_mask = 0xffffffffffffffff, lapic_selected = \<lambda>_. False, handler_at = \<lambda>_. False,
     device_read = \<lambda>_ _. 0, host_mem = \<lambda>_ _. 0\<rparr>"

definition sample_mmu :: bx_mmu where
  "sample_mmu = \<lparr>core = sample_cpu, cr2 = 0, cr3 = 0x1000, efer_NXE = False, cr4_suppmask = 0xff, PDPTR_CACHE = \<lambda>_. 0,
     TLB_entry = \<lambda>_. \<lparr>lpf = 0x7000, ppf = 0xb000, hostPageAddr = 0, accessBits = 0xf, tlb_lpf_mask = 0xfff\<rparr>,
     split_large = False, espPageWindowSize = 0, monitor_armed = False,
     phys = sample_memory 0x2007 0x9007\<rparr>"

lemma a20_open: "x AND 0xffffffffffffffff = x" for x :: QWord
proof -
  have "(0xffffffffffffffff :: QWord) = -1" by simp
  then show ?thesis by (simp only: and.right_neutral)
qed

lemma sample_read:
  assumes "take_bit 2 b = 0" "unat b < 0xc0000"
  shows "access_read_physical_4 b (sample_memory d e) = (if b = 0x2014 then e else if b = 0x1000 then d else 0)"
proof -
  have b: "is_ram b (sample_memory d e)" "A20ADDR b (sample_memory d e) = b"
    using assms(2) by (simp_all add: is_ram_def is_bios_def sample_memory_def word_less_nat_alt word_le_nat_alt A20ADDR_def a20_open)
  have z: "get_dword b (\<lambda>_. 0) = 0" by (simp add: get_dword_def)
  have m: "ram (sample_memory d e) = put_dword 0x2014 e (put_dword 0x1000 d (\<lambda>_. 0))"
    "lapic_selected (sample_memory d e) b = False" by (simp_all add: sample_memory_def)
  have a: "take_bit 2 (0x2014 :: QWord) = 0" "take_bit 2 (0x1000 :: QWord) = 0"
    by (simp_all add: take_bit_eq_mask mask_eq_exp_minus_1)
  show ?thesis
    unfolding access_read_physical_4_def readPhysicalPage_4_def Let_def b(2) m get_put_dword[OF a(1) assms(1)] get_put_dword[OF a(2) assms(1)] z
    using b(1) by auto
qed

lemma sample_reach: "mmu_reach UNIV (TLB_flush sample_mmu)"
  by (rule reach_flush) (simp_all add: a20_ok_def tables_in_def legacy_tables_def pae_tables_def Let_def,
    simp add: sample_mmu_def sample_memory_def take_bit_eq_mask mask_eq_exp_minus_1)

lemma tlb_transparent_witness:
  "\<not> tlb_hit (TLB_entry (TLB_flush sample_mmu) 7) 0x7010 True BX_READ \<and> tlb_hit (TLB_entry sample_mmu 7) 0x7010 True BX_READ \<and>
   (\<exists>f. page_walk 0x7010 True BX_READ (TLB_flush sample_mmu) = Inl f \<and>
      translate_linear 7 0x7010 True BX_READ (TLB_flush sample_mmu) = Inl f)"
proof -
  have hit: "tlb_hit (TLB_entry sample_mmu 7) 0x7010 True BX_READ"
    by (simp add: tlb_hit_def sample_mmu_def access_index_def isWrite_def BX_READ_def BX_EXECUTE_def TLB_LPFOf_def LPFOf_def)
  have miss: "\<not> tlb_hit (TLB_entry (TLB_flush sample_mmu) 7) 0x7010 True BX_READ"
    by (simp add: TLB_flush_def fold_entries BX_TLB_SIZE_def)
  have "case translate_linear 7 0x7010 True BX_READ (TLB_flush sample_mmu) of
      Inl f \<Rightarrow> page_walk 0x7010 True BX_READ (TLB_flush sample_mmu) = Inl f
    | Inr (a, s1) \<Rightarrow> \<exists>p m ca s2. page_walk 0x7010 True BX_READ (TLB_flush sample_mmu) = Inr (p, m, ca, s2) \<and>
        a = A20ADDR p (phys (TLB_flush sample_mmu)) \<and> phys s1 = phys s2"
    by (rule tlb_transparent[OF sample_reach]) (simp add: BX_TLB_SIZE_def)
  moreover have "\<exists>f. page_walk 0x7010 True BX_READ (TLB_flush sample_mmu) = Inl f"
  proof -
    let ?s = "TLB_flush sample_mmu"
    have p: "phys ?s = sample_memory 0x2007 0x9007" "cr3 ?s = 0x1000" "get_PSE (core ?s) = False" "get_PAE (core ?s) = False" "get_PG (core ?s)"
      by (simp_all add: TLB_flush_def) (simp_all add: invalidate_caches_def invalidate_prefetch_q_def control_defs sample_mmu_def sample_cpu_def)
    have "pde_addr ?s 0x7010 = 0x1000" "pte_addr 0x2007 0x7010 = 0x201c"
      by (simp_all add: pde_addr_def pte_addr_def p BX_CR3_PAGING_MASK_def drop_bit_eq_div)
    then have "legacy_find 0x7010 True BX_READ ?s = Inl (page_fault ERROR_NOT_PRESENT 0x7010 True BX_READ ?s)"
      unfolding legacy_find_eq Let_def p by (simp add: sample_read take_bit_eq_mask mask_eq_exp_minus_1)
    then show ?thesis using p by (simp add: page_walk_eq walk_paging_def translate_linear_legacy_finish)
  qed
  ultimately show ?thesis using hit miss by (auto split: sum.splits)
qed

end
