(* ===== verification/Vm.thy ===== *)
theory Vm
  imports Mmu Devices
begin

text \<open>
  The emulated CPU under the kernel's tables. \<open>vtrans\<close>, which \<open>copy_from_user\<close> and \<open>copy_to_user\<close> go through, reads the
  table of the directory in use; the CPU goes through its TLB. After a load of \<open>CR3\<close> the two agree, page faults
  included. When the kernel edits a table and does not load \<open>CR3\<close>, as \<open>sys_sbrk\<close> does, a translation may also be one
  of a table that the kernel has had since the load.
\<close>

unbundle bit_operations_syntax

section \<open>The tables of the kernel in memory\<close>

text \<open>
  \<open>dirs i\<close> is the address of \<open>dir_pages[i]\<close>. Entry 0 of the directory in use and the 1024 entries of its table are in
  memory, up to the accessed and dirty bits that the CPU has set; the other entries of the directory are not present.
  The kernel sets \<open>CR0.PG\<close> and leaves \<open>CR4\<close> zero.
\<close>

definition zeos_tables :: "(nat \<Rightarrow> DWord) \<Rightarrow> mm \<Rightarrow> bx_mmu \<Rightarrow> bool" where
  "zeos_tables dirs m s \<longleftrightarrow>
     (let d = dirs (cr3_dir m); pde = dir_pages m (cr3_dir m); PT = get_PT_of (cr3_dir m) m
      in get_PG (core s) \<and> \<not> get_PAE (core s) \<and> \<not> get_PSE (core s) \<and> \<not> get_SMEP (core s) \<and> \<not> get_SMAP (core s) \<and>
         take_bit 12 d = 0 \<and> cr3 s = ucast d \<and> pte_present pde \<and> pte_rw pde \<and> pte_user pde \<and>
         more_ad pde (access_read_physical_4 (ucast d) (phys s)) \<and>
         (\<forall>i. 0 < i \<and> i < TOTAL_PAGES \<longrightarrow> \<not> bit (access_read_physical_4 (ucast d + of_nat (4 * i)) (phys s)) 0) \<and>
         (\<forall>p < TOTAL_PAGES. more_ad (pagusr_table m PT p)
            (access_read_physical_4 (push_bit 12 (ucast PT) + of_nat (4 * p)) (phys s))))"

text \<open>The entry of the table for an address, and the rights that it gives.\<close>

definition zeos_pte :: "mm \<Rightarrow> DWord \<Rightarrow> page_table_entry" where
  "zeos_pte m l = pagusr_table m (get_PT_of (cr3_dir m) m) (unat (drop_bit 12 l))"

definition may_access :: "mm \<Rightarrow> bool \<Rightarrow> DWord \<Rightarrow> bool \<Rightarrow> nat \<Rightarrow> bool" where
  "may_access m wp l user rw \<longleftrightarrow>
     (user \<longrightarrow> pte_user (zeos_pte m l)) \<and> (isWrite rw \<and> (user \<or> wp) \<longrightarrow> pte_rw (zeos_pte m l))"

lemma pte_bits: "pte_present e \<longleftrightarrow> bit e 0" "pte_rw e \<longleftrightarrow> bit e 1" "pte_user e \<longleftrightarrow> bit e 2"
  by (simp_all add: pte_defs get_field_def take_bit_Suc bit_iff_odd_drop_bit odd_iff_mod_2_eq_one)

lemma pte_frame: "push_bit 12 (ucast (pte_pbase e)) = (frame_4K e :: QWord)"
  by (rule bit_word_eqI) (auto simp: pte_defs get_field_def frame_4K_def bit_simps page_masks)

lemma of_nat_four: "of_nat (4 * unat x) = (ucast x * 4 :: QWord)" for x :: DWord
  by (simp add: mult.commute)

lemma pde_index: "ucast (drop_bit 20 l AND (0xffc :: DWord)) = (of_nat (4 * unat (drop_bit 22 l)) :: QWord)" for l :: DWord
proof -
  have "ucast (drop_bit 20 l AND (0xffc :: DWord)) = (push_bit 2 (ucast (drop_bit 22 l)) :: QWord)"
    by (rule bit_word_eqI) (auto simp: bit_simps page_masks dest: bit_imp_le_length)
  then show ?thesis by (simp add: push_bit_eq_mult of_nat_four)
qed

lemma pte_index:
  "drop_bit 22 l = 0 \<Longrightarrow> ucast (drop_bit 10 l AND (0xffc :: DWord)) = (of_nat (4 * unat (drop_bit 12 l)) :: QWord)" for l :: DWord
proof -
  assume "drop_bit 22 l = 0"
  then have "\<not> bit (drop_bit 22 l) (k - 22)" for k by simp
  then have small: "bit l k \<Longrightarrow> k < 22" for k by (metis bit_drop_bit_eq comp_apply le_add_diff_inverse not_le)
  then have "ucast (drop_bit 10 l AND (0xffc :: DWord)) = (push_bit 2 (ucast (drop_bit 12 l)) :: QWord)"
    by (intro bit_word_eqI) (auto simp: bit_simps page_masks dest: small bit_imp_le_length)
  then show ?thesis by (simp add: push_bit_eq_mult of_nat_four)
qed

lemma page_number: "unat (drop_bit 12 l) < TOTAL_PAGES \<longleftrightarrow> drop_bit 22 l = 0" for l :: DWord
proof -
  have "drop_bit 22 l = drop_bit 10 (drop_bit 12 l)" by simp
  then show ?thesis by (simp add: drop_bit_eq_div word_eq_iff_unsigned unat_div unat_arith_simps div_eq_0_iff)
qed

section \<open>The walk over the tables of the kernel\<close>

lemma zeos_pde:
  assumes "zeos_tables dirs m s"
  shows "pde_addr s l = ucast (dirs (cr3_dir m)) + of_nat (4 * unat (drop_bit 22 l))"
proof -
  let ?d = "dirs (cr3_dir m)"
  have d: "take_bit 12 ?d = 0" "cr3 s = ucast ?d" using assms by (simp_all add: zeos_tables_def Let_def)
  have "\<not> bit ?d k" if "k < 12" for k
  proof -
    have "bit (take_bit 12 ?d) k = bit (0 :: DWord) k" using d(1) by simp
    then show ?thesis using that by (simp add: bit_take_bit_iff)
  qed
  then have "ucast (ucast (cr3 s) :: DWord) AND BX_CR3_PAGING_MASK = ucast ?d"
    by (intro bit_word_eqI) (auto simp: d BX_CR3_PAGING_MASK_def bit_simps page_masks not_less[symmetric] dest: bit_imp_le_length)
  then show ?thesis by (simp only: pde_addr_def pde_index)
qed

lemma vtrans_eq:
  "vtrans m l = (if drop_bit 22 l = 0 \<and> pte_present (zeos_pte m l) then Some (pte_pbase (zeos_pte m l), unat (take_bit 12 l)) else None)"
  unfolding vtrans_def Let_def zeos_pte_def[symmetric] page_number by (rule refl)

lemma zeos_legacy_find:
  assumes z: "zeos_tables dirs m s"
  shows "case vtrans m l of
      None \<Rightarrow> legacy_find l user rw s = Inl (page_fault ERROR_NOT_PRESENT l user rw s)
    | Some (f, off) \<Rightarrow> \<exists>w. legacy_find l user rw s = Inr w \<and> w_ppf w = push_bit 12 (ucast f) \<and> w_mask w = 0xfff \<and>
        w_access w = 6 AND zeos_pte m l \<and> w_leaf w = 0"
proof -
  let ?d = "ucast (dirs (cr3_dir m)) :: QWord" and ?pde = "dir_pages m (cr3_dir m)"
  have pse: "\<not> get_PSE (core s)" and pde: "bit ?pde 0" "bit ?pde 1" "bit ?pde 2"
    and more: "more_ad ?pde (access_read_physical_4 ?d (phys s))"
    and rest: "\<And>i. 0 < i \<Longrightarrow> i < TOTAL_PAGES \<Longrightarrow> \<not> bit (access_read_physical_4 (?d + of_nat (4 * i)) (phys s)) 0"
    and table: "\<And>p. p < TOTAL_PAGES \<Longrightarrow> more_ad (pagusr_table m (get_PT_of (cr3_dir m) m) p)
            (access_read_physical_4 (push_bit 12 (ucast (get_PT_of (cr3_dir m) m)) + of_nat (4 * p)) (phys s))"
    using z by (simp_all add: zeos_tables_def Let_def pte_bits)
  show ?thesis
  proof (cases "drop_bit 22 l = 0")
    case False
    have "unat (drop_bit 22 l) < TOTAL_PAGES" using unsigned_less[of l, where 'a = nat] by (simp add: drop_bit_eq_div unat_div less_mult_imp_div_less)
    moreover have "0 < unat (drop_bit 22 l)" using False by (simp add: unat_gt_0)
    ultimately have "\<not> bit (access_read_physical_4 (pde_addr s l) (phys s)) 0"
      unfolding zeos_pde[OF z] by (intro rest)
    then show ?thesis using False by (simp add: legacy_find_eq Let_def vtrans_eq)
  next
    case True
    define e1 where "e1 = access_read_physical_4 (pde_addr s l) (phys s)"
    have e1: "more_ad ?pde e1" using more True by (simp add: e1_def zeos_pde[OF z])
    have "pte_addr e1 l = push_bit 12 (ucast (get_PT_of (cr3_dir m) m)) + of_nat (4 * unat (drop_bit 12 l))"
      unfolding more_ad_frames(3)[OF e1] pte_addr_def pte_index[OF True] get_PT_of_def pte_frame frame_4K_def more_ad_legacy(6)[OF e1] by (rule refl)
    then have e0: "more_ad (zeos_pte m l) (access_read_physical_4 (pte_addr e1 l) (phys s))" (is "more_ad _ ?e0")
      using table[of "unat (drop_bit 12 l)"] True page_number[of l] by (simp only: zeos_pte_def)
    have b1: "bit e1 0" "bit e1 1" "bit e1 2" using pde e1 by (simp_all add: more_ad_bit)
    have six: "6 AND (e1 AND ?e0) = 6 AND zeos_pte m l"
    proof -
      have "6 AND e1 = 6" by (rule bit_word_eqI) (use b1 in \<open>auto simp: bit_simps page_masks\<close>)
      then show ?thesis using more_ad_legacy(7)[OF e0] by (metis and.assoc)
    qed
    show ?thesis
      unfolding legacy_find_eq Let_def e1_def[symmetric] vtrans_eq pte_bits
      using True b1(1) pse more_ad_legacy(1)[OF e0] more_ad_frames(2)[OF e0] six by (simp add: pte_frame)
  qed
qed

text \<open>The error code of a page fault: protection (bit 0), write (bit 1), user (bit 2).\<close>

definition pf_code :: "bool \<Rightarrow> nat \<Rightarrow> bool \<Rightarrow> DWord \<Rightarrow> bool" where
  "pf_code user rw protection code \<longleftrightarrow> bit code 0 = protection \<and> bit code 1 = isWrite rw \<and> bit code 2 = user"

lemma page_fault_code:
  assumes "page_fault fault l user rw s = ((v, code), s1)" "fault = of_bool p"
  shows "v = BX_PF_EXCEPTION \<and> cr2 s1 = l \<and> pf_code user rw p code"
  using assms by (cases p; cases user; cases "isWrite rw") (auto simp: page_fault_def Let_def pf_code_def ERROR_CODE_ACCESS_def bit_or_iff bit_push_bit_iff
      bit_pow_int[of 4, simplified] split: if_splits)

lemma zeos_page_walk:
  assumes z: "zeos_tables dirs m s"
  shows "case page_walk l user rw s of
      Inr (p, lpf_mask, ca, s1) \<Rightarrow> \<exists>f off. vtrans m l = Some (f, off) \<and> p = push_bit 12 (ucast f) OR of_nat off \<and>
        may_access m (get_WP (core s)) l user rw
    | Inl ((v, code), s1) \<Rightarrow> v = BX_PF_EXCEPTION \<and> cr2 s1 = l \<and> pf_code user rw (vtrans m l \<noteq> None) code \<and>
        (vtrans m l \<noteq> None \<longrightarrow> \<not> may_access m (get_WP (core s)) l user rw)"
proof -
  have c: "get_PG (core s)" "\<not> get_PAE (core s)" "\<not> get_SMEP (core s)" "\<not> get_SMAP (core s)"
    using z by (simp_all add: zeos_tables_def Let_def)
  have walk: "page_walk l user rw s = (case legacy_find l user rw s of Inl f \<Rightarrow> Inl f
      | Inr w \<Rightarrow> (case finish access_write_physical_4 l user rw False w s of Inl f \<Rightarrow> Inl f
          | Inr (p, k, ca, s1) \<Rightarrow> Inr (p, k, ca, if 0xfff < k then s1\<lparr>split_large := True\<rparr> else s1)))"
    using c by (simp add: page_walk_eq walk_paging_def translate_linear_legacy_finish split: sum.splits)
  show ?thesis
  proof (cases "vtrans m l")
    case None
    then have "page_walk l user rw s = Inl (page_fault ERROR_NOT_PRESENT l user rw s)"
      using zeos_legacy_find[OF z, of l user rw] by (simp add: walk)
    then show ?thesis using page_fault_code[of ERROR_NOT_PRESENT l user rw s _ _ _ False] None
      by (auto simp: ERROR_NOT_PRESENT_def split: prod.split)
  next
    case (Some fo)
    obtain f off where fo: "fo = (f, off)" by fastforce
    then obtain w where w: "legacy_find l user rw s = Inr w" "w_ppf w = push_bit 12 (ucast f)" "w_mask w = 0xfff"
        "w_access w = 6 AND zeos_pte m l"
      using zeos_legacy_find[OF z, of l user rw] Some by auto
    have off: "off = unat (take_bit 12 l)" using Some fo by (simp add: vtrans_eq split: if_splits)
    have "ucast (l AND 0xfff) = (of_nat off :: QWord)"
      unfolding off by (simp add: take_bit_eq_mask mask_eq_exp_minus_1)
    then have p: "w_ppf w OR ucast (l AND w_mask w) = push_bit 12 (ucast f) OR of_nat off" by (simp add: w)
    have a: "allowed (get_WP (core s)) user (isWrite rw) (w_access w) \<longleftrightarrow> may_access m (get_WP (core s)) l user rw"
      by (auto simp: w allowed_def may_access_def pte_bits bit_simps)
    have "\<not> protected s user rw (w_access w)" using c by (simp add: protected_def)
    then have "if may_access m (get_WP (core s)) l user rw
        then \<exists>ca s1. page_walk l user rw s = Inr (push_bit 12 (ucast f) OR of_nat off, 0xfff, ca, s1)
        else page_walk l user rw s = Inl (page_fault ERROR_PROTECTION l user rw s)"
      using a by (simp add: walk w(1) finish_def p[symmetric] w(3))
    then show ?thesis using page_fault_code[of ERROR_PROTECTION l user rw s _ _ _ True] Some fo
      by (auto simp: ERROR_PROTECTION_def split: prod.split if_splits)
  qed
qed

text \<open>The tables stay in memory while the CPU translates, and while programs write elsewhere.\<close>

lemma unat_index: "i < 1024 \<Longrightarrow> unat (drop_bit 22 (push_bit 22 (of_nat i)) :: DWord) = i"
  "i < 1024 \<Longrightarrow> unat (drop_bit 12 (push_bit 12 (of_nat i)) :: DWord) = i" "i < 1024 \<Longrightarrow> drop_bit 22 (push_bit 12 (of_nat i) :: DWord) = 0"
proof -
  assume i: "i < 1024"
  then have u: "unat (of_nat i :: DWord) = i" by (simp add: unsigned_of_nat take_bit_nat_eq_self)
  then have "unat (push_bit 22 (of_nat i) :: DWord) = i * 2 ^ 22" "unat (push_bit 12 (of_nat i) :: DWord) = i * 2 ^ 12"
    using i by (simp_all add: push_bit_eq_mult unat_word_ariths)
  then show "unat (drop_bit 22 (push_bit 22 (of_nat i)) :: DWord) = i" "unat (drop_bit 12 (push_bit 12 (of_nat i)) :: DWord) = i"
    using i by (simp_all only: unsigned_drop_bit_eq) (simp_all add: drop_bit_eq_div take_bit_nat_eq_self)
  then show "drop_bit 22 (push_bit 12 (of_nat i) :: DWord) = 0"
    using i page_number[of "push_bit 12 (of_nat i)"] by simp
qed

lemma zeos_tables_later:
  assumes z: "zeos_tables dirs m s" and t: "tables_in T s" and later: "mmu_later T s s1"
  shows "zeos_tables dirs m s1"
proof -
  let ?d = "ucast (dirs (cr3_dir m)) :: QWord" and ?PT = "push_bit 12 (ucast (get_PT_of (cr3_dir m) m)) :: QWord"
  have c: "get_PG (core s)" "\<not> get_PAE (core s)" "\<not> get_PSE (core s)"
    and pde: "bit (dir_pages m (cr3_dir m)) 0" and more: "more_ad (dir_pages m (cr3_dir m)) (access_read_physical_4 ?d (phys s))"
    using z by (simp_all add: zeos_tables_def Let_def pte_bits)
  have T: "\<And>l. pde_addr s l \<in> T" "\<And>l. bit (access_read_physical_4 (pde_addr s l) (phys s)) 0 \<Longrightarrow>
      pte_addr (access_read_physical_4 (pde_addr s l) (phys s)) l \<in> T"
    using t c by (auto simp: tables_in_def legacy_tables_def Let_def)
  have ad: "ad_later access_read_physical_4 (\<lambda>p. take_bit 2 p = 0 \<and> p \<in> T) (phys s) (phys s1)" and sc: "same_control s s1"
    using later c by (simp_all add: mmu_later_def)
  have dir: "more_ad (access_read_physical_4 (?d + of_nat (4 * i)) (phys s)) (access_read_physical_4 (?d + of_nat (4 * i)) (phys s1))"
    if "i < TOTAL_PAGES" for i
    using later_entry[OF ad, of "pde_addr s (push_bit 22 (of_nat i))"] T(1) that
    by (simp add: legacy_aligned) (simp add: zeos_pde[OF z] unat_index)
  have tab: "more_ad (access_read_physical_4 (?PT + of_nat (4 * p)) (phys s)) (access_read_physical_4 (?PT + of_nat (4 * p)) (phys s1))"
    if "p < TOTAL_PAGES" for p
  proof -
    let ?l = "push_bit 12 (of_nat p) :: DWord"
    have i: "drop_bit 22 ?l = 0" "unat (drop_bit 12 ?l) = p" using unat_index(2,3)[of p] that by simp_all
    have "pde_addr s ?l = ?d" unfolding zeos_pde[OF z] i by simp
    then have "pte_addr (access_read_physical_4 ?d (phys s)) ?l \<in> T"
      using T(2)[of ?l] pde more by (simp add: more_ad_bit)
    moreover have "pte_addr (access_read_physical_4 ?d (phys s)) ?l = ?PT + of_nat (4 * p)"
      unfolding more_ad_frames(3)[OF more] pte_addr_def pte_index[OF i(1)] get_PT_of_def pte_frame frame_4K_def i(2) more_ad_legacy(6)[OF more] by (rule refl)
    ultimately show ?thesis using later_entry[OF ad] legacy_aligned(2) by metis
  qed
  have pde1: "more_ad (dir_pages m (cr3_dir m)) (access_read_physical_4 ?d (phys s1))"
    using more_ad_trans[OF more] dir[of 0] by simp
  have rest1: "\<not> bit (access_read_physical_4 (?d + of_nat (4 * i)) (phys s1)) 0" if "0 < i" "i < TOTAL_PAGES" for i
    using z that dir[OF that(2)] by (simp add: zeos_tables_def Let_def more_ad_bit)
  have table1: "more_ad (pagusr_table m (get_PT_of (cr3_dir m) m) p) (access_read_physical_4 (?PT + of_nat (4 * p)) (phys s1))"
    if "p < TOTAL_PAGES" for p
  proof -
    have "more_ad (pagusr_table m (get_PT_of (cr3_dir m) m) p) (access_read_physical_4 (?PT + of_nat (4 * p)) (phys s))"
      using z that unfolding zeos_tables_def Let_def by blast
    then show ?thesis using tab[OF that] by (rule more_ad_trans)
  qed
  have "get_PG (core s1)" "\<not> get_PAE (core s1)" "\<not> get_PSE (core s1)" "\<not> get_SMEP (core s1)" "\<not> get_SMAP (core s1)"
      "take_bit 12 (dirs (cr3_dir m)) = 0" "cr3 s1 = ?d" "pte_present (dir_pages m (cr3_dir m))" "pte_rw (dir_pages m (cr3_dir m))"
      "pte_user (dir_pages m (cr3_dir m))"
    using z sc by (simp_all add: zeos_tables_def Let_def same_control_def)
  then show ?thesis using pde1 rest1 table1 unfolding zeos_tables_def Let_def by blast
qed

section \<open>Translation through the TLB\<close>

lemma translate_linear_later:
  assumes "tables_in T s"
  shows "translate_linear n l user rw s = Inr (a, s1) \<Longrightarrow> mmu_later T s s1"
    and "translate_linear n l user rw s = Inl (e, s1) \<Longrightarrow> mmu_later T s s1"
  using page_walk_later[OF _ assms] page_walk_fault[of l user rw s]
  by (fastforce simp: translate_linear_eq split: if_splits sum.splits)+

text \<open>
  The states of the paging unit under the kernel, each with the tables that the kernel has had since the last flush, the
  present one first. A flush or a load of \<open>CR3\<close> starts with whatever tables are then in memory; translations, other
  instructions and other stores keep the list; an edit of the tables adds to it, since no flush comes with it.
\<close>

inductive zeos_reach :: "(nat \<Rightarrow> DWord) \<Rightarrow> mm list \<Rightarrow> bx_mmu \<Rightarrow> bool" for dirs where
  zeos_flush: "a20_ok s \<Longrightarrow> zeos_tables dirs m (TLB_flush s) \<Longrightarrow> zeos_reach dirs [m] (TLB_flush s)"
| zeos_CR3: "a20_ok s \<Longrightarrow> \<not> get_PGE (core s) \<Longrightarrow> MOV_CR3Rd src s = Inr s' \<Longrightarrow> zeos_tables dirs m s' \<Longrightarrow> zeos_reach dirs [m] s'"
| zeos_translate: "zeos_reach dirs ms s \<Longrightarrow> n < BX_TLB_SIZE \<Longrightarrow> translate_linear n l user rw s = Inr (a, s') \<Longrightarrow> zeos_reach dirs ms s'"
| zeos_fault: "zeos_reach dirs ms s \<Longrightarrow> translate_linear n l user rw s = Inl (e, s') \<Longrightarrow> zeos_reach dirs ms s'"
| zeos_other: "zeos_reach dirs (m # ms) s \<Longrightarrow> same_control s s' \<Longrightarrow> TLB_entry s' = TLB_entry s \<Longrightarrow>
    a20_mask (phys s') = a20_mask (phys s) \<Longrightarrow> zeos_tables dirs m s' \<Longrightarrow> zeos_reach dirs (m # ms) s'"
| zeos_edit: "zeos_reach dirs ms s \<Longrightarrow> same_control s s' \<Longrightarrow> TLB_entry s' = TLB_entry s \<Longrightarrow>
    a20_mask (phys s') = a20_mask (phys s) \<Longrightarrow> zeos_tables dirs m s' \<Longrightarrow> zeos_reach dirs (m # ms) s'"

text \<open>The access that a table gives, and the entries: each comes from one of the tables.\<close>

definition table_access :: "mm \<Rightarrow> bx_mmu \<Rightarrow> DWord \<Rightarrow> bool \<Rightarrow> nat \<Rightarrow> QWord \<Rightarrow> bool" where
  "table_access m s l user rw a \<longleftrightarrow> (\<exists>f off. vtrans m l = Some (f, off) \<and>
     a = A20ADDR (push_bit 12 (ucast f) OR of_nat off) (phys s) \<and> may_access m (get_WP (core s)) l user rw)"

definition entry_from :: "mm set \<Rightarrow> bx_mmu \<Rightarrow> bx_TLB_entry \<Rightarrow> bool" where
  "entry_from ms s e \<longleftrightarrow> (\<forall>l user rw. tlb_hit e l user rw \<longrightarrow>
     (\<exists>m \<in> ms. table_access m s l user rw (ppf e OR ucast (PAGE_OFFSET l))))"

definition zeos_ok :: "(nat \<Rightarrow> DWord) \<Rightarrow> mm list \<Rightarrow> bx_mmu \<Rightarrow> bool" where
  "zeos_ok dirs ms s \<longleftrightarrow> ms \<noteq> [] \<and> a20_ok s \<and> zeos_tables dirs (hd ms) s \<and>
     (\<forall>n < BX_TLB_SIZE. entry_from (set ms) s (TLB_entry s n))"

lemma legacy_anywhere: "zeos_tables dirs m s \<Longrightarrow> tables_in UNIV s"
  by (simp add: zeos_tables_def Let_def tables_in_def legacy_tables_def)

lemma table_access_same:
  "table_access m s l user rw a \<Longrightarrow> same_control s s' \<Longrightarrow> a20_mask (phys s') = a20_mask (phys s) \<Longrightarrow> table_access m s' l user rw a"
  by (auto simp: table_access_def A20ADDR_def same_control_def)

lemma entry_from_same:
  "entry_from ms s e \<Longrightarrow> same_control s s' \<Longrightarrow> a20_mask (phys s') = a20_mask (phys s) \<Longrightarrow> ms \<subseteq> ms' \<Longrightarrow> entry_from ms' s' e"
  unfolding entry_from_def using table_access_same by blast

lemma flushed_from [simp]: "entry_from ms s (flush_entry e)"
  by (simp add: entry_from_def)

lemma walk_access:
  assumes "zeos_tables dirs m s" "page_walk l user rw s = Inr (p, k, ca, s1)"
  shows "table_access m s l user rw (A20ADDR p (phys s))"
  using zeos_page_walk[OF assms(1), of l user rw] assms(2) by (auto simp: table_access_def)

lemma zeos_ok_same:
  assumes "zeos_ok dirs ms s" "same_control s s'" "TLB_entry s' = TLB_entry s" "a20_mask (phys s') = a20_mask (phys s)"
    and "zeos_tables dirs (hd ms') s'" "set ms \<subseteq> set ms'" "ms' \<noteq> []"
  shows "zeos_ok dirs ms' s'"
  using assms entry_from_same[OF _ assms(2,4,6)] by (simp add: zeos_ok_def a20_ok_def)

lemma zeos_ok_flushed: "a20_ok s \<Longrightarrow> zeos_tables dirs m s \<Longrightarrow> (\<And>n. n < BX_TLB_SIZE \<Longrightarrow> \<exists>e. TLB_entry s n = flush_entry e) \<Longrightarrow> zeos_ok dirs [m] s"
  unfolding zeos_ok_def by (metis flushed_from list.distinct(1) list.sel(1))

lemma MOV_CR3Rd_flushes:
  assumes "\<not> get_PGE (core s)" "MOV_CR3Rd src s = Inr s'"
  shows "phys s' = phys s \<and> (n < BX_TLB_SIZE \<longrightarrow> (\<exists>e. TLB_entry s' n = flush_entry e))"
proof -
  let ?s = "upd_core invalidate_prefetch_q s" and ?v = "BX_READ_32BIT_REG src (core (upd_core invalidate_prefetch_q s))"
  obtain ok s2 where p: "(if get_PG (core ?s) \<and> get_PAE (core ?s) then CheckPDPTR (ucast ?v) ?s else (True, ?s)) = (ok, s2)" by fastforce
  then have "phys s2 = phys s" "\<not> get_PGE (core s2)" using assms(1)
    by (auto dest: CheckPDPTR_fields split: if_splits simp: get_PGE_def)
  moreover have "s' = SetCR3 ?v s2" using assms(2) p by (auto simp: MOV_CR3Rd_def Let_def split: if_splits)
  ultimately show ?thesis by (auto simp: SetCR3_def Let_def get_PGE_def TLB_flush_def fold_entries)
qed

lemma zeos_translates:
  assumes ok: "zeos_ok dirs (m # old) s" and n: "n < BX_TLB_SIZE"
  shows "case translate_linear n l user rw s of
      Inr (a, s1) \<Rightarrow> zeos_ok dirs (m # old) s1 \<and>
        (\<exists>m' \<in> set (m # old). (m' = m \<or> tlb_hit (TLB_entry s n) l user rw) \<and> table_access m' s l user rw a)
    | Inl f \<Rightarrow> zeos_ok dirs (m # old) (snd f) \<and> page_walk l user rw s = Inl f"
proof (cases "tlb_hit (TLB_entry s n) l user rw")
  case True
  then show ?thesis using ok n by (auto simp: translate_linear_eq zeos_ok_def entry_from_def)
next
  case miss: False
  have z: "zeos_tables dirs m s" "a20_ok s" using ok by (simp_all add: zeos_ok_def)
  note t = legacy_anywhere[OF z(1)]
  show ?thesis
  proof (cases "page_walk l user rw s")
    case (Inl f)
    have f: "snd f = s\<lparr>cr2 := l\<rparr>" using page_walk_fault[of l user rw s "fst f" "snd f"] Inl by simp
    have "zeos_tables dirs m (snd f)" using zeos_tables_later[OF z(1) t, of "snd f"] f by simp
    then have "zeos_ok dirs (m # old) (snd f)" using zeos_ok_same[OF ok, of "snd f" "m # old"] by (simp add: f)
    then show ?thesis using Inl miss by (simp add: translate_linear_eq)
  next
    case (Inr r)
    obtain p k ca s1 where r: "r = (p, k, ca, s1)" by (metis prod_cases4)
    note w = Inr[unfolded r]
    have later: "mmu_later UNIV s s1" "TLB_entry s1 = TLB_entry s" using page_walk_later[OF w t] by auto
    have z1: "zeos_tables dirs m s1" by (rule zeos_tables_later[OF z(1) t later(1)])
    have a20: "a20_mask (phys s1) = a20_mask (phys s)" by (rule a20_later[OF later(1)])
    have ok1: "zeos_ok dirs (m # old) s1"
      using zeos_ok_same[OF ok _ later(2) a20, of "m # old"] z1 later(1) by (simp add: mmu_later_def)
    have new: "entry_from (set (m # old)) s1 e" if e: "entry_ok UNIV s1 e" for e
      unfolding entry_from_def
    proof (intro allI impI)
      fix l' u' rw' assume "tlb_hit e l' u' rw'"
      then obtain p' m' ca' s2 where "page_walk l' u' rw' s1 = Inr (p', m', ca', s2)"
          "A20ADDR p' (phys s1) = ppf e OR ucast (PAGE_OFFSET l')"
        using e mmu_later_refl unfolding entry_ok_def by blast
      then show "\<exists>m \<in> set (m # old). table_access m s1 l' u' rw' (ppf e OR ucast (PAGE_OFFSET l'))"
        using walk_access[OF z1, of l' u' rw'] by auto
    qed
    have "a20_ok s1" using z(2) a20 by (simp add: a20_ok_def)
    note entry = new[OF new_entry_ok[OF w this t]]
    have "zeos_ok dirs (m # old) (s1\<lparr>TLB_entry := (TLB_entry s1)(n := e)\<rparr>)" if "entry_from (set (m # old)) s1 e" for e
      using ok1 that z1 zeos_tables_later[OF z1 legacy_anywhere[OF z1], of "s1\<lparr>TLB_entry := (TLB_entry s1)(n := e)\<rparr>"]
      unfolding zeos_ok_def a20_ok_def entry_from_def table_access_def by auto
    from this[OF entry] show ?thesis
      using miss w walk_access[OF z(1) w] a20 by (auto simp: translate_linear_eq A20ADDR_def)
  qed
qed

lemma zeos_reach_ok: "zeos_reach dirs ms s \<Longrightarrow> zeos_ok dirs ms s"
proof (induction rule: zeos_reach.induct)
  case (zeos_flush s m)
  then show ?case by (intro zeos_ok_flushed) (auto simp: a20_ok_def TLB_flush_def fold_entries)
next
  case (zeos_CR3 s src s' m)
  then show ?case using MOV_CR3Rd_flushes[OF zeos_CR3(2,3)] by (intro zeos_ok_flushed) (auto simp: a20_ok_def)
next
  case (zeos_translate ms s n l user rw a s')
  then obtain m old where "ms = m # old" by (auto simp: zeos_ok_def neq_Nil_conv)
  then show ?case using zeos_translates[of dirs m old s n l user rw] zeos_translate by simp
next
  case (zeos_fault ms s n l user rw e s')
  then obtain m old where ms: "ms = m # old" by (auto simp: zeos_ok_def neq_Nil_conv)
  have "page_walk l user rw s = Inl (e, s')" using zeos_fault(2) by (auto simp: translate_linear_eq split: if_splits sum.splits prod.splits)
  then have s': "s' = s\<lparr>cr2 := l\<rparr>" by (rule page_walk_fault)
  have z: "zeos_tables dirs m s" using zeos_fault(3) ms by (simp add: zeos_ok_def)
  have "zeos_tables dirs m s'" using zeos_tables_later[OF z legacy_anywhere[OF z], of s'] s' by simp
  then show ?case using zeos_ok_same[OF zeos_fault(3), of s' ms] ms by (simp add: s')
next
  case (zeos_other m ms s s')
  then show ?case by (intro zeos_ok_same[OF zeos_other(6)]) auto
next
  case (zeos_edit ms s s' m)
  then show ?case by (intro zeos_ok_same[OF zeos_edit(6)]) auto
qed

text \<open>
  C38. Under the kernel's tables an access to a linear address that raises a page fault raises it as the present table
  says, with the address and the error code that say why; one that is translated reaches the physical address that
  \<open>vtrans\<close> gives, with the rights that allow it, in the present table, or, only if it hits the TLB, in a table that the
  kernel has had since the last load of \<open>CR3\<close>. Without an edit of the tables since that load the two are the same; after
  an edit without a load, as in \<open>sys_sbrk\<close>, a page that the kernel has taken away may still be reached.
\<close>

theorem zeos_translation:
  assumes "zeos_reach dirs (m # old) s" "n < BX_TLB_SIZE"
  shows "case translate_linear n l user rw s of
      Inr (a, s1) \<Rightarrow> zeos_tables dirs m s1 \<and>
        (\<exists>m' \<in> set (m # old). (m' = m \<or> tlb_hit (TLB_entry s n) l user rw) \<and> (\<exists>f off. vtrans m' l = Some (f, off) \<and>
           a = A20ADDR (push_bit 12 (ucast f) OR of_nat off) (phys s) \<and> may_access m' (get_WP (core s)) l user rw))
    | Inl ((v, code), s1) \<Rightarrow> zeos_tables dirs m s1 \<and> v = BX_PF_EXCEPTION \<and> cr2 s1 = l \<and>
        pf_code user rw (vtrans m l \<noteq> None) code \<and>
        (vtrans m l = None \<or> \<not> may_access m (get_WP (core s)) l user rw)"
proof -
  have ok: "zeos_ok dirs (m # old) s" using assms(1) by (rule zeos_reach_ok)
  then have z: "zeos_tables dirs m s" by (simp add: zeos_ok_def)
  show ?thesis
    using zeos_translates[OF ok assms(2), of l user rw] zeos_page_walk[OF z, of l user rw]
    unfolding table_access_def by (auto simp: zeos_ok_def split: sum.splits prod.splits)
qed

definition sample_mm :: mm where
  "sample_mm = \<lparr>phys_mem = \<lambda>_. 0, dir_pages = (\<lambda>_. 0)(3 := 0x2007), pagusr_table = (\<lambda>_ _. 0)(2 := (\<lambda>_. 0)(5 := 0x9007)),
     dirCounter = \<lambda>_. 0, cr3_dir = 3, pmem = \<lambda>_ _. 0, pagusr_page0 = 2, tasks_page0 = 20\<rparr>"

lemma entry_of_nat: "0x1000 + of_nat (4 * i) = (of_nat (0x1000 + 4 * i) :: QWord)" "0x2000 + of_nat (4 * i) = (of_nat (0x2000 + 4 * i) :: QWord)"
  by (simp_all only: of_nat_add of_nat_numeral)

lemma unat_entry: "n < 2 ^ 64 \<Longrightarrow> unat (of_nat n :: QWord) = n"
  by (simp add: unsigned_of_nat take_bit_nat_eq_self)

lemma sample_PT: "get_PT_of (cr3_dir sample_mm) sample_mm = 2"
  by (simp add: get_PT_of_def pte_defs get_field_def sample_mm_def take_bit_eq_mask drop_bit_eq_div mask_eq_exp_minus_1)

lemma bit_exp_5: "bit (0x20 :: DWord) k \<longleftrightarrow> k = 5"
  using bit_exp_iff[of 5 k, where ?'a = DWord] by (auto dest: bit_imp_le_length)

text \<open>The same tables with another entry for page 5, and a directory entry that the CPU may have marked.\<close>

definition sample_with :: "page_table_entry \<Rightarrow> mm" where
  "sample_with e = sample_mm\<lparr>pagusr_table := (\<lambda>_ _. 0)(2 := (\<lambda>_. 0)(5 := e))\<rparr>"

lemma sample_with_mapped: "sample_with 0x9007 = sample_mm"
  by (simp add: sample_with_def sample_mm_def)

lemma sample_unmapped: "del_ss_pag 2 5 sample_mm = Some (sample_with 0)"
  by (simp add: del_ss_pag_def write_pte_def sample_with_def sample_mm_def fun_eq_iff)

lemma sample_tables:
  assumes "phys s = sample_memory d e" "more_ad 0x2007 d" "same_control (TLB_flush sample_mmu) s"
  shows "zeos_tables (\<lambda>_. 0x1000) (sample_with e) s"
proof -
  have al: "take_bit 2 (of_nat (0x1000 + 4 * i) :: QWord) = 0" "take_bit 2 (of_nat (0x2000 + 4 * i) :: QWord) = 0" for i
    unfolding take_bit_of_nat by (simp_all add: take_bit_eq_mod mod_add_eq[symmetric])
  have dir: "\<not> bit (access_read_physical_4 (0x1000 + of_nat (4 * i)) (phys s)) 0" if "0 < i" "i < 1024" for i
    using that unfolding assms(1) entry_of_nat by (subst sample_read[OF al(1)]) (auto simp: unat_entry word_unat_eq_iff simp del: of_nat_add of_nat_mult)
  have tab: "access_read_physical_4 (0x2000 + of_nat (4 * p)) (phys s) = (if p = 5 then e else 0)" if "p < 1024" for p
    using that unfolding assms(1) entry_of_nat by (subst sample_read[OF al(2)]) (auto simp: unat_entry word_unat_eq_iff simp del: of_nat_add of_nat_mult)
  have pde: "access_read_physical_4 0x1000 (phys s) = d"
    using sample_read[of "0x1000"] by (simp add: assms(1) take_bit_eq_mask mask_eq_exp_minus_1)
  have "get_PG (core (TLB_flush sample_mmu))" "\<not> get_PAE (core (TLB_flush sample_mmu))"
      "\<not> get_PSE (core (TLB_flush sample_mmu))" "\<not> get_SMEP (core (TLB_flush sample_mmu))"
      "\<not> get_SMAP (core (TLB_flush sample_mmu))" "cr3 (TLB_flush sample_mmu) = 0x1000"
    by (simp_all add: TLB_flush_def invalidate_caches_def invalidate_prefetch_q_def control_defs sample_mmu_def sample_cpu_def)
  then have ctl: "get_PG (core s)" "\<not> get_PAE (core s)" "\<not> get_PSE (core s)" "\<not> get_SMEP (core s)" "\<not> get_SMAP (core s)"
      "cr3 s = 0x1000" using assms(3) by (simp_all add: same_control_def)
  have pt: "get_PT_of (cr3_dir (sample_with e)) (sample_with e) = 2"
    using sample_PT by (simp add: get_PT_of_def sample_with_def)
  show ?thesis
    unfolding zeos_tables_def Let_def pt
    using dir tab pde ctl assms(2) by (simp add: sample_with_def sample_mm_def pte_bits take_bit_eq_mask mask_eq_exp_minus_1 push_bit_eq_mult)
qed

lemma sample_zeos: "zeos_reach (\<lambda>_. 0x1000) [sample_mm] (TLB_flush sample_mmu)"
proof (rule zeos_flush)
  show "a20_ok sample_mmu" by (simp add: a20_ok_def sample_mmu_def sample_memory_def take_bit_eq_mask mask_eq_exp_minus_1)
  have "phys (TLB_flush sample_mmu) = sample_memory 0x2007 0x9007" by (simp add: TLB_flush_def sample_mmu_def)
  from sample_tables[OF this] show "zeos_tables (\<lambda>_. 0x1000) sample_mm (TLB_flush sample_mmu)"
    unfolding sample_with_mapped by (simp add: same_control_def)
qed

lemma sample_vtrans:
  "vtrans sample_mm 0x5123 = Some (9, 0x123)" "vtrans (sample_with 0) 0x5123 = None"
  "may_access sample_mm wp 0x5123 True rw" "vtrans sample_mm 0x6000 = None"
proof -
  have "get_PT_of (cr3_dir (sample_with 0)) (sample_with 0) = 2"
    using sample_PT by (simp add: get_PT_of_def sample_with_def)
  then have "zeos_pte sample_mm 0x5123 = 0x9007" "zeos_pte sample_mm 0x6000 = 0" "zeos_pte (sample_with 0) 0x5123 = 0"
    unfolding zeos_pte_def sample_PT by (simp_all add: sample_with_def sample_mm_def drop_bit_eq_div)
  then show "vtrans sample_mm 0x5123 = Some (9, 0x123)" "vtrans (sample_with 0) 0x5123 = None"
    "may_access sample_mm wp 0x5123 True rw" "vtrans sample_mm 0x6000 = None"
    by (simp_all add: vtrans_eq may_access_def pte_defs get_field_def drop_bit_eq_div take_bit_eq_mask mask_eq_exp_minus_1)
qed

text \<open>
  Page 5 is written to, then the kernel takes it away as \<open>sys_sbrk\<close> does, without a load of \<open>CR3\<close>: the page can still be
  written to. Page 6 was never there.
\<close>

lemma zeos_translation_witness:
  "\<exists>s1 s2 m2 s3 code s4. translate_linear 5 0x5123 True BX_WRITE (TLB_flush sample_mmu) = Inr (0x9123, s1) \<and>
     del_ss_pag 2 5 sample_mm = Some m2 \<and> vtrans m2 0x5123 = None \<and> zeos_reach (\<lambda>_. 0x1000) [m2, sample_mm] s2 \<and>
     translate_linear 5 0x5123 True BX_WRITE s2 = Inr (0x9123, s3) \<and>
     translate_linear 6 0x6000 False BX_READ (TLB_flush sample_mmu) = Inl ((BX_PF_EXCEPTION, code), s4) \<and> \<not> bit code 0"
proof -
  let ?s = "TLB_flush sample_mmu"
  have n: "5 < BX_TLB_SIZE" "6 < BX_TLB_SIZE" by (simp_all add: BX_TLB_SIZE_def)
  have a20: "A20ADDR x (phys ?s) = x" for x by (simp add: TLB_flush_def A20ADDR_def sample_mmu_def sample_memory_def a20_open)
  obtain s1 where s1: "translate_linear 5 0x5123 True BX_WRITE ?s = Inr (0x9123, s1)"
    using zeos_translation[OF sample_zeos n(1), of "0x5123" True BX_WRITE] sample_vtrans
    by (auto simp: a20 push_bit_eq_mult split: sum.splits prod.splits)
  obtain code s4 where s4: "translate_linear 6 0x6000 False BX_READ ?s = Inl ((BX_PF_EXCEPTION, code), s4)" "\<not> bit code 0"
    using zeos_translation[OF sample_zeos n(2), of "0x6000" False BX_READ] sample_vtrans(4)
    by (auto simp: pf_code_def split: sum.splits prod.splits)
  have tables: "tables_in UNIV ?s" using zeos_reach_ok[OF sample_zeos] legacy_anywhere by (auto simp: zeos_ok_def)
  have hit: "tlb_hit (TLB_entry s1 5) 0x5123 True BX_WRITE"
    by (rule translated_hit[OF s1 _ tables]) (simp add: BX_WRITE_def BX_EXECUTE_def)
  note r1 = zeos_translate[OF sample_zeos n(1) s1]
  have later: "mmu_later UNIV ?s s1" using translate_linear_later(1)[OF tables s1] .
  have c1: "same_control ?s s1" using later by (simp add: mmu_later_def)
  have m1: "a20_mask (phys s1) = 0xffffffffffffffff"
    using a20_later[OF later] by (simp add: TLB_flush_def sample_mmu_def sample_memory_def)
  let ?s2 = "s1\<lparr>phys := sample_memory 0x2027 0\<rparr>"
  have "same_control ?s ?s2" using c1 by (simp add: same_control_def)
  moreover have "more_ad (0x2007 :: DWord) 0x2027"
  proof -
    have "(0x2027 :: DWord) = 0x2007 OR 0x20" by simp
    then show ?thesis by (simp only: more_ad_def bit_or_iff bit_exp_5) auto
  qed
  ultimately have t2: "zeos_tables (\<lambda>_. 0x1000) (sample_with 0) ?s2" by (intro sample_tables) simp_all
  have r2: "zeos_reach (\<lambda>_. 0x1000) [sample_with 0, sample_mm] ?s2"
    by (rule zeos_edit[OF r1 _ _ _ t2]) (simp_all add: same_control_def m1 sample_memory_def)
  have "translate_linear 5 0x5123 True BX_WRITE ?s2 = Inr (ppf (TLB_entry s1 5) OR ucast (PAGE_OFFSET 0x5123), ?s2)"
    using hit by (simp add: translate_linear_eq)
  moreover have "A20ADDR x (phys ?s2) = x" for x by (simp add: A20ADDR_def sample_memory_def a20_open)
  ultimately have "translate_linear 5 0x5123 True BX_WRITE ?s2 = Inr (0x9123, ?s2)"
    using zeos_translation[OF r2 n(1), of "0x5123" True BX_WRITE] sample_vtrans(1,2) by (auto simp: push_bit_eq_mult)
  with s1 s4 r2 sample_unmapped sample_vtrans(2) show ?thesis by blast
qed

end
