(* ===== verification/Isolation.thy ===== *)
theory Isolation
  imports Vm Contracts
begin

text \<open>
  What the page protection of the CPU is worth under the tables that \<open>fork\<close> makes: the child of a fork
  reaches the pages of the kernel from user mode.
\<close>

section \<open>The directories during a fork\<close>

lemma foldM_keeps:
  assumes "\<And>x s s'. f x s = Some s' \<Longrightarrow> g s' = g s"
  shows "foldM f xs s = Some s' \<Longrightarrow> g s' = g s"
proof (induction xs arbitrary: s)
  case (Cons x xs)
  then obtain s1 where "f x s = Some s1" "foldM f xs s1 = Some s'" by (auto split: bind_splits)
  then show ?case using Cons.IH assms by metis
qed simp

lemma alloc_frame_dirs: "alloc_frame m = (f, m1) \<Longrightarrow> dir_pages m1 = dir_pages m"
proof -
  have "alloc_frame_loop i m = (f, m1) \<Longrightarrow> dir_pages m1 = dir_pages m" for i
    by (induction i m rule: alloc_frame_loop.induct) (subst (asm) (2) alloc_frame_loop.simps, auto split: if_splits)
  then show "alloc_frame m = (f, m1) \<Longrightarrow> dir_pages m1 = dir_pages m" by (simp add: alloc_frame_def)
qed

lemma write_dirs:
  "set_ss_pag PT p f m = Some m1 \<Longrightarrow> dir_pages m1 = dir_pages m" "del_ss_pag PT p m = Some m1 \<Longrightarrow> dir_pages m1 = dir_pages m"
  "dir_pages (free_frame w m) = dir_pages m" "on_pmem g m = Some m1 \<Longrightarrow> dir_pages m1 = dir_pages m"
  by (auto simp: set_ss_pag_def del_ss_pag_def write_pte_def free_frame_def on_pmem_def split: if_splits)

lemma fork_step_dirs:
  "fork_undo PT pg m = Some m1 \<Longrightarrow> dir_pages m1 = dir_pages m" "share_page C P pg m = Some m1 \<Longrightarrow> dir_pages m1 = dir_pages m"
  "copy_page C P k pg m = Some m1 \<Longrightarrow> dir_pages m1 = dir_pages m"
  unfolding fork_undo_def share_page_def copy_page_def by (auto elim!: bind_SomeE dest!: write_dirs(1,2,4) simp: write_dirs(3))

lemma fork_alloc_dirs: "fork_alloc PT pg k m = Some (ok, m1) \<Longrightarrow> dir_pages m1 = dir_pages m"
proof (induction PT pg k m rule: fork_alloc.induct)
  case (2 PT pg k m)
  obtain f m2 where f: "alloc_frame m = (f, m2)" by fastforce
  show ?case
  proof (cases "f = -1")
    case True
    then have "foldM (fork_undo PT) [0..<pg] m2 = Some m1" using 2(2) f by auto
    then have "dir_pages m1 = dir_pages m2" by (rule foldM_keeps[rotated]) (rule fork_step_dirs(1))
    then show ?thesis using alloc_frame_dirs[OF f] by simp
  next
    case False
    then obtain m3 where m3: "set_ss_pag PT (PAG_LOG_INIT_DATA + pg) (of_int f) m2 = Some m3" "fork_alloc PT (Suc pg) k m3 = Some (ok, m1)"
      using 2(2) f by (auto elim!: bind_SomeE simp del: PAG_LOG_INIT_DATA_def)
    have "dir_pages m1 = dir_pages m3" using 2(1)[OF f[symmetric] refl False] m3 by blast
    then show ?thesis using write_dirs(1)[OF m3(1)] alloc_frame_dirs[OF f] by simp
  qed
qed simp

lemma fork_memory_dirs: "fork_memory C P k m = Some m1 \<Longrightarrow> dir_pages m1 = dir_pages m"
  unfolding fork_memory_def
proof (elim bind_SomeE)
  fix m2 m3
  assume a: "foldM (share_page C P) [0..<NUM_PAG_KERNEL] m = Some m2"
    "foldM (share_page C P) [PAG_LOG_INIT_CODE..<PAG_LOG_INIT_CODE + NUM_PAG_CODE] m2 = Some m3"
    "foldM (copy_page C P k) [NUM_PAG_KERNEL + NUM_PAG_CODE..<NUM_PAG_KERNEL + NUM_PAG_CODE + k] m3 = Some m1"
  have "dir_pages m2 = dir_pages m" by (rule foldM_keeps[OF _ a(1)]) (rule fork_step_dirs(2))
  moreover have "dir_pages m3 = dir_pages m2" by (rule foldM_keeps[OF _ a(2)]) (rule fork_step_dirs(2))
  moreover have "dir_pages m1 = dir_pages m3" by (rule foldM_keeps[OF _ a(3)]) (rule fork_step_dirs(3))
  ultimately show "dir_pages m1 = dir_pages m" by simp
qed

lemma sys_fork_dirs: "sys_fork s = Some (v, s') \<Longrightarrow> dir_pages (mem s') = dir_pages (mem s)"
proof -
  have lists: "mem t' = mem t" if "on_lists g t = Some t'" for g t t' using that by (auto simp: on_lists_def)
  have take: "mem t' = mem t" if "take_task q t = Some (c, t')" for q t c t'
    using that lists by (auto simp: take_task_def elim!: bind_SomeE)
  have alloc: "dir_pages (mem (snd (allocate_DIR c t))) = dir_pages (mem t)" for c t
    by (simp add: allocate_DIR_def upd_task_def Let_def split: option.split)
  have stats: "mem t' = mem t" if "init_stats c t = Some t'" for c t t'
    using that by (auto simp: init_stats_def get_ticks_def upd_stats_def upd_task_def Let_def elim!: bind_SomeE)
  have stack: "mem t' = mem t" if "fork_stack c t = Some t'" for c t t'
    using that by (auto simp: fork_stack_def Let_def upd_task_def write_kstack_def split: if_splits)
  have memory: "dir_pages (mem t') = dir_pages (mem t)" if "on_mem (fork_memory C P k) t = Some t'" for C P k t t'
    using that fork_memory_dirs by (auto simp: on_mem_def)
  show "sys_fork s = Some (v, s') \<Longrightarrow> dir_pages (mem s') = dir_pages (mem s)"
    unfolding sys_fork_def
    by (auto simp: Let_def copy_union_def set_quantum_def set_cont_def upd_task_def set_cr3_def on_mem_def alloc
        dest!: lists take stats stack fork_alloc_dirs fork_memory_dirs elim!: bind_SomeE split: if_splits)
qed

section \<open>The child in the kernel's pages\<close>

lemma shared_entry_rights: "pte_present (shared_entry e)" "pte_rw (shared_entry e)" "pte_user (shared_entry e)"
    "pte_pbase (shared_entry e) = pte_pbase e"
proof -
  have "take_bit 20 (pte_pbase e) = pte_pbase e" by (simp add: pte_defs get_field_def)
  then show "pte_present (shared_entry e)" "pte_rw (shared_entry e)" "pte_user (shared_entry e)"
    "pte_pbase (shared_entry e) = pte_pbase e"
    by (simp_all add: shared_entry_def)
qed

text \<open>
  C18. After a fork the child, once its directory is loaded, may read and write in user mode every address below its
  data: the 256 pages of the kernel, the page of address 0 and the shared code, at the frames that the entries of
  its parent name, whatever rights the parent has to them.
\<close>

theorem fork_child_writes_kernel:
  assumes "kwf s Q" and "Q Freequeue = TaskList c # xs"
    and "i < NR_TASKS" "dirCounter (mem s) i = 0" "\<forall>j < i. dirCounter (mem s) j \<noteq> 0"
    and "get_PT_of i (mem s) \<noteq> get_PT (cur s) s" and "parent_mapped s"
    and "fork_pages s \<le> card (frame_pool_set - used_frames (mem s))"
    and "0 < ebp_index s" "ebp_index s < KERNEL_STACK_SIZE"
    and "unat (drop_bit 12 l) < PAG_LOG_INIT_DATA"
  shows "\<exists>s'. sys_fork s = Some (global_PID s, s') \<and>
    (let m = set_cr3 (get_DIR c s') (mem s'); e = pagusr_table (mem s) (get_PT (cur s) s) (unat (drop_bit 12 l))
     in vtrans m l = Some (pte_pbase e, unat (take_bit 12 l)) \<and> (\<forall>wp rw. may_access m wp l True rw))"
proof -
  from sys_fork_child[OF assms(1-10)] obtain s' where s': "sys_fork s = Some (global_PID s, s')"
    "dir_pages_baseAddr (task s' c) = i" "child_space s i s'" by blast
  let ?m = "set_cr3 i (mem s')" and ?e = "pagusr_table (mem s) (get_PT (cur s) s) (unat (drop_bit 12 l))"
  have "get_PT_of i (mem s') = get_PT_of i (mem s)" using sys_fork_dirs[OF s'(1)] by (simp add: get_PT_of_def)
  then have e: "zeos_pte ?m l = shared_entry ?e"
    using s'(3) assms(11) by (simp add: zeos_pte_def child_space_def Let_def set_cr3_def get_PT_of_def)
  have "unat (drop_bit 12 l) < TOTAL_PAGES" using assms(11) by simp
  then have "drop_bit 22 l = 0" by (simp only: page_number)
  then have "vtrans ?m l = Some (pte_pbase ?e, unat (take_bit 12 l)) \<and> (\<forall>wp rw. may_access ?m wp l True rw)"
    unfolding vtrans_eq may_access_def e by (simp add: shared_entry_rights)
  then show ?thesis using s'(1,2) by (auto simp: get_DIR_def Let_def)
qed

text \<open>The first fork after the boot: the child writes to the first page of the kernel's image.\<close>

lemma fork_child_writes_kernel_witness:
  "\<exists>s' f. sys_fork ((upd_task 1 (\<lambda>p. p\<lparr>heapPages := 0\<rparr>) booted)\<lparr>ebp_index := 100\<rparr>) = Some (2, s') \<and>
     vtrans (set_cr3 (get_DIR 2 s') (mem s')) 0x10000 = Some (f, 0) \<and>
     may_access (set_cr3 (get_DIR 2 s') (mem s')) True 0x10000 True BX_WRITE"
proof -
  let ?s = "(upd_task 1 (\<lambda>p. p\<lparr>heapPages := 0\<rparr>) booted)\<lparr>ebp_index := 100\<rparr>"
  have up: "[2..<10] = (2 :: nat) # [3..<10]" by (simp add: upt_rec)
  have q: "booted_queues Freequeue = TaskList 2 # map TaskList [3..<10]" by (simp add: booted_queues_def up)
  have d: "dirCounter (mem ?s) 2 = 0" "\<forall>j < 2. dirCounter (mem ?s) j \<noteq> 0"
    unfolding booted_child(4) by (auto simp: less_2_cases_iff)
  have b: "0 < ebp_index ?s" "ebp_index ?s < KERNEL_STACK_SIZE" by simp_all
  have l: "unat (drop_bit 12 (0x10000 :: DWord)) < PAG_LOG_INIT_DATA" by (simp add: drop_bit_eq_div)
  have z: "unat (take_bit 12 (0x10000 :: DWord)) = 0" by (simp add: take_bit_eq_mask mask_eq_exp_minus_1)
  from fork_child_writes_kernel[OF booted_child(1) q _ d booted_child(5,6,8) b l] show ?thesis
    unfolding booted_child(3) z by (auto simp: Let_def)
qed

end
