(* ===== verification/Spec2Isabelle.thy ===== *)
theory Spec2Isabelle
  imports Calls Fair Boot Libc Io Machine PitRate Arith Muldiv Isolation
begin

text \<open>
  A model of ZeOS, a small multiprogrammed operating system for 32-bit PCs (\<open>zeos/\<close>), and of the parts
  of the Bochs emulator (\<open>bochs-2.6.7/\<close>) that stand for the hardware the system is run on.

  \<^bold>\<open>The program.\<close> The boot sector loads one image, made by \<open>zeos/build.c\<close>, to 0x10000 and jumps to
  \<open>main\<close> (\<open>system.c\<close>), which sets up descriptors, gates, paging, the task table and the queues, moves the
  user program to its place and leaves for user mode. From then on the kernel runs only when it is
  entered: by a system call (\<open>entry.S\<close>, \<open>sys.c\<close>), by the clock (\<open>interrupt.c\<close>, \<open>sched.c\<close>) or by the
  keyboard (\<open>interrupt.c\<close>, \<open>devices.c\<close>). A process that blocks gives up the processor in the middle of a
  system call; its kernel stack says where it goes on (\<open>task_switch_asm.S\<close>). The clock comes from the
  interval timer over the interrupt controllers of the machine. What keeps user code inside its address space is
  the CPU: its page walks, privilege checks and the instructions on the flags and the control registers.

  \<^bold>\<open>Theories.\<close>
  \<^item> \<open>Prelude\<close>: C types, C division, faults as \<open>None\<close> with \<open>foldM\<close>, bit fields, collections of rules.
  \<^item> \<open>Clist\<close> (\<open>list.c\<close>, \<open>include/list.h\<close>): the links as two maps \<open>nxt\<close> and \<open>prv\<close> from nodes to optional
    nodes; every operation follows the assignments of the code, a NULL link is a fault. \<open>qsys\<close> says
    that disjoint circular lists with given heads hold given sequences. The locale \<open>list_system\<close> is the
    interface of these laws; it is interpreted on the operations of the code.
  \<^item> \<open>Mm\<close> (\<open>mm.c\<close>, \<open>include/mm_address.h\<close>): the array of frames, the directories and page tables with their
    entries as 32-bit words, allocation, mapping, CR3.
  \<^item> \<open>Utils\<close> (\<open>utils.c\<close>): copying of bytes through a translation of addresses, \<open>access_ok\<close>, \<open>do_div\<close> and
    the ticks of the time stamp counter. \<open>Io\<close> (\<open>io.c\<close>): cursor and cells of the text screen.
  \<^item> \<open>Kernel\<close> (\<open>include/sched.h\<close>, \<open>stat_funcs.c\<close> and the globals): the record \<open>kstate\<close>. Tasks are numbers
    below \<open>NR_TASKS\<close>, a node of a list is a \<open>laddr\<close>. The saved stack of a process that is not running is
    the constructor \<open>kcont\<close> that names the instruction it resumes at.
  \<^item> \<open>Sched\<close> (\<open>sched.c\<close>), \<open>Init\<close> (initialisation of all tables), \<open>Devices\<close> (\<open>devices.c\<close>), \<open>Sem\<close>, \<open>Process\<close>,
    \<open>Fork\<close>, \<open>Heap\<close>, \<open>Files\<close> (\<open>sys.c\<close>), \<open>Interrupt\<close> (\<open>interrupt.c\<close>): one definition for each function, in
    the order of the code.
  \<^item> \<open>System\<close> (\<open>entry.S\<close>, \<open>sys_call_table.S\<close>, \<open>task_switch_asm.S\<close>): the step relation \<open>kstep\<close> of the whole
    kernel: user code stores into frames that are not the kernel's, the clock or a key interrupts, a system call is made, a
    process resumes. A call that faults or overruns its stack has no step.
  \<^item> \<open>Contracts\<close> and \<open>Calls\<close>: what the calls promise on lists instead of pointers. \<open>Fair\<close>: when a ready process runs.
  \<^item> \<open>Boot\<close> (\<open>system.c\<close>, \<open>hardware.c\<close>, \<open>include/types.h\<close>, \<open>include/segment.h\<close>), \<open>Build\<close> (\<open>build.c\<close>), \<open>Libc\<close>
    (\<open>libc.c\<close>).
  \<^item> \<open>Pic\<close> (\<open>iodev/pic.cc\<close>), \<open>Pit\<close> and \<open>PitRate\<close> (\<open>iodev/pit82c54.cc\<close>), \<open>Machine\<close> (the controllers as the
    boot sector and \<open>enable_int\<close> of \<open>hardware.c\<close> program them).
  \<^item> \<open>Flags\<close> (\<open>cpu/lazy_flags.h\<close> and the flags of \<open>cpu/cpu.h\<close>): the lazy arithmetic flags as the pair of the last
    result and auxiliary bits. \<open>Cpu\<close> (\<open>cpu/cpu.h\<close>, \<open>crregs.h\<close>, \<open>event.cc\<close>, \<open>proc_ctrl.cc\<close>, \<open>flag_ctrl.cc\<close>,
    \<open>flag_ctrl_pro.cc\<close>): the registers as the record \<open>bx_cpu\<close>, the instructions on EFLAGS with the changes of mode and
    of the mask of events behind them. An exception is the \<open>Inl\<close> of a sum, with its vector and error code.
  \<^item> \<open>Arith\<close> (\<open>arith8/16/32.cc\<close>, \<open>logical8/16/32.cc\<close>) and \<open>Muldiv\<close> (\<open>mult8/16/32.cc\<close>): the forms on registers and
    immediates, one definition for each instruction.
  \<^item> \<open>Phys\<close> (\<open>memory/memory.cc\<close> as page walks use it, the A20 gate), \<open>Paging\<close> (\<open>paging.cc\<close>, \<open>crregs.cc\<close>): the walks
    of the legacy and the PAE mode, the TLB, its flushes, the control registers, in the record \<open>bx_mmu\<close>. The locale
    \<open>entry_memory\<close> has the laws of reading and writing an entry; it is interpreted for entries of 4 and of 8 bytes.
    \<open>Walk\<close>, \<open>Tlb\<close> and \<open>Mmu\<close> (with the states \<open>mmu_reach\<close>) are about them; \<open>Vm\<close> joins them to the kernel's \<open>vtrans\<close> (with
    the states \<open>zeos_reach\<close> and the tables that the kernel has had in them), and \<open>Isolation\<close> to its \<open>fork\<close>.

  \<^bold>\<open>What is proved.\<close>
  \<^item> The kernel invariant: in every state that the steps of \<open>kstep\<close> reach from boot the queues are disjoint cyclic lists of
    tasks, a task on a queue has the status of that queue and the running one is on none, nobody waits at an open
    semaphore, and the clock, exit and the calls on semaphores find nothing in the lists to fault on. The converse fails: a
    process that a key interrupts may be on no queue.
  \<^item> Refinement: scheduling, semaphores, exit, clone and the clock implement operations on an abstract
    view with a running process, a ready list and waiting lists; \<open>k * n\<close> ticks turn the ring of ready
    processes \<open>k\<close> places, and with any positive quanta each ready process gets its turn at a tick known in advance.
  \<^item> Memory: fork copies the data of the parent into fresh frames and shares its code, sbrk moves the end
    of the heap, and both report the lack of frames. A shrink whose page count gets below zero leaves
    the page table, and the child of a fork can write the kernel's pages. These are about the page tables; the accesses
    of the kernel to user memory go through \<open>vtrans\<close>, the table in use, and not through a TLB.
  \<^item> Boot: \<open>main\<close> ends in user mode at the first byte of the program that \<open>build.c\<close> put into the image, with the gates of
    clock and keyboard closed to user code and those of the system calls and of \<open>libauxjp.a\<close> open.
  \<^item> Library routines: decimal printing, printing on the screen, copying, time.
  \<^item> Hardware: the controllers choose by priority, and with the programming of ZeOS deliver no vector
    but 32, 33 and 39; the timer in mode 2 gives one pulse every \<open>N\<close> cycles, and skips cycles as it would count them
    while its gate is high.
  \<^item> CPU: code above the I/O privilege level cannot change the interrupt flag, the I/O privilege or the mode by any run of
    the instructions on EFLAGS; the integer and logical instructions write the value and the six flags of a reference
    that does not know of lazy flags, and nothing else; multiplication and division follow the arithmetic of the values, with
    the divide error exactly where it is due, and the \<open>divl\<close> of the kernel is that division.
  \<^item> Paging: in every state of \<open>mmu_reach\<close> the TLB gives what the walk of the page tables gives, fault, address and
    memory. Its steps leave out stores into the tables without a flush; a load of \<open>CR3\<close> that keeps global entries and a load
    of \<open>CR0\<close> in PAE mode have conditions that the theory states. Over the tables of the kernel the CPU translates
    as \<open>vtrans\<close> says, with the page fault and error code of every access that the entry does not allow, from a load of
    \<open>CR3\<close> until the kernel edits a table; after an edit without a load, which \<open>sbrk\<close> makes, a hit in the TLB may still be
    one of the tables since the load.

  \<^bold>\<open>Modelling decisions.\<close> A fault (NULL dereference, index outside a table, overrun of a temporary
  buffer or of the kernel stack by the arrays of \<open>sys_read\<close> and \<open>sys_write\<close>) is \<open>None\<close>. What the compiler settles about
  the stack is \<open>frame_bytes\<close>. C \<open>int\<close> is unbounded where its overflow is undefined and wrapped by \<open>wrap32\<close> where the
  compiled code relies on it. Unsigned types are words. Loops are structural or have a measure;
  \<open>release_all\<close> and the walks along a list, which a broken list would keep busy for ever, are
  \<open>partial_function (option)\<close>, and they are proved to end on the lists of the invariant. Only \<open>list_for_each\<close>, a macro,
  takes a bound on its iterations; the property of the queues shows that the length of the list is enough.
  The configuration of the emulator is that of its \<open>config.h\<close>: CPU level 6, 32-bit linear and 40-bit physical
  addresses, no 64-bit mode, no virtualisation.
  The time stamp counter, the ports and the routines of the binary libraries are parameters; of \<open>zeos_init_auxjp\<close> the
  boot property assumes what its object code does, the gate 0x82 that it opens to user code included.

  \<^bold>\<open>Not modelled.\<close> The binary libraries \<open>libzeos.a\<close>, \<open>libauxjp.a\<close>, \<open>libjp*.a\<close> (no source: exception
  handlers, the clock on the screen, the test programs, the calls behind interrupt 0x82), \<open>wrappers.S\<close> and \<open>user.c\<close> (user
  code is arbitrary stores and calls here), stores of user code into the frames of the kernel, the 16-bit code of the
  boot sector, the push and pop of single registers, failures of \<open>read\<close>, \<open>write\<close>, \<open>lseek\<close> and \<open>fstat\<close> in \<open>build.c\<close>. Of Bochs, a program of
  its own with 340,000 lines, everything but the parts above: of the CPU the decoder and the main loop, data and
  control transfer, shifts, strings, the forms with a memory operand (the same operations between a read and a write
  of memory), segmentation, tasks, the delivery of exceptions and interrupts, debug registers, the FPU and the vector
  units; of the memory DMA, ROM, shadow memory and the handlers of devices, which are parameters here, and the write
  stamps of the instruction cache; other devices, the BIOS, debugger, displays and tools.
\<close>

end
